(* ===== verification/Ctguard_Prelude.thy ===== *)
theory Ctguard_Prelude
  imports Main "HOL-Library.Word" "HOL-Library.Char_ord" "HOL-Library.List_Lexorder"
begin

text \<open>
  Shared vocabulary of the development: results with an exception (a sum whose left side is
  what the code throws), loops that may throw, the parts of the C and C++ string library the
  sources call (character classes of the C locale, \<open>std::string::find\<close>, \<open>substr\<close>,
  \<open>std::to_string\<close>), and the generic lemmas about them that the component theories share.
\<close>

named_theorems res_simps \<open>equations that compute with results\<close>
named_theorems str_lemmas \<open>facts about the string library\<close>

subsection \<open>Results: a thrown exception is the left side of a sum\<close>

type_synonym ('e, 'a) res = "'e + 'a"

definition rbind :: "('e, 'a) res \<Rightarrow> ('a \<Rightarrow> ('e, 'b) res) \<Rightarrow> ('e, 'b) res" where
  "rbind m f = (case m of Inl e \<Rightarrow> Inl e | Inr x \<Rightarrow> f x)"

definition map_error :: "('e \<Rightarrow> 'f) \<Rightarrow> ('e, 'a) res \<Rightarrow> ('f, 'a) res" where
  "map_error g m = (case m of Inl e \<Rightarrow> Inl (g e) | Inr x \<Rightarrow> Inr x)"

definition guard_res :: "bool \<Rightarrow> 'e \<Rightarrow> ('e, unit) res" where
  "guard_res b e = (if b then Inl e else Inr ())"

lemma rbind_simps [simp, res_simps]:
  "rbind (Inl e) f = Inl e"
  "rbind (Inr x) f = f x"
  by (simp_all add: rbind_def)

lemma rbind_Inr_iff: "rbind m f = Inr y \<longleftrightarrow> (\<exists>x. m = Inr x \<and> f x = Inr y)"
  by (cases m) auto

lemma rbind_InrE [elim]:
  assumes "rbind m f = Inr y"
  obtains x where "m = Inr x" and "f x = Inr y"
  using assms by (auto simp: rbind_Inr_iff)

lemma rbind_cong [fundef_cong]:
  assumes "m = m'" and "\<And>x. m' = Inr x \<Longrightarrow> f x = g x"
  shows "rbind m f = rbind m' g"
  using assms by (cases m') auto

lemma map_error_simps [simp, res_simps]:
  "map_error g (Inl e) = Inl (g e)"
  "map_error g (Inr x) = Inr x"
  by (simp_all add: map_error_def)

lemma map_error_Inr_iff [simp]: "map_error g m = Inr x \<longleftrightarrow> m = Inr x"
  by (cases m) auto

lemma guard_res_simps [simp, res_simps]:
  "guard_res True e = Inl e"
  "guard_res False e = Inr ()"
  by (simp_all add: guard_res_def)

lemma guard_res_Inr_iff [simp]: "guard_res b e = Inr u \<longleftrightarrow> \<not> b"
  by (simp add: guard_res_def)

text \<open>A range-for loop whose body may throw: it stops at the first exception.\<close>

fun fold_res :: "('a \<Rightarrow> 's \<Rightarrow> ('e, 's) res) \<Rightarrow> 'a list \<Rightarrow> 's \<Rightarrow> ('e, 's) res" where
  "fold_res f [] s = Inr s"
| "fold_res f (x # xs) s = rbind (f x s) (fold_res f xs)"

lemma fold_res_append:
  "fold_res f (xs @ ys) s = rbind (fold_res f xs s) (fold_res f ys)"
proof (induction xs arbitrary: s)
  case Nil
  show ?case by simp
next
  case (Cons x xs)
  then show ?case by (cases "f x s") auto
qed

lemma fold_res_invariant:
  assumes "fold_res f xs s = Inr s'" and "P s"
    and "\<And>x s t. x \<in> set xs \<Longrightarrow> P s \<Longrightarrow> f x s = Inr t \<Longrightarrow> P t"
  shows "P s'"
  using assms
proof (induction xs arbitrary: s)
  case Nil
  then show ?case by simp
next
  case (Cons x xs)
  from Cons.prems(1) obtain t where t: "f x s = Inr t" "fold_res f xs t = Inr s'"
    by (auto simp: rbind_Inr_iff)
  have "P t" using Cons.prems(2,3) t(1) by auto
  then show ?case using Cons.IH [OF t(2)] Cons.prems(3) by auto
qed

lemma fold_res_cong [fundef_cong]:
  assumes "xs = ys" and "s = t" and "\<And>x u. x \<in> set ys \<Longrightarrow> f x u = g x u"
  shows "fold_res f xs s = fold_res g ys t"
  using assms
proof (induction ys arbitrary: xs s t)
  case Nil
  then show ?case by simp
next
  case (Cons y ys)
  then show ?case by (cases "g y t") auto
qed

subsection \<open>Character classes (C locale)\<close>

definition char_code :: "char \<Rightarrow> nat" where
  "char_code c = of_char c"

definition isspace :: "char \<Rightarrow> bool" where
  "isspace c = (char_code c = 32 \<or> (9 \<le> char_code c \<and> char_code c \<le> 13))"

definition isdigit :: "char \<Rightarrow> bool" where
  "isdigit c = (48 \<le> char_code c \<and> char_code c \<le> 57)"

definition isalpha :: "char \<Rightarrow> bool" where
  "isalpha c = ((65 \<le> char_code c \<and> char_code c \<le> 90) \<or> (97 \<le> char_code c \<and> char_code c \<le> 122))"

definition isalnum :: "char \<Rightarrow> bool" where
  "isalnum c = (isalpha c \<or> isdigit c)"

definition isprint :: "char \<Rightarrow> bool" where
  "isprint c = (32 \<le> char_code c \<and> char_code c \<le> 126)"

lemmas ctype_defs = isspace_def isdigit_def isalpha_def isalnum_def isprint_def char_code_def

lemma char_code_bound: "char_code c < 256"
  using of_char_eq_iff [where 'a = nat] by (simp add: char_code_def)

lemma char_code_inj [simp]: "char_code c = char_code d \<longleftrightarrow> c = d"
  by (simp add: char_code_def)

lemma isdigit_not_isspace [simp, str_lemmas]: "isdigit c \<Longrightarrow> \<not> isspace c"
  by (simp add: ctype_defs)

lemma isalnum_isprint [str_lemmas]: "isalnum c \<Longrightarrow> isprint c"
  by (auto simp: ctype_defs)

lemma isalnum_not_isspace [str_lemmas]: "isalnum c \<Longrightarrow> \<not> isspace c"
  by (auto simp: ctype_defs)

subsection \<open>std::to_string of an unsigned value\<close>

definition digit_char :: "nat \<Rightarrow> char" where
  "digit_char d = char_of (48 + d)"

definition digit_value :: "char \<Rightarrow> nat" where
  "digit_value c = char_code c - 48"

fun nat_to_string :: "nat \<Rightarrow> string" where
  "nat_to_string n = (if n < 10 then [digit_char n] else nat_to_string (n div 10) @ [digit_char (n mod 10)])"

declare nat_to_string.simps [simp del]

lemma digit_char_code: "d < 10 \<Longrightarrow> char_code (digit_char d) = 48 + d"
  by (simp add: digit_char_def char_code_def)

lemma isdigit_digit_char [simp]: "d < 10 \<Longrightarrow> isdigit (digit_char d)"
  by (simp add: isdigit_def digit_char_code)

lemma digit_value_digit_char [simp]: "d < 10 \<Longrightarrow> digit_value (digit_char d) = d"
  by (simp add: digit_value_def digit_char_code)

lemma nat_to_string_digits: "c \<in> set (nat_to_string n) \<Longrightarrow> isdigit c"
proof (induction n rule: nat_to_string.induct)
  case (1 n)
  then show ?case
    by (cases "n < 10") (auto simp: nat_to_string.simps [of n])
qed

lemma nat_to_string_nonempty [simp]: "nat_to_string n \<noteq> []"
  by (subst nat_to_string.simps) simp

text \<open>The value a digit string denotes, most significant digit first.\<close>

fun digits_value :: "nat \<Rightarrow> string \<Rightarrow> nat" where
  "digits_value acc [] = acc"
| "digits_value acc (c # cs) = digits_value (10 * acc + digit_value c) cs"

lemma digits_value_append:
  "digits_value acc (xs @ ys) = digits_value (digits_value acc xs) ys"
  by (induction xs arbitrary: acc) auto

lemma digits_value_nat_to_string [simp]: "digits_value 0 (nat_to_string n) = n"
proof (induction n rule: nat_to_string.induct)
  case (1 n)
  show ?case
  proof (cases "n < 10")
    case True
    then show ?thesis by (simp add: nat_to_string.simps [of n])
  next
    case False
    with 1 show ?thesis
      by (simp add: nat_to_string.simps [of n] digits_value_append)
  qed
qed

text \<open>Signed values.\<close>

definition int_to_string :: "int \<Rightarrow> string" where
  "int_to_string i = (if i < 0 then ''-'' @ nat_to_string (nat (- i)) else nat_to_string (nat i))"

subsection \<open>std::string::find and substr\<close>

text \<open>\<open>str_find d k s\<close> is \<open>s.find(d, k)\<close>: the first position at or after \<open>k\<close>, or npos.\<close>

fun index_of :: "char \<Rightarrow> string \<Rightarrow> nat option" where
  "index_of d [] = None"
| "index_of d (c # cs) = (if c = d then Some 0 else map_option Suc (index_of d cs))"

definition str_find :: "char \<Rightarrow> nat \<Rightarrow> string \<Rightarrow> nat option" where
  "str_find d k s = map_option (\<lambda>i. k + i) (index_of d (drop k s))"

text \<open>\<open>s.substr(pos, len)\<close> throws \<open>std::out_of_range\<close> when \<open>pos > s.size()\<close>; the model is total,
  and callers test the position where it can be out of range.\<close>

definition substr :: "string \<Rightarrow> nat \<Rightarrow> nat option \<Rightarrow> string" where
  "substr s pos n = (case n of None \<Rightarrow> drop pos s | Some k \<Rightarrow> take k (drop pos s))"

lemma index_of_None_iff: "index_of d s = None \<longleftrightarrow> d \<notin> set s"
  by (induction s) auto

lemma index_of_Some:
  "index_of d s = Some i \<Longrightarrow> i < length s \<and> s ! i = d \<and> d \<notin> set (take i s)"
proof (induction s arbitrary: i)
  case Nil
  then show ?case by simp
next
  case (Cons c cs)
  then show ?case by (cases "c = d") auto
qed

lemma index_of_append:
  "d \<notin> set xs \<Longrightarrow> index_of d (xs @ d # ys) = Some (length xs)"
  by (induction xs) auto

lemma str_find_bounds:
  assumes "str_find d k s = Some i"
  shows "k \<le> i" and "i < length s" and "s ! i = d"
proof -
  from assms obtain j where j: "index_of d (drop k s) = Some j" "i = k + j"
    by (auto simp: str_find_def)
  from index_of_Some [OF j(1)] have b: "j < length (drop k s)" "drop k s ! j = d" by auto
  show "k \<le> i" using j by simp
  show "i < length s" using b j by simp
  show "s ! i = d" using b j by (simp add: nth_drop)
qed

text \<open>The contents of a char buffer up to the terminating zero.\<close>

definition c_str :: "string \<Rightarrow> string" where
  "c_str buffer = takeWhile (\<lambda>c. c \<noteq> CHR 0x00) buffer"

text \<open>Quotes in messages.\<close>

definition quote :: "string \<Rightarrow> string" where
  "quote s = CHR 0x27 # s @ [CHR 0x27]"

subsection \<open>Splitting at a delimiter\<close>

text \<open>
  The loop \<open>current = s.find(d); previous = 0; while (current != npos) { push(s.substr(previous,
  current - previous)); previous = current + 1; current = s.find(d, previous); }
  push(s.substr(previous));\<close> appears in the rule loader and in the diff code.
\<close>

function split_from :: "char \<Rightarrow> string \<Rightarrow> nat \<Rightarrow> string list" where
  "split_from d s previous =
     (case str_find d previous s of
        Some current \<Rightarrow> substr s previous (Some (current - previous)) # split_from d s (current + 1)
      | None \<Rightarrow> [substr s previous None])"
  by pat_completeness auto
termination
proof (relation "measure (\<lambda>(d, s, p). length s - p)")
  fix d s p i
  assume "str_find d p s = Some i"
  from str_find_bounds(1,2) [OF this]
  show "((d, s, i + 1), (d, s, p)) \<in> measure (\<lambda>(d, s, p). length s - p)" by simp
qed simp

declare split_from.simps [simp del]

definition split_string :: "string \<Rightarrow> char \<Rightarrow> string list" where
  "split_string s d = split_from d s 0"

text \<open>The specification: cut at every delimiter.\<close>

fun cut_at :: "char \<Rightarrow> string \<Rightarrow> string list" where
  "cut_at d [] = [[]]"
| "cut_at d (c # cs) =
     (if c = d then [] # cut_at d cs
      else (case cut_at d cs of [] \<Rightarrow> [[c]] | p # ps \<Rightarrow> (c # p) # ps))"

lemma cut_at_nonempty [simp]: "cut_at d s \<noteq> []"
  by (cases s) (auto split: list.splits)

lemma cut_at_prefix:
  "d \<notin> set xs \<Longrightarrow> cut_at d (xs @ d # ys) = xs # cut_at d ys"
  by (induction xs) auto

lemma cut_at_none: "d \<notin> set s \<Longrightarrow> cut_at d s = [s]"
  by (induction s) auto

lemma split_from_cut_at: "split_from d s p = cut_at d (drop p s)"
proof (induction d s p rule: split_from.induct)
  case (1 d s p)
  show ?case
  proof (cases "str_find d p s")
    case None
    then have "d \<notin> set (drop p s)" by (auto simp: str_find_def index_of_None_iff)
    with None show ?thesis
      by (simp add: split_from.simps [of d s p] substr_def cut_at_none)
  next
    case (Some i)
    then obtain j where j: "index_of d (drop p s) = Some j" "i = p + j"
      by (auto simp: str_find_def)
    from index_of_Some [OF j(1)]
    have b: "j < length (drop p s)" "drop p s ! j = d" "d \<notin> set (take j (drop p s))" by auto
    have "drop p s = take j (drop p s) @ d # drop (Suc j) (drop p s)"
      using b by (metis id_take_nth_drop)
    then have e: "cut_at d (drop p s) = take j (drop p s) # cut_at d (drop (Suc j) (drop p s))"
      using cut_at_prefix [OF b(3)] by metis
    have "drop (i + 1) s = drop (Suc j) (drop p s)" using j by (simp add: add.commute)
    with Some e j 1 show ?thesis
      by (simp add: split_from.simps [of d s p] substr_def)
  qed
qed

lemma split_string_cut_at [str_lemmas]: "split_string s d = cut_at d s"
  by (simp add: split_string_def split_from_cut_at)

text \<open>Joining the pieces with the delimiter gives the string back, and no piece holds it.\<close>

fun join_with :: "char \<Rightarrow> string list \<Rightarrow> string" where
  "join_with d [] = []"
| "join_with d [p] = p"
| "join_with d (p # q # ps) = p @ d # join_with d (q # ps)"

lemma join_with_Cons: "ps \<noteq> [] \<Longrightarrow> join_with d (p # ps) = p @ d # join_with d ps"
  by (cases ps) auto

lemma join_cut_at: "join_with d (cut_at d s) = s"
proof (induction s)
  case Nil
  show ?case by simp
next
  case (Cons c cs)
  obtain p ps where p: "cut_at d cs = p # ps" by (cases "cut_at d cs") auto
  show ?case
  proof (cases "c = d")
    case True
    with Cons show ?thesis by (simp add: join_with_Cons)
  next
    case False
    with Cons p show ?thesis by (cases ps) auto
  qed
qed

lemma cut_at_pieces: "p \<in> set (cut_at d s) \<Longrightarrow> d \<notin> set p"
  by (induction s arbitrary: p) (fastforce split: list.splits if_splits)+

subsection \<open>Lines\<close>

definition newline :: char where "newline = CHR 0x0A"

text \<open>The non-empty lines, in order; a text is complete when it ends with a newline.\<close>

definition text_lines :: "string \<Rightarrow> string list" where
  "text_lines s = filter (\<lambda>l. l \<noteq> []) (cut_at newline s)"

definition complete :: "string \<Rightarrow> bool" where
  "complete s = (s = [] \<or> last s = newline)"

lemma text_lines_Nil [simp]: "text_lines [] = []"
  by (simp add: text_lines_def)

lemma text_lines_newline: "newline \<notin> set l \<Longrightarrow> text_lines (l @ newline # s) = (if l = [] then text_lines s else l # text_lines s)"
  by (simp add: text_lines_def cut_at_prefix)

lemma text_lines_plain: "newline \<notin> set l \<Longrightarrow> text_lines l = (if l = [] then [] else [l])"
  by (simp add: text_lines_def cut_at_none)

lemma cut_at_append_newline: "cut_at newline (a @ newline # b) = cut_at newline a @ cut_at newline b"
proof (induction a)
  case (Cons c a)
  then show ?case by (cases "cut_at newline a") (auto simp: neq_Nil_conv split: list.splits)
qed simp

lemma text_lines_append: "complete a \<Longrightarrow> text_lines (a @ b) = text_lines a @ text_lines b"
proof (cases a rule: rev_cases)
  case (snoc a' c)
  moreover assume "complete a"
  ultimately have "a = a' @ [newline]" by (simp add: complete_def)
  then show ?thesis
    using cut_at_append_newline [of a' b] cut_at_append_newline [of a' "[]"] by (simp add: text_lines_def)
qed simp

text \<open>\<open>std::setw\<close>, padding on the left.\<close>

definition setw :: "nat \<Rightarrow> string \<Rightarrow> string" where
  "setw n s = replicate (n - length s) CHR '' '' @ s"

end
