(* ===== verification/Std_Containers.thy ===== *)
theory Std_Containers
  imports Ctguard_Prelude
begin

text \<open>
  The ordered containers of the C++ library as the sources use them. A \<open>std::map\<close> is an
  association list kept strictly sorted by key, so that a range-for over it visits the entries in
  the library's order; \<open>m[k] = v\<close> is \<open>smap_put\<close>, \<open>m.insert\<close> and
  \<open>m.emplace\<close> are \<open>smap_insert\<close> (an existing entry stays), \<open>m.find\<close> is the
  library's \<open>map_of\<close>. A \<open>std::multimap\<close> is a list sorted by key in which a new entry
  goes behind the entries of equal key (C++11). A \<open>std::set\<close> is a sorted list without
  repetition (\<open>insort_insert\<close>).
\<close>

type_synonym ('k, 'v) smap = "('k \<times> 'v) list"

named_theorems container_laws \<open>look-up laws of the containers\<close>

subsection \<open>std::map\<close>

fun smap_put :: "'k::linorder \<Rightarrow> 'v \<Rightarrow> ('k, 'v) smap \<Rightarrow> ('k, 'v) smap" where
  "smap_put k v [] = [(k, v)]"
| "smap_put k v ((k', v') # m) =
     (if k < k' then (k, v) # (k', v') # m
      else if k = k' then (k, v) # m
      else (k', v') # smap_put k v m)"

definition smap_insert :: "'k::linorder \<Rightarrow> 'v \<Rightarrow> ('k, 'v) smap \<Rightarrow> ('k, 'v) smap" where
  "smap_insert k v m = (case map_of m k of None \<Rightarrow> smap_put k v m | Some _ \<Rightarrow> m)"

definition smap_erase :: "'k \<Rightarrow> ('k, 'v) smap \<Rightarrow> ('k, 'v) smap" where
  "smap_erase k m = filter (\<lambda>p. fst p \<noteq> k) m"

definition smap_wf :: "('k::linorder, 'v) smap \<Rightarrow> bool" where
  "smap_wf m = sorted_wrt (<) (map fst m)"

lemma smap_put_keys: "fst ` set (smap_put k v m) = insert k (fst ` set m)"
  by (induction k v m rule: smap_put.induct) auto

lemma smap_put_set: "set (smap_put k v m) \<subseteq> insert (k, v) (set m)"
  by (induction k v m rule: smap_put.induct) auto

lemma smap_wf_Nil [simp]: "smap_wf []"
  by (simp add: smap_wf_def)

lemma smap_wf_Cons:
  "smap_wf ((k, v) # m) \<longleftrightarrow> (\<forall>k' \<in> fst ` set m. k < k') \<and> smap_wf m"
  by (auto simp: smap_wf_def)

lemma smap_put_wf [simp, intro]: "smap_wf m \<Longrightarrow> smap_wf (smap_put k v m)"
proof (induction k v m rule: smap_put.induct)
  case (1 k v)
  then show ?case by (simp add: smap_wf_Cons)
next
  case (2 k v k' v' m)
  consider "k < k'" | "k = k'" | "k' < k" by force
  then show ?case
  proof cases
    case 1
    with 2 show ?thesis by (force simp: smap_wf_Cons)
  next
    case 2
    with "2.prems" show ?thesis by (simp add: smap_wf_Cons)
  next
    case 3
    have "smap_wf (smap_put k v m)" using 3 2 by (auto simp: smap_wf_Cons)
    then show ?thesis using 3 "2.prems" by (auto simp: smap_wf_Cons smap_put_keys)
  qed
qed

lemma map_of_smap_put [container_laws, simp]:
  "smap_wf m \<Longrightarrow> map_of (smap_put k v m) = (map_of m)(k \<mapsto> v)"
proof (induction k v m rule: smap_put.induct)
  case (1 k v)
  then show ?case by auto
next
  case (2 k v k' v' m)
  then show ?case
    by (cases "k < k'"; cases "k = k'") (auto simp: smap_wf_Cons fun_eq_iff)
qed

lemma smap_insert_wf [simp, intro]: "smap_wf m \<Longrightarrow> smap_wf (smap_insert k v m)"
  by (auto simp: smap_insert_def split: option.splits)

lemma map_of_smap_insert [container_laws]:
  "smap_wf m \<Longrightarrow>
   map_of (smap_insert k v m) = (if map_of m k = None then (map_of m)(k \<mapsto> v) else map_of m)"
  by (auto simp: smap_insert_def split: option.splits)

lemma map_of_smap_erase [container_laws, simp]: "map_of (smap_erase k m) = (map_of m)(k := None)"
  by (induction m) (auto simp: smap_erase_def fun_eq_iff)

lemma smap_erase_wf [simp, intro]: "smap_wf m \<Longrightarrow> smap_wf (smap_erase k m)"
  by (induction m) (auto simp: smap_erase_def smap_wf_Cons)

lemma smap_wf_distinct: "smap_wf m \<Longrightarrow> distinct (map fst m)"
  by (simp add: smap_wf_def strict_sorted_iff)

lemma smap_put_nonempty [simp]: "smap_put k v m \<noteq> []"
  by (cases "(k, v, m)" rule: smap_put.cases) auto

lemma smap_put_idem:
  "smap_wf m \<Longrightarrow> smap_put k v (smap_put k w m) = smap_put k v m"
  by (induction k v m rule: smap_put.induct) (auto simp: smap_wf_Cons)

text \<open>Two well-formed maps with the same look-ups are the same list: iteration is determined.\<close>

lemma smap_wf_ext:
  assumes "smap_wf m" and "smap_wf m'" and "map_of m = map_of m'"
  shows "m = m'"
proof -
  have d: "distinct (map fst m)" "distinct (map fst m')"
    using assms by (auto intro: smap_wf_distinct)
  have s: "sorted (map fst m)" "sorted (map fst m')"
    using assms(1,2) by (auto simp: smap_wf_def strict_sorted_iff)
  have "set m = set m'"
    using assms(3) d map_of_inject_set by blast
  moreover have "distinct m" "distinct m'" using d by (auto simp: distinct_map)
  ultimately show ?thesis using s d map_sorted_distinct_set_unique [of fst m m']
    by (auto simp: distinct_map)
qed

subsection \<open>std::multimap\<close>

fun mm_emplace :: "'k::linorder \<Rightarrow> 'v \<Rightarrow> ('k \<times> 'v) list \<Rightarrow> ('k \<times> 'v) list" where
  "mm_emplace k v [] = [(k, v)]"
| "mm_emplace k v ((k', v') # m) =
     (if k < k' then (k, v) # (k', v') # m else (k', v') # mm_emplace k v m)"

definition mm_wf :: "('k::linorder \<times> 'v) list \<Rightarrow> bool" where
  "mm_wf m = sorted (map fst m)"

lemma mm_emplace_set [simp]: "set (mm_emplace k v m) = insert (k, v) (set m)"
  by (induction k v m rule: mm_emplace.induct) auto

lemma mm_emplace_length [simp]: "length (mm_emplace k v m) = Suc (length m)"
  by (induction k v m rule: mm_emplace.induct) auto

lemma mm_emplace_wf [simp, intro]: "mm_wf m \<Longrightarrow> mm_wf (mm_emplace k v m)"
  by (induction k v m rule: mm_emplace.induct) (auto simp: mm_wf_def)

lemma mm_filter_wf [simp, intro]: "mm_wf m \<Longrightarrow> mm_wf (filter P m)"
  by (simp add: mm_wf_def sorted_filter)

lemma mm_emplace_last:
  assumes "mm_wf m" and "\<And>t. t \<in> fst ` set m \<Longrightarrow> t \<le> k"
  shows "mm_emplace k v m = m @ [(k, v)]"
  using assms by (induction k v m rule: mm_emplace.induct) (fastforce simp: mm_wf_def)+

text \<open>\<open>while (!m.empty() \<and> old(m.begin())) m.erase(m.begin());\<close> on a sorted multimap removes
  exactly the entries whose key is below the bound.\<close>

lemma dropWhile_sorted_filter:
  assumes "mm_wf m"
  shows "dropWhile (\<lambda>p. fst p < b) m = filter (\<lambda>p. b \<le> fst p) m"
  using assms
proof (induction m)
  case Nil
  then show ?case by simp
next
  case (Cons p m)
  show ?case
  proof (cases "fst p < b")
    case True
    with Cons show ?thesis by (simp add: mm_wf_def)
  next
    case False
    with Cons.prems have "\<forall>q \<in> set m. b \<le> fst q"
      by (fastforce simp: mm_wf_def)
    then have "filter (\<lambda>p. b \<le> fst p) m = m" by simp
    with False show ?thesis by simp
  qed
qed

end
