(* ===== verification/Parse_Helper.thy ===== *)
theory Parse_Helper
  imports Std_Containers
begin

text \<open>
  src/src/libs/parsehelper.hpp, and the private \<open>parse_integral\<close> / \<open>parse_bool\<close> of
  src/src/research/rule.cpp: conversions of configuration and rule texts to booleans, bounded
  unsigned integers and durations. \<open>std::stoul\<close> is modelled as the library documents it
  (leading white space, an optional sign, a digit sequence; a minus sign negates modulo
  \<open>2 ^ 64\<close>), because what the code accepts depends on it.
\<close>

subsection \<open>std::stoul\<close>

datatype stoul_error = Invalid_argument | Out_of_range

fun skip_spaces :: "string \<Rightarrow> string" where
  "skip_spaces [] = []"
| "skip_spaces (c # cs) = (if isspace c then skip_spaces cs else c # cs)"

definition read_sign :: "string \<Rightarrow> bool \<times> string" where
  "read_sign s = (case s of
      c # cs \<Rightarrow> (if c = CHR ''-'' then (True, cs) else if c = CHR ''+'' then (False, cs) else (False, s))
    | [] \<Rightarrow> (False, []))"

definition ulong_max :: nat where
  "ulong_max = 2 ^ 64 - 1"

text \<open>The value and the number of characters consumed (\<open>*pos\<close>).\<close>

definition stoul :: "string \<Rightarrow> (stoul_error, 64 word \<times> nat) res" where
  "stoul s =
     (let rest = skip_spaces s;
          (neg, body) = read_sign rest;
          digits = takeWhile isdigit body;
          v = digits_value 0 digits
      in if digits = [] then Inl Invalid_argument
         else if ulong_max < v then Inl Out_of_range
         else Inr (if neg then - of_nat v else of_nat v, length s - length (dropWhile isdigit body)))"

subsection \<open>libs::parse_bool, libs::parse_integral, libs::parse_second_duration\<close>

datatype parse_error =
    Invalid_bool
  | Parse_error stoul_error
  | Incomplete_parse nat nat
  | Value_out_of_range nat
  | Bad_duration_arity nat
  | Unknown_timeunit string

definition parse_bool :: "string \<Rightarrow> (parse_error, bool) res" where
  "parse_bool v =
     (if v = ''true'' \<or> v = ''TRUE'' then Inr True
      else if v = ''false'' \<or> v = ''FALSE'' then Inr False
      else Inl Invalid_bool)"

text \<open>\<open>parse_integral<T>\<close>: the template parameter is the word type of the result.\<close>

definition parse_integral :: "string \<Rightarrow> (parse_error, 'w::len word) res" where
  "parse_integral content =
     rbind (map_error Parse_error (stoul content)) (\<lambda>(result_orig, pos).
       if pos \<noteq> length content then Inl (Incomplete_parse pos (length content))
       else if unat (- 1 :: 'w word) < unat result_orig then Inl (Value_out_of_range (unat (- 1 :: 'w word)))
       else Inr (ucast result_orig))"

definition parse_second_duration :: "string list \<Rightarrow> (parse_error, 32 word) res" where
  "parse_second_duration options =
     (case options of
        [o0] \<Rightarrow> parse_integral o0
      | [o0, o1] \<Rightarrow>
          rbind (parse_integral o0) (\<lambda>number.
            if o1 = ''s'' then Inr number
            else if o1 = ''m'' then Inr (number * 60)
            else if o1 = ''h'' then Inr (number * 60 * 60)
            else Inl (Unknown_timeunit o1))
      | _ \<Rightarrow> Inl (Bad_duration_arity (length options)))"

subsection \<open>The rule loader's own variants\<close>

datatype rule_parse_error =
    Rule_stoul string string stoul_error
  | Rule_no_full_parse string string
  | Rule_value_too_big string string
  | Rule_invalid_bool string string

definition rule_parse_integral :: "string \<Rightarrow> string \<Rightarrow> (rule_parse_error, 'w::len word) res" where
  "rule_parse_integral name content =
     rbind (map_error (Rule_stoul name content) (stoul content)) (\<lambda>(result_orig, pos).
       if pos \<noteq> length content then Inl (Rule_no_full_parse name content)
       else if unat (- 1 :: 'w word) < unat result_orig then Inl (Rule_value_too_big name content)
       else Inr (ucast result_orig))"

definition rule_parse_bool :: "string \<Rightarrow> string \<Rightarrow> (rule_parse_error, bool) res" where
  "rule_parse_bool name content =
     (if content = ''true'' \<or> content = ''TRUE'' \<or> content = ''True'' then Inr True
      else if content = ''false'' \<or> content = ''FALSE'' \<or> content = ''False'' then Inr False
      else Inl (Rule_invalid_bool name content))"

subsection \<open>Facts\<close>

lemma skip_spaces_eq: "skip_spaces s = dropWhile isspace s"
  by (induction s) auto

lemma skip_spaces_digit: "s \<noteq> [] \<Longrightarrow> isdigit (hd s) \<Longrightarrow> skip_spaces s = s"
  by (cases s) auto

lemma read_sign_digit: "s \<noteq> [] \<Longrightarrow> isdigit (hd s) \<Longrightarrow> read_sign s = (False, s)"
  by (cases s) (auto simp: read_sign_def isdigit_def char_code_def)

lemma hd_nat_to_string_digit: "isdigit (hd (nat_to_string n))"
  using nat_to_string_nonempty by (rule nat_to_string_digits [OF hd_in_set])

lemma takeWhile_all: "(\<And>c. c \<in> set s \<Longrightarrow> P c) \<Longrightarrow> takeWhile P s = s"
  by (induction s) auto

lemma takeWhile_nat_to_string [simp]: "takeWhile isdigit (nat_to_string n) = nat_to_string n"
  by (rule takeWhile_all) (rule nat_to_string_digits)

lemma dropWhile_nat_to_string [simp]: "dropWhile isdigit (nat_to_string n) = []"
  by (simp add: dropWhile_eq_Nil_conv nat_to_string_digits)

lemma stoul_to_string:
  assumes "n \<le> ulong_max"
  shows "stoul (nat_to_string n) = Inr (of_nat n, length (nat_to_string n))"
  using assms hd_nat_to_string_digit [of n]
  by (simp add: stoul_def Let_def skip_spaces_digit read_sign_digit)

lemma word_max_unat: "unat (- 1 :: 'w::len word) = 2 ^ LENGTH('w) - 1"
  by (simp add: unsigned_minus_1_eq_mask mask_eq_exp_minus_1)

lemma parse_integral_to_string:
  assumes "LENGTH('w::len) \<le> 64"
  shows "parse_integral (nat_to_string (unat (w :: 'w word))) = Inr w"
proof -
  have b: "unat w < 2 ^ LENGTH('w)" by (rule unsigned_less)
  have "(2::nat) ^ LENGTH('w) \<le> 2 ^ 64" by (rule power_increasing) (use assms in auto)
  with b have w64: "unat w < 2 ^ 64" by linarith
  then have m: "unat w \<le> ulong_max" by (simp add: ulong_max_def)
  have u: "unat (of_nat (unat w) :: 64 word) = unat w"
    using w64 by (simp only: unsigned_of_nat) (simp add: take_bit_nat_eq_self)
  have "ucast (of_nat (unat w) :: 64 word) = (of_nat (unat (of_nat (unat w) :: 64 word)) :: 'w word)"
    by (rule of_nat_unat [symmetric])
  also have "\<dots> = w" by (subst u) simp
  finally have c: "ucast (of_nat (unat w) :: 64 word) = w" .
  have "stoul (nat_to_string (unat w)) = Inr (ucast w, length (nat_to_string (unat w)))"
    using stoul_to_string [OF m] by simp
  moreover have "unat (ucast w :: 64 word) = unat w" "ucast (ucast w :: 64 word) = w"
    using u c by simp_all
  moreover have "\<not> 2 ^ LENGTH('w) - Suc 0 < unat w" using b by linarith
  ultimately show ?thesis
    by (simp add: parse_integral_def word_max_unat)
qed

text \<open>What a successful parse says about the text: an optional sign and digits, no rest, in range.\<close>

lemma parse_integral_Inr_shape:
  assumes "parse_integral s = Inr (w :: 'w::len word)"
  obtains ws neg body where "s = ws @ (if neg then ''-'' else []) @ body \<or> s = ws @ ''+'' @ body \<and> \<not> neg"
    and "\<forall>c \<in> set ws. isspace c" and "body \<noteq> []" and "\<forall>c \<in> set body. isdigit c"
    and "digits_value 0 body \<le> ulong_max"
    and "w = ucast (if neg then - of_nat (digits_value 0 body) else of_nat (digits_value 0 body) :: 64 word)"
proof -
  define ws where "ws = takeWhile isspace s"
  define rest where "rest = skip_spaces s"
  obtain neg body0 where sg: "read_sign rest = (neg, body0)" by (cases "read_sign rest") auto
  define digits where "digits = takeWhile isdigit body0"
  have s: "s = ws @ rest" by (simp add: ws_def rest_def skip_spaces_eq)
  have wsp: "\<forall>c \<in> set ws. isspace c" by (auto simp: ws_def dest: set_takeWhileD)
  have rest: "rest = (if neg then ''-'' else []) @ body0 \<or> rest = ''+'' @ body0 \<and> \<not> neg"
    using sg by (auto simp: read_sign_def split: list.splits if_splits)
  from assms sg have
    nz: "digits \<noteq> []" and ub: "digits_value 0 digits \<le> ulong_max"
    and pos: "length s - length (dropWhile isdigit body0) = length s"
    and w: "w = ucast (if neg then - of_nat (digits_value 0 digits) else of_nat (digits_value 0 digits) :: 64 word)"
    by (auto simp: parse_integral_def stoul_def rbind_Inr_iff Let_def rest_def [symmetric] digits_def [symmetric]
        split: if_splits)
  have le: "length body0 \<le> length s" using rest s by auto
  have "dropWhile isdigit body0 = []"
  proof (rule ccontr)
    assume "dropWhile isdigit body0 \<noteq> []"
    then have "0 < length (dropWhile isdigit body0)" by simp
    moreover have "0 < length s" using nz le by (auto simp: digits_def)
    ultimately show False using pos by linarith
  qed
  then have d: "digits = body0" by (simp add: digits_def dropWhile_eq_Nil_conv takeWhile_all)
  have "\<forall>c \<in> set body0. isdigit c"
    using \<open>dropWhile isdigit body0 = []\<close> by (simp add: dropWhile_eq_Nil_conv)
  then show ?thesis
    using that [of ws neg body0] s rest wsp nz ub w d by auto
qed

lemma parse_second_duration_nonempty [simp]: "parse_second_duration [] = Inl (Bad_duration_arity 0)"
  by (simp add: parse_second_duration_def)

lemma parse_second_duration_Inr_length:
  "parse_second_duration os = Inr w \<Longrightarrow> length os = 1 \<or> length os = 2"
  by (auto simp: parse_second_duration_def split: list.splits)

subsection \<open>Properties\<close>

text \<open>every value of an unsigned type of at most 64 bits, printed by \<open>std::to_string\<close>, is read
  back by \<open>parse_integral\<close> at that type, with the whole text consumed.\<close>

theorem parse_integral_roundtrip:
  fixes w :: "'w::len word"
  assumes "LENGTH('w) \<le> 64"
  shows "parse_integral (nat_to_string (unat w)) = Inr w"
  using assms by (rule parse_integral_to_string)

theorem parse_integral_roundtrip_witness:
  "parse_integral (nat_to_string (unat (65535 :: 16 word))) = Inr (65535 :: 16 word)"
  by (rule parse_integral_roundtrip) simp

end
