(* ===== verification/Config_Lexer.thy ===== *)
theory Config_Lexer
  imports Parse_Helper
begin

text \<open>
  src/src/libs/config/position.cpp, token.cpp and lexer.cpp: source positions, tokens and the
  lexer of the daemon configuration files. The input stream is the list of bytes not yet read;
  \<open>m_input.get()\<close> at the end returns EOF, which \<open>mygetchar\<close> casts to \<open>char\<close>, so the lexer
  compares characters with the byte 0xFF (\<open>char\<close> is signed on the supported platforms).
\<close>

subsection \<open>position\<close>

datatype position = Position (line_number: "32 word") (line_indent: "32 word")

definition char_advance :: "position \<Rightarrow> position" where
  "char_advance p = Position (line_number p) (line_indent p + 1)"

definition line_break :: "position \<Rightarrow> position" where
  "line_break p = Position (line_number p + 1) 0"

definition position_to_string :: "position \<Rightarrow> string" where
  "position_to_string p =
     nat_to_string (unat (line_number p)) @ '':'' @ nat_to_string (unat (line_indent p))"

definition position_less :: "position \<Rightarrow> position \<Rightarrow> bool" where
  "position_less p q =
     (if line_number p = line_number q then line_indent p < line_indent q
      else line_number p < line_number q)"

instantiation position :: linorder
begin

definition less_position :: "position \<Rightarrow> position \<Rightarrow> bool" where
  "less_position p q = position_less p q"

definition less_eq_position :: "position \<Rightarrow> position \<Rightarrow> bool" where
  "less_eq_position p q = (p = q \<or> p < q)"

instance
proof
  fix p q r :: position
  show "p < q \<longleftrightarrow> p \<le> q \<and> \<not> q \<le> p"
    by (cases p; cases q) (auto simp: less_position_def position_less_def less_eq_position_def)
  show "p \<le> p" by (simp add: less_eq_position_def)
  show "p \<le> q \<Longrightarrow> q \<le> r \<Longrightarrow> p \<le> r"
    by (cases p; cases q; cases r) (auto simp: less_position_def position_less_def less_eq_position_def split: if_splits)
  show "p \<le> q \<Longrightarrow> q \<le> p \<Longrightarrow> p = q"
    by (cases p; cases q) (auto simp: less_position_def position_less_def less_eq_position_def split: if_splits)
  show "p \<le> q \<or> q \<le> p"
    by (cases p; cases q) (auto simp: less_position_def position_less_def less_eq_position_def)
qed

end

subsection \<open>token\<close>

datatype token_type = Eof_t | String_t | Identifier_t | Integer_t | Unknown_t

record token =
  t_type :: token_type
  t_position :: position
  t_content :: string

text \<open>\<open>s[i]\<close> of a \<open>std::string\<close>: the terminating NUL at \<open>i = s.size()\<close>.\<close>

definition char_at :: "string \<Rightarrow> nat \<Rightarrow> char" where
  "char_at s i = (if i < length s then s ! i else CHR 0x00)"

text \<open>\<open>token::operator==(char)\<close>: the content alone is compared, not the type.\<close>

definition token_eq_char :: "token \<Rightarrow> char \<Rightarrow> bool" where
  "token_eq_char t other = (char_at (t_content t) 0 = other \<and> char_at (t_content t) 1 = CHR 0x00)"

definition token_eq_string :: "token \<Rightarrow> string \<Rightarrow> bool" where
  "token_eq_string t other = (t_content t = other)"

subsection \<open>lexer\<close>

record lexer =
  lx_input :: string
  lx_position :: position
  lx_prev_position :: position
  lx_next_token :: token
  lx_last_char :: char

definition EOF_CHAR :: char where
  "EOF_CHAR = CHR 0xFF"

fun stream_get :: "string \<Rightarrow> char \<times> string" where
  "stream_get [] = (EOF_CHAR, [])"
| "stream_get (c # cs) = (c, cs)"

definition mygetchar :: "lexer \<Rightarrow> char \<times> lexer" where
  "mygetchar l =
     (let (ret, rest) = stream_get (lx_input l);
          l = l\<lparr>lx_input := rest\<rparr>
      in if ret = CHR 0x0A then (ret, l\<lparr>lx_position := line_break (lx_position l)\<rparr>)
         else if ret = CHR 0x0D then (ret, l)
         else (ret, l\<lparr>lx_position := char_advance (lx_position l)\<rparr>))"

text \<open>Every call of \<open>mygetchar\<close> has the form \<open>m_last_char = mygetchar()\<close>.\<close>

definition next_char :: "lexer \<Rightarrow> lexer" where
  "next_char l = (let (c, l') = mygetchar l in l'\<lparr>lx_last_char := c\<rparr>)"

text \<open>How much input is left: the bytes of the stream and the character in hand.\<close>

definition lex_weight :: "lexer \<Rightarrow> nat" where
  "lex_weight l = length (lx_input l) + (if lx_last_char l = EOF_CHAR then 0 else 1)"

lemma next_char_input [simp]:
  "lx_input (next_char l) = tl (lx_input l)"
  "lx_last_char (next_char l) = (case lx_input l of [] \<Rightarrow> EOF_CHAR | c # _ \<Rightarrow> c)"
  "lx_next_token (next_char l) = lx_next_token l"
  "lx_prev_position (next_char l) = lx_prev_position l"
  by (cases "lx_input l"; simp add: next_char_def mygetchar_def Let_def)+

lemma lex_weight_next_char:
  "lx_last_char l \<noteq> EOF_CHAR \<Longrightarrow> lex_weight (next_char l) < lex_weight l"
  by (cases "lx_input l") (auto simp: lex_weight_def)

lemma lex_weight_next_char_le: "lex_weight (next_char l) \<le> lex_weight l"
  by (cases "lx_input l") (auto simp: lex_weight_def)

lemma lex_weight_next_char_input:
  "lx_last_char (next_char l) \<noteq> EOF_CHAR \<Longrightarrow> length (lx_input (next_char l)) < length (lx_input l)"
  by (cases "lx_input l") auto

lemma EOF_CHAR_class [simp]:
  "\<not> isspace EOF_CHAR" "\<not> isalpha EOF_CHAR" "\<not> isdigit EOF_CHAR" "\<not> isalnum EOF_CHAR"
  by (simp_all add: EOF_CHAR_def ctype_defs)

lemma EOF_CHAR_neq [simp]:
  "EOF_CHAR \<noteq> CHR ''#''" "EOF_CHAR \<noteq> CHR 0x22" "EOF_CHAR \<noteq> CHR 0x27"
  "EOF_CHAR \<noteq> CHR 0x0A" "EOF_CHAR \<noteq> CHR 0x0D"
  by (simp_all add: EOF_CHAR_def)

lemmas EOF_CHAR_neq_sym [simp] = EOF_CHAR_neq [symmetric]

function skip_whitespace :: "lexer \<Rightarrow> lexer" where
  "skip_whitespace l = (if isspace (lx_last_char l) then skip_whitespace (next_char l) else l)"
  by pat_completeness auto
termination
  by (relation "measure lex_weight") (auto intro: lex_weight_next_char)

text \<open>The loop of a quoted string: whether it was closed, its content, and the lexer behind it.\<close>

function read_quoted :: "char \<Rightarrow> lexer \<Rightarrow> string \<Rightarrow> bool \<times> string \<times> lexer" where
  "read_quoted q l content =
     (let l1 = next_char l in
      if lx_last_char l1 = EOF_CHAR then (False, content, l1)
      else if lx_last_char l1 = q then (True, content, next_char l1)
      else read_quoted q l1 (content @ [lx_last_char l1]))"
  by pat_completeness auto
termination
  by (relation "measure (\<lambda>(q, l, content). length (lx_input l))")
    (auto intro!: lex_weight_next_char_input split: list.splits)

definition ident_char :: "char \<Rightarrow> bool" where
  "ident_char c = (isalnum c \<or> c = CHR ''_'' \<or> c = CHR ''.'')"

lemma EOF_CHAR_not_ident [simp]: "\<not> ident_char EOF_CHAR"
  by (simp add: ident_char_def) (simp add: EOF_CHAR_def)

function read_identifier :: "lexer \<Rightarrow> string \<Rightarrow> string \<times> lexer" where
  "read_identifier l content =
     (let l1 = next_char l in
      if ident_char (lx_last_char l1) then read_identifier l1 (content @ [lx_last_char l1])
      else (content, l1))"
  by pat_completeness auto
termination
  by (relation "measure (\<lambda>(l, content). length (lx_input l))")
    (auto intro!: lex_weight_next_char_input split: list.splits)

function read_integer :: "lexer \<Rightarrow> string \<Rightarrow> string \<times> lexer" where
  "read_integer l content =
     (let content = content @ [lx_last_char l]; l1 = next_char l in
      if isdigit (lx_last_char l1) then read_integer l1 content else (content, l1))"
  by pat_completeness auto
termination
  by (relation "measure (\<lambda>(l, content). length (lx_input l))")
    (auto intro!: lex_weight_next_char_input split: list.splits)

function skip_comment :: "lexer \<Rightarrow> lexer" where
  "skip_comment l =
     (let l1 = next_char l; c = lx_last_char l1 in
      if c \<noteq> EOF_CHAR \<and> c \<noteq> CHR 0x0A \<and> c \<noteq> CHR 0x0D then skip_comment l1 else l1)"
  by pat_completeness auto
termination
  by (relation "measure (\<lambda>l. length (lx_input l))")
    (auto intro!: lex_weight_next_char_input split: list.splits)

declare skip_whitespace.simps [simp del] read_quoted.simps [simp del]
  read_identifier.simps [simp del] read_integer.simps [simp del] skip_comment.simps [simp del]

lemma skip_whitespace_weight: "lex_weight (skip_whitespace l) \<le> lex_weight l"
proof (induction l rule: skip_whitespace.induct)
  case (1 l)
  show ?case
  proof (cases "isspace (lx_last_char l)")
    case True
    with 1 lex_weight_next_char_le [of l] show ?thesis
      by (simp add: skip_whitespace.simps [of l])
  next
    case False
    then show ?thesis by (simp add: skip_whitespace.simps [of l])
  qed
qed

lemma skip_comment_weight: "lex_weight (skip_comment l) \<le> lex_weight (next_char l)"
proof (induction l rule: skip_comment.induct)
  case (1 l)
  let ?c = "lx_last_char (next_char l)"
  show ?case
  proof (cases "?c \<noteq> EOF_CHAR \<and> ?c \<noteq> CHR 0x0A \<and> ?c \<noteq> CHR 0x0D")
    case True
    then have "lex_weight (skip_comment (next_char l)) \<le> lex_weight (next_char (next_char l))"
      by (intro 1) (auto simp: Let_def)
    also have "\<dots> \<le> lex_weight (next_char l)" by (rule lex_weight_next_char_le)
    finally show ?thesis using True by (subst skip_comment.simps) (simp add: Let_def)
  next
    case False
    then show ?thesis by (subst skip_comment.simps) (auto simp: Let_def)
  qed
qed

definition mk_token :: "token_type \<Rightarrow> position \<Rightarrow> string \<Rightarrow> token" where
  "mk_token ty p c = \<lparr>t_type = ty, t_position = p, t_content = c\<rparr>"

definition quoted_token :: "char \<Rightarrow> position \<Rightarrow> lexer \<Rightarrow> token \<times> lexer" where
  "quoted_token q start l =
     (case read_quoted q l [] of
        (closed, content, l') \<Rightarrow> (mk_token (if closed then String_t else Unknown_t) start content, l'))"

text \<open>One iteration of \<open>gettok\<close> after the white space; a comment makes it start again.\<close>

function gettok :: "lexer \<Rightarrow> token \<times> lexer" where
  "gettok l0 =
     (let l1 = skip_whitespace l0;
          l = l1\<lparr>lx_prev_position := lx_position l1\<rparr>;
          start = lx_position l;
          c = lx_last_char l
      in if c = CHR 0x22 then quoted_token (CHR 0x22) start l
         else if c = CHR 0x27 then quoted_token (CHR 0x27) start l
         else if isalpha c then
           (case read_identifier l [c] of (content, l') \<Rightarrow> (mk_token Identifier_t start content, l'))
         else if isdigit c then
           (case read_integer l [] of (content, l') \<Rightarrow> (mk_token Integer_t start content, l'))
         else if c = CHR ''#'' then gettok (skip_comment l)
         else if c = EOF_CHAR then (mk_token Eof_t start [], l)
         else (mk_token Unknown_t start [c], next_char l))"
  by pat_completeness auto
termination
proof (relation "measure lex_weight", simp)
  fix l0 l1 l :: lexer and start c
  assume l1: "l1 = skip_whitespace l0" and l: "l = l1\<lparr>lx_prev_position := lx_position l1\<rparr>"
    and c: "c = lx_last_char l" "c = CHR ''#''"
  have w: "lex_weight l = lex_weight l1" by (simp add: l lex_weight_def)
  have "lex_weight (skip_comment l) \<le> lex_weight (next_char l)" by (rule skip_comment_weight)
  also have "\<dots> < lex_weight l"
    using c(2) unfolding c(1) by (intro lex_weight_next_char) simp
  also have "\<dots> \<le> lex_weight l0" using w l1 skip_whitespace_weight by simp
  finally show "(skip_comment l, l0) \<in> measure lex_weight" by simp
qed

declare gettok.simps [simp del]

definition lex_get :: "lexer \<Rightarrow> token \<times> lexer" where
  "lex_get l =
     (let tmp = lx_next_token l; (t, l') = gettok l in (tmp, l'\<lparr>lx_next_token := t\<rparr>))"

definition lex_peek :: "lexer \<Rightarrow> token" where
  "lex_peek l = lx_next_token l"

definition lexer_init :: "string \<Rightarrow> lexer" where
  "lexer_init input =
     snd (lex_get \<lparr>lx_input = input, lx_position = Position 1 0, lx_prev_position = Position 0 0,
       lx_next_token = mk_token Unknown_t (Position 1 0) '' '', lx_last_char = CHR '' ''\<rparr>)"

subsection \<open>Every token but eof consumes input\<close>

lemma read_quoted_weight:
  "read_quoted q l content = (closed, r, l') \<Longrightarrow> lex_weight l' \<le> lex_weight (next_char l)"
proof (induction q l content rule: read_quoted.induct)
  case (1 q l content)
  let ?l1 = "next_char l"
  show ?case
  proof (cases "lx_last_char ?l1 = EOF_CHAR \<or> lx_last_char ?l1 = q")
    case True
    with "1.prems" show ?thesis
      using lex_weight_next_char_le [of ?l1]
      by (auto simp: read_quoted.simps [of q l content] Let_def split: if_splits)
  next
    case False
    with "1.prems" have "read_quoted q ?l1 (content @ [lx_last_char ?l1]) = (closed, r, l')"
      by (subst (asm) read_quoted.simps) (auto simp: Let_def)
    with "1.IH" False have "lex_weight l' \<le> lex_weight (next_char ?l1)" by (auto simp: Let_def)
    also have "\<dots> \<le> lex_weight ?l1" by (rule lex_weight_next_char_le)
    finally show ?thesis .
  qed
qed

lemma read_identifier_weight:
  "read_identifier l content = (r, l') \<Longrightarrow> lex_weight l' \<le> lex_weight (next_char l)"
proof (induction l content rule: read_identifier.induct)
  case (1 l content)
  let ?l1 = "next_char l"
  show ?case
  proof (cases "ident_char (lx_last_char ?l1)")
    case False
    with "1.prems" show ?thesis by (subst (asm) read_identifier.simps) (auto simp: Let_def)
  next
    case True
    with "1.prems" have "read_identifier ?l1 (content @ [lx_last_char ?l1]) = (r, l')"
      by (subst (asm) read_identifier.simps) (auto simp: Let_def)
    with "1.IH" True have "lex_weight l' \<le> lex_weight (next_char ?l1)" by (auto simp: Let_def)
    also have "\<dots> \<le> lex_weight ?l1" by (rule lex_weight_next_char_le)
    finally show ?thesis .
  qed
qed

lemma read_integer_weight:
  "read_integer l content = (r, l') \<Longrightarrow> lex_weight l' \<le> lex_weight (next_char l)"
proof (induction l content rule: read_integer.induct)
  case (1 l content)
  let ?l1 = "next_char l"
  show ?case
  proof (cases "isdigit (lx_last_char ?l1)")
    case False
    with "1.prems" show ?thesis by (subst (asm) read_integer.simps) (auto simp: Let_def)
  next
    case True
    with "1.prems" have "read_integer ?l1 (content @ [lx_last_char l]) = (r, l')"
      by (subst (asm) read_integer.simps) (auto simp: Let_def)
    with "1.IH" True have "lex_weight l' \<le> lex_weight (next_char ?l1)" by (auto simp: Let_def)
    also have "\<dots> \<le> lex_weight ?l1" by (rule lex_weight_next_char_le)
    finally show ?thesis .
  qed
qed

lemma gettok_weight:
  "gettok l0 = (t, l') \<Longrightarrow>
   lex_weight l' \<le> lex_weight l0 \<and> (t_type t \<noteq> Eof_t \<longrightarrow> lex_weight l' < lex_weight l0)"
proof (induction l0 arbitrary: t l' rule: gettok.induct)
  case (1 l0)
  define l where "l = (skip_whitespace l0)\<lparr>lx_prev_position := lx_position (skip_whitespace l0)\<rparr>"
  define c where "c = lx_last_char l"
  have w: "lex_weight l \<le> lex_weight l0"
    using skip_whitespace_weight [of l0] by (simp add: l_def lex_weight_def)
  note unf = gettok.simps [of l0, unfolded Let_def, folded l_def]
  have step: "c \<noteq> EOF_CHAR \<Longrightarrow> lex_weight (next_char l) < lex_weight l0"
    using lex_weight_next_char [of l] w by (simp add: c_def)
  consider (comment) "c = CHR ''#''" | (eof) "c = EOF_CHAR" | (other) "c \<noteq> CHR ''#''" "c \<noteq> EOF_CHAR" by blast
  then show ?case
  proof cases
    case comment
    have "lex_weight (skip_comment l) < lex_weight l0"
      using skip_comment_weight [of l] step comment by simp
    moreover have "gettok (skip_comment l) = (t, l')"
      using "1.prems" comment unfolding unf c_def [symmetric] by (simp add: ctype_defs)
    ultimately show ?thesis
      using "1.IH" [of "skip_whitespace l0" l _ c t l'] comment
      by (auto simp: l_def c_def ctype_defs)
  next
    case eof
    with "1.prems" w show ?thesis unfolding unf c_def [symmetric]
      by (auto simp: mk_token_def)
  next
    case other
    have "lex_weight l' \<le> lex_weight (next_char l)"
      using "1.prems" other unfolding unf c_def [symmetric]
      by (auto simp: quoted_token_def dest: read_quoted_weight read_identifier_weight read_integer_weight
          split: if_splits prod.splits)
    with step other show ?thesis by auto
  qed
qed

text \<open>The parser's measure: the input left and whether a token other than eof is in hand.\<close>

definition tok_weight :: "lexer \<Rightarrow> nat" where
  "tok_weight l = lex_weight l + (if t_type (lx_next_token l) = Eof_t then 0 else 1)"

lemma lex_get_token: "lex_get l = (t, l') \<Longrightarrow> t = lx_next_token l"
  by (auto simp: lex_get_def Let_def split: prod.splits)

lemma lex_get_weight:
  assumes "lex_get l = (t, l')"
  shows "tok_weight l' \<le> tok_weight l" and "t_type t \<noteq> Eof_t \<Longrightarrow> tok_weight l' < tok_weight l"
proof -
  obtain u l1 where g: "gettok l = (u, l1)" by (cases "gettok l") auto
  with assms have l': "l' = l1\<lparr>lx_next_token := u\<rparr>" and t: "t = lx_next_token l"
    by (auto simp: lex_get_def)
  have "lex_weight l' = lex_weight l1" by (simp add: l' lex_weight_def)
  with gettok_weight [OF g] show "tok_weight l' \<le> tok_weight l"
    and "t_type t \<noteq> Eof_t \<Longrightarrow> tok_weight l' < tok_weight l"
    by (auto simp: tok_weight_def l' t)
qed

subsection \<open>Properties\<close>

text \<open>The content of a quoted string is exactly the bytes between the quotes.\<close>

lemma read_quoted_content:
  assumes "lx_input l = s @ q # rest" and "q \<notin> set s" and "EOF_CHAR \<notin> set s" and "q \<noteq> EOF_CHAR"
  shows "\<exists>l'. read_quoted q l content = (True, content @ s, l') \<and> lx_input l' = tl rest
    \<and> lx_last_char l' = (case rest of [] \<Rightarrow> EOF_CHAR | c # _ \<Rightarrow> c)"
  using assms
proof (induction s arbitrary: l content)
  case Nil
  then show ?case by (simp add: read_quoted.simps [of q l content] Let_def)
next
  case (Cons c s)
  have "lx_input (next_char l) = s @ q # rest" using Cons.prems by simp
  from Cons.IH [OF this, of "content @ [c]"] Cons.prems
  show ?case by (auto simp: read_quoted.simps [of q l content] Let_def)
qed

end
