(* ===== verification/Config_Parser.thy ===== *)
theory Config_Parser
  imports Config_Lexer
begin

text \<open>
  src/src/libs/config/configgroup.hpp, parser.cpp and parseexception.cpp: the tree of
  configuration groups and the recursive parser that builds it. The parser's loop and its
  recursion into subgroups share one fuel argument; \<open>parse\<close> starts it with more fuel than the
  input has tokens, and \<open>config_parse_total\<close> proves that it never runs out.
\<close>

subsection \<open>Groups and options\<close>

record config_option =
  co_key :: string
  co_options :: "string list"
  co_pos :: position

datatype config_group = Config_group
  (cg_name: string) (cg_keyword: string) (cg_position: position)
  (cg_options: "(string \<times> config_option) list") (cg_subgroups: "config_group list")

definition new_group :: "string \<Rightarrow> string \<Rightarrow> position \<Rightarrow> config_group" where
  "new_group name keyword pos = Config_group name keyword pos [] []"

definition set_subgroups :: "config_group list \<Rightarrow> config_group \<Rightarrow> config_group" where
  "set_subgroups subs g = Config_group (cg_name g) (cg_keyword g) (cg_position g) (cg_options g) subs"

definition add_option :: "config_option \<Rightarrow> config_group \<Rightarrow> config_group" where
  "add_option co g =
     Config_group (cg_name g) (cg_keyword g) (cg_position g) (smap_insert (co_key co) co (cg_options g)) (cg_subgroups g)"

text \<open>\<open>std::set<config_group>::emplace\<close>: groups are ordered by position only; None when a group
  at the same position is present.\<close>

fun sub_emplace :: "config_group \<Rightarrow> config_group list \<Rightarrow> config_group list option" where
  "sub_emplace g [] = Some [g]"
| "sub_emplace g (h # hs) =
     (if cg_position g < cg_position h then Some (g # h # hs)
      else if cg_position h < cg_position g then map_option (\<lambda>r. h # r) (sub_emplace g hs)
      else None)"

subsection \<open>Errors\<close>

datatype config_error =
    Key_already_defined position string position
  | Cannot_insert_group position string
  | Expected_brace position string
  | Subgroup_already_defined position string position
  | Expected_assign position string
  | Expected_value position string
  | Cannot_insert_option position string
  | Group_not_closed position string
  | Unknown_token position string
  | Config_out_of_fuel

text \<open>\<open>parse_exception::what()\<close>.\<close>

definition parse_exception_what :: "position \<Rightarrow> string \<Rightarrow> string" where
  "parse_exception_what p message = position_to_string p @ '': '' @ message"

fun config_error_what :: "config_error \<Rightarrow> string" where
  "config_error_what (Key_already_defined p n q) =
     parse_exception_what p (''key '' @ quote n @ '' already defined at '' @ position_to_string q)"
| "config_error_what (Cannot_insert_group p n) =
     parse_exception_what p (''can not insert configgroup '' @ quote n)"
| "config_error_what (Expected_brace p c) =
     parse_exception_what p (''expected '' @ quote ''{'' @ '' instead of '' @ quote c)"
| "config_error_what (Subgroup_already_defined p k q) =
     parse_exception_what p (''subgroup '' @ k @ '' already defined at '' @ position_to_string q)"
| "config_error_what (Expected_assign p c) =
     parse_exception_what p (''expected '' @ quote ''='' @ '' instead of '' @ quote c)"
| "config_error_what (Expected_value p c) =
     parse_exception_what p (''expected a value instead of '' @ quote c)"
| "config_error_what (Cannot_insert_option p n) =
     parse_exception_what p (''can not insert configoption '' @ quote n)"
| "config_error_what (Group_not_closed p n) =
     parse_exception_what p (''config group '' @ quote n @ '' not closed'')"
| "config_error_what (Unknown_token p c) =
     parse_exception_what p (''unknown token '' @ quote c)"
| "config_error_what Config_out_of_fuel = []"

subsection \<open>The parser\<close>

definition is_name :: "token \<Rightarrow> bool" where
  "is_name t = (t_type t = String_t \<or> t_type t = Identifier_t)"

definition is_value :: "token \<Rightarrow> bool" where
  "is_value t = (t_type t = String_t \<or> t_type t = Identifier_t \<or> t_type t = Integer_t)"

lemma lex_get_value_weight:
  "lex_get l = (t, l') \<Longrightarrow> t_type (lx_next_token l) \<noteq> Eof_t \<Longrightarrow> tok_weight l' < tok_weight l"
  using lex_get_weight(2) lex_get_token by blast

text \<open>The values of an option: all value tokens on the line of the first.\<close>

function read_options :: "32 word \<Rightarrow> lexer \<Rightarrow> string list \<Rightarrow> string list \<times> lexer" where
  "read_options line l options =
     (let tp = lex_peek l in
      if is_value tp \<and> line_number (t_position tp) = line
      then (case lex_get l of (t, l') \<Rightarrow> read_options line l' (options @ [t_content t]))
      else (options, l))"
  by pat_completeness auto
termination
  by (relation "measure (\<lambda>(line, l, options). tok_weight l)")
    (auto simp: is_value_def lex_peek_def dest!: sym [where t = "lex_get _"] intro!: lex_get_value_weight)

declare read_options.simps [simp del]

definition find_keyword :: "string \<Rightarrow> config_group list \<Rightarrow> config_group option" where
  "find_keyword k subs = find (\<lambda>sg. cg_keyword sg = k) subs"

definition emplace_group :: "token \<Rightarrow> string \<Rightarrow> config_group \<Rightarrow> config_group \<Rightarrow> (config_error, config_group) res" where
  "emplace_group t name sub cg =
     (case sub_emplace sub (cg_subgroups cg) of
        None \<Rightarrow> Inl (Cannot_insert_group (t_position t) name)
      | Some subs \<Rightarrow> Inr (set_subgroups subs cg))"

text \<open>\<open>key = value ...\<close> behind the key: \<open>t\<close> is the token after the key.\<close>

definition parse_assignment :: "string \<Rightarrow> position \<Rightarrow> token \<Rightarrow> config_group \<Rightarrow> lexer \<Rightarrow>
    (config_error, config_group \<times> lexer) res" where
  "parse_assignment new_name start_pos t0 cg l0 =
     (if \<not> token_eq_string t0 ''='' then Inl (Expected_assign (t_position t0) (t_content t0))
      else (case lex_get l0 of (t, l) \<Rightarrow>
        (if \<not> is_value t then Inl (Expected_value (t_position t) (t_content t))
         else (case read_options (line_number (t_position t)) l [t_content t] of (options, l) \<Rightarrow>
           (if map_of (cg_options cg) new_name \<noteq> None then Inl (Cannot_insert_option start_pos new_name)
            else Inr (add_option \<lparr>co_key = new_name, co_options = options, co_pos = start_pos\<rparr> cg, l))))))"

text \<open>\<open>parse_group\<close>: one unfolding per iteration of its loop and per recursive call.\<close>

fun parse_group :: "nat \<Rightarrow> bool \<Rightarrow> config_group \<Rightarrow> lexer \<Rightarrow> (config_error, config_group \<times> lexer) res" where
  "parse_group 0 need_close cg l = Inl Config_out_of_fuel"
| "parse_group (Suc fuel) need_close cg l0 =
     (let start_pos = lx_prev_position l0;
          (t, l1) = lex_get l0
      in if is_name t then
           (let new_name = t_content t in
            case map_of (cg_options cg) new_name of
              Some co \<Rightarrow> Inl (Key_already_defined (t_position t) new_name (co_pos co))
            | None \<Rightarrow>
               (let (t, l2) = lex_get l1 in
                if token_eq_char t (CHR ''{'') then
                  rbind (parse_group fuel True (new_group new_name [] start_pos) l2) (\<lambda>(sub, l3).
                  rbind (emplace_group t new_name sub cg) (\<lambda>cg.
                  parse_group fuel need_close cg l3))
                else if is_name t then
                  (let new_keyword = t_content t in
                   if token_eq_char (lex_peek l2) (CHR ''{'') then
                     (let (t, l3) = lex_get l2 in
                      if \<not> token_eq_char t (CHR ''{'') then Inl (Expected_brace (t_position t) (t_content t))
                      else (case find_keyword new_keyword (cg_subgroups cg) of
                          Some sg \<Rightarrow> Inl (Subgroup_already_defined (t_position t) new_keyword (cg_position sg))
                        | None \<Rightarrow>
                            rbind (parse_group fuel True (new_group new_name new_keyword start_pos) l3) (\<lambda>(sub, l4).
                            rbind (emplace_group t new_name sub cg) (\<lambda>cg.
                            parse_group fuel need_close cg l4))))
                   else
                     rbind (emplace_group t new_name (new_group new_name new_keyword start_pos) cg) (\<lambda>cg.
                     parse_group fuel need_close cg l2))
                else
                  rbind (parse_assignment new_name start_pos t cg l2) (\<lambda>(cg, l3).
                  parse_group fuel need_close cg l3)))
         else if need_close \<and> token_eq_char t (CHR ''}'') then Inr (cg, l1)
         else if t_type t = Eof_t then
           (if need_close then Inl (Group_not_closed (t_position t) (cg_name cg)) else Inr (cg, l1))
         else Inl (Unknown_token (t_position t) (t_content t)))"

definition config_parse :: "string \<Rightarrow> (config_error, config_group) res" where
  "config_parse input =
     rbind (parse_group (length input + 5) False (new_group ''global'' [] (Position 1 0)) (lexer_init input))
       (\<lambda>(cg, l). Inr cg)"

subsection \<open>The parser never runs out of fuel\<close>

lemma read_options_weight:
  "read_options line l os = (os', l') \<Longrightarrow> tok_weight l' \<le> tok_weight l"
proof (induction line l os arbitrary: os' l' rule: read_options.induct)
  case (1 line l os)
  obtain t l1 where g: "lex_get l = (t, l1)" by (cases "lex_get l") auto
  show ?case
  proof (cases "is_value (lex_peek l) \<and> line_number (t_position (lex_peek l)) = line")
    case True
    with "1.prems" g have "read_options line l1 (os @ [t_content t]) = (os', l')"
      by (simp add: read_options.simps [of line l os] Let_def)
    with 1 True g have "tok_weight l' \<le> tok_weight l1" by auto
    with lex_get_weight(1) [OF g] show ?thesis by simp
  next
    case False
    with "1.prems" show ?thesis by (auto simp: read_options.simps [of line l os] Let_def)
  qed
qed

lemma parse_assignment_weight:
  assumes "parse_assignment n p t cg l = Inr (cg', l')"
  shows "tok_weight l' \<le> tok_weight l"
proof -
  obtain t1 l1 where g: "lex_get l = (t1, l1)" by (cases "lex_get l") auto
  obtain os l2 where r: "read_options (line_number (t_position t1)) l1 [t_content t1] = (os, l2)"
    by (cases "read_options (line_number (t_position t1)) l1 [t_content t1]") auto
  from assms g r have "l' = l2"
    by (auto simp: parse_assignment_def split: if_splits)
  with read_options_weight [OF r] lex_get_weight(1) [OF g] show ?thesis by simp
qed

lemma parse_assignment_fuel [simp]: "parse_assignment n p t cg l \<noteq> Inl Config_out_of_fuel"
  by (auto simp: parse_assignment_def split: prod.splits if_splits)

lemma emplace_group_fuel [simp]: "emplace_group t n sub cg \<noteq> Inl Config_out_of_fuel"
  by (auto simp: emplace_group_def split: option.splits)

lemma is_name_not_eof: "is_name t \<Longrightarrow> t_type t \<noteq> Eof_t"
  by (auto simp: is_name_def)

lemma rbind_Inl_iff: "rbind m f = Inl e \<longleftrightarrow> m = Inl e \<or> (\<exists>x. m = Inr x \<and> f x = Inl e)"
  by (cases m) auto

text \<open>What one loop iteration may hand to the rest of the loop: a lexer that weighs less.\<close>

definition shrinks :: "lexer \<Rightarrow> (config_error, config_group \<times> lexer) res \<Rightarrow> bool" where
  "shrinks l r = (r \<noteq> Inl Config_out_of_fuel \<and> (\<forall>cg l'. r = Inr (cg, l') \<longrightarrow> tok_weight l' \<le> tok_weight l))"

lemma shrinks_Inl [simp]: "e \<noteq> Config_out_of_fuel \<Longrightarrow> shrinks l (Inl e)"
  by (simp add: shrinks_def)

lemma shrinks_weaken: "shrinks l r \<Longrightarrow> tok_weight l \<le> tok_weight l' \<Longrightarrow> shrinks l' r"
  by (force simp: shrinks_def)

lemma shrinks_rbind:
  assumes "shrinks l m" and "\<And>cg l'. m = Inr (cg, l') \<Longrightarrow> shrinks l (f (cg, l'))"
  shows "shrinks l (rbind m f)"
  using assms by (cases m) (auto simp: shrinks_def)

lemma shrinks_emplace:
  assumes "\<And>cg'. shrinks l (f cg')"
  shows "shrinks l (rbind (emplace_group t n sub cg) f)"
  using assms emplace_group_fuel [of t n sub cg]
  by (cases "emplace_group t n sub cg") (auto simp: shrinks_def)

lemma shrinks_assignment:
  assumes "\<And>cg' l'. tok_weight l' \<le> tok_weight l \<Longrightarrow> shrinks l (f (cg', l'))"
  shows "shrinks l (rbind (parse_assignment n p t cg l) f)"
  using assms parse_assignment_fuel [of n p t cg l] parse_assignment_weight [of n p t cg l]
  by (cases "parse_assignment n p t cg l") (auto simp: shrinks_def)

lemma parse_group_fuel:
  "tok_weight l < fuel \<Longrightarrow> shrinks l (parse_group fuel need_close cg l)"
proof (induction fuel arbitrary: need_close cg l)
  case 0
  then show ?case by simp
next
  case (Suc fuel)
  obtain t l1 where g1: "lex_get l = (t, l1)" by (cases "lex_get l") auto
  obtain t2 l2 where g2: "lex_get l1 = (t2, l2)" by (cases "lex_get l1") auto
  obtain t3 l3 where g3: "lex_get l2 = (t3, l3)" by (cases "lex_get l2") auto
  note le = lex_get_weight(1) [OF g1] lex_get_weight(1) [OF g2] lex_get_weight(1) [OF g3]
  show ?case
  proof (cases "is_name t")
    case False
    then show ?thesis using g1 le(1) by (auto simp: shrinks_def Let_def)
  next
    case True
    then have lt: "tok_weight l1 < tok_weight l"
      using lex_get_weight(2) [OF g1] is_name_not_eof by blast
    have rec: "shrinks l (parse_group fuel nc g lx)" if "tok_weight lx \<le> tok_weight l1" for nc g lx
      using Suc.IH [of lx nc g] Suc.prems lt that shrinks_weaken [of lx _ l] by force
    have sub: "shrinks lx (parse_group fuel nc g lx)" if "tok_weight lx \<le> tok_weight l1" for nc g lx
      using Suc.IH [of lx nc g] Suc.prems lt that by force
    have nested: "shrinks l (rbind (parse_group fuel True g lx) (\<lambda>(s, ly).
          rbind (emplace_group tk n s cg) (\<lambda>cg. parse_group fuel need_close cg ly)))"
      if "tok_weight lx \<le> tok_weight l1" for g lx tk n
    proof (rule shrinks_rbind)
      show "shrinks l (parse_group fuel True g lx)" using that by (rule rec)
    next
      fix s ly
      assume "parse_group fuel True g lx = Inr (s, ly)"
      with sub [OF that] have "tok_weight ly \<le> tok_weight lx" by (auto simp: shrinks_def)
      with that have "tok_weight ly \<le> tok_weight l1" by simp
      then show "shrinks l (case (s, ly) of (s, ly) \<Rightarrow>
          rbind (emplace_group tk n s cg) (\<lambda>cg. parse_group fuel need_close cg ly))"
        by (auto intro!: shrinks_emplace rec)
    qed
    have assign: "shrinks l (rbind (parse_assignment n p tk cg l2) (\<lambda>(cg, l3). parse_group fuel need_close cg l3))"
      for n p tk
      by (rule shrinks_weaken [OF shrinks_assignment])
        (use le lt in \<open>auto intro!: shrinks_weaken [OF sub]\<close>)
    from True g1 g2 g3 le show ?thesis
      by (auto simp: Let_def intro!: nested assign shrinks_emplace rec split: option.splits)
  qed
qed

lemma tok_weight_init: "tok_weight (lexer_init input) \<le> length input + 2"
proof -
  define l0 where "l0 = \<lparr>lx_input = input, lx_position = Position 1 0, lx_prev_position = Position 0 0,
       lx_next_token = mk_token Unknown_t (Position 1 0) '' '', lx_last_char = CHR '' ''\<rparr>"
  obtain t l1 where g: "lex_get l0 = (t, l1)" by (cases "lex_get l0") auto
  have "tok_weight l0 = length input + 2"
    by (simp add: tok_weight_def lex_weight_def l0_def mk_token_def EOF_CHAR_def)
  with lex_get_weight(1) [OF g] g show ?thesis by (simp add: lexer_init_def l0_def)
qed

subsection \<open>What the parser builds is well formed\<close>

fun group_wf :: "config_group \<Rightarrow> bool" where
  "group_wf (Config_group n k p opts subs) =
     (smap_wf opts
      \<and> (\<forall>e \<in> set opts. co_key (snd e) = fst e \<and> co_options (snd e) \<noteq> [])
      \<and> sorted_wrt (\<lambda>a b. cg_position a < cg_position b) subs
      \<and> (\<forall>s \<in> set subs. group_wf s))"

lemma group_wf_new [simp]: "group_wf (new_group n k p)"
  by (simp add: new_group_def)

lemma sub_emplace_set:
  "sub_emplace g hs = Some r \<Longrightarrow> set r = insert g (set hs)"
  by (induction g hs arbitrary: r rule: sub_emplace.induct) (fastforce split: if_splits)+

lemma sub_emplace_sorted:
  "sub_emplace g hs = Some r \<Longrightarrow> sorted_wrt (\<lambda>a b. cg_position a < cg_position b) hs \<Longrightarrow>
   sorted_wrt (\<lambda>a b. cg_position a < cg_position b) r"
proof (induction g hs arbitrary: r rule: sub_emplace.induct)
  case (1 g)
  then show ?case by auto
next
  case (2 g h hs)
  then show ?case
    by (fastforce split: if_splits dest: sub_emplace_set intro: less_trans)
qed

lemma emplace_group_wf:
  assumes "emplace_group t n sub cg = Inr cg'" and "group_wf cg" and "group_wf sub"
  shows "group_wf cg'"
proof (cases cg)
  case (Config_group a b c opts subs)
  with assms obtain r where r: "sub_emplace sub subs = Some r" and cg': "cg' = Config_group a b c opts r"
    by (auto simp: emplace_group_def set_subgroups_def split: option.splits)
  with assms Config_group sub_emplace_set [OF r] sub_emplace_sorted [OF r] show ?thesis by auto
qed

lemma read_options_nonempty: "read_options line l os = (os', l') \<Longrightarrow> os \<noteq> [] \<Longrightarrow> os' \<noteq> []"
proof (induction line l os arbitrary: os' l' rule: read_options.induct)
  case (1 line l os)
  obtain t l1 where g: "lex_get l = (t, l1)" by (cases "lex_get l") auto
  show ?case
    using 1 g by (cases "is_value (lex_peek l) \<and> line_number (t_position (lex_peek l)) = line")
      (auto simp: read_options.simps [of line l os] Let_def)
qed

lemma parse_assignment_wf:
  assumes "parse_assignment n p t cg l = Inr (cg', l')" and "group_wf cg"
  shows "group_wf cg'"
proof (cases cg)
  case (Config_group a b c opts subs)
  obtain t1 l1 where g: "lex_get l = (t1, l1)" by (cases "lex_get l") auto
  obtain os l2 where r: "read_options (line_number (t_position t1)) l1 [t_content t1] = (os, l2)"
    by (cases "read_options (line_number (t_position t1)) l1 [t_content t1]") auto
  let ?co = "\<lparr>co_key = n, co_options = os, co_pos = p\<rparr>"
  from assms g r Config_group have
    "cg' = Config_group a b c (smap_put n ?co opts) subs"
    by (auto simp: parse_assignment_def add_option_def smap_insert_def split: if_splits)
  moreover have "os \<noteq> []" using read_options_nonempty [OF r] by simp
  ultimately show ?thesis
    using assms(2) Config_group smap_put_set [of n ?co opts] by fastforce
qed

lemma parse_group_wf:
  "parse_group fuel need_close cg l = Inr (cg', l') \<Longrightarrow> group_wf cg \<Longrightarrow> group_wf cg'"
proof (induction fuel arbitrary: need_close cg l cg' l')
  case 0
  then show ?case by simp
next
  case (Suc fuel)
  obtain t l1 where g1: "lex_get l = (t, l1)" by (cases "lex_get l") auto
  obtain t2 l2 where g2: "lex_get l1 = (t2, l2)" by (cases "lex_get l1") auto
  obtain t3 l3 where g3: "lex_get l2 = (t3, l3)" by (cases "lex_get l2") auto
  note rec = Suc.IH
  have nested: "group_wf cg'"
    if "rbind (parse_group fuel True (new_group n k p) lx) (\<lambda>(s, ly).
          rbind (emplace_group tk n s cg) (\<lambda>cg. parse_group fuel need_close cg ly)) = Inr (cg', l')"
    for n k p lx tk
  proof -
    from that obtain s ly cg1 where s: "parse_group fuel True (new_group n k p) lx = Inr (s, ly)"
      and e: "emplace_group tk n s cg = Inr cg1" and r: "parse_group fuel need_close cg1 ly = Inr (cg', l')"
      by (auto simp: rbind_Inr_iff)
    have "group_wf s" using rec [OF s] by simp
    with e Suc.prems(2) have "group_wf cg1" by (auto intro: emplace_group_wf)
    with r show ?thesis by (rule rec)
  qed
  have leaf: "group_wf cg'"
    if "rbind (emplace_group tk n (new_group n k p) cg) (\<lambda>cg. parse_group fuel need_close cg lx) = Inr (cg', l')"
    for n k p lx tk
  proof -
    from that obtain cg1 where e: "emplace_group tk n (new_group n k p) cg = Inr cg1"
      and r: "parse_group fuel need_close cg1 lx = Inr (cg', l')"
      by (auto simp: rbind_Inr_iff)
    show ?thesis using emplace_group_wf [OF e Suc.prems(2)] by (intro rec [OF r]) simp
  qed
  have assign: "group_wf cg'"
    if "rbind (parse_assignment n p tk cg lx) (\<lambda>(cg, l3). parse_group fuel need_close cg l3) = Inr (cg', l')"
    for n p tk lx
  proof -
    from that obtain cg1 ly where e: "parse_assignment n p tk cg lx = Inr (cg1, ly)"
      and r: "parse_group fuel need_close cg1 ly = Inr (cg', l')"
      by (auto simp: rbind_Inr_iff)
    show ?thesis using parse_assignment_wf [OF e Suc.prems(2)] by (intro rec [OF r])
  qed
  show ?case
  proof (cases "is_name t")
    case False
    with Suc.prems g1 show ?thesis by (auto simp: Let_def split: if_splits)
  next
    case True
    have none: "map_of (cg_options cg) (t_content t) = None"
      using Suc.prems(1) True g1 by (cases "map_of (cg_options cg) (t_content t)") (auto simp: Let_def)
    consider (block) "token_eq_char t2 (CHR ''{'')"
      | (keyword) "\<not> token_eq_char t2 (CHR ''{'')" "is_name t2"
      | (setting) "\<not> token_eq_char t2 (CHR ''{'')" "\<not> is_name t2" by blast
    then show ?thesis
    proof cases
      case block
      show ?thesis
        by (rule nested) (use Suc.prems(1) True g1 g2 none block in \<open>simp add: Let_def\<close>)
    next
      case setting
      show ?thesis
        by (rule assign) (use Suc.prems(1) True g1 g2 none setting in \<open>simp add: Let_def\<close>)
    next
      case keyword
      show ?thesis
      proof (cases "token_eq_char (lex_peek l2) (CHR ''{'')")
        case False
        show ?thesis
          by (rule leaf) (use Suc.prems(1) True g1 g2 none keyword False in \<open>simp add: Let_def\<close>)
      next
        case peek: True
        then have "token_eq_char t3 (CHR ''{'')"
          using lex_get_token [OF g3] by (simp add: lex_peek_def)
        moreover have "find_keyword (t_content t2) (cg_subgroups cg) = None"
          using Suc.prems(1) True g1 g2 g3 none keyword peek calculation
          by (cases "find_keyword (t_content t2) (cg_subgroups cg)") (auto simp: Let_def)
        ultimately show ?thesis
          by (intro nested) (use Suc.prems(1) True g1 g2 g3 none keyword peek in \<open>simp add: Let_def\<close>)
      qed
    qed
  qed
qed

subsection \<open>Properties\<close>

text \<open>The configuration parser terminates on every input: the fuel of \<open>config_parse\<close> is enough,
  so its result is a tree or one of the exceptions of the source.\<close>

theorem config_parse_total: "config_parse input \<noteq> Inl Config_out_of_fuel"
proof -
  have "shrinks (lexer_init input)
      (parse_group (length input + 5) False (new_group ''global'' [] (Position 1 0)) (lexer_init input))"
    using tok_weight_init [of input] by (intro parse_group_fuel) simp
  then show ?thesis by (auto simp: config_parse_def shrinks_def rbind_Inl_iff)
qed

text \<open>C40: in every tree the parser returns, each group's options are keyed by their own key and
  have at least one value (the readers index \<open>options[0]\<close> without a check), and the subgroups
  are in strictly increasing source order, at every depth.\<close>

theorem config_parse_wf:
  assumes "config_parse input = Inr g"
  shows "group_wf g"
  using assms by (auto simp: config_parse_def rbind_Inr_iff intro: parse_group_wf)

theorem config_parse_wf_witness:
  "group_wf (Config_group ''global'' [] (Position 1 0) []
     [Config_group ''research'' [] (Position 1 1)
       [(''mail'', \<lparr>co_key = ''mail'', co_options = [''true''], co_pos = Position 1 12\<rparr>)] []])"
proof (rule config_parse_wf)
  show "config_parse ''research { mail = true }'' = Inr (Config_group ''global'' [] (Position 1 0) []
     [Config_group ''research'' [] (Position 1 1)
       [(''mail'', \<lparr>co_key = ''mail'', co_options = [''true''], co_pos = Position 1 12\<rparr>)] []])"
    by code_simp
qed

text \<open>a quoted brace is taken for a brace: \<open>token::operator==(char)\<close> ignores the token's type,
  so the string \<open>"{"\<close> behind a name opens a group just as the bare brace does.\<close>

theorem quoted_brace_opens_group:
  "config_parse (''a '' @ [CHR 0x22] @ ''{'' @ [CHR 0x22] @ '' }'')
     = Inr (Config_group ''global'' [] (Position 1 0) [] [Config_group ''a'' [] (Position 1 1) [] []])"
  by code_simp

end
