(* ===== verification/Research_Types.thy ===== *)
theory Research_Types
  imports Std_Containers
begin

text \<open>
  The data of ctguard-research: src/src/libs/source_event.hpp, src/src/research/event.hpp,
  event.cpp, rule.hpp and research.hpp. Identifiers and priorities keep their widths
  (\<open>rule_id_t\<close> is 32 bits, \<open>priority_t\<close> and the activation counters 16); \<open>std::time_t\<close> is
  an integer. Regular expressions are kept as their pattern text: what \<open>std::regex\<close> does with
  it is a parameter, \<open>regex_lib\<close>.
\<close>

subsection \<open>source_event\<close>

record source_event =
  se_hostname :: string
  se_source_program :: string
  se_source_domain :: string
  se_message :: string
  se_control_message :: bool
  se_time_scanned :: int
  se_time_send :: int

definition default_source_event :: source_event where
  "default_source_event =
     \<lparr>se_hostname = [], se_source_program = [], se_source_domain = [], se_message = [],
      se_control_message = False, se_time_scanned = 0, se_time_send = 0\<rparr>"

subsection \<open>The regular expression library\<close>

text \<open>
  \<open>rx_valid p\<close>: the constructor of \<open>std::regex\<close> accepts \<open>p\<close> (it throws otherwise);
  \<open>rx_marks p\<close>: \<open>mark_count()\<close>; \<open>rx_search p s\<close> / \<open>rx_match p s\<close>: the sub-matches
  1, 2, ... of \<open>regex_search\<close> / \<open>regex_match\<close>, None for no match.
\<close>

record regex_lib =
  rx_valid :: "string \<Rightarrow> bool"
  rx_marks :: "string \<Rightarrow> nat"
  rx_search :: "string \<Rightarrow> string \<Rightarrow> string list option"
  rx_match :: "string \<Rightarrow> string \<Rightarrow> string list option"

text \<open>The documented relation of \<open>match_results::size()\<close> and \<open>mark_count()\<close>.\<close>

definition rx_lawful :: "regex_lib \<Rightarrow> bool" where
  "rx_lawful rx =
     ((\<forall>p s gs. rx_search rx p s = Some gs \<longrightarrow> length gs = rx_marks rx p)
      \<and> (\<forall>p s gs. rx_match rx p s = Some gs \<longrightarrow> length gs = rx_marks rx p))"

text \<open>A concrete library for the witnesses: a pattern matches itself, with no groups.\<close>

definition literal_rx :: regex_lib where
  "literal_rx =
     \<lparr>rx_valid = (\<lambda>p. p \<noteq> ''('' ), rx_marks = (\<lambda>p. 0),
      rx_search = (\<lambda>p s. if p = s then Some [] else None),
      rx_match = (\<lambda>p s. if p = s then Some [] else None)\<rparr>"

lemma literal_rx_lawful [simp]: "rx_lawful literal_rx"
  by (auto simp: rx_lawful_def literal_rx_def)

subsection \<open>Rules\<close>

type_synonym rule_id = "32 word"
type_synonym priority = "16 word"
type_synonym str_map = "(string, string) smap"

record intervention_rule =
  ir_name :: string
  ir_field :: string
  ir_ignore_empty_field :: bool

record activation_group =
  ag_time :: "16 word"
  ag_rate :: "16 word"
  ag_group_name :: string
  ag_reset :: bool

record unless_rule =
  ur_id :: rule_id
  ur_timeout :: "16 word"

datatype rule_match = Match_exact | Match_regex | Match_empty

text \<open>A rule is its own members and its children.\<close>

record rule_data =
  r_id :: rule_id
  r_parent_ids :: "rule_id list"
  r_priority :: priority
  r_always_alert :: bool
  r_description :: string
  r_groups :: "string list"
  r_reg :: "string option"
  r_regex_fields :: "string list"
  r_trigger_group :: string
  r_trigger_fields :: "(string, rule_match \<times> string) smap"
  r_trigger_traits :: "(string, rule_match \<times> string) smap"
  r_activation :: activation_group
  r_same_field :: string
  r_unless :: unless_rule
  r_interventions :: "intervention_rule list"

datatype rule = Rule (rule_data: rule_data) (rule_children: "rule list")

record rule_format =
  f_name :: string
  f_reg :: string
  f_fields :: "string list"

record rule_cfg =
  std_rules :: "rule list"
  group_rules :: "rule list"
  cfg_groups :: "string list"
  cfg_formats :: "rule_format list"
  cfg_interventions :: "string list"

definition default_activation :: activation_group where
  "default_activation = \<lparr>ag_time = 0, ag_rate = 0, ag_group_name = [], ag_reset = False\<rparr>"

definition default_unless :: unless_rule where
  "default_unless = \<lparr>ur_id = 0, ur_timeout = 0\<rparr>"

definition default_rule :: rule_data where
  "default_rule =
     \<lparr>r_id = 0, r_parent_ids = [], r_priority = - 1, r_always_alert = False, r_description = [],
      r_groups = [], r_reg = None, r_regex_fields = [], r_trigger_group = [], r_trigger_fields = [],
      r_trigger_traits = [], r_activation = default_activation, r_same_field = [],
      r_unless = default_unless, r_interventions = []\<rparr>"

subsection \<open>Events\<close>

record event =
  ev_logstr :: string
  ev_description :: string
  ev_control_message :: bool
  ev_always_alert :: bool
  ev_fields :: str_map
  ev_traits :: str_map
  ev_groups :: "string list"
  ev_priority :: priority
  ev_rule_id :: rule_id
  ev_interventions :: "intervention_rule list"

definition default_event :: event where
  "default_event =
     \<lparr>ev_logstr = [], ev_description = [], ev_control_message = False, ev_always_alert = False,
      ev_fields = [], ev_traits = [], ev_groups = [], ev_priority = 0, ev_rule_id = 0, ev_interventions = []\<rparr>"

text \<open>\<open>event::event(const source_event &)\<close>. \<open>fmt_time\<close> is \<open>std::put_time(localtime, "%c %Z")\<close>,
  which depends on the locale and the time zone.\<close>

definition event_of_source :: "(int \<Rightarrow> string) \<Rightarrow> source_event \<Rightarrow> event" where
  "event_of_source fmt_time se =
     default_event\<lparr>
       ev_logstr := se_message se,
       ev_control_message := se_control_message se,
       ev_traits :=
         smap_insert ''time_send'' (fmt_time (se_time_send se))
         (smap_insert ''time_scanned'' (fmt_time (se_time_scanned se))
         (smap_insert ''control'' (if se_control_message se then ''true'' else ''false'')
         (smap_insert ''source_domain'' (se_source_domain se)
         (smap_insert ''source_program'' (se_source_program se)
         (smap_insert ''hostname'' (se_hostname se) [])))))\<rparr>"

definition add_groups :: "string list \<Rightarrow> event \<Rightarrow> event" where
  "add_groups input e = e\<lparr>ev_groups := fold insort_insert input (ev_groups e)\<rparr>"

fun join_spaces :: "string list \<Rightarrow> string" where
  "join_spaces [] = []"
| "join_spaces (g # gs) = '' '' @ g @ join_spaces gs"

definition groups_2_str :: "event \<Rightarrow> string" where
  "groups_2_str e = (case ev_groups e of [] \<Rightarrow> [] | g # gs \<Rightarrow> g @ join_spaces gs)"

text \<open>\<open>event::update\<close>: the copy an unless rule stores. The flag \<open>always_alert\<close> and the
  interventions stay those of the event.\<close>

definition event_update :: "rule_data \<Rightarrow> event \<Rightarrow> event" where
  "event_update rl e =
     add_groups (r_groups rl)
       (e\<lparr>ev_priority := r_priority rl, ev_rule_id := r_id rl, ev_description := r_description rl\<rparr>)"

subsection \<open>Rule states\<close>

record rule_state =
  rs_mevents :: "(int \<times> event) list"
  rs_unless_triggered :: int
  rs_unless_timeout :: "16 word"
  rs_unless_event :: event

definition default_rule_state :: rule_state where
  "default_rule_state =
     \<lparr>rs_mevents = [], rs_unless_triggered = 0, rs_unless_timeout = 0, rs_unless_event = default_event\<rparr>"

type_synonym rules_state = "(rule_id, rule_state) smap"

text \<open>\<open>rules_state[id]\<close> creates a default entry when there is none.\<close>

definition state_at :: "rule_id \<Rightarrow> rules_state \<Rightarrow> rule_state" where
  "state_at i m = (case map_of m i of None \<Rightarrow> default_rule_state | Some st \<Rightarrow> st)"

subsection \<open>Facts\<close>

lemma set_fold_insort_insert [simp]: "set (fold insort_insert xs ys) = set xs \<union> set ys"
  by (induction xs arbitrary: ys) (auto simp: set_insort_insert)

lemma sorted_fold_insort_insert: "sorted ys \<Longrightarrow> sorted (fold insort_insert xs ys)"
  by (induction xs arbitrary: ys) (auto simp: sorted_insort_insert)

lemma distinct_fold_insort_insert: "distinct ys \<Longrightarrow> distinct (fold insort_insert xs ys)"
  by (induction xs arbitrary: ys) (auto simp: distinct_insort_insert)

text \<open>What every event keeps: sorted maps and a sorted group set.\<close>

definition event_wf :: "event \<Rightarrow> bool" where
  "event_wf e = (smap_wf (ev_fields e) \<and> smap_wf (ev_traits e) \<and> sorted (ev_groups e) \<and> distinct (ev_groups e))"

lemma event_wf_source [simp]: "event_wf (event_of_source ft se)"
  by (simp add: event_wf_def event_of_source_def default_event_def)

lemma event_wf_default [simp]: "event_wf default_event"
  by (simp add: event_wf_def default_event_def)

lemma event_wf_add_groups [simp, intro]: "event_wf e \<Longrightarrow> event_wf (add_groups gs e)"
  by (simp add: event_wf_def add_groups_def sorted_fold_insort_insert distinct_fold_insort_insert)

lemma event_wf_update [simp, intro]: "event_wf e \<Longrightarrow> event_wf (event_update rl e)"
  unfolding event_update_def by (rule event_wf_add_groups) (simp add: event_wf_def)

lemma add_groups_frame [simp]:
  "ev_logstr (add_groups gs e) = ev_logstr e" "ev_fields (add_groups gs e) = ev_fields e"
  "ev_traits (add_groups gs e) = ev_traits e" "ev_priority (add_groups gs e) = ev_priority e"
  "ev_rule_id (add_groups gs e) = ev_rule_id e" "ev_always_alert (add_groups gs e) = ev_always_alert e"
  "ev_interventions (add_groups gs e) = ev_interventions e"
  "ev_description (add_groups gs e) = ev_description e"
  "set (ev_groups (add_groups gs e)) = set gs \<union> set (ev_groups e)"
  by (simp_all add: add_groups_def)

end
