(* ===== verification/Resend_Task.thy ===== *)
theory Resend_Task
  imports Ctguard_Prelude "HOL-Library.Multiset"
begin

text \<open>
  The loop shared by the forwarding threads (\<open>output_task\<close> of logscan and diskscan,
  \<open>intervention_task\<close> of research): elements of the queue are sent at once, those whose
  sending throws wait in a local queue that is resent when the input is idle and at shutdown. The
  steps take the sink as a parameter; what they need of it is the locale \<open>reliable_sink\<close>.
\<close>

text \<open>Sending: None when the call never returns, otherwise the exception or success, and the sink.\<close>

type_synonym ('a, 'e, 's) sender = "'a \<Rightarrow> 's \<Rightarrow> (('e, unit) res \<times> 's) option"

record 'a resend =
  rt_local :: "'a list"
  rt_error_msg :: bool
  rt_stopped :: bool

definition resend_init :: "'a resend" where
  "resend_init = \<lparr>rt_local = [], rt_error_msg = False, rt_stopped = False\<rparr>"

fun flush_local :: "('a, 'e, 's) sender \<Rightarrow> 'a list \<Rightarrow> 's \<Rightarrow> ('a list \<times> 's) option" where
  "flush_local send [] s = Some ([], s)"
| "flush_local send (x # xs) s =
     (case send x s of
        None \<Rightarrow> None
      | Some (Inl e, s') \<Rightarrow> Some (x # xs, s')
      | Some (Inr u, s') \<Rightarrow> flush_local send xs s')"

text \<open>One turn of the loop; the input is None when the timed take timed out. After the kill message
  the elements left in the local queue are the ones discarded.\<close>

definition resend_step :: "('a, 'e, 's) sender \<Rightarrow> ('i \<Rightarrow> bool) \<Rightarrow> ('i \<Rightarrow> 'a) \<Rightarrow> 'i option \<Rightarrow> 'a resend \<Rightarrow> 's \<Rightarrow>
    ('a resend \<times> 's) option" where
  "resend_step send is_kill conv inp rt s =
     (case inp of
        None \<Rightarrow> Option.bind (flush_local send (rt_local rt) s) (\<lambda>(l, s). Some (rt\<lparr>rt_local := l\<rparr>, s))
      | Some x \<Rightarrow>
          if is_kill x then
            Option.bind (flush_local send (rt_local rt) s) (\<lambda>(l, s). Some (rt\<lparr>rt_local := l, rt_stopped := True\<rparr>, s))
          else
            Option.bind (send (conv x) s) (\<lambda>(r, s).
            case r of
              Inr u \<Rightarrow> Some (rt\<lparr>rt_error_msg := False\<rparr>, s)
            | Inl e \<Rightarrow> Some (rt\<lparr>rt_error_msg := True, rt_local := rt_local rt @ [conv x]\<rparr>, s)))"

fun resend_run :: "('a, 'e, 's) sender \<Rightarrow> ('i \<Rightarrow> bool) \<Rightarrow> ('i \<Rightarrow> 'a) \<Rightarrow> 'i option list \<Rightarrow> 'a resend \<Rightarrow> 's \<Rightarrow>
    ('a resend \<times> 's) option" where
  "resend_run send is_kill conv [] rt s = Some (rt, s)"
| "resend_run send is_kill conv (inp # inps) rt s =
     (if rt_stopped rt then Some (rt, s)
      else Option.bind (resend_step send is_kill conv inp rt s) (\<lambda>(rt, s). resend_run send is_kill conv inps rt s))"

text \<open>The elements the loop takes before it stops.\<close>

fun accepted :: "('i \<Rightarrow> bool) \<Rightarrow> ('i \<Rightarrow> 'a) \<Rightarrow> 'i option list \<Rightarrow> 'a list" where
  "accepted is_kill conv [] = []"
| "accepted is_kill conv (None # inps) = accepted is_kill conv inps"
| "accepted is_kill conv (Some x # inps) = (if is_kill x then [] else conv x # accepted is_kill conv inps)"

lemma accepted_takeWhile:
  "accepted is_kill conv inps = map conv (takeWhile (\<lambda>x. \<not> is_kill x) (List.map_filter id inps))"
proof (induction inps)
  case (Cons inp inps)
  then show ?case by (cases inp) (simp_all add: List.map_filter_simps)
qed (simp add: List.map_filter_simps)

lemma resend_step_stopped:
  "resend_step send is_kill conv inp rt s = Some (rt', s') \<Longrightarrow>
   rt_stopped rt' \<longleftrightarrow> rt_stopped rt \<or> (\<exists>x. inp = Some x \<and> is_kill x)"
proof (cases inp)
  case (Some x)
  assume st: "resend_step send is_kill conv inp rt s = Some (rt', s')"
  show ?thesis
  proof (cases "is_kill x")
    case False
    with st Some obtain r s1 where "send (conv x) s = Some (r, s1)" by (auto simp: resend_step_def bind_eq_Some_conv)
    with st Some False show ?thesis by (cases r) (auto simp: resend_step_def)
  qed (use st Some in \<open>auto simp: resend_step_def bind_eq_Some_conv\<close>)
qed (auto simp: resend_step_def bind_eq_Some_conv)

lemma resend_run_snoc:
  "resend_run send is_kill conv inps rt s = Some (rt1, s1) \<Longrightarrow> \<not> rt_stopped rt1 \<Longrightarrow>
   resend_run send is_kill conv (inps @ [inp]) rt s = resend_step send is_kill conv inp rt1 s1"
proof (induction inps arbitrary: rt s)
  case Nil
  have "(case r of None \<Rightarrow> None | Some (rt, s) \<Rightarrow> Some (rt, s)) = r" for r :: "('a resend \<times> 's) option" by (cases r) auto
  with Nil show ?case by (cases "resend_step send is_kill conv inp rt s") auto
next
  case (Cons i inps)
  then show ?case by (auto simp: bind_eq_Some_conv split: if_splits)
qed

text \<open>A property of the sink that sending keeps: the loop is the same when sending is only asked in it.\<close>

definition only_when :: "('s \<Rightarrow> bool) \<Rightarrow> ('a, 'e, 's) sender \<Rightarrow> ('a, 'e, 's) sender" where
  "only_when P send x s = (if P s then send x s else None)"

definition sending_keeps :: "('s \<Rightarrow> bool) \<Rightarrow> ('a, 'e, 's) sender \<Rightarrow> bool" where
  "sending_keeps P send = (\<forall>x s r s'. P s \<longrightarrow> send x s = Some (r, s') \<longrightarrow> P s')"

lemma flush_local_only_when:
  assumes "sending_keeps P send"
  shows "P s \<Longrightarrow> flush_local (only_when P send) xs s = flush_local send xs s
     \<and> (\<forall>l s'. flush_local send xs s = Some (l, s') \<longrightarrow> P s')"
proof (induction xs arbitrary: s)
  case (Cons x xs)
  show ?case
  proof (cases "send x s")
    case None
    with Cons.prems show ?thesis by (simp add: only_when_def)
  next
    case (Some a)
    obtain r s1 where a: "a = (r, s1)" by (cases a)
    with assms Cons.prems Some have "P s1" unfolding sending_keeps_def by blast
    with Cons.IH [of s1] Cons.prems Some a show ?thesis by (cases r) (auto simp: only_when_def)
  qed
qed simp

lemma resend_step_only_when:
  assumes "sending_keeps P send" "P s"
  shows "resend_step (only_when P send) is_kill conv inp rt s = resend_step send is_kill conv inp rt s"
    "resend_step send is_kill conv inp rt s = Some (rt', s') \<Longrightarrow> P s'"
proof -
  note f = flush_local_only_when [OF assms, of "rt_local rt"]
  show "resend_step (only_when P send) is_kill conv inp rt s = resend_step send is_kill conv inp rt s"
    using f assms(2) by (simp add: resend_step_def only_when_def split: option.splits)
  show "P s'" if "resend_step send is_kill conv inp rt s = Some (rt', s')"
  proof (cases "inp = None \<or> is_kill (the inp)")
    case True
    with that f show ?thesis by (auto simp: resend_step_def bind_eq_Some_conv split: option.splits)
  next
    case False
    then obtain x where x: "inp = Some x" "\<not> is_kill x" by auto
    with that obtain r s1 where r: "send (conv x) s = Some (r, s1)"
      by (auto simp: resend_step_def bind_eq_Some_conv)
    with that x have "s' = s1" by (cases r) (simp_all add: resend_step_def)
    with assms r show ?thesis by (auto simp: sending_keeps_def)
  qed
qed

lemma resend_run_only_when:
  assumes "sending_keeps P send"
  shows "P s \<Longrightarrow> resend_run (only_when P send) is_kill conv inps rt s = resend_run send is_kill conv inps rt s"
proof (induction inps arbitrary: rt s)
  case (Cons inp inps)
  note st = resend_step_only_when [OF assms Cons.prems, of is_kill conv inp rt]
  show ?case
  proof (cases "resend_step send is_kill conv inp rt s")
    case None
    with st(1) show ?thesis by simp
  next
    case (Some a)
    obtain rt1 s1 where a: "a = (rt1, s1)" by (cases a)
    with st(2) Some have "P s1" by blast
    with Cons.IH st(1) Some a show ?thesis by simp
  qed
qed simp

text \<open>A turn returns when sending does.\<close>

lemma flush_local_total: "\<forall>x st. send x st \<noteq> None \<Longrightarrow> flush_local send xs st \<noteq> None"
proof (induction xs arbitrary: st)
  case (Cons x xs)
  then obtain r st1 where "send x st = Some (r, st1)" by (metis not_None_eq surj_pair)
  with Cons show ?case by (auto split: sum.split)
qed simp

lemma resend_step_total:
  assumes "\<forall>x st. send x st \<noteq> None"
  shows "resend_step send is_kill conv inp rt st \<noteq> None"
proof (cases "inp = None \<or> is_kill (the inp)")
  case True
  with flush_local_total [OF assms, of "rt_local rt" st] show ?thesis
    by (auto simp: resend_step_def split: option.splits)
next
  case False
  then obtain x r st1 where "inp = Some x" "\<not> is_kill x" "send (conv x) st = Some (r, st1)"
    using assms by (metis not_None_eq option.sel surj_pair)
  then show ?thesis by (simp add: resend_step_def split: sum.split)
qed

subsection \<open>The interface of the sinks\<close>

locale reliable_sink =
  fixes send :: "('a, 'e, 's) sender"
    and out :: "'s \<Rightarrow> 'o list"
    and carries :: "'o \<Rightarrow> 'a \<Rightarrow> bool"
  assumes send_Inr: "send x s = Some (Inr u, s') \<Longrightarrow> \<exists>y. out s' = out s @ [y] \<and> carries y x"
    and send_Inl: "send x s = Some (Inl e, s') \<Longrightarrow> out s' = out s"
begin

text \<open>Between \<open>s\<close> and \<open>s'\<close> the sink put out the elements \<open>xs\<close>, in order.\<close>

definition put_out :: "'s \<Rightarrow> 's \<Rightarrow> 'a list \<Rightarrow> bool" where
  "put_out s s' xs = (\<exists>ys. out s' = out s @ ys \<and> list_all2 carries ys xs)"

lemma put_out_refl: "put_out s s []"
  by (simp add: put_out_def)

lemma put_out_trans: "put_out s s' xs \<Longrightarrow> put_out s' s'' ys \<Longrightarrow> put_out s s'' (xs @ ys)"
  by (auto simp: put_out_def intro: list_all2_appendI)

lemma put_out_send: "send x s = Some (r, s') \<Longrightarrow> put_out s s' (case r of Inl e \<Rightarrow> [] | Inr u \<Rightarrow> [x])"
  using send_Inr [of x s _ s'] send_Inl [of x s _ s'] by (auto simp: put_out_def split: sum.split)

lemma flush_local_put_out:
  "flush_local send l s = Some (l', s') \<Longrightarrow> \<exists>d. l = d @ l' \<and> put_out s s' d"
proof (induction l arbitrary: s)
  case Nil
  then show ?case by (auto intro: put_out_refl)
next
  case (Cons x xs)
  then obtain r s1 where r: "send x s = Some (r, s1)" by (auto split: option.splits)
  note p = put_out_send [OF r]
  show ?case
  proof (cases r)
    case (Inl e)
    with Cons.prems r p show ?thesis by auto
  next
    case (Inr u)
    with Cons.prems r have "flush_local send xs s1 = Some (l', s')" by simp
    from Cons.IH [OF this] obtain d where "xs = d @ l'" "put_out s1 s' d" by blast
    with p Inr put_out_trans [of s s1 "[x]" s' d] show ?thesis by auto
  qed
qed

lemma resend_step_accounts:
  assumes "resend_step send is_kill conv inp rt s = Some (rt', s')"
  shows "\<exists>d. put_out s s' d \<and> mset d + mset (rt_local rt') = mset (rt_local rt) + mset (accepted is_kill conv [inp])
     \<and> (rt_stopped rt' \<longleftrightarrow> rt_stopped rt \<or> (\<exists>x. inp = Some x \<and> is_kill x))"
proof (cases inp)
  case None
  with assms obtain l where l: "flush_local send (rt_local rt) s = Some (l, s')" "rt' = rt\<lparr>rt_local := l\<rparr>"
    by (auto simp: resend_step_def bind_eq_Some_conv)
  from flush_local_put_out [OF l(1)] None l(2) show ?thesis by auto
next
  case (Some x)
  show ?thesis
  proof (cases "is_kill x")
    case True
    with assms Some obtain l where l: "flush_local send (rt_local rt) s = Some (l, s')"
        "rt' = rt\<lparr>rt_local := l, rt_stopped := True\<rparr>"
      by (auto simp: resend_step_def bind_eq_Some_conv)
    from flush_local_put_out [OF l(1)] Some True l(2) show ?thesis by auto
  next
    case False
    with assms Some obtain r s1 where r1: "send (conv x) s = Some (r, s1)"
      by (auto simp: resend_step_def bind_eq_Some_conv)
    with assms Some False have r: "send (conv x) s = Some (r, s')"
      by (auto simp: resend_step_def split: sum.splits)
    from put_out_send [OF r] assms Some False r show ?thesis
      by (cases r) (auto simp: resend_step_def intro!: exI)
  qed
qed

text \<open>Nothing is lost: every element taken has been put out, once, or waits in the local queue.\<close>

lemma resend_run_accounts:
  "resend_run send is_kill conv inps rt s = Some (rt', s') \<Longrightarrow> \<not> rt_stopped rt \<Longrightarrow>
   \<exists>d. put_out s s' d \<and> mset d + mset (rt_local rt') = mset (rt_local rt) + mset (accepted is_kill conv inps)"
proof (induction inps arbitrary: rt s)
  case Nil
  then show ?case by (auto intro: put_out_refl)
next
  case (Cons inp inps)
  then obtain rt1 s1 where 1: "resend_step send is_kill conv inp rt s = Some (rt1, s1)"
    and 2: "resend_run send is_kill conv inps rt1 s1 = Some (rt', s')"
    by (auto simp: bind_eq_Some_conv)
  from resend_step_accounts [OF 1] Cons.prems(2) obtain d where
    d: "put_out s s1 d" "mset d + mset (rt_local rt1) = mset (rt_local rt) + mset (accepted is_kill conv [inp])"
    "rt_stopped rt1 \<longleftrightarrow> (\<exists>x. inp = Some x \<and> is_kill x)" by auto
  show ?case
  proof (cases "rt_stopped rt1")
    case True
    with d(3) 2 have "rt' = rt1" "s' = s1" "accepted is_kill conv (inp # inps) = accepted is_kill conv [inp]"
      by (cases inps; force)+
    with d show ?thesis by auto
  next
    case False
    with Cons.IH [OF 2] obtain d' where
      d': "put_out s1 s' d'" "mset d' + mset (rt_local rt') = mset (rt_local rt1) + mset (accepted is_kill conv inps)"
      by blast
    have "mset (accepted is_kill conv (inp # inps)) = mset (accepted is_kill conv [inp]) + mset (accepted is_kill conv inps)"
      using d(3) False by (cases inp) auto
    with d(2) d'(2) have "mset (d @ d') + mset (rt_local rt') = mset (rt_local rt) + mset (accepted is_kill conv (inp # inps))"
      by (simp add: union_assoc)
    with put_out_trans [OF d(1) d'(1)] show ?thesis by blast
  qed
qed

text \<open>While no sending fails, the elements go out in the order in which they came.\<close>

lemma resend_run_in_order:
  assumes never: "\<And>x s r s'. send x s = Some (r, s') \<Longrightarrow> \<exists>u. r = Inr u"
  shows "resend_run send is_kill conv inps rt s = Some (rt', s') \<Longrightarrow> rt_local rt = [] \<Longrightarrow> \<not> rt_stopped rt \<Longrightarrow>
     rt_local rt' = [] \<and> put_out s s' (accepted is_kill conv inps)"
proof (induction inps arbitrary: rt s)
  case Nil
  then show ?case by (auto intro: put_out_refl)
next
  case (Cons inp inps)
  then obtain rt1 s1 where 1: "resend_step send is_kill conv inp rt s = Some (rt1, s1)"
    and 2: "resend_run send is_kill conv inps rt1 s1 = Some (rt', s')"
    by (auto simp: bind_eq_Some_conv)
  show ?case
  proof (cases "\<exists>x. inp = Some x \<and> \<not> is_kill x")
    case False
    with 1 Cons.prems(2,3) have s: "s1 = s" "rt_local rt1 = []" "rt_stopped rt1 \<longleftrightarrow> inp \<noteq> None"
      by (auto simp: resend_step_def split: option.splits if_splits)
    show ?thesis
    proof (cases inp)
      case None
      with s Cons.IH [OF 2] show ?thesis by simp
    next
      case (Some x)
      with False have "is_kill x" by auto
      with Some s 2 show ?thesis by (cases inps) (auto intro: put_out_refl)
    qed
  next
    case True
    then obtain x where x: "inp = Some x" "\<not> is_kill x" by auto
    with 1 obtain r s2 where "send (conv x) s = Some (r, s2)"
      by (auto simp: resend_step_def bind_eq_Some_conv)
    with 1 x have r: "send (conv x) s = Some (r, s1)"
      by (auto simp: resend_step_def split: sum.splits)
    with never obtain u where "r = Inr u" by blast
    with 1 x r Cons.prems(2,3) have "rt_local rt1 = []" "\<not> rt_stopped rt1" "put_out s s1 [conv x]"
      using put_out_send [OF r] by (auto simp: resend_step_def)
    with Cons.IH [OF 2] x put_out_trans [of s s1 "[conv x]" s'] show ?thesis by auto
  qed
qed

end

end
