(* ===== verification/Unix_Socket.thy ===== *)
theory Unix_Socket
  imports Ctguard_Prelude
begin

text \<open>
  src/src/libs/unix_socket_client.cpp: the datagram client that carries events and intervention
  commands. The operating system is the parameter \<open>net\<close>, which answers each call by the number of
  calls made before it (\<open>ns_tick\<close>); what it accepted is \<open>ns_wire\<close>. A call that never returns
  has the value None.
\<close>

datatype errno = ENOTCONN | ECONNREFUSED | Other_errno nat

record net =
  net_socket :: "nat \<Rightarrow> (errno, int) res"
  net_connect :: "nat \<Rightarrow> int \<Rightarrow> string \<Rightarrow> (errno, unit) res"
  net_send :: "nat \<Rightarrow> int \<Rightarrow> string \<Rightarrow> (errno, nat) res"
  net_time :: "nat \<Rightarrow> int"

record net_state =
  ns_tick :: nat
  ns_wire :: "string list"
  ns_closed :: "int list"

record unix_client =
  us_path :: string
  us_socket :: int

datatype socket_error =
    Path_too_long nat nat
  | Can_not_create errno
  | Can_not_connect string errno
  | Send_error nat nat errno

abbreviation INVALID_SOCKET :: int where "INVALID_SOCKET \<equiv> - 1"

definition tick :: "net_state \<Rightarrow> net_state" where
  "tick s = s\<lparr>ns_tick := Suc (ns_tick s)\<rparr>"

definition sun_path_max :: nat where "sun_path_max = 107"

definition us_close :: "unix_client \<Rightarrow> net_state \<Rightarrow> net_state" where
  "us_close c s = (if us_socket c \<noteq> INVALID_SOCKET then s\<lparr>ns_closed := ns_closed s @ [us_socket c]\<rparr> else s)"

definition us_connect :: "net \<Rightarrow> unix_client \<Rightarrow> net_state \<Rightarrow> (socket_error, unit) res \<times> unix_client \<times> net_state" where
  "us_connect net c s =
     (case net_socket net (ns_tick s) of
        Inl e \<Rightarrow> (Inl (Can_not_create e), c\<lparr>us_socket := INVALID_SOCKET\<rparr>, tick s)
      | Inr fd \<Rightarrow>
          (let c = c\<lparr>us_socket := fd\<rparr>; s = tick s in
           case net_connect net (ns_tick s) fd (us_path c) of
             Inl e \<Rightarrow> (Inl (Can_not_connect (us_path c) e), c, tick s)
           | Inr _ \<Rightarrow> (Inr (), c, tick s)))"

definition us_create :: "net \<Rightarrow> string \<Rightarrow> net_state \<Rightarrow> (socket_error, unix_client) res \<times> net_state" where
  "us_create net path s =
     (if sun_path_max < length path then (Inl (Path_too_long (length path) sun_path_max), s)
      else (case us_connect net \<lparr>us_path = path, us_socket = INVALID_SOCKET\<rparr> s of
          (Inl e, _, s) \<Rightarrow> (Inl e, s)
        | (Inr _, c, s) \<Rightarrow> (Inr c, s)))"

text \<open>\<open>sendall\<close>: the error of the last call, if any, and the number of bytes sent.\<close>

partial_function (option) sendall :: "net \<Rightarrow> int \<Rightarrow> string \<Rightarrow> nat \<Rightarrow> net_state \<Rightarrow> ((errno option \<times> nat) \<times> net_state) option" where
  "sendall net fd buf sent s =
     (if length buf \<le> sent then Some ((None, sent), s)
      else (case net_send net (ns_tick s) fd (drop sent buf) of
          Inl e \<Rightarrow> Some ((Some e, sent), tick s)
        | Inr n \<Rightarrow> sendall net fd buf (sent + n)
            ((tick s)\<lparr>ns_wire := ns_wire s @ [take n (drop sent buf)]\<rparr>)))"

partial_function (option) us_send :: "net \<Rightarrow> string \<Rightarrow> unix_client \<Rightarrow> net_state \<Rightarrow>
    ((socket_error, unit) res \<times> unix_client \<times> net_state) option" where
  "us_send net message c s =
     Option.bind (sendall net (us_socket c) message 0 s) (\<lambda>((err, sent), s).
     case err of
       None \<Rightarrow> Some (Inr (), c, s)
     | Some e \<Rightarrow>
         if e = ENOTCONN \<or> e = ECONNREFUSED then
           (case us_connect net c (us_close c s) of
              (Inl ex, c, s) \<Rightarrow> Some (Inl ex, c, s)
            | (Inr _, c, s) \<Rightarrow> us_send net message c s)
         else Some (Inl (Send_error sent (length message) e), c, s))"

text \<open>Documented behaviour of datagram sockets: \<open>send\<close> accepts the whole message or fails.\<close>

definition datagram_net :: "net \<Rightarrow> bool" where
  "datagram_net net = (\<forall>t fd b n. net_send net t fd b = Inr n \<longrightarrow> n = length b)"

text \<open>The retry loop of \<open>send\<close> goes round as long as the message is refused, for want of a connection, by a socket that was
  just connected. \<open>refusals_end\<close> says of the system that it does not alternate so forever: of the rounds of three calls (send,
  socket, connect) that start at some call, in one the message is not refused or no new connection is made.\<close>

definition refuses :: "net \<Rightarrow> nat \<Rightarrow> int \<Rightarrow> string \<Rightarrow> bool" where
  "refuses net t fd msg = (\<exists>e. net_send net t fd msg = Inl e \<and> (e = ENOTCONN \<or> e = ECONNREFUSED))"

definition reconnects :: "net \<Rightarrow> nat \<Rightarrow> string \<Rightarrow> bool" where
  "reconnects net t path = (\<exists>fd. net_socket net t = Inr fd \<and> net_connect net (Suc t) fd path = Inr ())"

definition refusals_end :: "net \<Rightarrow> bool" where
  "refusals_end net =
     (\<forall>msg path t. \<exists>k. (\<forall>fd. \<not> refuses net (t + 3 * k) fd msg) \<or> \<not> reconnects net (Suc (t + 3 * k)) path)"

subsection \<open>Facts\<close>

lemma us_connect_wire: "us_connect net c s = (r, c', s') \<Longrightarrow> ns_wire s' = ns_wire s \<and> us_path c' = us_path c"
  by (auto simp: us_connect_def tick_def Let_def split: sum.splits)

lemma us_close_wire [simp]: "ns_wire (us_close c s) = ns_wire s"
  by (simp add: us_close_def)

lemma sendall_step:
  assumes "datagram_net net"
  shows "sendall net fd buf 0 s =
     (if buf = [] then Some ((None, 0), s)
      else (case net_send net (ns_tick s) fd buf of
          Inl e \<Rightarrow> Some ((Some e, 0), tick s)
        | Inr n \<Rightarrow> Some ((None, length buf), (tick s)\<lparr>ns_wire := ns_wire s @ [buf]\<rparr>)))"
proof -
  have "sendall net fd buf (length buf) st = Some ((None, length buf), st)" for st
    by (simp add: sendall.simps)
  moreover have "net_send net (ns_tick s) fd buf = Inr n \<Longrightarrow> n = length buf" for n
    using assms by (simp add: datagram_net_def)
  ultimately show ?thesis
    by (subst sendall.simps) (auto split: sum.split)
qed

definition us_sent :: "string \<Rightarrow> net_state \<Rightarrow> (socket_error, unit) res \<times> unix_client \<times> net_state \<Rightarrow> bool" where
  "us_sent m s r =
     (case r of
        (Inl e, c', s') \<Rightarrow> ns_wire s' = ns_wire s
      | (Inr u, c', s') \<Rightarrow> ns_wire s' = ns_wire s @ (if m = [] then [] else [m]))"

lemma us_sent_cong: "ns_wire s = ns_wire s' \<Longrightarrow> us_sent m s r = us_sent m s' r"
  by (auto simp: us_sent_def split: prod.splits sum.splits)

lemma us_send_sent: "us_send net m c s = Some r \<Longrightarrow> datagram_net net \<longrightarrow> us_sent m s r"
proof (rule us_send.raw_induct [where P = "\<lambda>net m c s r. datagram_net net \<longrightarrow> us_sent m s r"])
  fix rec net m c s r
  assume IH: "\<And>net m c s r. rec net m c s = Some r \<Longrightarrow> datagram_net net \<longrightarrow> us_sent m s r"
    and eq: "Option.bind (sendall net (us_socket c) m 0 s)
        (\<lambda>((err, sent), s). case err of None \<Rightarrow> Some (Inr (), c, s)
          | Some e \<Rightarrow>
              if e = ENOTCONN \<or> e = ECONNREFUSED
              then case us_connect net c (us_close c s) of
                   (Inl ex, c, s) \<Rightarrow> Some (Inl ex, c, s)
                 | (Inr x, c, s) \<Rightarrow> rec net m c s
              else Some (Inl (Send_error sent (length m) e), c, s)) = Some r"
  show "datagram_net net \<longrightarrow> us_sent m s r"
  proof
    assume dg: "datagram_net net"
    obtain err n s1 where sa: "sendall net (us_socket c) m 0 s = Some ((err, n), s1)"
      using eq by (auto simp: bind_eq_Some_conv)
    show "us_sent m s r"
    proof (cases err)
      case None
      with sa eq dg show ?thesis
        by (auto simp: us_sent_def sendall_step tick_def split: if_splits sum.splits)
    next
      case (Some e)
      with sa dg have w: "ns_wire s1 = ns_wire s"
        by (auto simp: sendall_step tick_def split: if_splits sum.splits)
      show ?thesis
      proof (cases "e = ENOTCONN \<or> e = ECONNREFUSED")
        case False
        with eq sa Some w show ?thesis by (auto simp: us_sent_def)
      next
        case True
        obtain x c2 s2 where cn: "us_connect net c (us_close c s1) = (x, c2, s2)"
          by (cases "us_connect net c (us_close c s1)") auto
        then have w2: "ns_wire s2 = ns_wire s" using w by (auto dest: us_connect_wire)
        show ?thesis
        proof (cases x)
          case (Inl ex)
          with eq sa Some True cn w2 show ?thesis by (auto simp: us_sent_def)
        next
          case (Inr u)
          with eq sa Some True cn have "rec net m c2 s2 = Some r" by auto
          from IH [OF this] dg have "us_sent m s2 r" by blast
          then show ?thesis using us_sent_cong [OF w2] by simp
        qed
      qed
    qed
  qed
qed

text \<open>
  A datagram client delivers a message once or not at all. When \<open>send\<close> returns, however often it
  had to reconnect, exactly the whole message has been added to what the receiver got; when it throws,
  nothing has been added.
\<close>

theorem unix_send_exactly_once:
  assumes "datagram_net net" and "us_send net m c s = Some (r, c', s')" and "m \<noteq> []"
  shows "ns_wire s' = ns_wire s @ (case r of Inl e \<Rightarrow> [] | Inr _ \<Rightarrow> [m])"
  using us_send_sent [OF assms(2)] assms(1,3) by (auto simp: us_sent_def split: sum.splits)

text \<open>The retry loop ends when the refusals end, and only then: on a system that refuses every message and
  accepts every connection, \<open>send\<close> never returns.\<close>

lemma us_send_round:
  assumes "datagram_net net" "\<not> refuses net (ns_tick s) (us_socket c) m"
  shows "us_send net m c s \<noteq> None"
  using assms(2) by (subst us_send.simps) (auto simp: sendall_step [OF assms(1)] refuses_def split: sum.splits)

lemma us_connect_cases:
  "(\<exists>e c' s'. us_connect net c s = (Inl e, c', s'))
   \<or> reconnects net (ns_tick s) (us_path c)
     \<and> (\<exists>c' s'. us_connect net c s = (Inr (), c', s') \<and> us_path c' = us_path c \<and> ns_tick s' = ns_tick s + 2)"
  by (auto simp: us_connect_def reconnects_def Let_def tick_def split: sum.split)

lemma us_close_tick [simp]: "ns_tick (us_close c s) = ns_tick s"
  by (simp add: us_close_def)

lemma us_send_rounds:
  assumes "datagram_net net"
    and "(\<forall>fd. \<not> refuses net (ns_tick s + 3 * k) fd m) \<or> \<not> reconnects net (Suc (ns_tick s + 3 * k)) (us_path c)"
  shows "us_send net m c s \<noteq> None"
  using assms(2)
proof (induction k arbitrary: c s rule: less_induct)
  case (less k)
  show ?case
  proof (cases "refuses net (ns_tick s) (us_socket c) m")
    case False
    then show ?thesis by (rule us_send_round [OF assms(1)])
  next
    case True
    then obtain e where e: "net_send net (ns_tick s) (us_socket c) m = Inl e" "e = ENOTCONN \<or> e = ECONNREFUSED"
      by (auto simp: refuses_def)
    let ?s = "us_close c (tick s)"
    have t: "ns_tick ?s = Suc (ns_tick s)" by (simp add: tick_def)
    have m: "us_send net m c s = (case us_connect net c ?s of (Inl ex, c, s) \<Rightarrow> Some (Inl ex, c, s) | (Inr _, c, s) \<Rightarrow> us_send net m c s)"
      if "m \<noteq> []" using e that by (subst us_send.simps) (auto simp: sendall_step [OF assms(1)])
    have n: "us_send net m c s \<noteq> None" if "m = []"
      using that by (subst us_send.simps) (simp add: sendall_step [OF assms(1)])
    from us_connect_cases [of net c ?s] show ?thesis
    proof
      assume "\<exists>ex c' s'. us_connect net c ?s = (Inl ex, c', s')"
      with m n show ?thesis by (cases "m = []") auto
    next
      assume "reconnects net (ns_tick ?s) (us_path c)
        \<and> (\<exists>c' s'. us_connect net c ?s = (Inr (), c', s') \<and> us_path c' = us_path c \<and> ns_tick s' = ns_tick ?s + 2)"
      then obtain c' s' where r: "reconnects net (Suc (ns_tick s)) (us_path c)" and c: "us_connect net c ?s = (Inr (), c', s')"
        and c': "us_path c' = us_path c" "ns_tick s' = ns_tick s + 3"
        unfolding t by auto
      from True r less.prems obtain j where j: "k = Suc j" by (cases k) auto
      have "us_send net m c' s' \<noteq> None"
        by (rule less.IH [of j]) (use less.prems in \<open>simp_all add: j c' add.assoc\<close>)
      with m n c show ?thesis by (cases "m = []") auto
    qed
  qed
qed

lemma us_send_returns: "datagram_net net \<Longrightarrow> refusals_end net \<Longrightarrow> us_send net m c s \<noteq> None"
  using us_send_rounds unfolding refusals_end_def by metis

text \<open>A net on which the first attempt fails because the receiver went away.\<close>

definition flaky_net :: net where
  "flaky_net =
     \<lparr>net_socket = (\<lambda>t. Inr 9), net_connect = (\<lambda>t fd p. Inr ()),
      net_send = (\<lambda>t fd b. if t = 0 then Inl ECONNREFUSED else Inr (length b)), net_time = int\<rparr>"

lemma flaky_datagram [simp]: "datagram_net flaky_net"
  by (simp add: datagram_net_def flaky_net_def)

lemma flaky_refusals_end: "refusals_end flaky_net"
proof -
  have "\<not> refuses flaky_net (t + 3 * 1) fd msg" for t fd msg by (simp add: refuses_def flaky_net_def)
  then show ?thesis unfolding refusals_end_def by blast
qed

lemma us_send_second_attempt:
  assumes "datagram_net net" and "m \<noteq> []" and "us_socket c \<noteq> INVALID_SOCKET"
    and "net_send net (ns_tick s) (us_socket c) m = Inl e" and "e = ENOTCONN \<or> e = ECONNREFUSED"
    and "net_socket net (Suc (ns_tick s)) = Inr fd" and "net_connect net (Suc (Suc (ns_tick s))) fd (us_path c) = Inr ()"
    and "net_send net (Suc (Suc (Suc (ns_tick s)))) fd m = Inr n"
  shows "us_send net m c s = Some (Inr (), c\<lparr>us_socket := fd\<rparr>,
    s\<lparr>ns_tick := ns_tick s + 4, ns_wire := ns_wire s @ [m], ns_closed := ns_closed s @ [us_socket c]\<rparr>)"
proof -
  let ?s = "tick (tick (us_close c (tick s)))" and ?c = "c\<lparr>us_socket := fd\<rparr>"
  have 1: "sendall net (us_socket c) m 0 s = Some ((Some e, 0), tick s)" using assms(1,2,4) by (simp add: sendall_step)
  have 2: "us_connect net c (us_close c (tick s)) = (Inr (), ?c, ?s)"
    using assms(3,6,7) by (simp add: us_connect_def us_close_def tick_def)
  have 3: "sendall net fd m 0 ?s = Some ((None, length m), (tick ?s)\<lparr>ns_wire := ns_wire s @ [m]\<rparr>)"
    using assms(1-3,8) by (simp add: sendall_step us_close_def tick_def)
  have "us_send net m c s = us_send net m ?c ?s"
    using assms(5) by (subst us_send.simps) (auto simp: 1 2)
  also have "\<dots> = Some (Inr (), ?c, (tick ?s)\<lparr>ns_wire := ns_wire s @ [m]\<rparr>)"
    by (subst us_send.simps) (simp add: 3)
  finally show ?thesis using assms(3) by (simp add: tick_def us_close_def)
qed

text \<open>
  The client reconnects. When the first attempt fails with ENOTCONN or ECONNREFUSED, a new socket
  can be connected and the second attempt succeeds, \<open>send\<close> returns normally with the message
  delivered and the new socket in use; the old one has been closed.
\<close>

theorem unix_send_reconnects:
  assumes "datagram_net net" and "m \<noteq> []" and "us_socket c \<noteq> INVALID_SOCKET"
    and "net_send net (ns_tick s) (us_socket c) m = Inl e" and "e = ENOTCONN \<or> e = ECONNREFUSED"
    and "net_socket net (Suc (ns_tick s)) = Inr fd" and "net_connect net (Suc (Suc (ns_tick s))) fd (us_path c) = Inr ()"
    and "net_send net (Suc (Suc (Suc (ns_tick s)))) fd m = Inr n"
  shows "\<exists>s'. us_send net m c s = Some (Inr (), c\<lparr>us_socket := fd\<rparr>, s')
     \<and> ns_wire s' = ns_wire s @ [m] \<and> ns_closed s' = ns_closed s @ [us_socket c]"
  using us_send_second_attempt [OF assms] by simp

theorem unix_send_exactly_once_witness:
  "\<exists>c' s'. us_send flaky_net ''hi'' \<lparr>us_path = ''p'', us_socket = 5\<rparr> \<lparr>ns_tick = 0, ns_wire = [], ns_closed = []\<rparr> = Some (Inr (), c', s')
     \<and> ns_wire s' = [''hi'']"
proof -
  let ?c = "\<lparr>us_path = ''p'', us_socket = 5\<rparr>" and ?s = "\<lparr>ns_tick = 0, ns_wire = [], ns_closed = []\<rparr> :: net_state"
  obtain c' s' where *: "us_send flaky_net ''hi'' ?c ?s = Some (Inr (), c', s')"
    using us_send_second_attempt [OF flaky_datagram, of "''hi''" ?c ?s ECONNREFUSED 9 2] by (simp add: flaky_net_def)
  from unix_send_exactly_once [OF flaky_datagram *] * show ?thesis by simp
qed

theorem unix_send_reconnects_witness:
  "\<exists>s'. us_send flaky_net ''hi'' \<lparr>us_path = ''p'', us_socket = 5\<rparr> \<lparr>ns_tick = 0, ns_wire = [], ns_closed = []\<rparr>
      = Some (Inr (), \<lparr>us_path = ''p'', us_socket = 9\<rparr>, s') \<and> ns_wire s' = [''hi''] \<and> ns_closed s' = [5]"
proof -
  have "net_send flaky_net 0 5 ''hi'' = Inl ECONNREFUSED" "net_socket flaky_net (Suc 0) = Inr 9"
    "net_connect flaky_net (Suc (Suc 0)) 9 ''p'' = Inr ()" "net_send flaky_net (Suc (Suc (Suc 0))) 9 ''hi'' = Inr 2"
    by (simp_all add: flaky_net_def)
  then show ?thesis
    using unix_send_reconnects [OF flaky_datagram, of "''hi''" "\<lparr>us_path = ''p'', us_socket = 5\<rparr>"
        "\<lparr>ns_tick = 0, ns_wire = [], ns_closed = []\<rparr>" ECONNREFUSED 9 2] by simp
qed

end
