(* ===== verification/Event_Sinks.thy ===== *)
theory Event_Sinks
  imports Resend_Task Unix_Socket Research_Types
begin

text \<open>
  The sinks of the three daemons (src/src/logscan/eventsink.cpp, src/src/diskscan/eventsink.cpp,
  src/src/research/intervention_sink.cpp) and the forwarding loops of the daemons on them. A file sink
  is the list of the texts appended to the file (a failing write of an \<open>ofstream\<close> raises no exception);
  a socket sink sends the cereal encoding, the parameter \<open>ser\<close>, over the datagram client.
\<close>

datatype sink =
    File_sink (fs_text: "string list")
  | Socket_sink (ss_client: unix_client) (ss_hostname: string) (ss_unit_test: bool)

type_synonym sink_state = "sink \<times> net_state"

definition sink_out :: "sink_state \<Rightarrow> string list" where
  "sink_out s = (case fst s of File_sink text \<Rightarrow> text | Socket_sink c h u \<Rightarrow> ns_wire (snd s))"

definition event_line :: "source_event \<Rightarrow> string" where
  "event_line se = '' ['' @ se_source_domain se @ ''] : '' @ se_message se @ [CHR 0x0A]"

text \<open>The event as the socket sink sends it.\<close>

definition stamp_event :: "bool \<Rightarrow> string \<Rightarrow> int \<Rightarrow> source_event \<Rightarrow> source_event" where
  "stamp_event unit_test hostname now se =
     (if unit_test then se\<lparr>se_time_send := 1, se_hostname := ''unittest''\<rparr>
      else se\<lparr>se_time_send := now, se_hostname := hostname\<rparr>)"

definition socket_send :: "net \<Rightarrow> string \<Rightarrow> sink \<Rightarrow> net_state \<Rightarrow> ((socket_error, unit) res \<times> sink_state) option" where
  "socket_send net msg k s =
     Option.bind (us_send net msg (ss_client k) s) (\<lambda>(r, c, s).
     Some (r, Socket_sink c (ss_hostname k) (ss_unit_test k), s))"

definition event_send :: "net \<Rightarrow> (source_event \<Rightarrow> string) \<Rightarrow> (source_event, socket_error, sink_state) sender" where
  "event_send net ser se ks =
     (case ks of
        (File_sink text, s) \<Rightarrow> Some (Inr (), File_sink (text @ [event_line se]), s)
      | (Socket_sink c h u, s) \<Rightarrow>
          socket_send net (ser (stamp_event u h (net_time net (ns_tick s)) se)) (Socket_sink c h u) s)"

record intervention_cmd =
  ic_name :: string
  ic_argument :: string

record intervention_t =
  it_name :: string
  it_argument :: string
  it_kill :: bool

definition cmd_line :: "intervention_cmd \<Rightarrow> string" where
  "cmd_line cmd = '' ['' @ ic_name cmd @ ''] : '' @ ic_argument cmd @ [CHR 0x0A]"

definition intervention_send :: "net \<Rightarrow> (intervention_cmd \<Rightarrow> string) \<Rightarrow> (intervention_cmd, socket_error, sink_state) sender" where
  "intervention_send net ser cmd ks =
     (case ks of
        (File_sink text, s) \<Rightarrow> Some (Inr (), File_sink (text @ [cmd_line cmd]), s)
      | (Socket_sink c h u, s) \<Rightarrow> socket_send net (ser cmd) (Socket_sink c h u) s)"

text \<open>The constructors: opening the file, or connecting the socket. \<open>opened\<close>: the file could be opened;
  \<open>host\<close>: the answer of \<open>gethostname\<close> (None when it fails; diskscan then uses a fallback).\<close>

datatype output_kind = Output_file | Output_socket

datatype sink_error = Can_not_open string | Sink_socket socket_error

definition create_sink :: "net \<Rightarrow> bool \<Rightarrow> string \<Rightarrow> string \<Rightarrow> output_kind \<Rightarrow> bool \<Rightarrow> net_state \<Rightarrow> (sink_error, sink) res \<times> net_state" where
  "create_sink net opened host path k unit_test s =
     (case k of
        Output_file \<Rightarrow> (if opened then (Inr (File_sink []), s) else (Inl (Can_not_open path), s))
      | Output_socket \<Rightarrow>
          (case us_create net path s of
             (Inl e, s) \<Rightarrow> (Inl (Sink_socket e), s)
           | (Inr c, s) \<Rightarrow> (Inr (Socket_sink c host unit_test), s)))"

definition diskscan_hostname :: "string option \<Rightarrow> string" where
  "diskscan_hostname host = (case host of None \<Rightarrow> ''_fallback_hostname'' | Some h \<Rightarrow> h)"

subsection \<open>The forwarding loops\<close>

definition se_is_kill :: "source_event \<Rightarrow> bool" where
  "se_is_kill se = (se_control_message se \<and> se_message se = ''!KILL'')"

definition logscan_output_task :: "net \<Rightarrow> (source_event \<Rightarrow> string) \<Rightarrow> source_event option list \<Rightarrow> sink_state \<Rightarrow>
    (source_event resend \<times> sink_state) option" where
  "logscan_output_task net ser inps = resend_run (event_send net ser) se_is_kill (\<lambda>se. se) inps resend_init"

definition diskscan_output_task :: "net \<Rightarrow> (source_event \<Rightarrow> string) \<Rightarrow> source_event option list \<Rightarrow> sink_state \<Rightarrow>
    (source_event resend \<times> sink_state) option" where
  "diskscan_output_task net ser inps = resend_run (event_send net ser) se_is_kill (\<lambda>se. se) inps resend_init"

definition to_cmd :: "intervention_t \<Rightarrow> intervention_cmd" where
  "to_cmd i = \<lparr>ic_name = it_name i, ic_argument = it_argument i\<rparr>"

definition intervention_task :: "net \<Rightarrow> (intervention_cmd \<Rightarrow> string) \<Rightarrow> intervention_t option list \<Rightarrow> sink_state \<Rightarrow>
    (intervention_cmd resend \<times> sink_state) option" where
  "intervention_task net ser inps = resend_run (intervention_send net ser) it_kill to_cmd inps resend_init"

text \<open>What a text or datagram tells the receiver.\<close>

definition carries_event :: "(source_event \<Rightarrow> string) \<Rightarrow> string \<Rightarrow> source_event \<Rightarrow> bool" where
  "carries_event ser y se = (y = event_line se \<or> (\<exists>t h. y = ser (se\<lparr>se_time_send := t, se_hostname := h\<rparr>)))"

definition carries_cmd :: "(intervention_cmd \<Rightarrow> string) \<Rightarrow> string \<Rightarrow> intervention_cmd \<Rightarrow> bool" where
  "carries_cmd ser y cmd = (y = cmd_line cmd \<or> y = ser cmd)"

text \<open>A cereal archive of a record with strings is never empty (it starts with a length).\<close>

definition cereal_ok :: "('a \<Rightarrow> string) \<Rightarrow> bool" where
  "cereal_ok ser = (\<forall>x. ser x \<noteq> [])"

subsection \<open>The file sinks are reliable sinks\<close>

definition file_event_send :: "(source_event, socket_error, string list) sender" where
  "file_event_send se text = Some (Inr (), text @ [event_line se])"

definition file_cmd_send :: "(intervention_cmd, socket_error, string list) sender" where
  "file_cmd_send cmd text = Some (Inr (), text @ [cmd_line cmd])"

interpretation file_events: reliable_sink file_event_send id "\<lambda>y se. y = event_line se"
  by unfold_locales (auto simp: file_event_send_def)

interpretation file_cmds: reliable_sink file_cmd_send id "\<lambda>y cmd. y = cmd_line cmd"
  by unfold_locales (auto simp: file_cmd_send_def)

subsection \<open>All sinks are reliable on a datagram network\<close>

lemma socket_send_out:
  assumes "datagram_net net" "msg \<noteq> []" "socket_send net msg (Socket_sink c h u) s = Some (r, s')"
  shows "sink_out s' = sink_out (Socket_sink c h u, s) @ (case r of Inl e \<Rightarrow> [] | Inr _ \<Rightarrow> [msg])"
proof -
  obtain c' s1 where "us_send net msg c s = Some (r, c', s1)" "s' = (Socket_sink c' h u, s1)"
    using assms(3) by (auto simp: socket_send_def bind_eq_Some_conv)
  with us_send_sent [of net msg c s] assms(1,2) show ?thesis
    by (auto simp: us_sent_def sink_out_def split: sum.splits)
qed

lemma event_send_cases:
  assumes "datagram_net net" "cereal_ok ser" "event_send net ser x s = Some (r, s')"
  shows "(\<exists>u. r = Inr u \<and> sink_out s' = sink_out s @ [event_line x])
    \<or> (\<exists>t h. sink_out s' = sink_out s @ (case r of Inl e \<Rightarrow> [] | Inr _ \<Rightarrow> [ser (x\<lparr>se_time_send := t, se_hostname := h\<rparr>)]))"
proof -
  obtain k ns where s: "s = (k, ns)" by (cases s)
  show ?thesis
  proof (cases k)
    case (File_sink txt_lines)
    with assms(3) s show ?thesis by (simp add: event_send_def sink_out_def) auto
  next
    case (Socket_sink c h u)
    let ?se = "stamp_event u h (net_time net (ns_tick ns)) x"
    have "socket_send net (ser ?se) (Socket_sink c h u) ns = Some (r, s')"
      using assms(3) s Socket_sink by (simp add: event_send_def)
    moreover have "ser ?se \<noteq> []" using assms(2) by (simp add: cereal_ok_def)
    moreover obtain t h' where st: "?se = x\<lparr>se_time_send := t, se_hostname := h'\<rparr>"
      by (cases u) (auto simp: stamp_event_def)
    ultimately have "sink_out s' = sink_out s @ (case r of Inl e \<Rightarrow> [] | Inr _ \<Rightarrow> [ser ?se])"
      using socket_send_out [OF assms(1), of "ser ?se" c h u ns r s'] s Socket_sink by simp
    then show ?thesis unfolding st by blast
  qed
qed

lemma event_send_reliable:
  assumes "datagram_net net" "cereal_ok ser"
  shows "reliable_sink (event_send net ser) sink_out (carries_event ser)"
proof
  fix x s u s'
  assume "event_send net ser x s = Some (Inr u, s')"
  from event_send_cases [OF assms this]
  show "\<exists>y. sink_out s' = sink_out s @ [y] \<and> carries_event ser y x" by (auto simp: carries_event_def)
next
  fix x s e s'
  assume "event_send net ser x s = Some (Inl e, s')"
  from event_send_cases [OF assms this] show "sink_out s' = sink_out s" by auto
qed

lemma intervention_send_cases:
  assumes "datagram_net net" "cereal_ok ser" "intervention_send net ser x s = Some (r, s')"
  shows "\<exists>y. (y = cmd_line x \<and> (\<exists>u. r = Inr u) \<or> y = ser x) \<and> sink_out s' = sink_out s @ (case r of Inl e \<Rightarrow> [] | Inr _ \<Rightarrow> [y])"
proof -
  obtain k ns where s: "s = (k, ns)" by (cases s)
  show ?thesis
  proof (cases k)
    case (File_sink txt_lines)
    with assms(3) s show ?thesis by (simp add: intervention_send_def sink_out_def) auto
  next
    case (Socket_sink c h u)
    have "socket_send net (ser x) (Socket_sink c h u) ns = Some (r, s')"
      using assms(3) s Socket_sink by (simp add: intervention_send_def)
    moreover have "ser x \<noteq> []" using assms(2) by (simp add: cereal_ok_def)
    ultimately show ?thesis
      using socket_send_out [OF assms(1), of "ser x" c h u ns r s'] s Socket_sink by auto
  qed
qed

lemma intervention_send_reliable:
  assumes "datagram_net net" "cereal_ok ser"
  shows "reliable_sink (intervention_send net ser) sink_out (carries_cmd ser)"
proof
  fix x s u s'
  assume "intervention_send net ser x s = Some (Inr u, s')"
  from intervention_send_cases [OF assms this]
  show "\<exists>y. sink_out s' = sink_out s @ [y] \<and> carries_cmd ser y x" by (auto simp: carries_cmd_def)
next
  fix x s e s'
  assume "intervention_send net ser x s = Some (Inl e, s')"
  from intervention_send_cases [OF assms this] show "sink_out s' = sink_out s" by auto
qed

text \<open>Sending ends on a net whose refusals end.\<close>

lemma socket_send_returns:
  assumes "datagram_net net" "refusals_end net"
  shows "socket_send net m k ns \<noteq> None"
  using us_send_returns [OF assms, of m "ss_client k" ns] by (auto simp: socket_send_def)

lemma event_send_returns:
  assumes "datagram_net net" "refusals_end net"
  shows "event_send net ser x k \<noteq> None"
  using socket_send_returns [OF assms] by (auto simp: event_send_def split: prod.split sink.split)

lemma intervention_send_returns:
  assumes "datagram_net net" "refusals_end net"
  shows "intervention_send net ser x k \<noteq> None"
  using socket_send_returns [OF assms] by (auto simp: intervention_send_def split: prod.split sink.split)

text \<open>A sink keeps the kind it was created with, and so what it puts out for an event.\<close>

definition of_kind :: "output_kind \<Rightarrow> sink_state \<Rightarrow> bool" where
  "of_kind kind k = (case fst k of File_sink out \<Rightarrow> kind = Output_file | Socket_sink c h u \<Rightarrow> kind = Output_socket)"

lemma create_sink_kind: "create_sink net opened host path kind unit_test ns = (Inr snk, ns') \<Longrightarrow> of_kind kind (snk, ns')"
  by (cases kind; cases "us_create net path ns"; cases "fst (us_create net path ns)")
    (auto simp: create_sink_def of_kind_def split: if_splits)

definition event_carried :: "output_kind \<Rightarrow> (source_event \<Rightarrow> string) \<Rightarrow> string \<Rightarrow> source_event \<Rightarrow> bool" where
  "event_carried kind ser y se =
     (case kind of Output_file \<Rightarrow> y = event_line se | Output_socket \<Rightarrow> \<exists>t h. y = ser (se\<lparr>se_time_send := t, se_hostname := h\<rparr>))"

lemma sending_keeps_event_kind: "sending_keeps (of_kind kind) (event_send net ser)"
  by (auto simp: sending_keeps_def of_kind_def event_send_def socket_send_def bind_eq_Some_conv split: sink.splits)

lemma only_event_cases:
  assumes "datagram_net net" "cereal_ok ser" "only_when (of_kind kind) (event_send net ser) x k = Some (r, k')"
  shows "\<exists>y. event_carried kind ser y x \<and> sink_out k' = sink_out k @ (case r of Inl e \<Rightarrow> [] | Inr _ \<Rightarrow> [y])"
proof -
  obtain snk ns where k: "k = (snk, ns)" by (cases k)
  from assms(3) have o: "of_kind kind k" "event_send net ser x k = Some (r, k')" by (simp_all add: only_when_def split: if_splits)
  show ?thesis
  proof (cases snk)
    case (File_sink out)
    with o k show ?thesis by (auto simp: of_kind_def event_carried_def event_send_def sink_out_def)
  next
    case (Socket_sink c h u)
    let ?se = "stamp_event u h (net_time net (ns_tick ns)) x"
    from o k Socket_sink have "socket_send net (ser ?se) (Socket_sink c h u) ns = Some (r, k')" "kind = Output_socket"
      by (simp_all add: of_kind_def event_send_def)
    moreover have "ser ?se \<noteq> []" using assms(2) by (simp add: cereal_ok_def)
    moreover have "event_carried Output_socket ser (ser ?se) x" by (cases u) (auto simp: event_carried_def stamp_event_def)
    ultimately show ?thesis using socket_send_out [OF assms(1), of "ser ?se" c h u ns r k'] k Socket_sink
      by (intro exI [of _ "ser ?se"]) (simp split: sum.split)
  qed
qed

lemma only_event_reliable:
  assumes "datagram_net net" "cereal_ok ser"
  shows "reliable_sink (only_when (of_kind kind) (event_send net ser)) sink_out (event_carried kind ser)"
  by unfold_locales (auto dest: only_event_cases [OF assms])

text \<open>A net on which everything succeeds.\<close>

definition ready_net :: net where
  "ready_net =
     \<lparr>net_socket = (\<lambda>t. Inr 9), net_connect = (\<lambda>t fd p. Inr ()), net_send = (\<lambda>t fd b. Inr (length b)), net_time = int\<rparr>"

lemma ready_datagram [simp]: "datagram_net ready_net"
  by (simp add: datagram_net_def ready_net_def)

lemma ready_refusals_end [simp]: "refusals_end ready_net"
  by (simp add: refusals_end_def refuses_def ready_net_def)

text \<open>
  No event is lost on the way out. Whatever the network does, when the forwarding loop of logscan
  or diskscan has taken some inputs, what its sink put out, in some order, together with the elements
  still in the local queue, are exactly the events taken (before the kill message): each is put out
  once or waits for the next attempt.
\<close>

theorem output_task_nothing_lost:
  assumes "datagram_net net" and "cereal_ok ser"
    and "logscan_output_task net ser inps s = Some (rt, s') \<or> diskscan_output_task net ser inps s = Some (rt, s')"
  shows "\<exists>ys es. sink_out s' = sink_out s @ ys \<and> list_all2 (carries_event ser) ys es
     \<and> mset es + mset (rt_local rt) = mset (accepted se_is_kill (\<lambda>se. se) inps)"
proof -
  note rel = event_send_reliable [OF assms(1,2)]
  have "resend_run (event_send net ser) se_is_kill (\<lambda>se. se) inps resend_init s = Some (rt, s')"
    using assms(3) by (simp add: logscan_output_task_def diskscan_output_task_def)
  from reliable_sink.resend_run_accounts [OF rel this] show ?thesis
    by (auto simp: resend_init_def reliable_sink.put_out_def [OF rel])
qed

definition demo_event :: source_event where
  "demo_event = default_source_event\<lparr>se_message := ''m''\<rparr>"

theorem output_task_nothing_lost_witness:
  "\<exists>ys es. list_all2 (carries_event (\<lambda>se. ''x'')) ys es \<and> mset es = mset [demo_event]"
proof -
  let ?ns = "\<lparr>ns_tick = 1, ns_wire = [], ns_closed = []\<rparr> :: net_state"
  have "logscan_output_task flaky_net (\<lambda>se. ''x'') [Some demo_event] (File_sink [], ?ns)
      = Some (resend_init, (File_sink [event_line demo_event], ?ns))"
    by (simp add: logscan_output_task_def resend_step_def resend_init_def event_send_def se_is_kill_def demo_event_def
        default_source_event_def)
  from output_task_nothing_lost [OF flaky_datagram _ disjI1 [OF this]] show ?thesis
    by (simp add: cereal_ok_def resend_init_def sink_out_def se_is_kill_def demo_event_def default_source_event_def) blast
qed

text \<open>
  No intervention is lost on the way out: the same for the interventions of the research daemon.
\<close>

theorem intervention_task_nothing_lost:
  assumes "datagram_net net" and "cereal_ok ser" and "intervention_task net ser inps s = Some (rt, s')"
  shows "\<exists>ys cmds. sink_out s' = sink_out s @ ys \<and> list_all2 (carries_cmd ser) ys cmds
     \<and> mset cmds + mset (rt_local rt) = mset (accepted it_kill to_cmd inps)"
proof -
  note rel = intervention_send_reliable [OF assms(1,2)]
  have "resend_run (intervention_send net ser) it_kill to_cmd inps resend_init s = Some (rt, s')"
    using assms(3) by (simp add: intervention_task_def)
  from reliable_sink.resend_run_accounts [OF rel this] show ?thesis
    by (auto simp: resend_init_def reliable_sink.put_out_def [OF rel])
qed

theorem intervention_task_nothing_lost_witness:
  "\<exists>ys cmds. list_all2 (carries_cmd (\<lambda>c. ''x'')) ys cmds \<and> mset cmds = mset [\<lparr>ic_name = ''ban'', ic_argument = ''1.2.3.4''\<rparr>]"
proof -
  let ?ns = "\<lparr>ns_tick = 1, ns_wire = [], ns_closed = []\<rparr> :: net_state"
  let ?i = "\<lparr>it_name = ''ban'', it_argument = ''1.2.3.4'', it_kill = False\<rparr>"
  have "intervention_task flaky_net (\<lambda>c. ''x'') [Some ?i] (File_sink [], ?ns)
      = Some (resend_init, (File_sink [cmd_line (to_cmd ?i)], ?ns))"
    by (simp add: intervention_task_def resend_step_def resend_init_def intervention_send_def)
  from intervention_task_nothing_lost [OF flaky_datagram _ this] show ?thesis
    by (simp add: cereal_ok_def resend_init_def sink_out_def to_cmd_def) blast
qed

end
