(* ===== verification/Daemon_Configs.thy ===== *)
theory Daemon_Configs
  imports Config_Parser Research_Types Event_Sinks
begin

text \<open>
  The four \<open>config.cpp\<close> files: reading the tree of the configuration parser into the configuration of
  research, logscan, intervention and diskscan. The options of a group are an \<open>unordered_map\<close>: the
  parameter \<open>ord\<close> lists them in the order of its iteration. \<open>file\<close> is the text of the file, None when
  it cannot be opened.
\<close>

datatype cfg_error =
    Can_not_open_config
  | Config_syntax config_error
  | Duplicate_top position
  | No_top_group string
  | Argument_count string nat
  | Invalid_argument_for string parse_error
  | Invalid_choice string string
  | Invalid_regex_for string
  | Regex_matches_everything string
  | Unknown_option string position
  | Unknown_group string position
  | Empty_group_key string position
  | No_command_given string
  | Options_out_of_bounds

type_synonym hash_order = "(string \<times> config_option) list \<Rightarrow> (string \<times> config_option) list"

definition iteration_order :: "hash_order \<Rightarrow> bool" where
  "iteration_order ord = (\<forall>xs. set (ord xs) = set xs)"

definition one_argument :: "config_option \<Rightarrow> (cfg_error, string) res" where
  "one_argument co =
     (case co_options co of [x] \<Rightarrow> Inr x | xs \<Rightarrow> Inl (Argument_count (co_key co) (length xs)))"

text \<open>\<open>options[0]\<close> without a check of the size.\<close>

definition first_argument :: "config_option \<Rightarrow> (cfg_error, string) res" where
  "first_argument co = (case co_options co of [] \<Rightarrow> Inl Options_out_of_bounds | x # xs \<Rightarrow> Inr x)"

definition integral_argument :: "string \<Rightarrow> string \<Rightarrow> (cfg_error, 'w::len word) res" where
  "integral_argument key x = map_error (Invalid_argument_for key) (parse_integral x)"

definition duration_argument :: "config_option \<Rightarrow> (cfg_error, 32 word) res" where
  "duration_argument co = map_error (Invalid_argument_for (co_key co)) (parse_second_duration (co_options co))"

definition bool_argument :: "string \<Rightarrow> string \<Rightarrow> (cfg_error, bool) res" where
  "bool_argument key x = map_error (Invalid_argument_for key) (parse_bool x)"

definition kind_argument :: "string \<Rightarrow> string \<Rightarrow> (cfg_error, output_kind) res" where
  "kind_argument key x =
     (if x = ''socket'' then Inr Output_socket
      else if x = ''file'' then Inr Output_file
      else Inl (Invalid_choice key x))"

text \<open>The loop over the top level groups: those of another name are skipped.\<close>

fun top_loop :: "string \<Rightarrow> (config_group \<Rightarrow> 'c \<Rightarrow> (cfg_error, 'c) res) \<Rightarrow> config_group list \<Rightarrow> bool \<Rightarrow> 'c \<Rightarrow> (cfg_error, 'c) res" where
  "top_loop name handle [] found cfg = (if found then Inr cfg else Inl (No_top_group name))"
| "top_loop name handle (g # gs) found cfg =
     (if cg_name g \<noteq> name then top_loop name handle gs found cfg
      else if found then Inl (Duplicate_top (cg_position g))
      else rbind (handle g cfg) (\<lambda>cfg. top_loop name handle gs True cfg))"

definition read_file :: "string option \<Rightarrow> (cfg_error, config_group) res" where
  "read_file file =
     (case file of None \<Rightarrow> Inl Can_not_open_config | Some text \<Rightarrow> map_error Config_syntax (config_parse text))"

subsection \<open>research\<close>

record research_config =
  rc_rules_file :: string
  rc_rules_directory :: string
  rc_log_path :: string
  rc_output_path :: string
  rc_input_path :: string
  rc_intervention_path :: string
  rc_intervention_kind :: output_kind
  rc_log_priority :: priority
  rc_mail :: bool
  rc_mail_interval :: "32 word"
  rc_mail_sample_time :: "32 word"
  rc_mail_max_sample_count :: "32 word"
  rc_mail_priority :: priority
  rc_mail_instant :: priority
  rc_mail_host :: string
  rc_mail_fromaddr :: string
  rc_mail_toaddr :: string
  rc_mail_replyaddr :: string
  rc_mail_port :: string

definition default_research_config :: research_config where
  "default_research_config =
     \<lparr>rc_rules_file = [], rc_rules_directory = ''/etc/ctguard/rules/'', rc_log_path = ''/var/log/ctguard/research.log'',
      rc_output_path = ''/var/log/ctguard/alerts.log'', rc_input_path = ''/run/ctguard/research.sock'',
      rc_intervention_path = ''/run/ctguard_intervention.sock'', rc_intervention_kind = Output_socket,
      rc_log_priority = 1, rc_mail = True, rc_mail_interval = 30, rc_mail_sample_time = 1,
      rc_mail_max_sample_count = 1000, rc_mail_priority = 4, rc_mail_instant = 7, rc_mail_host = ''localhost'',
      rc_mail_fromaddr = ''ctguard@localhost'', rc_mail_toaddr = ''root@localhost'',
      rc_mail_replyaddr = ''root@localhost'', rc_mail_port = ''25''\<rparr>"

definition research_path_option :: "config_option \<Rightarrow> research_config \<Rightarrow> (cfg_error, research_config) res option" where
  "research_path_option co cfg =
     (if co_key co = ''rules_file'' then Some (rbind (one_argument co) (\<lambda>x. Inr (cfg\<lparr>rc_rules_file := x\<rparr>)))
      else if co_key co = ''rules_directory'' then Some (rbind (one_argument co) (\<lambda>x. Inr (cfg\<lparr>rc_rules_directory := x\<rparr>)))
      else if co_key co = ''log_path'' then Some (rbind (one_argument co) (\<lambda>x. Inr (cfg\<lparr>rc_log_path := x\<rparr>)))
      else if co_key co = ''output_path'' then Some (rbind (one_argument co) (\<lambda>x. Inr (cfg\<lparr>rc_output_path := x\<rparr>)))
      else if co_key co = ''input_path'' then Some (rbind (one_argument co) (\<lambda>x. Inr (cfg\<lparr>rc_input_path := x\<rparr>)))
      else None)"

definition research_number_option :: "config_option \<Rightarrow> research_config \<Rightarrow> (cfg_error, research_config) res option" where
  "research_number_option co cfg =
     (if co_key co = ''log_priority'' then
        Some (rbind (one_argument co) (\<lambda>x. rbind (integral_argument (co_key co) x) (\<lambda>n. Inr (cfg\<lparr>rc_log_priority := n\<rparr>))))
      else if co_key co = ''mail'' then
        Some (rbind (first_argument co) (\<lambda>x. rbind (bool_argument (co_key co) x) (\<lambda>b. Inr (cfg\<lparr>rc_mail := b\<rparr>))))
      else if co_key co = ''mail_interval'' then
        Some (rbind (duration_argument co) (\<lambda>n. Inr (cfg\<lparr>rc_mail_interval := n\<rparr>)))
      else if co_key co = ''mail_sample_time'' then
        Some (rbind (duration_argument co) (\<lambda>n. Inr (cfg\<lparr>rc_mail_sample_time := n\<rparr>)))
      else if co_key co = ''mail_priority'' then
        Some (rbind (one_argument co) (\<lambda>x. rbind (integral_argument (co_key co) x) (\<lambda>n. Inr (cfg\<lparr>rc_mail_priority := n\<rparr>))))
      else if co_key co = ''mail_max_sample_count'' then
        Some (rbind (one_argument co) (\<lambda>x. rbind (integral_argument (co_key co) x) (\<lambda>n. Inr (cfg\<lparr>rc_mail_max_sample_count := n\<rparr>))))
      else if co_key co = ''mail_instant'' then
        Some (rbind (one_argument co) (\<lambda>x. rbind (integral_argument (co_key co) x) (\<lambda>n. Inr (cfg\<lparr>rc_mail_instant := n\<rparr>))))
      else None)"

definition research_text_option :: "config_option \<Rightarrow> research_config \<Rightarrow> (cfg_error, research_config) res option" where
  "research_text_option co cfg =
     (if co_key co = ''mail_port'' then Some (rbind (one_argument co) (\<lambda>x. Inr (cfg\<lparr>rc_mail_port := x\<rparr>)))
      else if co_key co = ''mail_host'' then Some (rbind (one_argument co) (\<lambda>x. Inr (cfg\<lparr>rc_mail_host := x\<rparr>)))
      else if co_key co = ''mail_fromaddr'' then Some (rbind (one_argument co) (\<lambda>x. Inr (cfg\<lparr>rc_mail_fromaddr := x\<rparr>)))
      else if co_key co = ''mail_replyaddr'' then Some (rbind (one_argument co) (\<lambda>x. Inr (cfg\<lparr>rc_mail_replyaddr := x\<rparr>)))
      else if co_key co = ''mail_toaddr'' then Some (rbind (one_argument co) (\<lambda>x. Inr (cfg\<lparr>rc_mail_toaddr := x\<rparr>)))
      else if co_key co = ''intervention_path'' then Some (rbind (one_argument co) (\<lambda>x. Inr (cfg\<lparr>rc_intervention_path := x\<rparr>)))
      else if co_key co = ''intervention_kind'' then
        Some (rbind (one_argument co) (\<lambda>x. rbind (kind_argument (co_key co) x) (\<lambda>k. Inr (cfg\<lparr>rc_intervention_kind := k\<rparr>))))
      else None)"

definition research_option :: "string \<times> config_option \<Rightarrow> research_config \<Rightarrow> (cfg_error, research_config) res" where
  "research_option a cfg =
     (case research_path_option (snd a) cfg of Some r \<Rightarrow> r | None \<Rightarrow>
      (case research_number_option (snd a) cfg of Some r \<Rightarrow> r | None \<Rightarrow>
       (case research_text_option (snd a) cfg of Some r \<Rightarrow> r | None \<Rightarrow>
          Inl (Unknown_option (fst a) (co_pos (snd a))))))"

definition no_subgroups :: "config_group \<Rightarrow> (cfg_error, unit) res" where
  "no_subgroups g = (case cg_subgroups g of [] \<Rightarrow> Inr () | b # _ \<Rightarrow> Inl (Unknown_group (cg_name b) (cg_position b)))"

definition research_top :: "hash_order \<Rightarrow> config_group \<Rightarrow> research_config \<Rightarrow> (cfg_error, research_config) res" where
  "research_top ord g cfg =
     rbind (fold_res research_option (ord (cg_options g)) cfg) (\<lambda>cfg.
     rbind (no_subgroups g) (\<lambda>_. Inr cfg))"

definition research_parse_config :: "hash_order \<Rightarrow> string option \<Rightarrow> (cfg_error, research_config) res" where
  "research_parse_config ord file =
     rbind (read_file file) (\<lambda>global.
     top_loop ''research'' (research_top ord) (cg_subgroups global) False default_research_config)"

subsection \<open>logscan\<close>

record logfile_config =
  lf_path :: string
  lf_timeout_alert :: "32 word"

record logscan_config =
  lc_log_files :: "logfile_config list"
  lc_check_interval :: "32 word"
  lc_state_file_interval :: "32 word"
  lc_output_kind :: output_kind
  lc_state_file :: string
  lc_output_path :: string
  lc_log_path :: string
  lc_systemd_socket :: string
  lc_systemd_input :: bool

definition default_logscan_config :: logscan_config where
  "default_logscan_config =
     \<lparr>lc_log_files = [], lc_check_interval = 1, lc_state_file_interval = 30, lc_output_kind = Output_socket,
      lc_state_file = ''/var/lib/ctguard/logscan.state'', lc_output_path = ''/run/ctguard/research.sock'',
      lc_log_path = ''/var/log/ctguard/logscan.log'', lc_systemd_socket = ''/run/systemd/journal/syslog'',
      lc_systemd_input = True\<rparr>"

text \<open>The option \<open>state_file_interval\<close> is stored in \<open>check_interval\<close>, as the code does.\<close>

definition logscan_option :: "string \<times> config_option \<Rightarrow> logscan_config \<Rightarrow> (cfg_error, logscan_config) res" where
  "logscan_option a cfg =
     (let key = fst a; co = snd a in
      if key = ''check_interval'' then
        rbind (duration_argument co) (\<lambda>n. Inr (cfg\<lparr>lc_check_interval := n\<rparr>))
      else if key = ''state_file_interval'' then
        rbind (first_argument co) (\<lambda>x. rbind (integral_argument key x) (\<lambda>n. Inr (cfg\<lparr>lc_check_interval := n\<rparr>)))
      else if key = ''state_file'' then rbind (one_argument co) (\<lambda>x. Inr (cfg\<lparr>lc_state_file := x\<rparr>))
      else if key = ''output_path'' then rbind (one_argument co) (\<lambda>x. Inr (cfg\<lparr>lc_output_path := x\<rparr>))
      else if key = ''log_path'' then rbind (one_argument co) (\<lambda>x. Inr (cfg\<lparr>lc_log_path := x\<rparr>))
      else if key = ''systemd_socket'' then rbind (one_argument co) (\<lambda>x. Inr (cfg\<lparr>lc_systemd_socket := x\<rparr>))
      else if key = ''output_kind'' then
        rbind (one_argument co) (\<lambda>x. rbind (kind_argument key x) (\<lambda>k. Inr (cfg\<lparr>lc_output_kind := k\<rparr>)))
      else if key = ''systemd_input'' then
        rbind (one_argument co) (\<lambda>x. rbind (bool_argument key x) (\<lambda>b. Inr (cfg\<lparr>lc_systemd_input := b\<rparr>)))
      else Inl (Unknown_option key (co_pos co)))"

definition logfile_option :: "string \<times> config_option \<Rightarrow> logfile_config \<Rightarrow> (cfg_error, logfile_config) res" where
  "logfile_option a lc =
     (if fst a = ''timeout_warning'' then
        rbind (duration_argument (snd a)) (\<lambda>n. Inr (lc\<lparr>lf_timeout_alert := n\<rparr>))
      else Inl (Unknown_option (co_key (snd a)) (co_pos (snd a))))"

definition logscan_subgroup :: "hash_order \<Rightarrow> config_group \<Rightarrow> logscan_config \<Rightarrow> (cfg_error, logscan_config) res" where
  "logscan_subgroup ord b cfg =
     (if cg_name b = ''logfile'' then
        (if cg_keyword b = [] then Inl (Empty_group_key (cg_name b) (cg_position b))
         else rbind (fold_res logfile_option (ord (cg_options b)) \<lparr>lf_path = cg_keyword b, lf_timeout_alert = 0\<rparr>) (\<lambda>lc.
              Inr (cfg\<lparr>lc_log_files := lc_log_files cfg @ [lc]\<rparr>)))
      else Inl (Unknown_group (cg_name b) (cg_position b)))"

definition logscan_top :: "hash_order \<Rightarrow> config_group \<Rightarrow> logscan_config \<Rightarrow> (cfg_error, logscan_config) res" where
  "logscan_top ord g cfg =
     rbind (fold_res logscan_option (ord (cg_options g)) cfg) (\<lambda>cfg.
     fold_res (logscan_subgroup ord) (cg_subgroups g) cfg)"

definition logscan_parse_config :: "hash_order \<Rightarrow> string option \<Rightarrow> (cfg_error, logscan_config) res" where
  "logscan_parse_config ord file =
     rbind (read_file file) (\<lambda>global.
     top_loop ''logscan'' (logscan_top ord) (cg_subgroups global) False default_logscan_config)"

subsection \<open>intervention\<close>

record intervention_action =
  ia_name :: string
  ia_command :: string
  ia_user :: string
  ia_group :: string
  ia_regex :: string
  ia_whitelist :: "string list"
  ia_command_timeout :: "32 word"

record intervention_config =
  ic_log_path :: string
  ic_input_path :: string
  ic_actions :: "intervention_action list"

definition default_intervention_config :: intervention_config where
  "default_intervention_config =
     \<lparr>ic_log_path = ''/var/log/ctguard/intervention.log'', ic_input_path = ''/run/ctguard_intervention.sock'', ic_actions = []\<rparr>"

definition intervention_option :: "string \<times> config_option \<Rightarrow> intervention_config \<Rightarrow> (cfg_error, intervention_config) res" where
  "intervention_option a cfg =
     (if fst a = ''input_path'' then rbind (one_argument (snd a)) (\<lambda>x. Inr (cfg\<lparr>ic_input_path := x\<rparr>))
      else if fst a = ''log_path'' then rbind (one_argument (snd a)) (\<lambda>x. Inr (cfg\<lparr>ic_log_path := x\<rparr>))
      else Inl (Unknown_option (fst a) (co_pos (snd a))))"

definition action_option :: "regex_lib \<Rightarrow> string \<times> config_option \<Rightarrow> intervention_action \<Rightarrow> (cfg_error, intervention_action) res" where
  "action_option rx a act =
     (let key = fst a; co = snd a in
      if key = ''command'' then rbind (one_argument co) (\<lambda>x. Inr (act\<lparr>ia_command := x\<rparr>))
      else if key = ''user'' then rbind (one_argument co) (\<lambda>x. Inr (act\<lparr>ia_user := x\<rparr>))
      else if key = ''group'' then rbind (one_argument co) (\<lambda>x. Inr (act\<lparr>ia_group := x\<rparr>))
      else if key = ''command_timeout'' then rbind (duration_argument co) (\<lambda>n. Inr (act\<lparr>ia_command_timeout := n\<rparr>))
      else if key = ''regex'' then
        rbind (one_argument co) (\<lambda>x. if rx_valid rx x then Inr (act\<lparr>ia_regex := x\<rparr>) else Inl (Invalid_regex_for x))
      else if key = ''whitelist'' then Inr (act\<lparr>ia_whitelist := co_options co\<rparr>)
      else Inl (Unknown_option (co_key co) (co_pos co)))"

definition intervention_subgroup :: "regex_lib \<Rightarrow> hash_order \<Rightarrow> config_group \<Rightarrow> intervention_config \<Rightarrow> (cfg_error, intervention_config) res" where
  "intervention_subgroup rx ord b cfg =
     (if cg_name b = ''action'' then
        (if cg_keyword b = [] then Inl (Empty_group_key (cg_name b) (cg_position b))
         else rbind (fold_res (action_option rx) (ord (cg_options b))
                \<lparr>ia_name = cg_keyword b, ia_command = [], ia_user = [], ia_group = [], ia_regex = [], ia_whitelist = [],
                 ia_command_timeout = 30\<rparr>) (\<lambda>act.
              if ia_command act = [] then Inl (No_command_given (ia_name act))
              else Inr (cfg\<lparr>ic_actions := ic_actions cfg @ [act]\<rparr>)))
      else Inl (Unknown_group (cg_name b) (cg_position b)))"

definition intervention_top :: "regex_lib \<Rightarrow> hash_order \<Rightarrow> config_group \<Rightarrow> intervention_config \<Rightarrow> (cfg_error, intervention_config) res" where
  "intervention_top rx ord g cfg =
     rbind (fold_res intervention_option (ord (cg_options g)) cfg) (\<lambda>cfg.
     fold_res (intervention_subgroup rx ord) (cg_subgroups g) cfg)"

definition intervention_parse_config :: "regex_lib \<Rightarrow> hash_order \<Rightarrow> string option \<Rightarrow> (cfg_error, intervention_config) res" where
  "intervention_parse_config rx ord file =
     rbind (read_file file) (\<lambda>global.
     top_loop ''intervention'' (intervention_top rx ord) (cg_subgroups global) False default_intervention_config)"

subsection \<open>diskscan\<close>

datatype scan_option = Scan_full

record watch =
  w_path :: string
  w_option :: scan_option
  w_recursive :: bool
  w_realtime :: bool
  w_check_diff :: bool

text \<open>The default \<open>std::regex\<close>, None here, matches nothing.\<close>

record diskscan_config =
  dc_watches :: "watch list"
  dc_db_path :: string
  dc_diffdb_path :: string
  dc_log_path :: string
  dc_output_path :: string
  dc_output_kind :: output_kind
  dc_realtime_ignore :: "string option"
  dc_scaninterval :: "64 word"
  dc_settle_time :: "16 word"
  dc_block_size :: "16 word"
  dc_max_diff_size :: "32 word"

definition default_diskscan_config :: diskscan_config where
  "default_diskscan_config =
     \<lparr>dc_watches = [], dc_db_path = ''/var/lib/ctguard/diskscan.db'', dc_diffdb_path = ''/var/lib/ctguard/diskscan_diff.db'',
      dc_log_path = ''/var/log/ctguard/diskscan.log'', dc_output_path = ''/run/ctguard/research.sock'',
      dc_output_kind = Output_socket, dc_realtime_ignore = None, dc_scaninterval = 6 * 60 * 60, dc_settle_time = 100,
      dc_block_size = 1000, dc_max_diff_size = 1048576\<rparr>"

definition diskscan_option :: "regex_lib \<Rightarrow> string \<times> config_option \<Rightarrow> diskscan_config \<Rightarrow> (cfg_error, diskscan_config) res" where
  "diskscan_option rx a cfg =
     (let key = fst a; co = snd a in
      if key = ''db_path'' then rbind (one_argument co) (\<lambda>x. Inr (cfg\<lparr>dc_db_path := x\<rparr>))
      else if key = ''diffdb_path'' then rbind (one_argument co) (\<lambda>x. Inr (cfg\<lparr>dc_diffdb_path := x\<rparr>))
      else if key = ''log_path'' then rbind (one_argument co) (\<lambda>x. Inr (cfg\<lparr>dc_log_path := x\<rparr>))
      else if key = ''output_path'' then rbind (one_argument co) (\<lambda>x. Inr (cfg\<lparr>dc_output_path := x\<rparr>))
      else if key = ''realtime_ignore'' then
        rbind (one_argument co) (\<lambda>x.
        if \<not> rx_valid rx x then Inl (Invalid_regex_for key)
        else if rx_search rx x ''TEstXXThisshouldNotMatch'' \<noteq> None then Inl (Regex_matches_everything key)
        else Inr (cfg\<lparr>dc_realtime_ignore := Some x\<rparr>))
      else if key = ''scaninterval'' then rbind (duration_argument co) (\<lambda>n. Inr (cfg\<lparr>dc_scaninterval := ucast n\<rparr>))
      else if key = ''settle_time'' then
        rbind (first_argument co) (\<lambda>x. rbind (integral_argument key x) (\<lambda>n. Inr (cfg\<lparr>dc_settle_time := n\<rparr>)))
      else if key = ''block_size'' then
        rbind (first_argument co) (\<lambda>x. rbind (integral_argument key x) (\<lambda>n. Inr (cfg\<lparr>dc_block_size := n\<rparr>)))
      else if key = ''max_diff_size'' then
        rbind (first_argument co) (\<lambda>x. rbind (integral_argument key x) (\<lambda>n. Inr (cfg\<lparr>dc_max_diff_size := n\<rparr>)))
      else if key = ''output_kind'' then
        rbind (one_argument co) (\<lambda>x. rbind (kind_argument key x) (\<lambda>k. Inr (cfg\<lparr>dc_output_kind := k\<rparr>)))
      else Inl (Unknown_option key (co_pos co)))"

definition flag_argument :: "config_option \<Rightarrow> (cfg_error, bool) res" where
  "flag_argument co =
     rbind (one_argument co) (\<lambda>x.
     if x = ''true'' then Inr True else if x = ''false'' then Inr False else Inl (Invalid_choice (co_key co) x))"

definition directory_option :: "string \<times> config_option \<Rightarrow> watch \<Rightarrow> (cfg_error, watch) res" where
  "directory_option a w =
     (let key = fst a; co = snd a in
      if key = ''recursive'' then rbind (flag_argument co) (\<lambda>b. Inr (w\<lparr>w_recursive := b\<rparr>))
      else if key = ''realtime'' then rbind (flag_argument co) (\<lambda>b. Inr (w\<lparr>w_realtime := b\<rparr>))
      else if key = ''checkdiff'' then rbind (flag_argument co) (\<lambda>b. Inr (w\<lparr>w_check_diff := b\<rparr>))
      else if key = ''checks'' then
        rbind (one_argument co) (\<lambda>x. if x = ''full'' then Inr (w\<lparr>w_option := Scan_full\<rparr>) else Inl (Invalid_choice key x))
      else Inl (Unknown_option key (co_pos co)))"

definition diskscan_subgroup :: "hash_order \<Rightarrow> config_group \<Rightarrow> diskscan_config \<Rightarrow> (cfg_error, diskscan_config) res" where
  "diskscan_subgroup ord b cfg =
     (if cg_name b = ''directory'' then
        (if cg_keyword b = [] then Inl (Empty_group_key (cg_name b) (cg_position b))
         else rbind (fold_res directory_option (ord (cg_options b))
                \<lparr>w_path = cg_keyword b, w_option = Scan_full, w_recursive = True, w_realtime = False, w_check_diff = False\<rparr>) (\<lambda>w.
              Inr (cfg\<lparr>dc_watches := dc_watches cfg @ [w]\<rparr>)))
      else Inl (Unknown_group (cg_name b) (cg_position b)))"

definition diskscan_top :: "regex_lib \<Rightarrow> hash_order \<Rightarrow> config_group \<Rightarrow> diskscan_config \<Rightarrow> (cfg_error, diskscan_config) res" where
  "diskscan_top rx ord g cfg =
     rbind (fold_res (diskscan_option rx) (ord (cg_options g)) cfg) (\<lambda>cfg.
     fold_res (diskscan_subgroup ord) (cg_subgroups g) cfg)"

definition diskscan_read_config :: "regex_lib \<Rightarrow> hash_order \<Rightarrow> string option \<Rightarrow> (cfg_error, diskscan_config) res" where
  "diskscan_read_config rx ord file =
     rbind (read_file file) (\<lambda>global.
     top_loop ''diskscan'' (diskscan_top rx ord) (cg_subgroups global) False default_diskscan_config)"

subsection \<open>What an accepted configuration is\<close>

text \<open>A parsed file: \<open>handle\<close> ran on the one group of the daemon, all other groups are of other programs.\<close>

lemma top_loop_one:
  "top_loop name handle gs True cfg = Inr cfg' \<Longrightarrow> cfg' = cfg \<and> (\<forall>g \<in> set gs. cg_name g \<noteq> name)"
  by (induction gs) (auto split: if_splits)

lemma top_loop_Inr:
  "top_loop name handle gs False cfg = Inr cfg' \<Longrightarrow>
   \<exists>pre g post. gs = pre @ g # post \<and> cg_name g = name \<and> handle g cfg = Inr cfg'
     \<and> (\<forall>h \<in> set (pre @ post). cg_name h \<noteq> name)"
proof (induction gs)
  case Nil
  then show ?case by simp
next
  case (Cons g gs)
  show ?case
  proof (cases "cg_name g = name")
    case False
    with Cons obtain pre h post where
      "gs = pre @ h # post" "cg_name h = name" "handle h cfg = Inr cfg'" "\<forall>x \<in> set (pre @ post). cg_name x \<noteq> name" by auto
    with False show ?thesis by (intro exI [of _ "g # pre"]) auto
  next
    case True
    with Cons.prems obtain c where c: "handle g cfg = Inr c" "top_loop name handle gs True c = Inr cfg'"
      by (auto simp: rbind_Inr_iff)
    with top_loop_one [OF c(2)] True show ?thesis by (intro exI [of _ "[]"]) auto
  qed
qed

lemma fold_res_each:
  "fold_res f xs s = Inr s' \<Longrightarrow> x \<in> set xs \<Longrightarrow> \<exists>t t'. f x t = Inr t'"
  by (induction xs arbitrary: s) (auto simp: rbind_Inr_iff)

text \<open>The parts of a configuration that a loop over options or groups does not touch.\<close>

lemma fold_res_keeps:
  assumes "fold_res f xs s = Inr s'" "\<And>x s t. f x s = Inr t \<Longrightarrow> proj t = proj s"
  shows "proj s' = proj s"
  using assms(1) by (rule fold_res_invariant [where P = "\<lambda>t. proj t = proj s"]) (auto dest: assms(2))

lemma logscan_option_interval:
  "logscan_option a c = Inr c' \<Longrightarrow> lc_state_file_interval c' = lc_state_file_interval c"
  by (auto simp: logscan_option_def Let_def rbind_Inr_iff split: if_splits)

lemma logscan_subgroup_interval:
  "logscan_subgroup ord b c = Inr c' \<Longrightarrow> lc_state_file_interval c' = lc_state_file_interval c"
  by (auto simp: logscan_subgroup_def rbind_Inr_iff split: if_splits)

text \<open>
  The interval of the state file cannot be configured. Whatever a logscan configuration says, an
  accepted configuration has the default of 30 turns: the option \<open>state_file_interval\<close> is stored as
  the check interval instead.
\<close>

theorem state_file_interval_ignored:
  assumes "logscan_parse_config ord file = Inr cfg"
  shows "lc_state_file_interval cfg = 30"
proof -
  from assms obtain gs where "top_loop ''logscan'' (logscan_top ord) gs False default_logscan_config = Inr cfg"
    by (auto simp: logscan_parse_config_def rbind_Inr_iff)
  then obtain g where "logscan_top ord g default_logscan_config = Inr cfg" by (auto dest: top_loop_Inr)
  then obtain c where
    1: "fold_res logscan_option (ord (cg_options g)) default_logscan_config = Inr c" and
    2: "fold_res (logscan_subgroup ord) (cg_subgroups g) c = Inr cfg"
    by (auto simp: logscan_top_def rbind_Inr_iff)
  have "lc_state_file_interval c = lc_state_file_interval default_logscan_config"
    using 1 logscan_option_interval by (rule fold_res_keeps)
  moreover have "lc_state_file_interval cfg = lc_state_file_interval c"
    using 2 logscan_subgroup_interval by (rule fold_res_keeps)
  ultimately show ?thesis by (simp add: default_logscan_config_def)
qed

definition demo_logscan :: string where
  "demo_logscan = ''logscan { check_interval = 7'' @ [CHR 0x0A] @ '' state_file_interval = 5 }''"

lemma demo_logscan_parsed: "config_parse demo_logscan =
   Inr (Config_group ''global'' [] (Position 1 0) []
     [Config_group ''logscan'' [] (Position 1 1)
       [(''check_interval'', \<lparr>co_key = ''check_interval'', co_options = [''7''], co_pos = Position 1 11\<rparr>),
        (''state_file_interval'', \<lparr>co_key = ''state_file_interval'', co_options = [''5''], co_pos = Position 2 2\<rparr>)] []])"
  by code_simp

lemma parse_demo: "parse_integral ''7'' = Inr (7 :: 32 word)" "parse_integral ''5'' = Inr (5 :: 32 word)"
  by (simp_all add: parse_integral_def stoul_def read_sign_def ulong_max_def ctype_defs digit_value_def
      unsigned_minus_1_eq_mask mask_eq_exp_minus_1)

lemmas demo_logscan_eval = logscan_parse_config_def read_file_def demo_logscan_parsed logscan_top_def logscan_option_def
  duration_argument_def first_argument_def integral_argument_def parse_second_duration_def parse_demo Let_def

theorem state_file_interval_ignored_witness:
  "\<exists>cfg. logscan_parse_config id (Some demo_logscan) = Inr cfg \<and> lc_state_file_interval cfg = 30"
proof -
  have "logscan_parse_config id (Some demo_logscan) = Inr (default_logscan_config\<lparr>lc_check_interval := 5\<rparr>)"
    by (simp add: demo_logscan_eval)
  from state_file_interval_ignored [OF this] this show ?thesis by blast
qed

text \<open>
  The check interval depends on the hash order. With both intervals configured, the check
  interval in force is the one of whichever option the unordered map iterates last: 7 seconds or 5.
\<close>

theorem check_interval_order_dependent:
  "map_sum id lc_check_interval (logscan_parse_config id (Some demo_logscan)) = Inr 5
   \<and> map_sum id lc_check_interval (logscan_parse_config rev (Some demo_logscan)) = Inr 7"
  by (simp add: demo_logscan_eval)

text \<open>The options of the research group.\<close>

definition research_keys :: "string list" where
  "research_keys = [''rules_file'', ''rules_directory'', ''log_path'', ''output_path'', ''input_path'', ''log_priority'',
     ''mail'', ''mail_interval'', ''mail_sample_time'', ''mail_priority'', ''mail_max_sample_count'', ''mail_instant'',
     ''mail_port'', ''mail_host'', ''mail_fromaddr'', ''mail_replyaddr'', ''mail_toaddr'', ''intervention_path'',
     ''intervention_kind'']"

lemma research_option_known: "research_option a c = Inr c' \<Longrightarrow> co_key (snd a) \<in> set research_keys"
  by (auto simp: research_option_def research_path_option_def research_number_option_def research_text_option_def
      research_keys_def split: if_splits)

text \<open>
  Only known research options are accepted. A research configuration that is accepted consists of
  exactly one group named research among the top level groups, that group has no subgroups, and each
  of its options is one of the documented ones: a misspelled option is never ignored.
\<close>

theorem research_config_known_options:
  assumes "research_parse_config ord (Some text) = Inr cfg" and "iteration_order ord"
  shows "\<exists>global pre g post. config_parse text = Inr global \<and> cg_subgroups global = pre @ g # post
     \<and> cg_name g = ''research'' \<and> (\<forall>h \<in> set (pre @ post). cg_name h \<noteq> ''research'')
     \<and> cg_subgroups g = [] \<and> (\<forall>a \<in> set (cg_options g). co_key (snd a) \<in> set research_keys)"
proof -
  from assms(1) obtain global where p: "config_parse text = Inr global"
    "top_loop ''research'' (research_top ord) (cg_subgroups global) False default_research_config = Inr cfg"
    by (auto simp: research_parse_config_def read_file_def rbind_Inr_iff)
  from top_loop_Inr [OF p(2)] obtain pre g post where
    g: "cg_subgroups global = pre @ g # post" "cg_name g = ''research''"
      "research_top ord g default_research_config = Inr cfg" "\<forall>h \<in> set (pre @ post). cg_name h \<noteq> ''research''" by blast
  then obtain c where c: "fold_res research_option (ord (cg_options g)) default_research_config = Inr c" "no_subgroups g = Inr ()"
    by (auto simp: research_top_def rbind_Inr_iff)
  have "co_key (snd a) \<in> set research_keys" if "a \<in> set (cg_options g)" for a
    using fold_res_each [OF c(1), of a] that assms(2) by (auto simp: iteration_order_def dest: research_option_known)
  moreover have "cg_subgroups g = []" using c(2) by (simp add: no_subgroups_def split: list.splits)
  ultimately show ?thesis using p(1) g(1,2,4) by blast
qed

lemma demo_research_parsed: "config_parse ''research { mail = false }'' =
   Inr (Config_group ''global'' [] (Position 1 0) []
     [Config_group ''research'' [] (Position 1 1)
       [(''mail'', \<lparr>co_key = ''mail'', co_options = [''false''], co_pos = Position 1 12\<rparr>)] []])"
  by code_simp

theorem research_config_known_options_witness:
  "\<exists>cfg. research_parse_config id (Some ''research { mail = false }'') = Inr cfg \<and> \<not> rc_mail cfg
     \<and> (\<exists>global. config_parse ''research { mail = false }'' = Inr global \<and> cg_subgroups global \<noteq> [])"
proof -
  have r: "research_parse_config id (Some ''research { mail = false }'') = Inr (default_research_config\<lparr>rc_mail := False\<rparr>)"
    by (simp add: research_parse_config_def read_file_def demo_research_parsed research_top_def no_subgroups_def
        research_option_def research_path_option_def research_number_option_def first_argument_def bool_argument_def
        parse_bool_def)
  from research_config_known_options [OF r] have
    "\<exists>global pre g post. config_parse ''research { mail = false }'' = Inr global \<and> cg_subgroups global = pre @ g # post"
    by (auto simp: iteration_order_def)
  with r show ?thesis by auto
qed

definition action_ok :: "regex_lib \<Rightarrow> intervention_action \<Rightarrow> bool" where
  "action_ok rx act = (ia_name act \<noteq> [] \<and> ia_command act \<noteq> [] \<and> (ia_regex act = [] \<or> rx_valid rx (ia_regex act)))"

lemma action_option_ok:
  "action_option rx a act = Inr act' \<Longrightarrow> ia_name act \<noteq> [] \<and> (ia_regex act = [] \<or> rx_valid rx (ia_regex act)) \<Longrightarrow>
   ia_name act' \<noteq> [] \<and> (ia_regex act' = [] \<or> rx_valid rx (ia_regex act'))"
  by (auto simp: action_option_def Let_def rbind_Inr_iff split: if_splits)

lemma intervention_subgroup_ok:
  assumes "intervention_subgroup rx ord b c = Inr c'" "\<forall>a \<in> set (ic_actions c). action_ok rx a"
  shows "\<forall>a \<in> set (ic_actions c'). action_ok rx a"
proof -
  from assms(1) obtain act where k: "cg_keyword b \<noteq> []" and
    f: "fold_res (action_option rx) (ord (cg_options b))
        \<lparr>ia_name = cg_keyword b, ia_command = [], ia_user = [], ia_group = [], ia_regex = [], ia_whitelist = [],
         ia_command_timeout = 30\<rparr> = Inr act"
    and c: "ia_command act \<noteq> []" "c' = c\<lparr>ic_actions := ic_actions c @ [act]\<rparr>"
    by (auto simp: intervention_subgroup_def rbind_Inr_iff split: if_splits)
  have "ia_name act \<noteq> [] \<and> (ia_regex act = [] \<or> rx_valid rx (ia_regex act))"
    using f by (rule fold_res_invariant) (use k in simp, rule action_option_ok)
  with c assms(2) show ?thesis by (auto simp: action_ok_def)
qed

text \<open>
  Interventions are complete. Every action of an accepted intervention configuration has a name
  and a command, and its regular expression, if any, is one that \<open>std::regex\<close> accepts.
\<close>

theorem intervention_actions_valid:
  assumes "intervention_parse_config rx ord file = Inr cfg"
  shows "\<forall>a \<in> set (ic_actions cfg). action_ok rx a"
proof -
  from assms obtain gs where "top_loop ''intervention'' (intervention_top rx ord) gs False default_intervention_config = Inr cfg"
    by (auto simp: intervention_parse_config_def rbind_Inr_iff)
  then obtain g where "intervention_top rx ord g default_intervention_config = Inr cfg" by (auto dest: top_loop_Inr)
  then obtain c where
    1: "fold_res intervention_option (ord (cg_options g)) default_intervention_config = Inr c" and
    2: "fold_res (intervention_subgroup rx ord) (cg_subgroups g) c = Inr cfg"
    by (auto simp: intervention_top_def rbind_Inr_iff)
  have "ic_actions c = ic_actions default_intervention_config"
    using 1 by (rule fold_res_keeps) (auto simp: intervention_option_def rbind_Inr_iff split: if_splits)
  then have "\<forall>a \<in> set (ic_actions c). action_ok rx a" by (simp add: default_intervention_config_def)
  with 2 show ?thesis by (rule fold_res_invariant) (rule intervention_subgroup_ok)
qed

definition demo_intervention :: string where
  "demo_intervention = ''intervention { action ban { command = drop } }''"

lemma demo_intervention_parsed: "config_parse demo_intervention =
   Inr (Config_group ''global'' [] (Position 1 0) []
     [Config_group ''intervention'' [] (Position 1 1) []
       [Config_group ''action'' ''ban'' (Position 1 16)
         [(''command'', \<lparr>co_key = ''command'', co_options = [''drop''], co_pos = Position 1 29\<rparr>)] []]])"
  by code_simp

theorem intervention_actions_valid_witness:
  "\<exists>cfg a. intervention_parse_config literal_rx id (Some demo_intervention) = Inr cfg
     \<and> ic_actions cfg = [a] \<and> action_ok literal_rx a"
proof -
  let ?a = "\<lparr>ia_name = ''ban'', ia_command = ''drop'', ia_user = [], ia_group = [], ia_regex = [], ia_whitelist = [],
     ia_command_timeout = 30\<rparr>"
  have r: "intervention_parse_config literal_rx id (Some demo_intervention) = Inr (default_intervention_config\<lparr>ic_actions := [?a]\<rparr>)"
    by (simp add: intervention_parse_config_def read_file_def demo_intervention_parsed intervention_top_def
        intervention_subgroup_def action_option_def one_argument_def default_intervention_config_def)
  from intervention_actions_valid [OF r] r show ?thesis by (simp add: default_intervention_config_def)
qed

end
