(* ===== verification/Send_Mail.thy ===== *)
theory Send_Mail
  imports Ctguard_Prelude
begin

text \<open>
  src/src/research/send_mail.cpp: the SMTP conversation that carries the alert mails. The operating
  system and the mail server are the parameter \<open>smtp\<close>, which answers each call on the connection by
  the number of calls made before it (\<open>sm_tick\<close>); the addresses of the server are numbers. The state
  keeps the bytes the kernel accepted and the descriptors that were closed.
\<close>

record smtp =
  sn_getaddrinfo :: "string \<Rightarrow> string \<Rightarrow> (int, nat list) res"
  sn_socket :: "nat \<Rightarrow> int"
  sn_connect :: "nat \<Rightarrow> int"
  sn_send :: "nat \<Rightarrow> string \<Rightarrow> (nat, nat) res"
  sn_recv :: "nat \<Rightarrow> (nat, string) res"
  sn_hostname :: string

record smtp_state =
  sm_tick :: nat
  sm_sent :: "string list"
  sm_closed :: "int list"

datatype mail_error =
    No_address_information string string int
  | Can_not_connect_server string string
  | No_welcome_message nat
  | Can_not_send string nat
  | No_response string nat
  | Receive_buffer_too_short string nat nat
  | Wrong_response string string string

type_synonym 'a smtp_action = "smtp_state \<Rightarrow> (mail_error, 'a) res \<times> smtp_state"

text \<open>The next statement runs only when no exception was thrown.\<close>

definition and_then :: "'a smtp_action \<Rightarrow> ('a \<Rightarrow> 'b smtp_action) \<Rightarrow> 'b smtp_action" where
  "and_then m f = (\<lambda>s. case m s of (Inl e, s) \<Rightarrow> (Inl e, s) | (Inr x, s) \<Rightarrow> f x s)"

definition crlf :: string where "crlf = [CHR 0x0D, CHR 0x0A]"

text \<open>\<open>::send\<close>: the number of bytes the kernel took is not looked at.\<close>

definition smtp_send :: "smtp \<Rightarrow> string \<Rightarrow> unit smtp_action" where
  "smtp_send net bytes = (\<lambda>s.
     case sn_send net (sm_tick s) bytes of
       Inl e \<Rightarrow> (Inl (Can_not_send bytes e), s\<lparr>sm_tick := Suc (sm_tick s)\<rparr>)
     | Inr n \<Rightarrow> (Inr (), s\<lparr>sm_tick := Suc (sm_tick s), sm_sent := sm_sent s @ [take n bytes]\<rparr>))"

text \<open>\<open>::recv\<close> into a buffer of \<open>buflen\<close> bytes, the check of its length and of the code it starts with.\<close>

definition smtp_expect :: "smtp \<Rightarrow> nat \<Rightarrow> string \<Rightarrow> string \<Rightarrow> unit smtp_action" where
  "smtp_expect net buflen cmd code = (\<lambda>s.
     let s' = s\<lparr>sm_tick := Suc (sm_tick s)\<rparr> in
     case sn_recv net (sm_tick s) of
       Inl e \<Rightarrow> (Inl (No_response cmd e), s')
     | Inr reply \<Rightarrow>
         (let got = take buflen reply in
          if buflen - 1 \<le> length got then (Inl (Receive_buffer_too_short cmd (length got) buflen), s')
          else if code \<noteq> take (length code) (c_str got) then (Inl (Wrong_response cmd code (c_str got)), s')
          else (Inr (), s')))"

definition send_cmd :: "smtp \<Rightarrow> string \<Rightarrow> string \<Rightarrow> unit smtp_action" where
  "send_cmd net cmd code = and_then (smtp_send net cmd) (\<lambda>_. smtp_expect net 2048 cmd code)"

definition envelop :: "string \<Rightarrow> string \<Rightarrow> string \<Rightarrow> string \<Rightarrow> string" where
  "envelop frm to subject replyto =
     ''From: '' @ frm @ crlf @ ''To: '' @ to @ crlf @ ''Subject: '' @ subject @ crlf
     @ ''X-Mailer: ctguard-notifier'' @ crlf @ ''Reply-To: '' @ replyto @ crlf @ crlf"

definition terminator :: string where "terminator = crlf @ ''.'' @ crlf"

definition send_mail_message :: "smtp \<Rightarrow> string \<Rightarrow> string \<Rightarrow> string \<Rightarrow> string \<Rightarrow> string \<Rightarrow> string \<Rightarrow> unit smtp_action" where
  "send_mail_message net frm to subject replyto msg code =
     and_then (smtp_send net (envelop frm to subject replyto)) (\<lambda>_.
     and_then (smtp_send net msg) (\<lambda>_.
     and_then (smtp_send net terminator) (\<lambda>_.
     smtp_expect net 256 [] code)))"

text \<open>The loop over the addresses. The result of \<open>::connect\<close> is compared with 1, not with -1.\<close>

fun connect_first :: "smtp \<Rightarrow> nat list \<Rightarrow> smtp_state \<Rightarrow> (nat \<times> int) option \<times> smtp_state" where
  "connect_first net [] s = (None, s)"
| "connect_first net (a # as) s =
     (let fd = sn_socket net a in
      if fd = - 1 then connect_first net as s
      else if sn_connect net a \<noteq> 1 then (Some (a, fd), s)
      else connect_first net as (s\<lparr>sm_closed := sm_closed s @ [fd]\<rparr>))"

definition smtp_conversation :: "smtp \<Rightarrow> string \<Rightarrow> string \<Rightarrow> string \<Rightarrow> string \<Rightarrow> string \<Rightarrow> unit smtp_action" where
  "smtp_conversation net frm to subject replyto msg =
     and_then (\<lambda>s. case sn_recv net (sm_tick s) of
         Inl e \<Rightarrow> (Inl (No_welcome_message e), s\<lparr>sm_tick := Suc (sm_tick s)\<rparr>)
       | Inr _ \<Rightarrow> (Inr (), s\<lparr>sm_tick := Suc (sm_tick s)\<rparr>)) (\<lambda>_.
     and_then (send_cmd net (''EHLO '' @ sn_hostname net @ crlf) ''250'') (\<lambda>_.
     and_then (send_cmd net (''MAIL From:<'' @ frm @ ''>'' @ crlf) ''250'') (\<lambda>_.
     and_then (send_cmd net (''RCPT To:<'' @ to @ ''>'' @ crlf) ''250'') (\<lambda>_.
     and_then (send_cmd net (''DATA'' @ crlf) ''354'') (\<lambda>_.
     and_then (send_mail_message net frm to subject replyto msg ''250'') (\<lambda>_.
     send_cmd net (''QUIT'' @ crlf) ''221''))))))"

definition send_mail :: "smtp \<Rightarrow> string \<Rightarrow> string \<Rightarrow> string \<Rightarrow> string \<Rightarrow> string \<Rightarrow> string \<Rightarrow> string \<Rightarrow> unit smtp_action" where
  "send_mail net server port frm to subject replyto msg = (\<lambda>s.
     case sn_getaddrinfo net server port of
       Inl e \<Rightarrow> (Inl (No_address_information server port e), s)
     | Inr addrs \<Rightarrow>
         (case connect_first net addrs s of
            (None, s) \<Rightarrow> (Inl (Can_not_connect_server server port), s)
          | (Some (a, fd), s) \<Rightarrow>
              (let (r, s) = smtp_conversation net frm to subject replyto msg s in
               (r, s\<lparr>sm_closed := sm_closed s @ [fd]\<rparr>))))"

subsection \<open>Facts\<close>

lemma and_then_Inr:
  "and_then m f s = (Inr y, s'') \<longleftrightarrow> (\<exists>x s'. m s = (Inr x, s') \<and> f x s' = (Inr y, s''))"
  by (auto simp: and_then_def split: prod.splits sum.splits)

text \<open>A kernel that takes all bytes of a call or none.\<close>

definition full_writes :: "smtp \<Rightarrow> bool" where
  "full_writes net = (\<forall>t b n. sn_send net t b = Inr n \<longrightarrow> n = length b)"

lemma smtp_send_Inr:
  "smtp_send net b s = (Inr u, s') \<Longrightarrow> full_writes net \<Longrightarrow>
   sm_sent s' = sm_sent s @ [b] \<and> sm_closed s' = sm_closed s"
  by (auto simp: smtp_send_def full_writes_def split: sum.splits)

lemma smtp_expect_Inr:
  "smtp_expect net buflen cmd code s = (Inr u, s') \<Longrightarrow>
   sm_sent s' = sm_sent s \<and> sm_closed s' = sm_closed s
   \<and> (\<exists>reply. sn_recv net (sm_tick s) = Inr reply \<and> take (length code) (c_str (take buflen reply)) = code)"
  by (auto simp: smtp_expect_def Let_def split: sum.splits if_splits)

lemma send_cmd_Inr:
  "send_cmd net cmd code s = (Inr u, s') \<Longrightarrow> full_writes net \<Longrightarrow>
   sm_sent s' = sm_sent s @ [cmd] \<and> sm_closed s' = sm_closed s"
  by (auto simp: send_cmd_def and_then_Inr dest!: smtp_send_Inr smtp_expect_Inr)

lemma send_mail_message_Inr:
  "send_mail_message net frm to subject replyto msg code s = (Inr u, s') \<Longrightarrow> full_writes net \<Longrightarrow>
   sm_sent s' = sm_sent s @ [envelop frm to subject replyto, msg, terminator] \<and> sm_closed s' = sm_closed s"
  by (auto simp: send_mail_message_def and_then_Inr dest!: smtp_send_Inr smtp_expect_Inr)

lemma smtp_conversation_Inr:
  "smtp_conversation net frm to subject replyto msg s = (Inr u, s') \<Longrightarrow> full_writes net \<Longrightarrow>
   sm_sent s' = sm_sent s @
     [''EHLO '' @ sn_hostname net @ crlf, ''MAIL From:<'' @ frm @ ''>'' @ crlf, ''RCPT To:<'' @ to @ ''>'' @ crlf,
      ''DATA'' @ crlf, envelop frm to subject replyto, msg, terminator, ''QUIT'' @ crlf]
   \<and> sm_closed s' = sm_closed s"
  by (auto simp: smtp_conversation_def and_then_Inr dest!: send_cmd_Inr send_mail_message_Inr split: sum.splits)

lemma connect_first_frame:
  "connect_first net as s = (r, s') \<Longrightarrow>
   sm_sent s' = sm_sent s \<and> (\<exists>skipped. sm_closed s' = sm_closed s @ skipped)
   \<and> (\<forall>a fd. r = Some (a, fd) \<longrightarrow> fd \<noteq> - 1)"
proof (induction as arbitrary: s)
  case Nil
  then show ?case by auto
next
  case (Cons a as)
  consider "sn_socket net a = - 1" | "sn_socket net a \<noteq> - 1" "sn_connect net a \<noteq> 1"
    | "sn_socket net a \<noteq> - 1" "sn_connect net a = 1" by blast
  then show ?case
  proof cases
    case 1
    with Cons.prems have "connect_first net as s = (r, s')" by (simp add: Let_def)
    from Cons.IH [OF this] show ?thesis .
  next
    case 2
    with Cons.prems show ?thesis by (auto simp: Let_def)
  next
    case 3
    with Cons.prems have "connect_first net as (s\<lparr>sm_closed := sm_closed s @ [sn_socket net a]\<rparr>) = (r, s')"
      by (simp add: Let_def)
    from Cons.IH [OF this] show ?thesis by auto
  qed
qed

text \<open>
  What a sent mail is. When \<open>send_mail\<close> returns, the server has been told, in this order, the
  sender, the recipient and the message with its headers, and the socket is closed last; the mail is
  the header, the text and the terminator and nothing else.
\<close>

theorem send_mail_conversation:
  assumes "full_writes net" and "send_mail net server port frm to subject replyto msg s = (Inr (), s')"
  shows "sm_sent s' = sm_sent s @
     [''EHLO '' @ sn_hostname net @ crlf, ''MAIL From:<'' @ frm @ ''>'' @ crlf, ''RCPT To:<'' @ to @ ''>'' @ crlf,
      ''DATA'' @ crlf, envelop frm to subject replyto, msg, terminator, ''QUIT'' @ crlf]
     \<and> (\<exists>skipped fd. fd \<noteq> - 1 \<and> sm_closed s' = sm_closed s @ skipped @ [fd])"
proof -
  from assms(2) obtain addrs a fd s1 s2 where
    c: "connect_first net addrs s = (Some (a, fd), s1)"
    "smtp_conversation net frm to subject replyto msg s1 = (Inr (), s2)" "s' = s2\<lparr>sm_closed := sm_closed s2 @ [fd]\<rparr>"
    by (auto simp: send_mail_def Let_def split: sum.splits prod.splits option.splits)
  from smtp_conversation_Inr [OF c(2) assms(1)] connect_first_frame [OF c(1)] c(3) show ?thesis by auto
qed

text \<open>A server that agrees to everything.\<close>

definition friendly_smtp :: smtp where
  "friendly_smtp =
     \<lparr>sn_getaddrinfo = (\<lambda>h p. Inr [0, 1]), sn_socket = (\<lambda>a. int a + 3), sn_connect = (\<lambda>a. 0),
      sn_send = (\<lambda>t b. Inr (length b)),
      sn_recv = (\<lambda>t. Inr (if t = 8 then ''354 go'' else if t = 14 then ''221 bye'' else ''250 ok'')),
      sn_hostname = ''host''\<rparr>"

definition no_mail :: smtp_state where
  "no_mail = \<lparr>sm_tick = 0, sm_sent = [], sm_closed = []\<rparr>"

lemmas smtp_eval = send_mail_def smtp_conversation_def send_mail_message_def send_cmd_def smtp_send_def smtp_expect_def
  and_then_def c_str_def

lemma friendly_full_writes [simp]: "full_writes friendly_smtp"
  by (simp add: full_writes_def friendly_smtp_def)

theorem send_mail_conversation_witness:
  "\<exists>s'. send_mail friendly_smtp ''h'' ''25'' ''a'' ''b'' ''s'' ''r'' ''text'' no_mail = (Inr (), s')
     \<and> length (sm_sent s') = 8 \<and> sm_sent s' ! 5 = ''text''"
proof -
  obtain s' where *: "send_mail friendly_smtp ''h'' ''25'' ''a'' ''b'' ''s'' ''r'' ''text'' no_mail = (Inr (), s')"
    by (simp add: smtp_eval friendly_smtp_def no_mail_def)
  from send_mail_conversation [OF friendly_full_writes *] * show ?thesis by (simp add: no_mail_def)
qed

text \<open>
  A refused connection to a mail server is not noticed. \<open>::connect\<close> returns 0 or -1, and the loop compares it with 1: the
  address taken is the first one for which a socket can be created, whether or not the server behind
  it accepted the connection, and the addresses after it are never tried.
\<close>

theorem mail_connect_ignores_failure:
  assumes "\<forall>a. sn_connect net a = 0 \<or> sn_connect net a = - 1"
  shows "connect_first net addrs s =
     (map_option (\<lambda>a. (a, sn_socket net a)) (find (\<lambda>a. sn_socket net a \<noteq> - 1) addrs), s)"
proof (induction addrs)
  case (Cons a as)
  have "sn_connect net a \<noteq> 1" using assms [rule_format, of a] by auto
  with Cons show ?case by (simp add: Let_def)
qed simp

text \<open>The first address refuses the connection, the second would accept it.\<close>

definition failover_smtp :: smtp where
  "failover_smtp = friendly_smtp\<lparr>sn_connect := (\<lambda>a. if a = 0 then - 1 else 0)\<rparr>"

theorem mail_connect_ignores_failure_witness:
  "connect_first failover_smtp [0, 1] no_mail = (Some (0, 3), no_mail) \<and> sn_connect failover_smtp 0 = - 1"
  using mail_connect_ignores_failure [of failover_smtp "[0, 1]" no_mail]
  by (simp add: failover_smtp_def friendly_smtp_def)

subsection \<open>The end of the data\<close>

text \<open>What a server takes for the message: the text up to the first line that is a single dot.\<close>

fun smtp_data :: "string \<Rightarrow> (string \<times> string) option" where
  "smtp_data stream =
     (if take 5 stream = terminator then Some ([], drop 5 stream)
      else (case stream of [] \<Rightarrow> None | c # cs \<Rightarrow> map_option (\<lambda>(m, rest). (c # m, rest)) (smtp_data cs)))"

declare smtp_data.simps [simp del]

lemma smtp_data_here: "smtp_data (terminator @ rest) = Some ([], rest)"
  by (subst smtp_data.simps) (simp add: terminator_def crlf_def)

lemma smtp_data_append:
  assumes "\<forall>pre suf. m @ terminator = pre @ terminator @ suf \<longrightarrow> suf = []"
  shows "smtp_data (m @ terminator @ rest) = Some (m, rest)"
  using assms
proof (induction m)
  case Nil
  then show ?case by (simp add: smtp_data_here)
next
  case (Cons c m)
  have tl: "length terminator = 5" by (simp add: terminator_def crlf_def)
  have "take 5 (c # m @ terminator @ rest) \<noteq> terminator"
  proof
    assume t: "take 5 (c # m @ terminator @ rest) = terminator"
    have "take 5 (c # m @ terminator) = terminator" using t by (simp add: tl take_Cons')
    then have "(c # m) @ terminator = [] @ terminator @ drop 5 ((c # m) @ terminator)"
      using append_take_drop_id [of 5 "(c # m) @ terminator"] by simp
    with Cons.prems have "drop 5 ((c # m) @ terminator) = []" by blast
    then show False by (auto simp: tl)
  qed
  moreover have "smtp_data (m @ terminator @ rest) = Some (m, rest)"
  proof (rule Cons.IH, intro allI impI)
    fix pre suf
    assume "m @ terminator = pre @ terminator @ suf"
    then have "(c # m) @ terminator = (c # pre) @ terminator @ suf" by simp
    then show "suf = []" using Cons.prems by blast
  qed
  ultimately show ?case by (subst smtp_data.simps) simp
qed

text \<open>
  The server reads the mail that was sent, if no line of it is a single dot. When the first
  end-of-data mark in the header and text followed by the terminator is the terminator itself, the
  server takes exactly the header and the text for the message, and what follows for commands.
\<close>

theorem mail_text_received:
  assumes "\<forall>pre suf. (envelop frm to subject replyto @ msg) @ terminator = pre @ terminator @ suf \<longrightarrow> suf = []"
  shows "smtp_data (concat [envelop frm to subject replyto, msg, terminator, ''QUIT'' @ crlf])
     = Some (envelop frm to subject replyto @ msg, ''QUIT'' @ crlf)"
  using smtp_data_append [OF assms, of "''QUIT'' @ crlf"] by simp

text \<open>
  Text that is a mail alert can end the mail. The text is sent without doubling leading dots:
  a log with a line that is a single dot ends the message there, and the server reads what follows
  as commands, here a second RCPT.
\<close>

theorem mail_text_injects:
  "smtp_data (concat [envelop ''a'' ''b'' ''s'' ''r'', ''log'' @ terminator @ ''RCPT To:<x>'', terminator])
   = Some (envelop ''a'' ''b'' ''s'' ''r'' @ ''log'', ''RCPT To:<x>'' @ terminator)"
  by (simp add: smtp_data.simps terminator_def crlf_def envelop_def)

end
