(* ===== verification/Alert_Text.thy ===== *)
theory Alert_Text
  imports Daemon_Configs Send_Mail
begin

text \<open>
  The texts ctguard-research makes of events (src/src/research/daemon.cpp): the alerts
  \<open>output_task\<close> writes to the log and the mails \<open>send_mail_queue\<close> sends. \<open>std::setw\<close> pads on the
  left; numbers are printed in decimal. \<open>fmt_time\<close> is \<open>std::put_time(localtime, "%c %Z")\<close>.
\<close>

definition number :: "'w::len word \<Rightarrow> string" where
  "number w = nat_to_string (unat w)"

definition nl :: string where "nl = [CHR 0x0A]"

definition map_lines :: "string \<Rightarrow> str_map \<Rightarrow> string" where
  "map_lines sep m = concat (map (\<lambda>(k, v). replicate 11 CHR '' '' @ setw 20 k @ sep @ v @ nl) m)"

definition alert_text :: "(int \<Rightarrow> string) \<Rightarrow> bool \<Rightarrow> int \<Rightarrow> event \<Rightarrow> string" where
  "alert_text fmt_time unit_test now e =
     nl @ ''ALERT START'' @ nl
     @ (if unit_test then [] else ''Time:      '' @ fmt_time now @ nl)
     @ ''Priority:  '' @ number (ev_priority e) @ nl
     @ ''Info:      '' @ ev_description e @ '' ['' @ number (ev_rule_id e) @ '']'' @ nl
     @ ''Log:       '' @ ev_logstr e @ nl
     @ ''Traits:'' @ nl @ map_lines '' : '' (ev_traits e)
     @ (if ev_fields e = [] then [] else ''Extracted fields:'' @ nl @ map_lines '' : '' (ev_fields e))
     @ ''ALERT END'' @ nl"

subsection \<open>The mail\<close>

record summary_item =
  si_count :: "32 word"
  si_id :: rule_id
  si_priority :: priority

text \<open>\<open>summary_map[description]\<close>: a new item starts with zeros.\<close>

definition summarise :: "event \<Rightarrow> (string, summary_item) smap \<Rightarrow> (string, summary_item) smap" where
  "summarise ev m =
     (let n = (case map_of m (ev_description ev) of None \<Rightarrow> 0 | Some i \<Rightarrow> si_count i)
      in smap_put (ev_description ev) \<lparr>si_count = n + 1, si_id = ev_rule_id ev, si_priority = ev_priority ev\<rparr> m)"

definition count_intervention :: "intervention_rule \<Rightarrow> (string, 32 word) smap \<Rightarrow> (string, 32 word) smap" where
  "count_intervention it m =
     smap_put (ir_name it) ((case map_of m (ir_name it) of None \<Rightarrow> 0 | Some n \<Rightarrow> n) + 1) m"

definition intervention_line :: "event \<Rightarrow> intervention_rule \<Rightarrow> string" where
  "intervention_line ev it =
     replicate 11 CHR '' '' @ setw 20 (ir_name it) @ '' ( '' @ ir_field it @ '' :: ''
     @ (case map_of (ev_fields ev) (ir_field it) of Some v \<Rightarrow> v | None \<Rightarrow> ''!EMPTY!'') @ '' )'' @ nl"

definition mail_event :: "event \<Rightarrow> string" where
  "mail_event ev =
     ''#=========================== ALERT START ===========================#'' @ nl @ nl
     @ ''  - Info:             '' @ ev_description ev @ '' (id: '' @ number (ev_rule_id ev) @ '')'' @ nl @ nl
     @ ''  - Priority:        '' @ setw 2 (number (ev_priority ev)) @ nl @ nl
     @ (if ev_interventions ev = [] then []
        else ''  - Intervention:'' @ nl @ concat (map (intervention_line ev) (ev_interventions ev)))
     @ nl @ ''  - Log start'' @ nl @ ''    > '' @ ev_logstr ev @ nl @ ''  - Log end'' @ nl @ nl
     @ ''  - Traits:'' @ nl @ map_lines '' :: '' (ev_traits ev)
     @ (if ev_fields ev = [] then [] else ''  - Extracted fields:'' @ nl @ map_lines '' :: '' (ev_fields ev))
     @ nl @ ''#============================ ALERT END ============================#'' @ nl @ nl"

definition plural :: "nat \<Rightarrow> string" where
  "plural n = (if n = 1 then '' '' else ''s'')"

definition mail_banner :: "nat \<Rightarrow> string" where
  "mail_banner n =
     replicate 24 CHR '' '' @ ''######################'' @ nl
     @ replicate 24 CHR '' '' @ ''# ctguard alert mail #'' @ nl
     @ replicate 24 CHR '' '' @ ''#   '' @ setw 4 (nat_to_string n) @ '' alert'' @ plural n @ ''      #'' @ nl
     @ replicate 24 CHR '' '' @ ''######################'' @ nl @ nl"

definition summary_line :: "string \<times> summary_item \<Rightarrow> string" where
  "summary_line p =
     (case p of (d, i) \<Rightarrow>
       ''  '' @ setw 4 (number (si_count i)) @ '' alert'' @ plural (unat (si_count i)) @ '': '' @ d
       @ '' (id: '' @ number (si_id i) @ '') - Priority '' @ number (si_priority i) @ nl)"

fun join_commas :: "string list \<Rightarrow> string" where
  "join_commas [] = []"
| "join_commas [x] = x"
| "join_commas (x # xs) = x @ '','' @ join_commas xs"

definition intervention_summary :: "event list \<Rightarrow> string" where
  "intervention_summary q =
     (let its = concat (map ev_interventions q); n = length its; details = fold count_intervention its [] in
      if 0 < n then
        ''  '' @ setw 4 (nat_to_string n) @ ''intervention'' @ plural n @ '':''
        @ join_commas (map (\<lambda>(name, k). '' '' @ number k @ '' '' @ name) details) @ nl
      else [])"

definition summary_rule :: string where
  "summary_rule = ''#============================= SUMMARY =============================#'' @ nl @ nl"

definition mail_body :: "event list \<Rightarrow> string" where
  "mail_body q =
     mail_banner (length q)
     @ summary_rule @ concat (map summary_line (fold summarise q [])) @ intervention_summary q
     @ nl @ summary_rule
     @ concat (map mail_event q)
     @ mail_banner (length q)"

text \<open>\<open>max_alert\<close> starts at 0 and takes every larger priority.\<close>

definition max_alert :: "event list \<Rightarrow> priority" where
  "max_alert q = fold (\<lambda>ev m. if m < ev_priority ev then ev_priority ev else m) q 0"

definition mail_subject :: "event list \<Rightarrow> string" where
  "mail_subject q =
     ''ctguard :: '' @ nat_to_string (length q) @ '' alert(s) :: max priority '' @ number (max_alert q)"

definition send_mail_queue :: "smtp \<Rightarrow> research_config \<Rightarrow> event list \<Rightarrow> unit smtp_action" where
  "send_mail_queue net cfg q =
     send_mail net (rc_mail_host cfg) (rc_mail_port cfg) (rc_mail_fromaddr cfg) (rc_mail_toaddr cfg)
       (mail_subject q) (rc_mail_replyaddr cfg) (mail_body q)"

subsection \<open>Facts\<close>

lemma fold_max: "fold (\<lambda>ev m. if m < ev_priority ev then ev_priority ev else m) q m = Max (insert m (ev_priority ` set q))"
proof (induction q arbitrary: m)
  case (Cons ev q)
  have "(if m < ev_priority ev then ev_priority ev else m) = max (ev_priority ev) m" by (auto simp: max_def)
  with Cons show ?case by (simp add: insert_commute) (cases "q = []"; simp add: max.assoc max.commute max.left_commute)
qed simp

text \<open>The summary after a list of events: for each description the number of its events.\<close>

lemma summarise_wf [simp]: "smap_wf m \<Longrightarrow> smap_wf (summarise ev m)"
  by (simp add: summarise_def Let_def)

lemma map_of_summarise:
  "smap_wf m \<Longrightarrow> map_of (summarise ev m) d =
     (if ev_description ev = d
      then Some \<lparr>si_count = (case map_of m d of None \<Rightarrow> 0 | Some i \<Rightarrow> si_count i) + 1,
                 si_id = ev_rule_id ev, si_priority = ev_priority ev\<rparr>
      else map_of m d)"
  by (auto simp: summarise_def Let_def)

lemma summary_counts:
  "smap_wf m \<Longrightarrow> map_of (fold summarise q m) d =
     (case filter (\<lambda>ev. ev_description ev = d) q of
        [] \<Rightarrow> map_of m d
      | ev # evs \<Rightarrow> Some \<lparr>si_count = (case map_of m d of None \<Rightarrow> 0 | Some i \<Rightarrow> si_count i) + of_nat (length (ev # evs)),
            si_id = ev_rule_id (last (ev # evs)), si_priority = ev_priority (last (ev # evs))\<rparr>)"
  by (induction q arbitrary: m) (auto simp: map_of_summarise split: list.split)

text \<open>
  The summary of a mail is right. For every description it has one line in order of the
  descriptions, with the number of the alerts of that description (modulo 2 to the 32) and the rule
  and priority of the last of them; the subject carries the number of alerts and their highest
  priority.
\<close>

theorem mail_summary_counts:
  "map_of (fold summarise q []) d =
     (case filter (\<lambda>ev. ev_description ev = d) q of
        [] \<Rightarrow> None
      | ev # evs \<Rightarrow> Some \<lparr>si_count = of_nat (length (ev # evs)), si_id = ev_rule_id (last (ev # evs)),
          si_priority = ev_priority (last (ev # evs))\<rparr>)
   \<and> smap_wf (fold summarise q [])
   \<and> max_alert q = Max (insert 0 (ev_priority ` set q))"
proof -
  have "smap_wf m \<Longrightarrow> smap_wf (fold summarise q m)" for m :: "(string, summary_item) smap"
    by (induction q arbitrary: m) auto
  then show ?thesis by (simp add: summary_counts max_alert_def fold_max split: list.split)
qed

end
