(* ===== verification/Blocked_Queue.thy ===== *)
theory Blocked_Queue
  imports Ctguard_Prelude "HOL-Library.Multiset"
begin

text \<open>
  src/src/libs/blockedqueue.hpp: the queues between the threads. Every operation runs under the
  mutex, so it is one atomic step on the contents; an operation that waits on the condition variable
  is not enabled (None) while the queue is empty. \<open>take(duration)\<close> returns nullopt after its one wait
  when the queue is still empty. The interface the tasks rely on is the locale \<open>fifo\<close>.
\<close>

type_synonym 'a blocked_queue = "'a list"

definition bq_size :: "'a blocked_queue \<Rightarrow> nat" where
  "bq_size q = length q"

definition bq_empty :: "'a blocked_queue \<Rightarrow> bool" where
  "bq_empty q = (q = [])"

definition bq_push :: "'a blocked_queue \<Rightarrow> 'a \<Rightarrow> 'a blocked_queue" where
  "bq_push q x = q @ [x]"

definition bq_front :: "'a blocked_queue \<Rightarrow> 'a option" where
  "bq_front q = (case q of [] \<Rightarrow> None | x # xs \<Rightarrow> Some x)"

definition bq_pop :: "'a blocked_queue \<Rightarrow> 'a blocked_queue" where
  "bq_pop q = (case q of [] \<Rightarrow> [] | x # xs \<Rightarrow> xs)"

definition bq_take :: "'a blocked_queue \<Rightarrow> ('a \<times> 'a blocked_queue) option" where
  "bq_take q = (case q of [] \<Rightarrow> None | x # xs \<Rightarrow> Some (x, xs))"

text \<open>The timed take: \<open>arrived\<close> is what other threads pushed during the wait, which happens only on
  an empty queue.\<close>

definition bq_take_for :: "'a blocked_queue \<Rightarrow> 'a list \<Rightarrow> 'a option \<times> 'a blocked_queue" where
  "bq_take_for q arrived =
     (let q = (if q = [] then q @ arrived else q) in
      case q of [] \<Rightarrow> (None, []) | x # xs \<Rightarrow> (Some x, xs))"

subsection \<open>The interface\<close>

locale fifo =
  fixes push :: "'q \<Rightarrow> 'a \<Rightarrow> 'q"
    and take_front :: "'q \<Rightarrow> ('a \<times> 'q) option"
    and contents :: "'q \<Rightarrow> 'a list"
  assumes contents_push: "contents (push q x) = contents q @ [x]"
    and take_None: "take_front q = None \<longleftrightarrow> contents q = []"
    and take_Some: "take_front q = Some (x, q') \<Longrightarrow> contents q = x # contents q'"
begin

text \<open>A schedule of pushes by producers (Some) and takes by the consumer (None, skipped while it
  would block): the elements taken and the final queue.\<close>

fun schedule :: "'a option list \<Rightarrow> 'q \<Rightarrow> 'a list \<times> 'q" where
  "schedule [] q = ([], q)"
| "schedule (Some x # ops) q = schedule ops (push q x)"
| "schedule (None # ops) q =
     (case take_front q of
        None \<Rightarrow> schedule ops q
      | Some (x, q') \<Rightarrow> (let (xs, q'') = schedule ops q' in (x # xs, q'')))"

lemma schedule_fifo:
  "schedule ops q = (xs, q') \<Longrightarrow> xs @ contents q' = contents q @ List.map_filter id ops"
proof (induction ops arbitrary: q xs q')
  case Nil
  then show ?case by (simp add: List.map_filter_def)
next
  case (Cons op ops)
  show ?case
  proof (cases op)
    case (Some x)
    with Cons show ?thesis by (simp add: contents_push List.map_filter_def)
  next
    case None
    show ?thesis
    proof (cases "take_front q")
      case t: None
      with Cons None show ?thesis by (simp add: List.map_filter_def)
    next
      case (Some p)
      obtain x q1 where p: "p = (x, q1)" by (cases p)
      obtain ys q2 where s: "schedule ops q1 = (ys, q2)" by fastforce
      from Cons.prems None Some p s have e: "xs = x # ys" "q' = q2" by auto
      with Cons.IH [OF s] e take_Some [of q x q1] Some p None show ?thesis
        by (simp add: List.map_filter_def)
    qed
  qed
qed

end

interpretation bq: fifo bq_push bq_take id
  by unfold_locales (auto simp: bq_push_def bq_take_def split: list.splits)

text \<open>The schedules of the queue of the code.\<close>

fun bq_run :: "'a option list \<Rightarrow> 'a blocked_queue \<Rightarrow> 'a list \<times> 'a blocked_queue" where
  "bq_run [] q = ([], q)"
| "bq_run (Some x # ops) q = bq_run ops (bq_push q x)"
| "bq_run (None # ops) q =
     (case bq_take q of
        None \<Rightarrow> bq_run ops q
      | Some (x, q') \<Rightarrow> (let (xs, q'') = bq_run ops q' in (x # xs, q'')))"

lemma bq_run_schedule: "bq_run ops q = bq.schedule ops q"
  by (induction ops q rule: bq_run.induct) (auto split: option.split prod.split)

text \<open>
  The queues neither lose, duplicate nor reorder. For every interleaving of pushes by producers
  and takes by the consumer, the elements taken followed by those still queued are the initial
  contents followed by the elements pushed, in order.
\<close>

theorem blocked_queue_fifo:
  "case bq_run ops q of (taken, rest) \<Rightarrow> taken @ rest = q @ List.map_filter id ops"
  using bq.schedule_fifo [of ops q] by (auto simp: bq_run_schedule split: prod.split)

text \<open>The timed take is a take, once something is there.\<close>

lemma bq_take_for_Some:
  "bq_take_for q arrived = (Some x, q') \<Longrightarrow> (if q = [] then arrived else q) = x # q'"
  by (auto simp: bq_take_for_def Let_def split: list.splits if_splits)

lemma bq_take_for_None: "bq_take_for q arrived = (None, q') \<longleftrightarrow> q = [] \<and> arrived = [] \<and> q' = []"
  by (auto simp: bq_take_for_def Let_def split: list.splits if_splits)

lemma bq_front_pop: "bq_take q = (case bq_front q of None \<Rightarrow> None | Some x \<Rightarrow> Some (x, bq_pop q))"
  by (simp add: bq_take_def bq_front_def bq_pop_def split: list.split)

end
