(* ===== verification/Daemon_Threads.thy ===== *)
theory Daemon_Threads
  imports Ctguard_Prelude
begin

text \<open>
  What the daemons share: the status of a thread, the places in the main and the receiving thread, and the datagram
  buffer of \<open>input_task\<close>, which src/src/research/daemon.cpp and src/src/intervention/daemon.cpp hold in
  the same words.
\<close>

datatype thread_status = Thread_running | Thread_done | Thread_dead

datatype main_pc = Main_start | Main_wait | Main_join nat | Main_returned

datatype input_pc = In_start | In_check | In_recv | In_kill | In_done

text \<open>What \<open>recv\<close> answers: an error (the timeout of one second included) or a datagram.\<close>

datatype recv_result = Recv_error | Recv_data string

text \<open>The text of a received datagram in the buffer of 16384 bytes: one that fills it loses its last
  byte to the terminating zero. The archive is read from the whole text.\<close>

definition recv_text :: "string \<Rightarrow> string" where
  "recv_text data =
     (let got = take 16384 data in
      if 16384 \<le> length got then take 16383 got @ [CHR 0x00] else got)"

text \<open>A shorter one is kept as it is.\<close>

lemma recv_text_short: "length data < 16384 \<Longrightarrow> recv_text data = data"
  by (simp add: recv_text_def)

lemma recv_text_code [code]:
  "recv_text data = (if int (length data) < 16384 then data else take 16383 data @ [CHR 0x00])"
  by (simp add: recv_text_def Let_def min_def)

end
