(* ===== verification/Rule_Engine.thy ===== *)
theory Rule_Engine
  imports Research_Types
begin

text \<open>
  src/src/research/process_log.cpp: how an event is matched against the rule tree.
  \<open>check_rule\<close> decides one rule (and advances its activation window or its unless timer),
  \<open>check_top_rules\<close> selects the fitting rule of a level and descends into its children,
  \<open>process_log\<close> runs the formats, the standard rules and the group rules. The clock is read
  as \<open>now\<close>: \<open>std::time\<close> has a resolution of one second, and its readings during one event
  are taken to be equal. Exceptions are values of \<open>engine_error\<close>; \<open>Index_ub\<close> marks a read past
  the end of a vector, which C++ leaves undefined. Verbose output is not modelled.
\<close>

datatype engine_error =
    Unknown_child_case rule_id "rule_id list" rule_id
  | No_fitting_rule
  | Regex_error string
  | Index_ub

type_synonym modifications = "(string \<times> string) list"

subsection \<open>check_rule\<close>

text \<open>The unless part: a child event arms the timer, the awaited rule disarms it.\<close>

definition check_unless :: "int \<Rightarrow> event \<Rightarrow> rule_data \<Rightarrow> rules_state \<Rightarrow> (engine_error, rules_state) res" where
  "check_unless now ev rl states =
     (let st = state_at (r_id rl) states in
      if ev_rule_id ev \<in> set (r_parent_ids rl) then
        Inr (smap_put (r_id rl)
          (st\<lparr>rs_unless_triggered := now, rs_unless_timeout := ur_timeout (r_unless rl),
              rs_unless_event := event_update rl ev\<rparr>) states)
      else if ev_rule_id ev = ur_id (r_unless rl) then
        Inr (smap_put (r_id rl) (st\<lparr>rs_unless_triggered := 0\<rparr>) states)
      else Inl (Unknown_child_case (ev_rule_id ev) (r_parent_ids rl) (ur_id (r_unless rl))))"

text \<open>The saved events whose time is inside the window.\<close>

definition drop_old :: "int \<Rightarrow> 16 word \<Rightarrow> (int \<times> event) list \<Rightarrow> (int \<times> event) list" where
  "drop_old now window saved = dropWhile (\<lambda>p. fst p + int (unat window) < now) saved"

definition trigger_logs :: "(int \<times> event) list \<Rightarrow> string" where
  "trigger_logs saved = concat (map (\<lambda>p. ev_logstr (snd p) @ [CHR 0x0A]) saved)"

text \<open>Events of the window with the same value of a field as the current one.\<close>

definition same_events :: "string \<Rightarrow> string \<Rightarrow> (int \<times> event) list \<Rightarrow> (int \<times> event) list" where
  "same_events field v saved = filter (\<lambda>p. map_of (ev_fields (snd p)) field = Some v) saved"

text \<open>The activation group: found (the event is in the group), active, modified traits, states.
  The counter \<open>same_rate\<close> is an \<open>unsigned short\<close>.\<close>

definition check_activation :: "int \<Rightarrow> event \<Rightarrow> rule_data \<Rightarrow> rules_state \<Rightarrow>
    bool \<times> bool \<times> modifications \<times> rules_state" where
  "check_activation now ev rl states =
     (let ag = r_activation rl in
      if ag_group_name ag = [] then (False, True, [], states)
      else
        let found = (ag_group_name ag \<in> set (ev_groups ev)) in
        (case map_of states (r_id rl) of
           None \<Rightarrow>
             (found, False, [],
              if found then smap_put (r_id rl) (default_rule_state\<lparr>rs_mevents := mm_emplace now ev []\<rparr>) states
              else states)
         | Some st \<Rightarrow>
             let saved = (if found then mm_emplace now ev (rs_mevents st) else rs_mevents st);
                 saved = drop_old now (ag_time ag) saved;
                 states = smap_put (r_id rl) (st\<lparr>rs_mevents := saved\<rparr>) states
             in if unat (ag_rate ag) \<le> length saved then
                  (if r_same_field rl = [] then
                     (found, True, [(''trigger_logs'', trigger_logs saved)], states)
                   else (case map_of (ev_fields ev) (r_same_field rl) of
                       None \<Rightarrow> (found, False, [], states)
                     | Some v \<Rightarrow>
                         let same = same_events (r_same_field rl) v saved;
                             same_rate = (of_nat (length same) :: 16 word)
                         in if ag_rate ag \<le> same_rate then
                              (found, True, [(''trigger_same_logs'', trigger_logs same)], states)
                            else (found, False, [], states)))
                else (found, False, [], states)))"

text \<open>One \<open>if_field\<close> / \<open>if_trait\<close> condition against a field map.\<close>

fun trigger_ok :: "regex_lib \<Rightarrow> str_map \<Rightarrow> string \<times> rule_match \<times> string \<Rightarrow> (engine_error, bool) res" where
  "trigger_ok rx m (name, Match_exact, v) =
     (case map_of m name of None \<Rightarrow> Inr False | Some x \<Rightarrow> Inr (x = v))"
| "trigger_ok rx m (name, Match_empty, v) =
     (case map_of m name of None \<Rightarrow> Inr True | Some x \<Rightarrow> Inr (x = []))"
| "trigger_ok rx m (name, Match_regex, v) =
     (case map_of m name of
        None \<Rightarrow> Inr False
      | Some x \<Rightarrow> if rx_valid rx v then Inr (rx_search rx v x \<noteq> None) else Inl (Regex_error v))"

fun triggers_ok :: "regex_lib \<Rightarrow> str_map \<Rightarrow> (string \<times> rule_match \<times> string) list \<Rightarrow> (engine_error, bool) res" where
  "triggers_ok rx m [] = Inr True"
| "triggers_ok rx m (t # ts) = rbind (trigger_ok rx m t) (\<lambda>b. if b then triggers_ok rx m ts else Inr False)"

text \<open>The non-empty sub-matches, named by the rule's fields.\<close>

fun capture_fields :: "string list \<Rightarrow> string list \<Rightarrow> (engine_error, modifications) res" where
  "capture_fields flds [] = Inr []"
| "capture_fields [] (g # gs) = (if g = [] then capture_fields [] gs else Inl Index_ub)"
| "capture_fields (f # fs) (g # gs) =
     rbind (capture_fields fs gs) (\<lambda>ms. Inr (if g = [] then ms else (f, g) # ms))"

definition to_match :: "event \<Rightarrow> string" where
  "to_match ev = (case map_of (ev_fields ev) ''log'' of Some l \<Rightarrow> l | None \<Rightarrow> ev_logstr ev)"

definition group_triggers :: "event \<Rightarrow> rule_data \<Rightarrow> bool" where
  "group_triggers ev rl =
     (r_trigger_group rl = [] \<or> r_trigger_group rl = ''!ALWAYS'' \<or> r_trigger_group rl \<in> set (ev_groups ev))"

text \<open>The regular expression of the rule: None when the rule does not match.\<close>

definition check_regex :: "regex_lib \<Rightarrow> event \<Rightarrow> rule_data \<Rightarrow> (engine_error, modifications option) res" where
  "check_regex rx ev rl =
     (case r_reg rl of
        None \<Rightarrow> Inr (Some [])
      | Some p \<Rightarrow>
          (case rx_search rx p (to_match ev) of
             None \<Rightarrow> Inr None
           | Some gs \<Rightarrow> rbind (capture_fields (r_regex_fields rl) gs) (\<lambda>ms. Inr (Some ms))))"

definition check_rule :: "regex_lib \<Rightarrow> int \<Rightarrow> event \<Rightarrow> rule_data \<Rightarrow> rules_state \<Rightarrow>
    (engine_error, (bool \<times> modifications \<times> modifications) \<times> rules_state) res" where
  "check_rule rx now ev rl states =
     (if ur_id (r_unless rl) \<noteq> 0 then
        rbind (check_unless now ev rl states) (\<lambda>states. Inr ((False, [], []), states))
      else
        (let (found, active, traits, states) = check_activation now ev rl states in
         if \<not> group_triggers ev rl then Inr ((False, [], traits), states)
         else
           rbind (triggers_ok rx (ev_fields ev) (r_trigger_fields rl)) (\<lambda>fields_ok.
           if \<not> fields_ok then Inr ((False, [], traits), states)
           else
             rbind (triggers_ok rx (ev_traits ev) (r_trigger_traits rl)) (\<lambda>traits_ok.
             if \<not> traits_ok then Inr ((False, [], traits), states)
             else
               rbind (check_regex rx ev rl) (\<lambda>m.
               case m of
                 None \<Rightarrow> Inr ((False, [], traits), states)
               | Some flds \<Rightarrow>
                   let match_something =
                     (found \<or> r_trigger_group rl \<noteq> [] \<or> r_trigger_fields rl \<noteq> [] \<or> r_trigger_traits rl \<noteq> []
                      \<or> r_reg rl \<noteq> None \<or> r_parent_ids rl \<noteq> [])
                   in Inr ((match_something \<and> active, flds, traits), states))))))"

subsection \<open>update_event and update_state\<close>

definition put_all :: "modifications \<Rightarrow> str_map \<Rightarrow> str_map" where
  "put_all ms m = fold (\<lambda>(k, v). smap_put k v) ms m"

definition update_event :: "rule_data \<Rightarrow> modifications \<Rightarrow> modifications \<Rightarrow> event \<Rightarrow> event" where
  "update_event rl modified_fields modified_traits ev =
     (add_groups (r_groups rl) (ev\<lparr>ev_description := r_description rl, ev_always_alert := r_always_alert rl\<rparr>))
       \<lparr>ev_priority := r_priority rl,
        ev_rule_id := r_id rl,
        ev_interventions := r_interventions rl,
        ev_fields := put_all modified_fields (ev_fields ev),
        ev_traits := put_all modified_traits (ev_traits ev)\<rparr>"

definition update_state :: "rules_state \<Rightarrow> rule_data \<Rightarrow> event \<Rightarrow> rules_state" where
  "update_state states rl ev =
     (if ag_group_name (r_activation rl) \<noteq> [] \<and> ag_reset (r_activation rl) then
        (case map_of states (r_id rl) of
           None \<Rightarrow> states
         | Some st \<Rightarrow>
             if r_same_field rl = [] then smap_put (r_id rl) (st\<lparr>rs_mevents := []\<rparr>) states
             else (case map_of (ev_fields ev) (r_same_field rl) of
                 None \<Rightarrow> states
               | Some v \<Rightarrow>
                   smap_put (r_id rl)
                     (st\<lparr>rs_mevents := filter (\<lambda>p. map_of (ev_fields (snd p)) (r_same_field rl) \<noteq> Some v) (rs_mevents st)\<rparr>)
                     states))
      else states)"

subsection \<open>check_top_rules\<close>

type_synonym matching = "rule \<times> modifications \<times> modifications"

text \<open>The first loop: the matching rules of the level, in order.\<close>

fun check_level :: "regex_lib \<Rightarrow> int \<Rightarrow> event \<Rightarrow> rule list \<Rightarrow> rules_state \<Rightarrow>
    (engine_error, matching list \<times> rules_state) res" where
  "check_level rx now e [] states = Inr ([], states)"
| "check_level rx now e (r # rs) states =
     rbind (check_rule rx now e (rule_data r) states) (\<lambda>((b, mf, mt), states).
     rbind (check_level rx now e rs states) (\<lambda>(tops, states).
     Inr (if b then (r, mf, mt) # tops else tops, states)))"

text \<open>The second loop: the highest priority wins, the lower id between equal priorities.\<close>

record selection =
  sel_max_priority :: priority
  sel_min_id :: rule_id
  sel_fit :: "matching option"

definition select_step :: "matching \<Rightarrow> selection \<Rightarrow> selection" where
  "select_step ex s =
     (let rl = rule_data (fst ex) in
      if sel_max_priority s < r_priority rl
         \<or> (r_priority rl = sel_max_priority s \<and> r_id rl < sel_min_id s)
      then \<lparr>sel_max_priority = r_priority rl, sel_min_id = r_id rl, sel_fit = Some ex\<rparr>
      else s)"

definition select_rule :: "matching list \<Rightarrow> matching option" where
  "select_rule tops =
     sel_fit (fold select_step tops \<lparr>sel_max_priority = 0, sel_min_id = - 1, sel_fit = None\<rparr>)"

lemma fold_select_step_in:
  "sel_fit (fold select_step tops s) = Some ex \<Longrightarrow> ex \<in> set tops \<or> sel_fit s = Some ex"
  by (induction tops arbitrary: s) (fastforce simp: select_step_def Let_def split: if_splits)+

lemma select_rule_in: "select_rule tops = Some ex \<Longrightarrow> ex \<in> set tops"
  using fold_select_step_in [of tops _ ex] by (fastforce simp: select_rule_def)

lemma check_level_in:
  "check_level rx now e rules states = Inr (tops, states') \<Longrightarrow> (r, mf, mt) \<in> set tops \<Longrightarrow> r \<in> set rules"
proof (induction rules arbitrary: states tops)
  case Nil
  then show ?case by simp
next
  case (Cons x xs)
  then show ?case by (fastforce simp: rbind_Inr_iff split: if_splits)
qed

lemma size_children: "r \<in> set rules \<Longrightarrow> size_list size (rule_children r) < size_list size rules"
  by (cases r) (auto dest!: split_list)

function check_top_rules :: "regex_lib \<Rightarrow> int \<Rightarrow> event \<Rightarrow> rule list \<Rightarrow> rules_state \<Rightarrow>
    (engine_error, event \<times> rules_state) res" where
  "check_top_rules rx now e rules states =
     rbind (check_level rx now e rules states) (\<lambda>(tops, states).
     if tops = [] then Inr (e, states)
     else
       (case select_rule tops of
          None \<Rightarrow> Inl No_fitting_rule
        | Some (fit, mf, mt) \<Rightarrow>
            (let e = update_event (rule_data fit) mf mt e in
             check_top_rules rx now e (rule_children fit) (update_state states (rule_data fit) e))))"
  by pat_completeness auto
termination
  by (relation "measure (\<lambda>(rx, now, e, rules, states). size_list size rules)")
    (auto dest!: select_rule_in intro!: size_children check_level_in)

declare check_top_rules.simps [simp del]

subsection \<open>format_log and process_log\<close>

text \<open>\<open>e.fields()[f.fields()[i - 1]] = match[i]\<close> for every sub-match, empty ones included.\<close>

fun assign_fields :: "string list \<Rightarrow> string list \<Rightarrow> str_map \<Rightarrow> (engine_error, str_map) res" where
  "assign_fields flds [] m = Inr m"
| "assign_fields [] (g # gs) m = Inl Index_ub"
| "assign_fields (f # fs) (g # gs) m = assign_fields fs gs (smap_put f g m)"

fun format_log :: "regex_lib \<Rightarrow> event \<Rightarrow> rule_format list \<Rightarrow> (engine_error, event) res" where
  "format_log rx e [] = Inr (e\<lparr>ev_traits := smap_put ''format'' ''unknown'' (ev_traits e)\<rparr>)"
| "format_log rx e (f # fs) =
     (case rx_match rx (f_reg f) (ev_logstr e) of
        None \<Rightarrow> format_log rx e fs
      | Some gs \<Rightarrow>
          rbind (assign_fields (f_fields f) gs (ev_fields e)) (\<lambda>m.
          Inr (e\<lparr>ev_fields := m, ev_traits := smap_put ''format'' (f_name f) (ev_traits e)\<rparr>)))"

definition process_log :: "regex_lib \<Rightarrow> (int \<Rightarrow> string) \<Rightarrow> int \<Rightarrow> source_event \<Rightarrow> rule_cfg \<Rightarrow> rules_state \<Rightarrow>
    (engine_error, event \<times> rules_state) res" where
  "process_log rx fmt_time now se rules states =
     rbind (format_log rx (event_of_source fmt_time se) (cfg_formats rules)) (\<lambda>e.
     rbind (check_top_rules rx now e (std_rules rules) states) (\<lambda>(e, states).
     check_top_rules rx now e (group_rules rules) states))"

end
