(* ===== verification/Research_Daemon.thy ===== *)
theory Research_Daemon
  imports Alert_Text Blocked_Queue Daemon_Threads Event_Sinks Rule_Engine
begin

text \<open>
  src/src/research/daemon.cpp: the six threads of ctguard-research and its main loop. Each turn of a
  thread's loop is a function on the shared state; \<open>research_step\<close> interleaves the turns. A step is
  labelled with what it did to the stream of messages and alerts. What the operating system answers
  (messages received, clock, opened sockets) is chosen freely in every step. Log output of the daemon
  itself is not modelled.
\<close>

record research_env =
  re_cfg :: research_config
  re_rules :: rule_cfg
  re_rx :: regex_lib
  re_fmt_time :: "int \<Rightarrow> string"
  re_unit_test :: bool
  re_decode :: "string \<Rightarrow> source_event option"
  re_encode :: "intervention_cmd \<Rightarrow> string"
  re_net :: net
  re_smtp :: smtp

datatype research_error =
    Engine_error engine_error
  | Input_socket_error
  | Bind_address_too_long nat
  | Sink_failed sink_error

record mail_state =
  ml_queue :: "event list"
  ml_max_priority :: priority
  ml_last_send :: int
  ml_last_event :: int

definition mail_init :: mail_state where
  "mail_init = \<lparr>ml_queue = [], ml_max_priority = 0, ml_last_send = 0, ml_last_event = 0\<rparr>"

record research_state =
  g_running :: bool
  g_main :: main_pc
  g_input_pc :: input_pc
  g_processing :: thread_status
  g_statet :: thread_status
  g_outputt :: thread_status
  g_interventiont :: thread_status
  g_mailt :: thread_status
  g_input :: "source_event blocked_queue"
  g_alerts :: "event blocked_queue"
  g_mails :: "event blocked_queue"
  g_interventions :: "intervention_t blocked_queue"
  g_rules :: rules_state
  g_log :: string
  g_errors :: "research_error list"
  g_resend :: "intervention_cmd resend"
  g_sink :: "sink_state option"
  g_mail :: mail_state
  g_smtp :: smtp_state

datatype label =
    Received source_event
  | Classified source_event
  | Raised event
  | Overdue event
  | Closing event
  | Written event int

definition kill_event :: source_event where
  "kill_event = default_source_event\<lparr>se_control_message := True, se_message := ''!KILL''\<rparr>"

definition ev_is_kill :: "event \<Rightarrow> bool" where
  "ev_is_kill e = (ev_control_message e \<and> ev_logstr e = ''!KILL'')"

definition alarming :: "research_config \<Rightarrow> event \<Rightarrow> bool" where
  "alarming cfg e = (rc_log_priority cfg \<le> ev_priority e \<or> ev_always_alert e)"

subsection \<open>processing\<close>

text \<open>The interventions of an event: those whose field it has.\<close>

definition event_interventions :: "event \<Rightarrow> intervention_t list" where
  "event_interventions e =
     List.map_filter (\<lambda>ir. map_option (\<lambda>v. \<lparr>it_name = ir_name ir, it_argument = v, it_kill = False\<rparr>)
       (map_of (ev_fields e) (ir_field ir))) (ev_interventions e)"

definition stop_intervention :: intervention_t where
  "stop_intervention = \<lparr>it_name = [], it_argument = [], it_kill = True\<rparr>"

text \<open>One turn of \<open>processing_task\<close>; it waits (None) while the queue is empty. An exception ends the thread;
  the states of the rules are then left as they were, see the step \<open>Processing_throws\<close> below.\<close>

definition processing_turn :: "research_env \<Rightarrow> int \<Rightarrow> research_state \<Rightarrow> (label list \<times> research_state) option" where
  "processing_turn env now s =
     (case bq_take (g_input s) of
        None \<Rightarrow> None
      | Some (se, q) \<Rightarrow>
          (let s = s\<lparr>g_input := q\<rparr> in
           if se_is_kill se then
             (let e = event_of_source (re_fmt_time env) se in
              Some ([Classified se, Closing e],
                s\<lparr>g_alerts := bq_push (g_alerts s) e,
                  g_interventions := bq_push (g_interventions s) stop_intervention,
                  g_processing := Thread_done\<rparr>))
           else
             (case process_log (re_rx env) (re_fmt_time env) now se (re_rules env) (g_rules s) of
                Inl err \<Rightarrow>
                  Some ([Classified se], s\<lparr>g_processing := Thread_dead, g_errors := Engine_error err # g_errors s\<rparr>)
              | Inr (e, states) \<Rightarrow>
                  (let s = s\<lparr>g_rules := states\<rparr> in
                   if alarming (re_cfg env) e then
                     Some ([Classified se, Raised e],
                       s\<lparr>g_interventions := fold (\<lambda>i q. bq_push q i) (event_interventions e) (g_interventions s),
                         g_alerts := bq_push (g_alerts s) e\<rparr>)
                   else Some ([Classified se], s)))))"

subsection \<open>state\<close>

text \<open>One pass of \<open>state_task\<close> over the rule states: the timers that ran out.\<close>

fun state_pass :: "research_config \<Rightarrow> int \<Rightarrow> rules_state \<Rightarrow> event list \<times> rules_state" where
  "state_pass cfg now [] = ([], [])"
| "state_pass cfg now ((i, st) # m) =
     (let (es, m) = state_pass cfg now m in
      if rs_unless_triggered st \<noteq> 0 \<and> rs_unless_triggered st + int (unat (rs_unless_timeout st)) < now then
        ((if alarming cfg (rs_unless_event st) then rs_unless_event st # es else es),
         (i, st\<lparr>rs_unless_triggered := 0\<rparr>) # m)
      else (es, (i, st) # m))"

definition state_turn :: "research_env \<Rightarrow> int \<Rightarrow> research_state \<Rightarrow> label list \<times> research_state" where
  "state_turn env now s =
     (let (es, states) = state_pass (re_cfg env) now (g_rules s) in
      (map Overdue es, s\<lparr>g_rules := states, g_alerts := fold (\<lambda>e q. bq_push q e) es (g_alerts s)\<rparr>))"

subsection \<open>output\<close>

definition output_turn :: "research_env \<Rightarrow> int \<Rightarrow> research_state \<Rightarrow> (label list \<times> research_state) option" where
  "output_turn env now s =
     (case bq_take (g_alerts s) of
        None \<Rightarrow> None
      | Some (e, q) \<Rightarrow>
          (let s = s\<lparr>g_alerts := q\<rparr> in
           if ev_is_kill e then Some ([], s\<lparr>g_outputt := Thread_done\<rparr>)
           else Some ([Written e now],
             s\<lparr>g_log := g_log s @ alert_text (re_fmt_time env) (re_unit_test env) now e,
               g_mails := (if rc_mail (re_cfg env) then bq_push (g_mails s) e else g_mails s)\<rparr>)))"

subsection \<open>intervention\<close>

text \<open>The sink is created when the thread starts; \<open>opened\<close>: the file could be opened.\<close>

definition intervention_start :: "research_env \<Rightarrow> bool \<Rightarrow> net_state \<Rightarrow> research_state \<Rightarrow> research_state" where
  "intervention_start env opened ns s =
     (case create_sink (re_net env) opened [] (rc_intervention_path (re_cfg env)) (rc_intervention_kind (re_cfg env)) False ns of
        (Inl e, ns) \<Rightarrow> s\<lparr>g_interventiont := Thread_dead, g_errors := Sink_failed e # g_errors s\<rparr>
      | (Inr k, ns) \<Rightarrow> s\<lparr>g_sink := Some (k, ns)\<rparr>)"

text \<open>One turn of the loop; the timed take times out when the queue stays empty. None: a send that
  never returns.\<close>

definition intervention_turn :: "research_env \<Rightarrow> sink_state \<Rightarrow> research_state \<Rightarrow> research_state option" where
  "intervention_turn env k s =
     (case bq_take_for (g_interventions s) [] of
        (inp, q) \<Rightarrow>
          Option.bind (resend_step (intervention_send (re_net env) (re_encode env)) it_kill to_cmd inp (g_resend s) k)
            (\<lambda>(rt, k). Some (s\<lparr>g_interventions := q, g_resend := rt, g_sink := Some k,
               g_interventiont := (if rt_stopped rt then Thread_done else Thread_running)\<rparr>)))"

subsection \<open>mail\<close>

definition mail_accept :: "research_config \<Rightarrow> int \<Rightarrow> event option \<Rightarrow> mail_state \<Rightarrow> mail_state" where
  "mail_accept cfg now inp m =
     (case inp of
        None \<Rightarrow> m
      | Some e \<Rightarrow>
          if rc_mail_priority cfg \<le> ev_priority e \<or> ev_always_alert e then
            m\<lparr>ml_max_priority := (if ml_max_priority m < ev_priority e then ev_priority e else ml_max_priority m),
              ml_queue := ml_queue m @ [e], ml_last_event := now\<rparr>
          else m)"

definition mail_due :: "research_config \<Rightarrow> int \<Rightarrow> mail_state \<Rightarrow> bool" where
  "mail_due cfg now m =
     (rc_mail_instant cfg \<le> ml_max_priority m
      \<or> (ml_last_send m + int (unat (rc_mail_interval cfg)) \<le> now \<and> ml_last_event m + int (unat (rc_mail_sample_time cfg)) \<le> now)
      \<or> (unat (rc_mail_max_sample_count cfg) \<le> length (ml_queue m) \<and> ml_last_send m < now))"

text \<open>One turn of \<open>mail_task\<close>: the mail sent, if any, and the new state.\<close>

definition mail_turn :: "smtp \<Rightarrow> research_config \<Rightarrow> int \<Rightarrow> event option \<Rightarrow> mail_state \<Rightarrow> smtp_state \<Rightarrow>
    event list option \<times> mail_state \<times> smtp_state" where
  "mail_turn net cfg now inp m st =
     (let m = mail_accept cfg now inp m in
      if mail_due cfg now m \<and> ml_queue m \<noteq> [] then
        (let m = m\<lparr>ml_last_send := now\<rparr> in
         case send_mail_queue net cfg (ml_queue m) st of
           (Inl e, st) \<Rightarrow> (None, m, st)
         | (Inr u, st) \<Rightarrow> (Some (ml_queue m), m\<lparr>ml_queue := [], ml_max_priority := 0\<rparr>, st))
      else (None, m, st))"

text \<open>After the loop the rest of the local queue is sent once, or discarded.\<close>

definition mail_finish :: "smtp \<Rightarrow> research_config \<Rightarrow> mail_state \<Rightarrow> smtp_state \<Rightarrow>
    event list option \<times> mail_state \<times> smtp_state" where
  "mail_finish net cfg m st =
     (if ml_queue m \<noteq> [] then
        (case send_mail_queue net cfg (ml_queue m) st of
           (Inl e, st) \<Rightarrow> (None, m, st)
         | (Inr u, st) \<Rightarrow> (Some (ml_queue m), m\<lparr>ml_queue := []\<rparr>, st))
      else (None, m, st))"

subsection \<open>input\<close>

definition input_message :: "research_env \<Rightarrow> string \<Rightarrow> source_event option" where
  "input_message env data =
     (case re_decode env (recv_text data) of
        None \<Rightarrow> None
      | Some se \<Rightarrow> if se_is_kill se then None else Some se)"

text \<open>The turns of \<open>input_task\<close>. \<open>answer\<close> is read by the receiving turn only; an empty datagram ends the
  inner loop, like an error.\<close>

definition input_open :: "research_env \<Rightarrow> bool \<Rightarrow> bool \<Rightarrow> research_state \<Rightarrow> research_state" where
  "input_open env socket_ok bind_ok s =
     (if \<not> socket_ok then s\<lparr>g_input_pc := In_kill, g_errors := Input_socket_error # g_errors s\<rparr>
      else if sun_path_max < length (rc_input_path (re_cfg env)) then
        s\<lparr>g_input_pc := In_kill, g_errors := Bind_address_too_long (length (rc_input_path (re_cfg env))) # g_errors s\<rparr>
      else if \<not> bind_ok then s\<lparr>g_input_pc := In_kill, g_errors := Input_socket_error # g_errors s\<rparr>
      else s\<lparr>g_input_pc := In_check\<rparr>)"

definition input_turn :: "research_env \<Rightarrow> recv_result \<Rightarrow> research_state \<Rightarrow> label list \<times> research_state" where
  "input_turn env answer s =
     (case g_input_pc s of
        In_check \<Rightarrow> ([], s\<lparr>g_input_pc := (if g_running s then In_recv else In_kill)\<rparr>)
      | In_recv \<Rightarrow>
          (case answer of
             Recv_error \<Rightarrow> ([], s\<lparr>g_input_pc := In_check\<rparr>)
           | Recv_data data \<Rightarrow>
               (let s = s\<lparr>g_input_pc := (if data = [] then In_check else In_recv)\<rparr> in
                case input_message env data of
                  None \<Rightarrow> ([], s)
                | Some se \<Rightarrow> ([Received se], s\<lparr>g_input := bq_push (g_input s) se\<rparr>)))
      | In_kill \<Rightarrow> ([Received kill_event], s\<lparr>g_input := bq_push (g_input s) kill_event, g_input_pc := In_done\<rparr>)
      | _ \<Rightarrow> ([], s))"

subsection \<open>daemon\<close>

definition started_event :: "int \<Rightarrow> string \<Rightarrow> source_event" where
  "started_event now host =
     \<lparr>se_hostname = host, se_source_program = ''ctguard-research'', se_source_domain = ''daemon'',
      se_message = ''ctguard-research started'', se_control_message = True, se_time_scanned = now, se_time_send = now\<rparr>"

definition shutdown_mail :: "research_env \<Rightarrow> smtp_state \<Rightarrow> smtp_state" where
  "shutdown_mail env st =
     (let cfg = re_cfg env in
      if rc_mail cfg then
        snd (send_mail (re_smtp env) (rc_mail_host cfg) (rc_mail_port cfg) (rc_mail_fromaddr cfg) (rc_mail_toaddr cfg)
          ''ctguard shutting down...'' (rc_mail_replyaddr cfg) ''ctguard is shutting down.'' st)
      else st)"

text \<open>The threads in the order they are joined.\<close>

definition thread_stopped :: "nat \<Rightarrow> research_state \<Rightarrow> bool" where
  "thread_stopped n s =
     ((if n = 0 then g_input_pc s = In_done
       else if n = 1 then g_processing s \<noteq> Thread_running
       else if n = 2 then g_statet s \<noteq> Thread_running
       else if n = 3 then g_outputt s \<noteq> Thread_running
       else if n = 4 then g_interventiont s \<noteq> Thread_running
       else g_mailt s \<noteq> Thread_running))"

definition research_init :: "research_env \<Rightarrow> research_state" where
  "research_init env =
     \<lparr>g_running = True, g_main = Main_start, g_input_pc = In_start, g_processing = Thread_running,
      g_statet = Thread_running, g_outputt = Thread_running, g_interventiont = Thread_running,
      g_mailt = (if rc_mail (re_cfg env) then Thread_running else Thread_done),
      g_input = [], g_alerts = [], g_mails = [], g_interventions = [], g_rules = [], g_log = [], g_errors = [],
      g_resend = resend_init, g_sink = None, g_mail = mail_init,
      g_smtp = \<lparr>sm_tick = 0, sm_sent = [], sm_closed = []\<rparr>\<rparr>"

text \<open>The states an interrupted \<open>process_log\<close> may leave: a timer it armed holds a copy of the event.\<close>

definition interrupted_states :: "source_event \<Rightarrow> rules_state \<Rightarrow> rules_state \<Rightarrow> bool" where
  "interrupted_states se states states' =
     (\<forall>st' \<in> snd ` set states'.
        (ev_logstr (rs_unless_event st') = se_message se \<and> ev_control_message (rs_unless_event st') = se_control_message se)
        \<or> rs_unless_event st' = default_event
        \<or> (\<exists>st \<in> snd ` set states. rs_unless_event st' = rs_unless_event st))"

inductive research_step :: "research_env \<Rightarrow> research_state \<Rightarrow> label list \<Rightarrow> research_state \<Rightarrow> bool" for env where
  Main_starts: "g_main s = Main_start \<Longrightarrow> se = started_event now host \<Longrightarrow>
    research_step env s [Received se] (s\<lparr>g_main := Main_wait, g_input := bq_push (g_input s) se\<rparr>)"
| Main_wakes: "g_main s = Main_wait \<Longrightarrow>
    research_step env s [] (s\<lparr>g_main := Main_join 0, g_running := False, g_smtp := shutdown_mail env (g_smtp s)\<rparr>)"
| Main_joins: "g_main s = Main_join n \<Longrightarrow> n < 6 \<Longrightarrow> thread_stopped n s \<Longrightarrow>
    research_step env s [] (s\<lparr>g_main := Main_join (Suc n)\<rparr>)"
| Main_returns: "g_main s = Main_join 6 \<Longrightarrow> research_step env s [] (s\<lparr>g_main := Main_returned\<rparr>)"
| Input_opens: "g_input_pc s = In_start \<Longrightarrow> research_step env s [] (input_open env socket_ok bind_ok s)"
| Input_turns: "g_input_pc s \<in> {In_check, In_recv, In_kill} \<Longrightarrow> input_turn env answer s = (ls, s') \<Longrightarrow>
    research_step env s ls s'"
| Processing_turns: "g_processing s = Thread_running \<Longrightarrow> processing_turn env now s = Some (ls, s') \<Longrightarrow>
    g_processing s' \<noteq> Thread_dead \<Longrightarrow> research_step env s ls s'"
| Processing_throws: "g_processing s = Thread_running \<Longrightarrow> processing_turn env now s = Some ([Classified se], s') \<Longrightarrow>
    g_processing s' = Thread_dead \<Longrightarrow> interrupted_states se (g_rules s) states \<Longrightarrow>
    research_step env s [Classified se] (s'\<lparr>g_rules := states\<rparr>)"
| State_turns: "g_statet s = Thread_running \<Longrightarrow> state_turn env now s = (ls, s') \<Longrightarrow> research_step env s ls s'"
| State_stops: "g_statet s = Thread_running \<Longrightarrow> \<not> g_running s \<Longrightarrow> research_step env s [] (s\<lparr>g_statet := Thread_done\<rparr>)"
| Output_turns: "g_outputt s = Thread_running \<Longrightarrow> output_turn env now s = Some (ls, s') \<Longrightarrow> research_step env s ls s'"
| Intervention_starts: "g_interventiont s = Thread_running \<Longrightarrow> g_sink s = None \<Longrightarrow>
    research_step env s [] (intervention_start env opened ns s)"
| Intervention_turns: "g_interventiont s = Thread_running \<Longrightarrow> g_sink s = Some k \<Longrightarrow> intervention_turn env k s = Some s' \<Longrightarrow>
    research_step env s [] s'"
| Mail_turns: "g_mailt s = Thread_running \<Longrightarrow> g_running s \<Longrightarrow> bq_take_for (g_mails s) [] = (inp, q) \<Longrightarrow>
    mail_turn (re_smtp env) (re_cfg env) now inp (g_mail s) (g_smtp s) = (sent, m, st) \<Longrightarrow>
    research_step env s [] (s\<lparr>g_mails := q, g_mail := m, g_smtp := st\<rparr>)"
| Mail_stops: "g_mailt s = Thread_running \<Longrightarrow> \<not> g_running s \<Longrightarrow>
    mail_finish (re_smtp env) (re_cfg env) (g_mail s) (g_smtp s) = (sent, m, st) \<Longrightarrow>
    research_step env s [] (s\<lparr>g_mail := m, g_smtp := st, g_mailt := Thread_done\<rparr>)"

text \<open>A run and the labels of its steps, in order.\<close>

inductive research_run :: "research_env \<Rightarrow> label list \<Rightarrow> research_state \<Rightarrow> bool" for env where
  run_start: "research_run env [] (research_init env)"
| run_step: "research_run env tr s \<Longrightarrow> research_step env s ls s' \<Longrightarrow> research_run env (tr @ ls) s'"

end
