(* ===== verification/Rule_Engine_Facts.thy ===== *)
theory Rule_Engine_Facts
  imports Rule_Engine
begin

text \<open>
  What the rule engine guarantees: which rule of a level is selected, how the sliding window of an
  activation group counts, the path an event takes through the rule forest, what every run keeps of
  events and rule states, and that no exception escapes on well-formed rule sets.
\<close>

subsection \<open>Selection\<close>

text \<open>\<open>outranks a b\<close>: a level that matched \<open>a\<close> and \<open>b\<close> selects \<open>a\<close>.\<close>

definition outranks :: "rule_data \<Rightarrow> rule_data \<Rightarrow> bool" where
  "outranks a b = (r_priority b < r_priority a \<or> (r_priority a = r_priority b \<and> r_id a < r_id b))"

abbreviation matched_rule :: "matching \<Rightarrow> rule_data" where
  "matched_rule m \<equiv> rule_data (fst m)"

text \<open>The state of the second loop agrees with a rule: it holds its priority and its id.\<close>

definition sel_agrees :: "selection \<Rightarrow> bool" where
  "sel_agrees s =
     (case sel_fit s of
        None \<Rightarrow> sel_max_priority s = 0 \<and> sel_min_id s = - 1
      | Some m \<Rightarrow> r_priority (matched_rule m) = sel_max_priority s \<and> r_id (matched_rule m) = sel_min_id s)"

lemma select_step_agrees: "sel_agrees s \<Longrightarrow> sel_agrees (select_step m s)"
  by (simp add: sel_agrees_def select_step_def Let_def)

lemma not_below_minus_one [simp]: "i < (- 1 :: rule_id) \<longleftrightarrow> i \<noteq> - 1"
  by (metis word_not_simps(3) word_order.not_eq_extremum)

definition beats :: "rule_data \<Rightarrow> selection \<Rightarrow> bool" where
  "beats rl s = (sel_max_priority s < r_priority rl \<or> (r_priority rl = sel_max_priority s \<and> r_id rl < sel_min_id s))"

lemma select_step_beats:
  "select_step m s =
     (if beats (matched_rule m) s
      then \<lparr>sel_max_priority = r_priority (matched_rule m), sel_min_id = r_id (matched_rule m), sel_fit = Some m\<rparr>
      else s)"
  by (simp add: select_step_def beats_def Let_def)

lemma not_beats_step: "\<not> beats rl s \<Longrightarrow> \<not> beats rl (select_step m s)"
  by (auto simp: select_step_beats beats_def)

lemma not_beats_fold: "\<not> beats rl s \<Longrightarrow> \<not> beats rl (fold select_step tops s)"
  by (induction tops arbitrary: s) (simp_all add: not_beats_step)

lemma not_beats_self: "\<not> beats (matched_rule m) (select_step m s)"
  by (auto simp: select_step_beats beats_def)

lemma fold_select_best: "m \<in> set tops \<Longrightarrow> \<not> beats (matched_rule m) (fold select_step tops s)"
proof (induction tops arbitrary: s)
  case (Cons m' tops)
  then show ?case
    using not_beats_fold [OF not_beats_self [of m' s], of tops] by (cases "m = m'") auto
qed simp

lemma fold_select_agrees: "sel_agrees s \<Longrightarrow> sel_agrees (fold select_step tops s)"
  by (induction tops arbitrary: s) (simp_all add: select_step_agrees)

lemma fold_select_kept: "sel_fit s = Some m \<Longrightarrow> sel_fit (fold select_step tops s) \<noteq> None"
  by (induction tops arbitrary: s m) (auto simp: select_step_beats)

lemma select_rule_None_iff:
  "select_rule tops = None \<longleftrightarrow> (\<forall>m \<in> set tops. r_priority (matched_rule m) = 0 \<and> r_id (matched_rule m) = - 1)"
proof -
  let ?s = "\<lparr>sel_max_priority = 0, sel_min_id = - 1, sel_fit = None\<rparr> :: selection"
  have agr: "sel_agrees (fold select_step tops ?s)"
    by (rule fold_select_agrees) (simp add: sel_agrees_def)
  show ?thesis
  proof
    assume "select_rule tops = None"
    then have "sel_max_priority (fold select_step tops ?s) = 0" "sel_min_id (fold select_step tops ?s) = - 1"
      using agr by (auto simp: sel_agrees_def select_rule_def)
    then show "\<forall>m \<in> set tops. r_priority (matched_rule m) = 0 \<and> r_id (matched_rule m) = - 1"
      using fold_select_best [of _ tops ?s] by (auto simp: beats_def word_gt_0)
  next
    assume "\<forall>m \<in> set tops. r_priority (matched_rule m) = 0 \<and> r_id (matched_rule m) = - 1"
    then have "fold select_step tops ?s = ?s"
      by (induction tops) (auto simp: select_step_beats beats_def)
    then show "select_rule tops = None" by (simp add: select_rule_def)
  qed
qed

lemma select_rule_Some:
  assumes "select_rule tops = Some ex"
  shows "ex \<in> set tops \<and> (\<forall>m \<in> set tops. \<not> outranks (matched_rule m) (matched_rule ex))"
proof -
  let ?s = "\<lparr>sel_max_priority = 0, sel_min_id = - 1, sel_fit = None\<rparr> :: selection"
  have "sel_agrees (fold select_step tops ?s)"
    by (rule fold_select_agrees) (simp add: sel_agrees_def)
  with assms fold_select_best [of _ tops ?s] show ?thesis
    by (auto simp: select_rule_in sel_agrees_def select_rule_def beats_def outranks_def)
qed



subsection \<open>The activation window\<close>

text \<open>A history is what happened to a rule: each check with its time and event, and the event the rule was triggered for
  after that check (as \<open>update_event\<close> left it), if it was selected. A list of saved events holds times and events.\<close>

type_synonym history = "(int \<times> event \<times> event option) list"
type_synonym saved_events = "(int \<times> event) list"

definition activation_states :: "int \<Rightarrow> event \<Rightarrow> rule_data \<Rightarrow> rules_state \<Rightarrow> rules_state" where
  "activation_states now ev rl states = snd (snd (snd (check_activation now ev rl states)))"

text \<open>One entry of a history: \<open>check_activation\<close>, and \<open>update_state\<close> when the rule triggered.\<close>

definition feed_step :: "rule_data \<Rightarrow> int \<times> event \<times> event option \<Rightarrow> rules_state \<Rightarrow> rules_state" where
  "feed_step rl x states =
     (let states = activation_states (fst x) (fst (snd x)) rl states in
      case snd (snd x) of None \<Rightarrow> states | Some e \<Rightarrow> update_state states rl e)"

definition feed :: "rule_data \<Rightarrow> history \<Rightarrow> rules_state \<Rightarrow> rules_state" where
  "feed rl h states = fold (feed_step rl) h states"

lemma feed_snoc: "feed rl (h @ [x]) states = feed_step rl x (feed rl h states)"
  by (simp add: feed_def)

text \<open>The specification. Triggered for \<open>e\<close>, a rule with \<open>reset\<close> discards the saved events with the same value of its
  \<open>same_field\<close>, all of them if it has none; \<open>undiscarded\<close> are the events of a history that no trigger at or after their
  check discarded.\<close>

definition discards :: "rule_data \<Rightarrow> event \<Rightarrow> event \<Rightarrow> bool" where
  "discards rl e ev =
     (ag_reset (r_activation rl)
      \<and> (r_same_field rl = []
         \<or> map_of (ev_fields e) (r_same_field rl) \<noteq> None
           \<and> map_of (ev_fields ev) (r_same_field rl) = map_of (ev_fields e) (r_same_field rl)))"

definition discarded_at :: "rule_data \<Rightarrow> event \<Rightarrow> int \<times> event \<times> event option \<Rightarrow> bool" where
  "discarded_at rl ev x = (case snd (snd x) of None \<Rightarrow> False | Some e \<Rightarrow> discards rl e ev)"

fun undiscarded :: "rule_data \<Rightarrow> history \<Rightarrow> saved_events" where
  "undiscarded rl [] = []"
| "undiscarded rl (x # h) =
     (if \<exists>y \<in> set (x # h). discarded_at rl (fst (snd x)) y then [] else [(fst x, fst (snd x))]) @ undiscarded rl h"

lemma undiscarded_snoc:
  "undiscarded rl (h @ [x]) = filter (\<lambda>p. \<not> discarded_at rl (snd p) x) (undiscarded rl h @ [(fst x, fst (snd x))])"
  by (induction h) auto

lemma undiscarded_set: "(t, ev) \<in> set (undiscarded rl h) \<Longrightarrow> \<exists>trig. (t, ev, trig) \<in> set h"
  by (induction rl h rule: undiscarded.induct) (auto split: if_splits)

lemma undiscarded_sorted: "sorted (map fst h) \<Longrightarrow> sorted (map fst (undiscarded rl h))"
  by (induction rl h rule: undiscarded.induct) (fastforce dest: undiscarded_set)+

text \<open>The events of the rule's group that lie in the window ending at \<open>now\<close>.\<close>

definition window :: "rule_data \<Rightarrow> int \<Rightarrow> saved_events \<Rightarrow> saved_events" where
  "window rl now h =
     filter (\<lambda>(t, ev). ag_group_name (r_activation rl) \<in> set (ev_groups ev)
                        \<and> now \<le> t + int (unat (ag_time (r_activation rl)))) h"

definition in_group :: "rule_data \<Rightarrow> event \<Rightarrow> bool" where
  "in_group rl ev = (ag_group_name (r_activation rl) \<in> set (ev_groups ev))"

lemma drop_old_filter:
  "mm_wf m \<Longrightarrow> drop_old now w m = filter (\<lambda>p. now \<le> fst p + int (unat w)) m"
proof -
  assume "mm_wf m"
  then have "dropWhile (\<lambda>p. fst p < now - int (unat w)) m = filter (\<lambda>p. now - int (unat w) \<le> fst p) m"
    by (rule dropWhile_sorted_filter)
  moreover have "(\<lambda>p :: int \<times> event. fst p + int (unat w) < now) = (\<lambda>p. fst p < now - int (unat w))"
    "(\<lambda>p :: int \<times> event. now \<le> fst p + int (unat w)) = (\<lambda>p. now - int (unat w) \<le> fst p)"
    by (auto simp: fun_eq_iff)
  ultimately show ?thesis by (simp add: drop_old_def)
qed

lemma window_times: "p \<in> set (window rl now h) \<Longrightarrow> p \<in> set h"
  by (auto simp: window_def)

lemma window_wf: "sorted (map fst h) \<Longrightarrow> mm_wf (window rl now h)"
  unfolding window_def by (rule mm_filter_wf) (simp add: mm_wf_def)

lemma window_advance:
  assumes "t \<le> now"
  shows "filter (\<lambda>p. now \<le> fst p + int (unat (ag_time (r_activation rl)))) (window rl t h) = window rl now h"
  using assms by (auto simp: window_def filter_filter intro!: filter_cong)

text \<open>What the rule stores at time \<open>T\<close>, when \<open>seen\<close> tells if its group occurred and \<open>g\<close> are the events not discarded.\<close>

definition stored :: "rule_data \<Rightarrow> int \<Rightarrow> bool \<Rightarrow> saved_events \<Rightarrow> rules_state \<Rightarrow> bool" where
  "stored rl T seen g states =
     (smap_wf states
      \<and> (if seen
         then \<exists>st. map_of states (r_id rl) = Some st \<and> rs_mevents st = window rl T g
         else map_of states (r_id rl) = None \<and> window rl T g = []))"

text \<open>One check with a stored window: the window of the extended events, and the saved events.\<close>

lemma check_step:
  assumes st: "stored rl T seen g states" and sorted: "sorted (map fst g)"
    and T: "T \<le> now" "\<forall>p \<in> set g. fst p \<le> now" and grp: "ag_group_name (r_activation rl) \<noteq> []"
    and some: "map_of states (r_id rl) = Some rs"
  shows "drop_old now (ag_time (r_activation rl))
           (if in_group rl ev then mm_emplace now ev (rs_mevents rs) else rs_mevents rs)
         = window rl now (g @ [(now, ev)])"
proof -
  from st some have m: "rs_mevents rs = window rl T g" by (auto simp: stored_def split: if_splits)
  have "mm_emplace now ev (window rl T g) = window rl T g @ [(now, ev)]"
    using T(2) by (intro mm_emplace_last window_wf sorted) (auto dest: window_times)
  moreover have "mm_wf (window rl T g @ [(now, ev)])"
    using window_wf [OF sorted, of rl T] T(2) by (auto simp: mm_wf_def sorted_append dest: window_times)
  ultimately show ?thesis
    using window_advance [OF T(1), of rl g] window_wf [OF sorted, of rl T]
    by (auto simp: m drop_old_filter in_group_def) (auto simp: window_def)
qed

lemma check_activation_Some:
  assumes "ag_group_name (r_activation rl) \<noteq> []" "map_of states (r_id rl) = Some rs"
    and "w = drop_old now (ag_time (r_activation rl))
               (if in_group rl ev then mm_emplace now ev (rs_mevents rs) else rs_mevents rs)"
  shows "activation_states now ev rl states = smap_put (r_id rl) (rs\<lparr>rs_mevents := w\<rparr>) states"
    and "fst (snd (check_activation now ev rl states)) \<longleftrightarrow>
           unat (ag_rate (r_activation rl)) \<le> length w \<and>
           (r_same_field rl = [] \<or>
            (\<exists>v. map_of (ev_fields ev) (r_same_field rl) = Some v
                 \<and> ag_rate (r_activation rl) \<le> (of_nat (length (same_events (r_same_field rl) v w)) :: 16 word)))"
  using assms
  by (simp_all add: activation_states_def check_activation_def Let_def in_group_def split: option.split)

lemma check_activation_None:
  assumes "ag_group_name (r_activation rl) \<noteq> []" "map_of states (r_id rl) = None"
  shows "activation_states now ev rl states =
           (if in_group rl ev then smap_put (r_id rl) (default_rule_state\<lparr>rs_mevents := [(now, ev)]\<rparr>) states else states)"
    and "\<not> fst (snd (check_activation now ev rl states))"
  using assms
  by (simp_all add: activation_states_def check_activation_def Let_def in_group_def)

lemma stored_step:
  assumes st: "stored rl T seen g states" and sorted: "sorted (map fst g)"
    and T: "T \<le> now" "\<forall>p \<in> set g. fst p \<le> now" and grp: "ag_group_name (r_activation rl) \<noteq> []"
  shows "stored rl now (seen \<or> in_group rl ev) (g @ [(now, ev)]) (activation_states now ev rl states)"
proof (cases "map_of states (r_id rl)")
  case None
  with st have n: "\<not> seen" "window rl T g = []" by (auto simp: stored_def split: if_splits)
  from window_advance [OF T(1), of rl g] n(2) have "window rl now g = []" by simp
  then have "window rl now (g @ [(now, ev)]) = (if in_group rl ev then [(now, ev)] else [])"
    by (simp add: window_def in_group_def)
  with st n grp None show ?thesis by (auto simp: stored_def check_activation_None)
next
  case (Some rs)
  then have seen using st by (auto simp: stored_def split: if_splits)
  then show ?thesis
    using st check_activation_Some(1) [OF grp Some refl] check_step [OF st sorted T grp Some]
    by (auto simp: stored_def)
qed

lemma window_Nil [simp]: "window rl now [] = []"
  by (simp add: window_def)

lemma window_filter: "window rl now (filter P g) = filter P (window rl now g)"
  by (simp add: window_def filter_filter conj_commute)

text \<open>\<open>update_state\<close> discards from the stored window what the specification discards.\<close>

lemma stored_update:
  assumes "stored rl T seen g states" "ag_group_name (r_activation rl) \<noteq> []"
  shows "stored rl T seen (filter (\<lambda>p. \<not> discards rl e (snd p)) g) (update_state states rl e)"
proof (cases "ag_reset (r_activation rl)")
  case False
  then have "\<not> discards rl e ev" for ev by (simp add: discards_def)
  with False assms(1) show ?thesis by (simp add: update_state_def)
next
  case True
  show ?thesis
  proof (cases "map_of states (r_id rl)")
    case None
    with True assms show ?thesis by (auto simp: update_state_def stored_def window_filter split: if_splits)
  next
    case (Some st)
    with assms(1) have s: seen "rs_mevents st = window rl T g" "smap_wf states" by (auto simp: stored_def split: if_splits)
    show ?thesis
    proof (cases "r_same_field rl = []")
      case empty: True
      then have "discards rl e ev" for ev using True by (simp add: discards_def)
      then show ?thesis using s True Some empty assms(2) by (simp add: update_state_def stored_def window_filter)
    next
      case field: False
      show ?thesis
      proof (cases "map_of (ev_fields e) (r_same_field rl)")
        case None
        with field have "\<not> discards rl e ev" for ev by (simp add: discards_def)
        with assms Some True field None show ?thesis by (simp add: update_state_def)
      next
        case v: (Some v)
        with field True have "discards rl e ev \<longleftrightarrow> map_of (ev_fields ev) (r_same_field rl) = Some v" for ev by (simp add: discards_def)
        with s True Some field v assms(2) show ?thesis by (simp add: update_state_def stored_def window_filter)
      qed
    qed
  qed
qed

lemma stored_feed:
  assumes "ag_group_name (r_activation rl) \<noteq> []" "sorted (map fst h)" "h \<noteq> []"
  shows "stored rl (fst (last h)) (\<exists>x \<in> set h. in_group rl (fst (snd x))) (undiscarded rl h) (feed rl h [])"
  using assms(2,3)
proof (induction h rule: rev_induct)
  case Nil
  then show ?case by simp
next
  case (snoc x h)
  obtain now ev trig where x: "x = (now, ev, trig)" by (cases x)
  have s: "sorted (map fst h)" "\<forall>q \<in> set h. fst q \<le> now"
    using snoc.prems(1) by (auto simp: x sorted_append)
  let ?seen = "\<exists>x \<in> set h. in_group rl (fst (snd x))"
  have g: "sorted (map fst (undiscarded rl h))" "\<forall>p \<in> set (undiscarded rl h). fst p \<le> now"
    using undiscarded_sorted [OF s(1)] s(2) by (auto dest!: undiscarded_set)
  have "\<exists>T \<le> now. stored rl T ?seen (undiscarded rl h) (feed rl h [])"
  proof (cases "h = []")
    case True
    then show ?thesis by (intro exI [of _ now]) (simp add: stored_def feed_def)
  next
    case False
    with s snoc.IH show ?thesis by (intro exI [of _ "fst (last h)"]) simp
  qed
  then obtain T where T: "T \<le> now" "stored rl T ?seen (undiscarded rl h) (feed rl h [])" by blast
  note n = stored_step [OF T(2) g(1) T(1) g(2) assms(1), of ev]
  have "(\<exists>y \<in> set (h @ [x]). in_group rl (fst (snd y))) = (?seen \<or> in_group rl ev)" by (auto simp: x)
  with n stored_update [OF n assms(1)] show ?case
    by (cases trig) (simp_all add: x feed_snoc feed_step_def undiscarded_snoc discarded_at_def del: filter_append)
qed

text \<open>
  C7: The activation window over a whole history. A rule with an activation group that has been
  checked against the events of a history (in order of time, from an empty state), and triggered after some of the checks, is
  found active at the next check exactly when an event of the group occurred before, the events of the group inside
  the time window, the current one included, that no trigger of the rule discarded, number at least the rate, and, with a same_field,
  the current event carries the field and the events of the window that carry the same value of it
  number (modulo 2 to the 16) at least the rate. A trigger discards events only if the rule has reset: all of them, or
  with a same_field those of the same value.
\<close>

theorem activation_counts_window:
  assumes "ag_group_name (r_activation rl) \<noteq> []" and "sorted (map fst h @ [now])"
  shows "fst (snd (check_activation now ev rl (feed rl h []))) \<longleftrightarrow>
    (\<exists>x \<in> set h. in_group rl (fst (snd x)))
    \<and> unat (ag_rate (r_activation rl)) \<le> length (window rl now (undiscarded rl h @ [(now, ev)]))
    \<and> (r_same_field rl = [] \<or>
       (\<exists>v. map_of (ev_fields ev) (r_same_field rl) = Some v
          \<and> ag_rate (r_activation rl)
              \<le> (of_nat (length (same_events (r_same_field rl) v (window rl now (undiscarded rl h @ [(now, ev)])))) :: 16 word)))"
proof (cases "h = []")
  case True
  with assms(1) show ?thesis by (simp add: feed_def check_activation_None)
next
  case False
  let ?seen = "\<exists>x \<in> set h. in_group rl (fst (snd x))"
  from assms(2) have s: "sorted (map fst h)" "\<forall>p \<in> set h. fst p \<le> now"
    by (auto simp: sorted_append)
  have st: "stored rl (fst (last h)) ?seen (undiscarded rl h) (feed rl h [])"
    using assms(1) s(1) False by (rule stored_feed)
  show ?thesis
  proof (cases "map_of (feed rl h []) (r_id rl)")
    case None
    then have "\<not> ?seen" using st by (auto simp: stored_def split: if_splits)
    with None assms(1) show ?thesis by (simp add: check_activation_None)
  next
    case (Some rs)
    have "?seen" using st Some by (auto simp: stored_def split: if_splits)
    moreover have "fst (last h) \<le> now" using s(2) False by simp
    moreover have "\<forall>p \<in> set (undiscarded rl h). fst p \<le> now" using s(2) by (fastforce dest: undiscarded_set)
    ultimately show ?thesis
      using check_activation_Some(2) [OF assms(1) Some, of _ now ev, OF refl]
        check_step [OF st undiscarded_sorted [OF s(1)] _ _ assms(1) Some, of now ev] by simp
  qed
qed

definition login_rule :: rule_data where
  "login_rule = default_rule\<lparr>r_id := 5, r_activation := \<lparr>ag_time = 60, ag_rate = 3, ag_group_name = ''login'', ag_reset = True\<rparr>\<rparr>"

definition login_event :: event where
  "login_event = default_event\<lparr>ev_groups := [''login'']\<rparr>"

text \<open>Three logins trigger the rule, which discards them; so the next one counts as the first.\<close>

definition login_history :: history where
  "login_history = [(0, login_event, None), (20, login_event, None)]"

theorem activation_counts_window_witness:
  "fst (snd (check_activation 30 login_event login_rule (feed login_rule login_history [])))
   \<and> \<not> fst (snd (check_activation 65 login_event login_rule (feed login_rule login_history [])))
   \<and> \<not> fst (snd (check_activation 40 login_event login_rule
        (feed login_rule (login_history @ [(30, login_event, Some login_event)]) [])))"
  using activation_counts_window [of login_rule login_history 30 login_event]
    activation_counts_window [of login_rule login_history 65 login_event]
    activation_counts_window [of login_rule "login_history @ [(30, login_event, Some login_event)]" 40 login_event]
  by (simp add: login_history_def login_rule_def login_event_def default_rule_def default_event_def in_group_def window_def
      discards_def discarded_at_def)

subsection \<open>The path of an event\<close>

text \<open>\<open>descends rx now rules e states path e' states'\<close>: level after level, a rule that matches the event, checked in its turn in the
  rule states the rules before it left, and that no other match of its level outranks, updates the event; \<open>path\<close> lists
  those rules, and on the last level no rule matches.\<close>

inductive descends :: "regex_lib \<Rightarrow> int \<Rightarrow> rule list \<Rightarrow> event \<Rightarrow> rules_state \<Rightarrow> rule_data list \<Rightarrow> event \<Rightarrow> rules_state \<Rightarrow> bool"
  for rx :: regex_lib and now :: int where
  stays: "check_level rx now e rules states = Inr ([], states') \<Longrightarrow> descends rx now rules e states [] e states'"
| down: "\<lbrakk>check_level rx now e before states = Inr (ms, st1);
          check_rule rx now e (rule_data r) st1 = Inr ((True, mf, mt), st2);
          check_level rx now e after st2 = Inr (ms', st3);
          \<forall>m \<in> set (ms @ ms'). \<not> outranks (matched_rule m) (rule_data r);
          e1 = update_event (rule_data r) mf mt e;
          descends rx now (rule_children r) e1 (update_state st3 (rule_data r) e1) path e' states'\<rbrakk>
         \<Longrightarrow> descends rx now (before @ r # after) e states (rule_data r # path) e' states'"

fun is_path :: "rule list \<Rightarrow> rule_data list \<Rightarrow> bool" where
  "is_path rules [] = True"
| "is_path rules (d # ds) = (\<exists>r \<in> set rules. rule_data r = d \<and> is_path (rule_children r) ds)"

lemma check_level_split:
  assumes "check_level rx now e rules states = Inr (tops, states')" "(r, mf, mt) \<in> set tops"
  shows "\<exists>before after ms ms' st1 st2. rules = before @ r # after \<and> tops = ms @ (r, mf, mt) # ms'
     \<and> check_level rx now e before states = Inr (ms, st1) \<and> check_rule rx now e (rule_data r) st1 = Inr ((True, mf, mt), st2)
     \<and> check_level rx now e after st2 = Inr (ms', states')"
  using assms
proof (induction rules arbitrary: states tops)
  case (Cons x xs)
  then obtain b f t st1 tops1 where
      1: "check_rule rx now e (rule_data x) states = Inr ((b, f, t), st1)"
    and 2: "check_level rx now e xs st1 = Inr (tops1, states')"
    and 3: "tops = (if b then (x, f, t) # tops1 else tops1)"
    by (auto simp: rbind_Inr_iff split: if_splits)
  show ?case
  proof (cases "b \<and> (x, f, t) = (r, mf, mt)")
    case True
    show ?thesis
      by (rule exI [of _ "[]"], rule exI [of _ xs], rule exI [of _ "[]"], rule exI [of _ tops1],
          rule exI [of _ states], rule exI [of _ st1]) (use True 1 2 3 in auto)
  next
    case False
    with 3 Cons.prems(2) have "(r, mf, mt) \<in> set tops1" by (auto split: if_splits)
    from Cons.IH [OF 2 this] obtain before after ms ms' st2 st3 where
      "xs = before @ r # after" "tops1 = ms @ (r, mf, mt) # ms'" "check_level rx now e before st1 = Inr (ms, st2)"
      "check_rule rx now e (rule_data r) st2 = Inr ((True, mf, mt), st3)" "check_level rx now e after st3 = Inr (ms', states')"
      by blast
    note sp = this
    show ?thesis
      by (rule exI [of _ "x # before"], rule exI [of _ after], rule exI [of _ "if b then (x, f, t) # ms else ms"], rule exI [of _ ms'],
          rule exI [of _ st2], rule exI [of _ st3]) (use sp 1 3 in simp)
  qed
qed simp

lemma check_top_rules_descends:
  "check_top_rules rx now e rules states = Inr (e', states') \<Longrightarrow> \<exists>path. descends rx now rules e states path e' states'"
proof (induction rx now e rules states rule: check_top_rules.induct)
  case (1 rx now e rules states)
  obtain tops st1 where l: "check_level rx now e rules states = Inr (tops, st1)"
    using "1.prems" by (subst (asm) check_top_rules.simps) (auto simp: rbind_Inr_iff)
  show ?case
  proof (cases "select_rule tops")
    case None
    then have "e' = e" "tops = []" "states' = st1"
      using "1.prems" l by (auto simp: check_top_rules.simps [of _ _ e] split: if_splits)
    with l show ?thesis by (auto intro: stays)
  next
    case (Some m)
    obtain r mf mt where m: "m = (r, mf, mt)" by (cases m)
    from select_rule_Some [OF Some] have best: "m \<in> set tops" "\<forall>x \<in> set tops. \<not> outranks (matched_rule x) (rule_data r)"
      by (auto simp: m)
    then have ne: "tops \<noteq> []" by auto
    from check_level_split [OF l best(1) [unfolded m]] obtain before after ms ms' s1 s2 where
      sp: "rules = before @ r # after" "tops = ms @ (r, mf, mt) # ms'" "check_level rx now e before states = Inr (ms, s1)"
      "check_rule rx now e (rule_data r) s1 = Inr ((True, mf, mt), s2)" "check_level rx now e after s2 = Inr (ms', st1)"
      by blast
    have rec: "check_top_rules rx now (update_event (rule_data r) mf mt e) (rule_children r)
        (update_state st1 (rule_data r) (update_event (rule_data r) mf mt e)) = Inr (e', states')"
      using "1.prems" l ne Some by (simp add: m check_top_rules.simps [of _ _ e] Let_def)
    from "1.IH" [OF l refl ne Some [unfolded m] refl refl refl rec]
    obtain path where "descends rx now (rule_children r) (update_event (rule_data r) mf mt e)
        (update_state st1 (rule_data r) (update_event (rule_data r) mf mt e)) path e' states'" by blast
    from down [OF sp(3-5) _ refl this] best(2) show ?thesis unfolding sp(1) sp(2) by auto
  qed
qed

lemma update_event_simps [simp]:
  "ev_rule_id (update_event rl mf mt e) = r_id rl"
  "ev_priority (update_event rl mf mt e) = r_priority rl"
  "ev_description (update_event rl mf mt e) = r_description rl"
  "ev_always_alert (update_event rl mf mt e) = r_always_alert rl"
  "ev_interventions (update_event rl mf mt e) = r_interventions rl"
  "ev_logstr (update_event rl mf mt e) = ev_logstr e"
  "ev_control_message (update_event rl mf mt e) = ev_control_message e"
  "set (ev_groups (update_event rl mf mt e)) = set (r_groups rl) \<union> set (ev_groups e)"
  by (simp_all add: update_event_def add_groups_def)

text \<open>What the verdict on an event (its priority, rule, description, alert flag and interventions) is.\<close>

definition verdict :: "event \<Rightarrow> priority \<times> rule_id \<times> string \<times> bool \<times> intervention_rule list" where
  "verdict e = (ev_priority e, ev_rule_id e, ev_description e, ev_always_alert e, ev_interventions e)"

definition rule_verdict :: "rule_data \<Rightarrow> priority \<times> rule_id \<times> string \<times> bool \<times> intervention_rule list" where
  "rule_verdict d = (r_priority d, r_id d, r_description d, r_always_alert d, r_interventions d)"

lemma descends_path: "descends rx now rules e states path e' states' \<Longrightarrow> is_path rules path"
  by (induction rule: descends.induct) auto

lemma descends_frame:
  "descends rx now rules e states path e' states' \<Longrightarrow>
     ev_logstr e' = ev_logstr e \<and> ev_control_message e' = ev_control_message e
     \<and> set (ev_groups e') = set (ev_groups e) \<union> (\<Union>d \<in> set path. set (r_groups d))
     \<and> verdict e' = (if path = [] then verdict e else rule_verdict (last path))"
  by (induction rule: descends.induct) (auto simp: verdict_def rule_verdict_def)

lemma check_rule_True_not_unless:
  "check_rule rx now e rl st = Inr ((True, mf, mt), st') \<Longrightarrow> ur_id (r_unless rl) = 0"
  by (auto simp: check_rule_def rbind_Inr_iff split: if_splits)

lemma descends_no_unless: "descends rx now rules e states path e' states' \<Longrightarrow> d \<in> set path \<Longrightarrow> ur_id (r_unless d) = 0"
  by (induction rule: descends.induct) (auto dest: check_rule_True_not_unless)

lemma format_log_frame:
  "format_log rx e fs = Inr e' \<Longrightarrow>
     ev_logstr e' = ev_logstr e \<and> ev_groups e' = ev_groups e \<and> ev_control_message e' = ev_control_message e
     \<and> verdict e' = verdict e"
  by (induction rx e fs rule: format_log.induct) (auto simp: verdict_def rbind_Inr_iff split: option.splits)

lemma event_of_source_simps [simp]:
  "ev_logstr (event_of_source ft se) = se_message se"
  "ev_groups (event_of_source ft se) = []"
  "ev_control_message (event_of_source ft se) = se_control_message se"
  "verdict (event_of_source ft se) = (0, 0, [], False, [])"
  by (simp_all add: event_of_source_def default_event_def verdict_def)

text \<open>
  C8: The classification of a log. When \<open>process_log\<close> returns an event, the event, after the format was found, went down
  a path of the standard rules and then a path of the group rules: on every level the rule of the path matched the event as the rules
  before left it, in the rule states of that moment, no other rule that matched outranks it, and below
  the last rule nothing matches. None of those rules is an unless rule; the
  groups of the event are exactly those of the rules on the two paths, its priority, rule id, description, alert
  flag and interventions are those of the last rule (or the initial ones when no rule matched), and
  its text is the message.
\<close>

theorem process_log_classifies:
  assumes "process_log rx fmt_time now se cfg states = Inr (e, states')"
  shows "\<exists>e0 e1 st1 p q. format_log rx (event_of_source fmt_time se) (cfg_formats cfg) = Inr e0
     \<and> descends rx now (std_rules cfg) e0 states p e1 st1 \<and> descends rx now (group_rules cfg) e1 st1 q e states'
     \<and> is_path (std_rules cfg) p \<and> is_path (group_rules cfg) q
     \<and> (\<forall>d \<in> set (p @ q). ur_id (r_unless d) = 0)
     \<and> set (ev_groups e) = (\<Union>d \<in> set (p @ q). set (r_groups d))
     \<and> verdict e = (if p @ q = [] then (0, 0, [], False, []) else rule_verdict (last (p @ q)))
     \<and> ev_logstr e = se_message se \<and> ev_control_message e = se_control_message se"
proof -
  obtain e0 e1 st1 where f: "format_log rx (event_of_source fmt_time se) (cfg_formats cfg) = Inr e0"
    and s: "check_top_rules rx now e0 (std_rules cfg) states = Inr (e1, st1)"
    and g: "check_top_rules rx now e1 (group_rules cfg) st1 = Inr (e, states')"
    using assms by (auto simp: process_log_def rbind_Inr_iff)
  obtain p where p: "descends rx now (std_rules cfg) e0 states p e1 st1" using check_top_rules_descends [OF s] by blast
  obtain q where q: "descends rx now (group_rules cfg) e1 st1 q e states'" using check_top_rules_descends [OF g] by blast
  have "\<forall>d \<in> set (p @ q). ur_id (r_unless d) = 0"
    using descends_no_unless [OF p] descends_no_unless [OF q] by auto
  moreover have "set (ev_groups e) = (\<Union>d \<in> set (p @ q). set (r_groups d))"
    "verdict e = (if p @ q = [] then (0, 0, [], False, []) else rule_verdict (last (p @ q)))"
    "ev_logstr e = se_message se" "ev_control_message e = se_control_message se"
    using descends_frame [OF p] descends_frame [OF q] format_log_frame [OF f] by auto
  ultimately show ?thesis using f p q descends_path [OF p] descends_path [OF q] by blast
qed

definition ssh_cfg :: rule_cfg where
  "ssh_cfg =
     \<lparr>std_rules =
        [Rule (default_rule\<lparr>r_id := 1, r_priority := 2, r_trigger_group := ''!ALWAYS'', r_groups := [''syslog'']\<rparr>)
          [Rule (default_rule\<lparr>r_id := 2, r_priority := 5, r_parent_ids := [1], r_reg := Some ''boom'',
             r_groups := [''attack'']\<rparr>) []]],
      group_rules = [], cfg_groups = [], cfg_formats = [], cfg_interventions = []\<rparr>"

theorem process_log_classifies_witness:
  "\<exists>e st. process_log literal_rx (\<lambda>t. []) 0 (default_source_event\<lparr>se_message := ''boom''\<rparr>) ssh_cfg [] = Inr (e, st)
      \<and> ev_rule_id e = 2
      \<and> (\<exists>p q. is_path (std_rules ssh_cfg) p \<and> is_path (group_rules ssh_cfg) q
           \<and> set (ev_groups e) = (\<Union>d \<in> set (p @ q). set (r_groups d)))"
proof -
  let ?r = "process_log literal_rx (\<lambda>t. []) 0 (default_source_event\<lparr>se_message := ''boom''\<rparr>) ssh_cfg []"
  have "map_sum (\<lambda>x. True) (\<lambda>x. ev_rule_id (fst x)) ?r = Inr 2" by code_simp
  then obtain e st where *: "?r = Inr (e, st)" "ev_rule_id e = 2" by (cases ?r) auto
  from process_log_classifies [OF *(1)] * show ?thesis by blast
qed

subsection \<open>Well-formed events and states\<close>

definition rule_state_wf :: "int \<Rightarrow> rule_state \<Rightarrow> bool" where
  "rule_state_wf now st =
     (mm_wf (rs_mevents st) \<and> (\<forall>(t, ev) \<in> set (rs_mevents st). t \<le> now \<and> event_wf ev)
      \<and> event_wf (rs_unless_event st) \<and> rs_unless_triggered st \<le> now)"

definition states_wf :: "int \<Rightarrow> rules_state \<Rightarrow> bool" where
  "states_wf now states = (smap_wf states \<and> (\<forall>i st. map_of states i = Some st \<longrightarrow> rule_state_wf now st))"

named_theorems engine_wf \<open>operations keep events and rule states well-formed\<close>

lemma states_wf_put [engine_wf]: "states_wf now m \<Longrightarrow> rule_state_wf now st \<Longrightarrow> states_wf now (smap_put i st m)"
  by (simp add: states_wf_def)

lemma states_wf_get: "states_wf now m \<Longrightarrow> map_of m i = Some st \<Longrightarrow> rule_state_wf now st"
  by (simp add: states_wf_def)

lemma states_wf_at [engine_wf]: "states_wf now m \<Longrightarrow> 0 \<le> now \<Longrightarrow> rule_state_wf now (state_at i m)"
  by (auto simp: state_at_def states_wf_def default_rule_state_def rule_state_wf_def mm_wf_def split: option.splits)

lemma mevents_wf_sub:
  "rule_state_wf now st \<Longrightarrow> mm_wf es \<Longrightarrow> set es \<subseteq> set (rs_mevents st) \<Longrightarrow> rule_state_wf now (st\<lparr>rs_mevents := es\<rparr>)"
  by (auto simp: rule_state_wf_def)

lemma check_unless_wf [engine_wf]:
  assumes "check_unless now ev rl states = Inr states'" "states_wf now states" "event_wf ev" "0 \<le> now"
  shows "states_wf now states'"
proof -
  have w: "rule_state_wf now (state_at (r_id rl) states)" using assms(2,4) by (rule states_wf_at)
  show ?thesis
    using assms w by (auto simp: check_unless_def Let_def rule_state_wf_def split: if_splits intro!: states_wf_put)
qed

lemma saved_wf:
  assumes "rule_state_wf now st" "event_wf ev"
    and "m = drop_old now w (if found then mm_emplace now ev (rs_mevents st) else rs_mevents st)"
  shows "rule_state_wf now (st\<lparr>rs_mevents := m\<rparr>)"
proof -
  have "mm_wf (if found then mm_emplace now ev (rs_mevents st) else rs_mevents st)"
    using assms(1) by (auto simp: rule_state_wf_def)
  with assms show ?thesis
    by (auto simp: rule_state_wf_def drop_old_filter split: if_splits)
qed

lemma check_activation_wf [engine_wf]:
  assumes "check_activation now ev rl states = (found, act, mt, states')" "states_wf now states" "event_wf ev" "0 \<le> now"
  shows "states_wf now states'"
proof (cases "ag_group_name (r_activation rl) = []")
  case True
  with assms show ?thesis by (simp add: check_activation_def Let_def)
next
  case False
  have s: "states' = activation_states now ev rl states" using assms(1) by (simp add: activation_states_def)
  show ?thesis
  proof (cases "map_of states (r_id rl)")
    case None
    have "rule_state_wf now (default_rule_state\<lparr>rs_mevents := [(now, ev)]\<rparr>)"
      using assms(3,4) by (simp add: rule_state_wf_def default_rule_state_def mm_wf_def)
    then show ?thesis using None assms(2) by (simp add: s check_activation_None [OF False None] states_wf_put)
  next
    case (Some st)
    note w = states_wf_get [OF assms(2) Some]
    show ?thesis
      unfolding s check_activation_Some(1) [OF False Some refl]
      by (intro states_wf_put assms(2) saved_wf [OF w assms(3) refl])
  qed
qed

lemma put_all_wf [engine_wf]: "smap_wf m \<Longrightarrow> smap_wf (put_all ms m)"
  by (induction ms arbitrary: m) (auto simp: put_all_def)

lemma update_event_wf [engine_wf]: "event_wf e \<Longrightarrow> event_wf (update_event rl mf mt e)"
proof -
  assume "event_wf e"
  then have "event_wf (add_groups (r_groups rl) (e\<lparr>ev_description := r_description rl, ev_always_alert := r_always_alert rl\<rparr>))"
    by (intro event_wf_add_groups) (simp add: event_wf_def)
  then show ?thesis using \<open>event_wf e\<close> by (simp add: update_event_def event_wf_def put_all_wf)
qed

lemma update_state_wf [engine_wf]: "states_wf now states \<Longrightarrow> states_wf now (update_state states rl ev)"
  unfolding update_state_def
  by (auto split: option.splits intro!: states_wf_put mevents_wf_sub intro: states_wf_get)
    (auto simp: mm_wf_def rule_state_wf_def dest!: states_wf_get intro: sorted_filter)

lemma check_rule_wf [engine_wf]:
  assumes "check_rule rx now ev rl states = Inr (res, states')" "states_wf now states" "event_wf ev" "0 \<le> now"
  shows "states_wf now states'"
proof (cases "ur_id (r_unless rl) = 0")
  case False
  with assms show ?thesis by (auto simp: check_rule_def rbind_Inr_iff intro: check_unless_wf)
next
  case True
  obtain found act mt st1 where c: "check_activation now ev rl states = (found, act, mt, st1)"
    by (cases "check_activation now ev rl states") auto
  with assms(1) True have "states' = st1"
    by (auto simp: check_rule_def rbind_Inr_iff Let_def split: if_splits option.splits)
  with check_activation_wf [OF c assms(2-4)] show ?thesis by simp
qed

lemma check_level_wf [engine_wf]:
  "check_level rx now ev rules states = Inr (tops, states') \<Longrightarrow> states_wf now states \<Longrightarrow> event_wf ev \<Longrightarrow> 0 \<le> now \<Longrightarrow>
   states_wf now states'"
  by (induction rules arbitrary: states tops) (auto simp: rbind_Inr_iff intro: check_rule_wf)

lemma check_top_rules_stop:
  "check_level rx now e rules states = Inr ([], st1) \<Longrightarrow> check_top_rules rx now e rules states = Inr (e, st1)"
  by (simp add: check_top_rules.simps [of _ _ e])

lemma check_top_rules_down:
  assumes "check_level rx now e rules states = Inr (tops, st1)" "tops \<noteq> []" "select_rule tops = Some (r, mf, mt)"
  shows "check_top_rules rx now e rules states =
    (let e' = update_event (rule_data r) mf mt e
     in check_top_rules rx now e' (rule_children r) (update_state st1 (rule_data r) e'))"
  using assms by (simp add: check_top_rules.simps [of _ _ e] Let_def)

text \<open>The induction the proofs about a run of the levels share.\<close>

lemma check_top_rules_run_induct [consumes 1, case_names stop down]:
  assumes "check_top_rules rx now e rules states = Inr (e', states')"
    and stop: "\<And>e rules states st1. check_level rx now e rules states = Inr ([], st1) \<Longrightarrow> P e rules states e st1"
    and down: "\<And>e rules states tops st1 r mf mt e' states'. \<lbrakk>
        check_level rx now e rules states = Inr (tops, st1); select_rule tops = Some (r, mf, mt);
        P (update_event (rule_data r) mf mt e) (rule_children r)
          (update_state st1 (rule_data r) (update_event (rule_data r) mf mt e)) e' states'\<rbrakk>
        \<Longrightarrow> P e rules states e' states'"
  shows "P e rules states e' states'"
  using assms(1)
proof (induction "size_list size rules" arbitrary: e rules states rule: less_induct)
  case less
  obtain tops st1 where l: "check_level rx now e rules states = Inr (tops, st1)"
    using less.prems by (subst (asm) check_top_rules.simps) (auto simp: rbind_Inr_iff)
  show ?case
  proof (cases "tops = []")
    case True
    with l less.prems have "e' = e" "states' = st1" by (auto simp: check_top_rules_stop)
    with stop l True show ?thesis by simp
  next
    case False
    with l less.prems obtain r mf mt where s: "select_rule tops = Some (r, mf, mt)"
      by (auto simp: check_top_rules.simps [of _ _ e] split: option.splits)
    then have "r \<in> set rules" using l by (auto dest!: select_rule_in check_level_in)
    then have "size_list size (rule_children r) < size_list size rules" by (rule size_children)
    from less.hyps [OF this] less.prems down [OF l s] show ?thesis
      by (simp add: check_top_rules_down [OF l False s] Let_def)
  qed
qed

lemma check_top_rules_wf [engine_wf]:
  assumes "check_top_rules rx now e rules states = Inr (e', states')" "states_wf now states" "event_wf e" "0 \<le> now"
  shows "states_wf now states' \<and> event_wf e'"
  using assms
proof (induction rule: check_top_rules_run_induct)
  case (stop e rules states st1)
  then show ?case by (auto intro: check_level_wf)
next
  case (down e rules states tops st1 r mf mt e' states')
  then show ?case by (auto intro!: update_state_wf update_event_wf intro: check_level_wf)
qed

lemma assign_fields_wf [engine_wf]:
  "assign_fields fs gs m = Inr m' \<Longrightarrow> smap_wf m \<Longrightarrow> smap_wf m'"
  by (induction fs gs m rule: assign_fields.induct) auto

lemma format_log_wf [engine_wf]: "format_log rx e fs = Inr e' \<Longrightarrow> event_wf e \<Longrightarrow> event_wf e'"
  by (induction rx e fs rule: format_log.induct)
    (auto simp: event_wf_def rbind_Inr_iff intro: assign_fields_wf split: option.splits)

text \<open>
  C13: The invariant of the rule states. A run of \<open>process_log\<close> keeps every rule state well-formed:
  one state per rule in order of ids, the saved events of each in order of time and none from the
  future, well-formed events, and unless timers armed in the past; and the resulting event is
  well-formed (sorted maps and groups without duplicates).
\<close>

theorem process_log_states_wf:
  assumes "process_log rx fmt_time now se cfg states = Inr (e, states')" and "states_wf now states" and "0 \<le> now"
  shows "states_wf now states' \<and> event_wf e"
proof -
  obtain e0 e1 st1 where f: "format_log rx (event_of_source fmt_time se) (cfg_formats cfg) = Inr e0"
    and s: "check_top_rules rx now e0 (std_rules cfg) states = Inr (e1, st1)"
    and g: "check_top_rules rx now e1 (group_rules cfg) st1 = Inr (e, states')"
    using assms(1) by (auto simp: process_log_def rbind_Inr_iff)
  have "event_wf e0" using f by (rule format_log_wf) simp
  from check_top_rules_wf [OF s assms(2) this assms(3)] have "states_wf now st1" "event_wf e1" by auto
  from check_top_rules_wf [OF g this assms(3)] show ?thesis .
qed

theorem process_log_states_wf_witness:
  "\<exists>e st. process_log literal_rx (\<lambda>t. []) 9 (default_source_event\<lparr>se_message := ''boom''\<rparr>) ssh_cfg [] = Inr (e, st)
      \<and> states_wf 9 st \<and> event_wf e"
proof -
  let ?r = "process_log literal_rx (\<lambda>t. []) 9 (default_source_event\<lparr>se_message := ''boom''\<rparr>) ssh_cfg []"
  have "map_sum (\<lambda>x. True) (\<lambda>x. ev_rule_id (fst x)) ?r = Inr 2" by code_simp
  then obtain e st where *: "?r = Inr (e, st)" by (cases ?r) auto
  have "states_wf 9 []" by (simp add: states_wf_def)
  from process_log_states_wf [OF * this] * show ?thesis by auto
qed

subsection \<open>No exception on a safe rule set\<close>

text \<open>A rule is safe below a rule \<open>p\<close> (None at the top): its regular expressions are valid, they name
  all their groups, and an unless rule is a child of its parent or of the rule it waits for.\<close>

definition trigger_safe :: "regex_lib \<Rightarrow> string \<times> rule_match \<times> string \<Rightarrow> bool" where
  "trigger_safe rx t = (fst (snd t) = Match_regex \<longrightarrow> rx_valid rx (snd (snd t)))"

definition data_safe :: "regex_lib \<Rightarrow> rule_id option \<Rightarrow> rule_data \<Rightarrow> bool" where
  "data_safe rx p d =
     ((r_priority d \<noteq> 0 \<or> r_id d \<noteq> - 1)
      \<and> (if ur_id (r_unless d) \<noteq> 0
         then (case p of None \<Rightarrow> False | Some i \<Rightarrow> i \<in> set (r_parent_ids d) \<or> i = ur_id (r_unless d))
         else list_all (trigger_safe rx) (r_trigger_fields d) \<and> list_all (trigger_safe rx) (r_trigger_traits d)
              \<and> (case r_reg d of None \<Rightarrow> True | Some pat \<Rightarrow> rx_marks rx pat \<le> length (r_regex_fields d))))"

fun rule_safe :: "regex_lib \<Rightarrow> rule_id option \<Rightarrow> rule \<Rightarrow> bool" where
  "rule_safe rx p (Rule d cs) = (data_safe rx p d \<and> (\<forall>c \<in> set cs. rule_safe rx (Some (r_id d)) c))"

definition format_safe :: "regex_lib \<Rightarrow> rule_format \<Rightarrow> bool" where
  "format_safe rx f = (rx_marks rx (f_reg f) \<le> length (f_fields f))"

lemma rule_safe_data: "rule_safe rx p r \<Longrightarrow> data_safe rx p (rule_data r)"
  by (cases r) simp

lemma rule_safe_children:
  "rule_safe rx p r \<Longrightarrow> c \<in> set (rule_children r) \<Longrightarrow> rule_safe rx (Some (r_id (rule_data r))) c"
  by (cases r) simp

lemma trigger_ok_total: "trigger_safe rx t \<Longrightarrow> \<exists>b. trigger_ok rx m t = Inr b"
  by (cases "(rx, m, t)" rule: trigger_ok.cases) (auto simp: trigger_safe_def split: option.splits)

lemma triggers_ok_total: "list_all (trigger_safe rx) ts \<Longrightarrow> \<exists>b. triggers_ok rx m ts = Inr b"
proof (induction ts)
  case (Cons t ts)
  then obtain b where "trigger_ok rx m t = Inr b" using trigger_ok_total [of rx t m] by auto
  with Cons show ?case by auto
qed auto

lemma capture_fields_total: "length gs \<le> length fs \<Longrightarrow> \<exists>ms. capture_fields fs gs = Inr ms"
  by (induction fs gs rule: capture_fields.induct) auto

lemma assign_fields_total: "length gs \<le> length fs \<Longrightarrow> \<exists>m'. assign_fields fs gs m = Inr m'"
  by (induction fs gs m rule: assign_fields.induct) auto

lemma check_regex_total:
  assumes "rx_lawful rx" "data_safe rx p rl" "ur_id (r_unless rl) = 0"
  shows "\<exists>m. check_regex rx ev rl = Inr m"
proof -
  have "\<exists>ms. capture_fields (r_regex_fields rl) gs = Inr ms"
    if "r_reg rl = Some pat" "rx_search rx pat s = Some gs" for pat s gs
    using that assms by (intro capture_fields_total) (auto simp: rx_lawful_def data_safe_def)
  then show ?thesis by (fastforce simp: check_regex_def split: option.splits)
qed

lemma check_rule_total:
  assumes "rx_lawful rx" "data_safe rx p rl" "p = None \<or> p = Some (ev_rule_id ev)"
  shows "\<exists>x. check_rule rx now ev rl states = Inr x"
proof (cases "ur_id (r_unless rl) = 0")
  case False
  then have "\<exists>st. check_unless now ev rl states = Inr st"
    using assms(2,3) by (auto simp: data_safe_def check_unless_def Let_def split: option.splits)
  with False show ?thesis by (auto simp: check_rule_def)
next
  case True
  then have ts: "list_all (trigger_safe rx) (r_trigger_fields rl)" "list_all (trigger_safe rx) (r_trigger_traits rl)"
    using assms(2) by (auto simp: data_safe_def)
  obtain b where b: "triggers_ok rx (ev_fields ev) (r_trigger_fields rl) = Inr b" using triggers_ok_total [OF ts(1)] ..
  obtain c where c: "triggers_ok rx (ev_traits ev) (r_trigger_traits rl) = Inr c" using triggers_ok_total [OF ts(2)] ..
  obtain m where m: "check_regex rx ev rl = Inr m" using check_regex_total [OF assms(1,2) True] ..
  show ?thesis by (auto simp: check_rule_def True b c m Let_def split: prod.splits option.splits)
qed

lemma check_level_total:
  assumes "rx_lawful rx" "\<forall>r \<in> set rules. data_safe rx p (rule_data r)" "p = None \<or> p = Some (ev_rule_id e)"
  shows "\<exists>x. check_level rx now e rules states = Inr x"
  using assms(2)
proof (induction rules arbitrary: states)
  case (Cons r rules)
  obtain b mf mt st1 where r: "check_rule rx now e (rule_data r) states = Inr ((b, mf, mt), st1)"
    using check_rule_total [OF assms(1) _ assms(3), of "rule_data r" now states] Cons.prems by auto
  obtain tops st2 where "check_level rx now e rules st1 = Inr (tops, st2)"
    using Cons.IH [of st1] Cons.prems by auto
  with r show ?case by simp
qed simp

lemma check_top_rules_total:
  assumes "rx_lawful rx" "\<forall>r \<in> set rules. rule_safe rx p r" "p = None \<or> p = Some (ev_rule_id e)"
  shows "\<exists>x. check_top_rules rx now e rules states = Inr x"
  using assms(2,3)
proof (induction "size_list size rules" arbitrary: e rules states p rule: less_induct)
  case less
  have safe: "\<forall>r \<in> set rules. data_safe rx p (rule_data r)"
    using less.prems(1) by (blast intro: rule_safe_data)
  obtain tops st1 where l: "check_level rx now e rules states = Inr (tops, st1)"
    using check_level_total [OF assms(1) safe less.prems(2), of now states] by auto
  show ?case
  proof (cases "tops = []")
    case True
    with l show ?thesis by (auto simp: check_top_rules_stop)
  next
    case False
    obtain r mf mt where s: "select_rule tops = Some (r, mf, mt)"
    proof (cases "select_rule tops")
      case None
      obtain m where m: "m \<in> set tops" using False by (cases tops) auto
      have "fst m \<in> set rules" using check_level_in [OF l] m by (cases m) auto
      with None m safe show thesis
        by (auto simp: select_rule_None_iff data_safe_def)
    next
      case (Some x)
      then show thesis using that by (cases x) auto
    qed
    then have r: "r \<in> set rules" using l by (auto dest!: select_rule_in check_level_in)
    then have "rule_safe rx p r" using less.prems(1) by blast
    then have children: "\<forall>c \<in> set (rule_children r). rule_safe rx (Some (r_id (rule_data r))) c"
      by (blast intro: rule_safe_children)
    from less.hyps [OF size_children [OF r] children, of "update_event (rule_data r) mf mt e"] show ?thesis
      by (auto simp: check_top_rules_down [OF l False s] Let_def)
  qed
qed

lemma format_log_total:
  "rx_lawful rx \<Longrightarrow> \<forall>f \<in> set fs. format_safe rx f \<Longrightarrow> \<exists>e'. format_log rx e fs = Inr e'"
proof (induction fs)
  case (Cons f fs)
  have "\<exists>m'. assign_fields (f_fields f) gs m = Inr m'" if "rx_match rx (f_reg f) s = Some gs" for gs s m
    using that Cons.prems by (intro assign_fields_total) (auto simp: rx_lawful_def format_safe_def)
  with Cons.prems have "rx_match rx (f_reg f) (ev_logstr e) = Some gs \<Longrightarrow> \<exists>e'. format_log rx e (f # fs) = Inr e'" for gs
    by (auto simp: rbind_def split: sum.splits) (metis Inl_Inr_False)
  with Cons show ?case by (cases "rx_match rx (f_reg f) (ev_logstr e)") auto
qed simp

lemma process_log_total:
  assumes "rx_lawful rx" and "\<forall>f \<in> set (cfg_formats cfg). format_safe rx f"
    and "\<forall>r \<in> set (std_rules cfg) \<union> set (group_rules cfg). rule_safe rx None r"
  shows "\<exists>e states'. process_log rx fmt_time now se cfg states = Inr (e, states')"
proof -
  obtain e0 where f: "format_log rx (event_of_source fmt_time se) (cfg_formats cfg) = Inr e0"
    using format_log_total [OF assms(1,2)] by blast
  have std: "\<forall>r \<in> set (std_rules cfg). rule_safe rx None r" and grp: "\<forall>r \<in> set (group_rules cfg). rule_safe rx None r"
    using assms(3) by auto
  obtain e1 st1 where s: "check_top_rules rx now e0 (std_rules cfg) states = Inr (e1, st1)"
    using check_top_rules_total [OF assms(1) std, of e0 now states] by fastforce
  obtain e2 st2 where g: "check_top_rules rx now e1 (group_rules cfg) st1 = Inr (e2, st2)"
    using check_top_rules_total [OF assms(1) grp, of e1 now st1] by fastforce
  show ?thesis by (simp add: process_log_def f s g)
qed

text \<open>
  C14: No exception escapes from a safe rule set. When the regular expressions of the formats and
  rules name their groups and are valid, every unless rule is a child of its parent or of the rule it
  waits for, and no rule has priority 0 together with the largest id, then \<open>process_log\<close> returns an
  event for every message, time and state.
\<close>

theorem process_log_safe:
  assumes "rx_lawful rx" and "\<forall>f \<in> set (cfg_formats cfg). format_safe rx f"
    and "\<forall>r \<in> set (std_rules cfg) \<union> set (group_rules cfg). rule_safe rx None r"
  shows "\<exists>e states'. process_log rx fmt_time now se cfg states = Inr (e, states')"
  using assms by (rule process_log_total)

theorem process_log_safe_witness:
  "\<exists>e states'. process_log literal_rx (\<lambda>t. []) 3 (default_source_event\<lparr>se_message := ''boom''\<rparr>) ssh_cfg [] = Inr (e, states')"
proof (rule process_log_safe)
  show "rx_lawful literal_rx" by simp
  show "\<forall>f \<in> set (cfg_formats ssh_cfg). format_safe literal_rx f" by (simp add: ssh_cfg_def)
  show "\<forall>r \<in> set (std_rules ssh_cfg) \<union> set (group_rules ssh_cfg). rule_safe literal_rx None r"
    by (simp add: ssh_cfg_def data_safe_def default_rule_def default_unless_def literal_rx_def)
qed

subsection \<open>Unless rules\<close>

text \<open>
  Unless rules watch without matching. Checking an unless rule never reports a match; at an event
  of a parent it arms the timer with the current time, the timeout and a copy of the event that
  carries the rule's id and priority; at the awaited rule's event it clears the timer and keeps the
  rest; any other event is the "Unknown child case" exception.
\<close>

theorem unless_rule_checks:
  assumes "ur_id (r_unless rl) \<noteq> 0" and "smap_wf states"
  shows "case check_rule rx now ev rl states of
      Inl err \<Rightarrow> ev_rule_id ev \<notin> set (r_parent_ids rl) \<and> ev_rule_id ev \<noteq> ur_id (r_unless rl)
    | Inr ((matched, mf, mt), states') \<Rightarrow>
        \<not> matched \<and> mf = [] \<and> mt = []
        \<and> (\<exists>st. map_of states' = (map_of states)(r_id rl \<mapsto> st)
            \<and> rs_mevents st = rs_mevents (state_at (r_id rl) states)
            \<and> (if ev_rule_id ev \<in> set (r_parent_ids rl)
               then rs_unless_triggered st = now \<and> rs_unless_timeout st = ur_timeout (r_unless rl)
                    \<and> ev_rule_id (rs_unless_event st) = r_id rl \<and> ev_priority (rs_unless_event st) = r_priority rl
                    \<and> ev_logstr (rs_unless_event st) = ev_logstr ev
               else ev_rule_id ev = ur_id (r_unless rl) \<and> rs_unless_triggered st = 0
                    \<and> rs_unless_event st = rs_unless_event (state_at (r_id rl) states)))"
  using assms by (auto simp: check_rule_def check_unless_def Let_def event_update_def)

definition unless_demo :: rule_data where
  "unless_demo = default_rule\<lparr>r_id := 7, r_priority := 4, r_parent_ids := [3], r_unless := \<lparr>ur_id = 4, ur_timeout = 30\<rparr>\<rparr>"

theorem unless_rule_checks_witness:
  "\<exists>st. check_rule literal_rx 100 (default_event\<lparr>ev_rule_id := 3\<rparr>) unless_demo [] = Inr ((False, [], []), st)
     \<and> (\<exists>s. map_of st = [7 \<mapsto> s] \<and> rs_unless_triggered s = 100 \<and> rs_unless_timeout s = 30)"
proof -
  obtain st where *: "check_rule literal_rx 100 (default_event\<lparr>ev_rule_id := 3\<rparr>) unless_demo [] = Inr ((False, [], []), st)"
    by (simp add: check_rule_def check_unless_def unless_demo_def default_rule_def Let_def)
  have "ur_id (r_unless unless_demo) \<noteq> 0" by (simp add: unless_demo_def)
  from unless_rule_checks [OF this, where states = "[]" and rx = literal_rx and now = 100 and ev = "default_event\<lparr>ev_rule_id := 3\<rparr>"] *
  show ?thesis by (auto simp: unless_demo_def default_rule_def)
qed

text \<open>
  The reset of an activation rule. After a matched rule with \<open>reset\<close> has updated its state, no
  saved event of it counts for the next alert: none at all without a same_field, none with the event's
  value of the field otherwise; the states of the other rules are untouched.
\<close>

theorem update_state_resets:
  assumes "ag_group_name (r_activation rl) \<noteq> []" and "ag_reset (r_activation rl)" and "smap_wf states"
  shows "(case map_of (update_state states rl ev) (r_id rl) of
            None \<Rightarrow> map_of states (r_id rl) = None
          | Some st \<Rightarrow>
              (r_same_field rl = [] \<longrightarrow> rs_mevents st = [])
              \<and> (\<forall>v. r_same_field rl \<noteq> [] \<and> map_of (ev_fields ev) (r_same_field rl) = Some v \<longrightarrow>
                    same_events (r_same_field rl) v (rs_mevents st) = []))
         \<and> (\<forall>i. i \<noteq> r_id rl \<longrightarrow> map_of (update_state states rl ev) i = map_of states i)"
  using assms by (auto simp: update_state_def same_events_def filter_empty_conv split: option.splits)

theorem update_state_resets_witness:
  "map_of (update_state [(5, default_rule_state\<lparr>rs_mevents := [(1, login_event)]\<rparr>)]
      (login_rule\<lparr>r_activation := \<lparr>ag_time = 60, ag_rate = 1, ag_group_name = ''login'', ag_reset = True\<rparr>\<rparr>) login_event) 5
   = Some default_rule_state"
proof -
  let ?rl = "login_rule\<lparr>r_activation := \<lparr>ag_time = 60, ag_rate = 1, ag_group_name = ''login'', ag_reset = True\<rparr>\<rparr>"
  let ?st = "[(5, default_rule_state\<lparr>rs_mevents := [(1, login_event)]\<rparr>)] :: rules_state"
  have "smap_wf ?st" by (simp add: smap_wf_def)
  from update_state_resets [of ?rl ?st login_event, OF _ _ this]
  show ?thesis by (simp add: update_state_def login_rule_def default_rule_def default_rule_state_def)
qed

end
