(* ===== verification/Research_Daemon_Facts.thy ===== *)
theory Research_Daemon_Facts
  imports Research_Daemon Rule_Engine_Facts
begin

text \<open>
  What ctguard-research does over a whole run: the order of messages and alerts, the alerts of one
  message, the timers of unless rules, mails, and what happens at the end of the daemon.
\<close>

subsection \<open>What an unless timer holds\<close>

definition timers_hold :: "(event \<Rightarrow> bool) \<Rightarrow> rules_state \<Rightarrow> bool" where
  "timers_hold P states = (\<forall>st \<in> snd ` set states. P (rs_unless_event st))"

lemma timers_hold_put: "timers_hold P m \<Longrightarrow> P (rs_unless_event st) \<Longrightarrow> timers_hold P (smap_put i st m)"
  using smap_put_set [of i st m] by (auto simp: timers_hold_def)

lemma timers_hold_get: "timers_hold P m \<Longrightarrow> map_of m i = Some st \<Longrightarrow> P (rs_unless_event st)"
  by (force simp: timers_hold_def dest: map_of_SomeD)

lemma timers_hold_at: "timers_hold P m \<Longrightarrow> P default_event \<Longrightarrow> P (rs_unless_event (state_at i m))"
  by (auto simp: state_at_def default_rule_state_def dest: timers_hold_get split: option.splits)

text \<open>A property of events that depends on their text and kind only.\<close>

definition text_property :: "(event \<Rightarrow> bool) \<Rightarrow> bool" where
  "text_property P = (\<forall>e e'. ev_logstr e = ev_logstr e' \<longrightarrow> ev_control_message e = ev_control_message e' \<longrightarrow> P e = P e')"

lemma text_propertyD:
  "text_property P \<Longrightarrow> P e \<Longrightarrow> ev_logstr e' = ev_logstr e \<Longrightarrow> ev_control_message e' = ev_control_message e \<Longrightarrow> P e'"
  unfolding text_property_def by metis

lemma event_update_text: "ev_logstr (event_update rl e) = ev_logstr e" "ev_control_message (event_update rl e) = ev_control_message e"
  by (simp_all add: event_update_def add_groups_def)

lemma check_rule_timers:
  assumes "check_rule rx now ev rl states = Inr (res, states')" "timers_hold P states" "text_property P" "P ev" "P default_event"
  shows "timers_hold P states'"
proof (cases "ur_id (r_unless rl) = 0")
  case False
  have "P (event_update rl ev)" using assms(3,4) event_update_text by (rule text_propertyD)
  moreover have "P (rs_unless_event (state_at (r_id rl) states))" using assms(2,5) by (rule timers_hold_at)
  moreover from False assms(1) obtain st where "states' = smap_put (r_id rl) st states"
    "rs_unless_event st = event_update rl ev \<or> rs_unless_event st = rs_unless_event (state_at (r_id rl) states)"
    by (auto simp: check_rule_def rbind_Inr_iff check_unless_def Let_def split: if_splits)
  ultimately show ?thesis using assms(2) by (metis timers_hold_put)
next
  case True
  obtain found act mt st1 where c: "check_activation now ev rl states = (found, act, mt, st1)"
    by (cases "check_activation now ev rl states") auto
  with assms(1) True have "states' = st1"
    by (auto simp: check_rule_def rbind_Inr_iff Let_def split: if_splits option.splits)
  moreover have "timers_hold P st1"
    using c assms(2,5) by (auto simp: check_activation_def Let_def default_rule_state_def split: if_splits option.splits
        intro!: timers_hold_put intro: timers_hold_get)
  ultimately show ?thesis by simp
qed

lemma check_level_timers:
  "check_level rx now ev rules states = Inr (tops, states') \<Longrightarrow> timers_hold P states \<Longrightarrow> text_property P \<Longrightarrow> P ev \<Longrightarrow>
   P default_event \<Longrightarrow> timers_hold P states'"
  by (induction rules arbitrary: states tops) (auto simp: rbind_Inr_iff intro: check_rule_timers)

lemma update_state_timers: "timers_hold P states \<Longrightarrow> timers_hold P (update_state states rl ev)"
  by (auto simp: update_state_def split: option.splits intro!: timers_hold_put intro: timers_hold_get)

lemma check_top_rules_timers:
  assumes "check_top_rules rx now e rules states = Inr (e', states')" "timers_hold P states" "text_property P" "P e"
    "P default_event"
  shows "timers_hold P states' \<and> P e'"
  using assms
proof (induction rule: check_top_rules_run_induct)
  case (stop e rules states st1)
  then show ?case by (auto intro: check_level_timers)
next
  case (down e rules states tops st1 r mf mt e' states')
  have "P (update_event (rule_data r) mf mt e)"
    using down.prems(2,3) by (rule text_propertyD) simp_all
  with down show ?case by (auto intro!: update_state_timers intro: check_level_timers)
qed

lemma process_log_timers:
  assumes "process_log rx ft now se cfg states = Inr (e, states')" "timers_hold P states" "text_property P"
    and "P (event_of_source ft se)" "P default_event"
  shows "timers_hold P states' \<and> P e"
proof -
  obtain e0 e1 st1 where f: "format_log rx (event_of_source ft se) (cfg_formats cfg) = Inr e0"
    and s: "check_top_rules rx now e0 (std_rules cfg) states = Inr (e1, st1)"
    and g: "check_top_rules rx now e1 (group_rules cfg) st1 = Inr (e, states')"
    using assms(1) by (auto simp: process_log_def rbind_Inr_iff)
  have "P e0" using assms(3,4) by (rule text_propertyD) (use format_log_frame [OF f] in simp_all)
  then have "timers_hold P st1 \<and> P e1" using check_top_rules_timers [OF s] assms by blast
  then show ?thesis using check_top_rules_timers [OF g] assms by blast
qed

subsection \<open>Alerts and interventions of one message\<close>

lemma fold_bq_push: "fold (\<lambda>x q. bq_push q x) xs q = q @ xs"
  by (induction xs arbitrary: q) (simp_all add: bq_push_def)

lemma event_interventions_mem:
  "i \<in> set (event_interventions e) \<longleftrightarrow>
     (\<exists>ir \<in> set (ev_interventions e). map_of (ev_fields e) (ir_field ir) = Some (it_argument i)
        \<and> it_name i = ir_name ir \<and> \<not> it_kill i)"
  by (cases i) (force simp: event_interventions_def List.map_filter_def)

text \<open>
  What a message leads to. A message the engine classifies is put into the alert queue exactly
  when its priority reaches log_priority or its rule always alerts; an intervention is requested only
  for such an alert, only one its rule lists, and only with the value of the field it names; nothing
  else of the daemon changes but the rule states.
\<close>

theorem processing_decides:
  assumes "g_input s = se # q" and "\<not> se_is_kill se"
    and "process_log (re_rx env) (re_fmt_time env) now se (re_rules env) (g_rules s) = Inr (e, states)"
  shows "\<exists>ls s' its. processing_turn env now s = Some (ls, s')
     \<and> s' = s\<lparr>g_input := q, g_rules := states, g_alerts := g_alerts s @ (if alarming (re_cfg env) e then [e] else []),
          g_interventions := g_interventions s @ its\<rparr>
     \<and> (\<forall>i. i \<in> set its \<longleftrightarrow> alarming (re_cfg env) e \<and>
          (\<exists>ir \<in> set (ev_interventions e). map_of (ev_fields e) (ir_field ir) = Some (it_argument i)
             \<and> it_name i = ir_name ir \<and> \<not> it_kill i))"
proof -
  let ?its = "if alarming (re_cfg env) e then event_interventions e else []"
  have "\<exists>ls. processing_turn env now s = Some (ls,
      s\<lparr>g_input := q, g_rules := states, g_alerts := g_alerts s @ (if alarming (re_cfg env) e then [e] else []),
        g_interventions := g_interventions s @ ?its\<rparr>)"
    using assms by (simp add: processing_turn_def bq_take_def fold_bq_push) (simp add: bq_push_def)
  moreover have "\<forall>i. i \<in> set ?its \<longleftrightarrow> alarming (re_cfg env) e \<and>
      (\<exists>ir \<in> set (ev_interventions e). map_of (ev_fields e) (ir_field ir) = Some (it_argument i)
         \<and> it_name i = ir_name ir \<and> \<not> it_kill i)"
    by (simp add: event_interventions_mem)
  ultimately show ?thesis by blast
qed

subsection \<open>Unless timers\<close>

definition timer_due :: "int \<Rightarrow> rule_state \<Rightarrow> bool" where
  "timer_due now st = (rs_unless_triggered st \<noteq> 0 \<and> rs_unless_triggered st + int (unat (rs_unless_timeout st)) < now)"

lemma state_pass_eq:
  "state_pass cfg now m =
     (map rs_unless_event (filter (\<lambda>st. timer_due now st \<and> alarming cfg (rs_unless_event st)) (map snd m)),
      map (\<lambda>(i, st). (i, if timer_due now st then st\<lparr>rs_unless_triggered := 0\<rparr> else st)) m)"
  by (induction m) (auto simp: timer_due_def Let_def)

text \<open>
  An unless timer fires once. A pass over the rule states raises the saved event of exactly the
  timers that ran out, in the order of the rules and if it is to be logged, and clears those timers;
  a later pass raises only what ran out since, and not those again.
\<close>

theorem state_pass_fires_once:
  "fst (state_pass cfg now m) =
     map rs_unless_event (filter (\<lambda>st. timer_due now st \<and> alarming cfg (rs_unless_event st)) (map snd m))
   \<and> (\<forall>st. map_of m i = Some st \<longrightarrow> map_of (snd (state_pass cfg now m)) i
        = Some (if timer_due now st then st\<lparr>rs_unless_triggered := 0\<rparr> else st))
   \<and> fst (state_pass cfg now' (snd (state_pass cfg now m))) =
       map rs_unless_event (filter (\<lambda>st. \<not> timer_due now st \<and> timer_due now' st \<and> alarming cfg (rs_unless_event st)) (map snd m))"
proof -
  let ?f = "\<lambda>st. if timer_due now st then st\<lparr>rs_unless_triggered := 0\<rparr> else st"
  have 1: "map_of (map (\<lambda>(i, st). (i, f st)) m) i = map_option f (map_of m i)" for f :: "rule_state \<Rightarrow> rule_state"
    by (induction m) auto
  have 2: "map rs_unless_event (filter (\<lambda>st. timer_due now' st \<and> alarming cfg (rs_unless_event st)) (map ?f sts)) =
      map rs_unless_event (filter (\<lambda>st. \<not> timer_due now st \<and> timer_due now' st \<and> alarming cfg (rs_unless_event st)) sts)" for sts
    by (induction sts) (auto simp: timer_due_def)
  have 3: "map snd (map (\<lambda>(i, st). (i, ?f st)) m) = map ?f (map snd m)"
    by (simp add: comp_def case_prod_beta)
  show ?thesis unfolding state_pass_eq fst_conv snd_conv 3 2 1 by simp
qed

theorem state_pass_fires_once_witness:
  "\<exists>m :: rules_state. map_of m 5 = Some (default_rule_state\<lparr>rs_unless_triggered := 10\<rparr>)
     \<and> fst (state_pass default_research_config 20 m) = [] \<and> map_of (snd (state_pass default_research_config 20 m)) 5 = Some default_rule_state"
proof -
  let ?st = "default_rule_state\<lparr>rs_unless_triggered := 10\<rparr>"
  have "timer_due 20 ?st" "\<not> alarming default_research_config (rs_unless_event ?st)"
    by (simp_all add: timer_due_def alarming_def default_rule_state_def default_event_def default_research_config_def)
  then show ?thesis
    using state_pass_fires_once [of default_research_config 20 "[(5, ?st)]" 5 20]
    by (intro exI [of _ "[(5, ?st)]"]) (simp add: default_rule_state_def)
qed

subsection \<open>The streams of a run\<close>

definition received :: "label list \<Rightarrow> source_event list" where
  "received tr = concat (map (\<lambda>l. case l of Received se \<Rightarrow> [se] | _ \<Rightarrow> []) tr)"

definition classified :: "label list \<Rightarrow> source_event list" where
  "classified tr = concat (map (\<lambda>l. case l of Classified se \<Rightarrow> [se] | _ \<Rightarrow> []) tr)"

definition queued :: "label list \<Rightarrow> event list" where
  "queued tr = concat (map (\<lambda>l. case l of Raised e \<Rightarrow> [e] | Overdue e \<Rightarrow> [e] | Closing e \<Rightarrow> [e] | _ \<Rightarrow> []) tr)"

definition written :: "label list \<Rightarrow> (event \<times> int) list" where
  "written tr = concat (map (\<lambda>l. case l of Written e now \<Rightarrow> [(e, now)] | _ \<Rightarrow> []) tr)"

lemmas stream_defs = received_def classified_def queued_def written_def

lemma streams_append [simp]:
  "received (tr @ ls) = received tr @ received ls" "classified (tr @ ls) = classified tr @ classified ls"
  "queued (tr @ ls) = queued tr @ queued ls" "written (tr @ ls) = written tr @ written ls"
  by (simp_all add: stream_defs)

lemma streams_Overdue [simp]:
  "received (map Overdue es) = []" "classified (map Overdue es) = []" "queued (map Overdue es) = es" "written (map Overdue es) = []"
  by (induction es) (simp_all add: stream_defs)

definition log_text :: "research_env \<Rightarrow> (event \<times> int) list \<Rightarrow> string" where
  "log_text env ws = concat (map (\<lambda>(e, now). alert_text (re_fmt_time env) (re_unit_test env) now e) ws)"

lemma log_text_append [simp]: "log_text env (xs @ ys) = log_text env xs @ log_text env ys"
  by (simp add: log_text_def)

lemma log_text_Nil [simp]: "log_text env [] = []"
  by (simp add: log_text_def)

text \<open>What one turn of each thread does to the streams.\<close>

definition stream_step :: "research_env \<Rightarrow> research_state \<Rightarrow> label list \<Rightarrow> research_state \<Rightarrow> bool" where
  "stream_step env s ls s' =
     (g_input s @ received ls = classified ls @ g_input s'
      \<and> g_log s' = g_log s @ log_text env (written ls)
      \<and> (g_outputt s' = g_outputt s \<and> g_alerts s @ queued ls = map fst (written ls) @ g_alerts s'
           \<and> (\<forall>e \<in> set (map fst (written ls)). \<not> ev_is_kill e \<and> g_outputt s = Thread_running)
         \<or> (\<exists>k. ev_is_kill k \<and> ls = [] \<and> g_outputt s = Thread_running \<and> g_outputt s' = Thread_done
              \<and> g_alerts s = k # g_alerts s')))"

lemma processing_turn_streams:
  "processing_turn env now s = Some (ls, s') \<Longrightarrow> stream_step env s ls s'"
  by (auto simp: processing_turn_def bq_take_def bq_push_def Let_def stream_step_def stream_defs fold_bq_push [unfolded bq_push_def]
      split: list.splits if_splits sum.splits)

lemma output_turn_streams:
  "output_turn env now s = Some (ls, s') \<Longrightarrow> g_outputt s = Thread_running \<Longrightarrow> stream_step env s ls s'"
  by (auto simp: output_turn_def bq_take_def Let_def stream_step_def stream_defs log_text_def split: list.splits if_splits)

lemma input_turn_streams: "input_turn env answer s = (ls, s') \<Longrightarrow> stream_step env s ls s'"
  by (auto simp: input_turn_def Let_def stream_step_def stream_defs bq_push_def
      split: input_pc.splits recv_result.splits option.splits)

lemma state_turn_streams: "state_turn env now s = (ls, s') \<Longrightarrow> stream_step env s ls s'"
  by (auto simp: state_turn_def Let_def stream_step_def fold_bq_push split: prod.splits)

lemma stream_step_same:
  "g_input s' = g_input s \<Longrightarrow> g_log s' = g_log s \<Longrightarrow> g_outputt s' = g_outputt s \<Longrightarrow> g_alerts s' = g_alerts s \<Longrightarrow> stream_step env s [] s'"
  by (simp add: stream_step_def stream_defs)

lemma intervention_start_frame:
  "g_input (intervention_start env opened ns s) = g_input s" "g_log (intervention_start env opened ns s) = g_log s"
  "g_outputt (intervention_start env opened ns s) = g_outputt s" "g_alerts (intervention_start env opened ns s) = g_alerts s"
  "g_processing (intervention_start env opened ns s) = g_processing s" "g_rules (intervention_start env opened ns s) = g_rules s"
  "g_main (intervention_start env opened ns s) = g_main s" "g_running (intervention_start env opened ns s) = g_running s"
  "g_input_pc (intervention_start env opened ns s) = g_input_pc s" "g_statet (intervention_start env opened ns s) = g_statet s"
  "g_mailt (intervention_start env opened ns s) = g_mailt s"
  by (simp_all add: intervention_start_def split: prod.split sum.split)

lemma intervention_turn_frame:
  "intervention_turn env k s = Some s' \<Longrightarrow>
   g_input s' = g_input s \<and> g_log s' = g_log s \<and> g_outputt s' = g_outputt s \<and> g_alerts s' = g_alerts s
   \<and> g_processing s' = g_processing s \<and> g_rules s' = g_rules s \<and> g_main s' = g_main s \<and> g_running s' = g_running s
   \<and> g_input_pc s' = g_input_pc s \<and> g_statet s' = g_statet s \<and> g_mailt s' = g_mailt s \<and> g_errors s' = g_errors s"
  by (auto simp: intervention_turn_def bind_eq_Some_conv split: prod.splits)

lemma input_open_frame:
  "g_input (input_open env a b s) = g_input s" "g_log (input_open env a b s) = g_log s"
  "g_outputt (input_open env a b s) = g_outputt s" "g_alerts (input_open env a b s) = g_alerts s"
  "g_processing (input_open env a b s) = g_processing s" "g_rules (input_open env a b s) = g_rules s"
  "g_main (input_open env a b s) = g_main s" "g_running (input_open env a b s) = g_running s"
  "g_statet (input_open env a b s) = g_statet s"
  by (simp_all add: input_open_def)

lemma research_step_streams: "research_step env s ls s' \<Longrightarrow> stream_step env s ls s'"
proof (induction rule: research_step.induct)
  case (Main_starts s se now host)
  then show ?case by (simp add: stream_step_def stream_defs bq_push_def)
next
  case (Input_turns s answer ls s')
  then show ?case by (simp add: input_turn_streams)
next
  case (Processing_throws s now se s' states)
  from processing_turn_streams [OF Processing_throws(2)] show ?case by (simp add: stream_step_def)
next
  case (Processing_turns s now ls s')
  then show ?case by (simp add: processing_turn_streams)
next
  case (State_turns s now ls s')
  then show ?case by (simp add: state_turn_streams)
next
  case (Output_turns s now ls s')
  then show ?case by (simp add: output_turn_streams)
next
  case (Intervention_turns s k s')
  from intervention_turn_frame [OF Intervention_turns(3)] show ?case by (auto intro: stream_step_same)
qed (auto intro!: stream_step_same simp: intervention_start_frame input_open_frame)

lemma run_pipeline:
  assumes "research_run env tr s"
  shows "received tr = classified tr @ g_input s
     \<and> (g_outputt s = Thread_running \<and> queued tr = map fst (written tr) @ g_alerts s
        \<or> (\<exists>k. g_outputt s = Thread_done \<and> ev_is_kill k \<and> queued tr = map fst (written tr) @ k # g_alerts s))
     \<and> (\<forall>e \<in> set (map fst (written tr)). \<not> ev_is_kill e)
     \<and> g_log s = log_text env (written tr)"
  using assms
proof (induction rule: research_run.induct)
  case run_start
  then show ?case by (simp add: research_init_def stream_defs)
next
  case (run_step tr s ls s')
  from research_step_streams [OF run_step(2)] have st: "stream_step env s ls s'" .
  have "received (tr @ ls) = classified (tr @ ls) @ g_input s'" using run_step.IH st by (simp add: stream_step_def)
  moreover have "g_log s' = log_text env (written (tr @ ls))" using run_step.IH st by (simp add: stream_step_def)
  moreover have "(g_outputt s' = Thread_running \<and> queued (tr @ ls) = map fst (written (tr @ ls)) @ g_alerts s'
        \<or> (\<exists>k. g_outputt s' = Thread_done \<and> ev_is_kill k \<and> queued (tr @ ls) = map fst (written (tr @ ls)) @ k # g_alerts s'))
      \<and> (\<forall>e \<in> set (map fst (written (tr @ ls))). \<not> ev_is_kill e)"
  proof (cases "g_outputt s = Thread_running")
    case True
    with run_step.IH st show ?thesis by (auto simp: stream_step_def stream_defs)
  next
    case False
    with st have "written ls = []" and *: "g_outputt s' = g_outputt s" "g_alerts s @ queued ls = g_alerts s'"
      by (auto simp: stream_step_def)
    with run_step.IH False show ?thesis by auto
  qed
  ultimately show ?case by blast
qed

text \<open>
  C17: Order is kept from message to alert. In every run, whatever the interleaving of the threads, the
  messages classified are the ones received, in their order, the rest is still in the input queue; the
  alerts written are the ones raised by messages and timers, in their order, up to the closing mark,
  and the rest is in the alert queue; and the alert log holds the texts of those alerts, one after the
  other.
\<close>

theorem research_pipeline:
  assumes "research_run env tr s"
  shows "received tr = classified tr @ g_input s
     \<and> (g_outputt s = Thread_running \<and> queued tr = map fst (written tr) @ g_alerts s
        \<or> (\<exists>k. g_outputt s = Thread_done \<and> ev_is_kill k \<and> queued tr = map fst (written tr) @ k # g_alerts s))
     \<and> (\<forall>e \<in> set (map fst (written tr)). \<not> ev_is_kill e)
     \<and> g_log s = log_text env (written tr)"
  using assms by (rule run_pipeline)

subsection \<open>Closing\<close>

definition no_kill :: "event \<Rightarrow> bool" where
  "no_kill e = (\<not> ev_is_kill e)"

lemma no_kill_text: "text_property no_kill"
  by (auto simp: text_property_def no_kill_def ev_is_kill_def)

lemma no_kill_default [simp]: "no_kill default_event"
  by (simp add: no_kill_def ev_is_kill_def default_event_def)

lemma no_kill_source: "\<not> se_is_kill se \<Longrightarrow> no_kill (event_of_source ft se)"
  by (simp add: no_kill_def ev_is_kill_def se_is_kill_def)

lemma state_pass_timers: "timers_hold P m \<Longrightarrow> (\<forall>e \<in> set (fst (state_pass cfg now m)). P e) \<and> timers_hold P (snd (state_pass cfg now m))"
  by (force simp: state_pass_eq timers_hold_def)

lemma interrupted_no_kill:
  assumes "interrupted_states se states states'" "\<not> se_is_kill se" "timers_hold no_kill states"
  shows "timers_hold no_kill states'"
proof -
  have "no_kill e" if "ev_logstr e = se_message se" "ev_control_message e = se_control_message se" for e
    using assms(2) that by (simp add: no_kill_def ev_is_kill_def se_is_kill_def)
  with assms(1,3) show ?thesis unfolding timers_hold_def interrupted_states_def by (metis no_kill_default)
qed

lemma process_log_no_kill:
  "process_log rx ft now se cfg states = Inr (e, states') \<Longrightarrow> \<not> se_is_kill se \<Longrightarrow> timers_hold no_kill states \<Longrightarrow>
   timers_hold no_kill states' \<and> no_kill e"
  by (rule process_log_timers) (auto intro: no_kill_text no_kill_source)

text \<open>The three ways a turn of \<open>processing_task\<close> ends.\<close>

lemma processing_turn_cases [consumes 1, case_names kill throws alert quiet]:
  assumes "processing_turn env now s = Some (ls, s')"
  obtains (kill) se q where "g_input s = se # q" "se_is_kill se" "ls = [Classified se, Closing (event_of_source (re_fmt_time env) se)]"
      "s' = s\<lparr>g_input := q, g_alerts := g_alerts s @ [event_of_source (re_fmt_time env) se],
         g_interventions := g_interventions s @ [stop_intervention], g_processing := Thread_done\<rparr>"
  | (throws) se q err where "g_input s = se # q" "\<not> se_is_kill se" "ls = [Classified se]"
      "process_log (re_rx env) (re_fmt_time env) now se (re_rules env) (g_rules s) = Inl err"
      "s' = s\<lparr>g_input := q, g_processing := Thread_dead, g_errors := Engine_error err # g_errors s\<rparr>"
  | (alert) se q e states where "g_input s = se # q" "\<not> se_is_kill se" "ls = [Classified se, Raised e]"
      "process_log (re_rx env) (re_fmt_time env) now se (re_rules env) (g_rules s) = Inr (e, states)" "alarming (re_cfg env) e"
      "s' = s\<lparr>g_input := q, g_rules := states, g_interventions := g_interventions s @ event_interventions e,
         g_alerts := g_alerts s @ [e]\<rparr>"
  | (quiet) se q e states where "g_input s = se # q" "\<not> se_is_kill se" "ls = [Classified se]"
      "process_log (re_rx env) (re_fmt_time env) now se (re_rules env) (g_rules s) = Inr (e, states)" "\<not> alarming (re_cfg env) e"
      "s' = s\<lparr>g_input := q, g_rules := states\<rparr>"
proof -
  from assms obtain se q where i: "g_input s = se # q"
    by (auto simp: processing_turn_def bq_take_def split: list.splits)
  show thesis
  proof (cases "se_is_kill se")
    case True
    with assms i kill show thesis by (simp add: processing_turn_def bq_take_def bq_push_def Let_def)
  next
    case False
    show thesis
    proof (cases "process_log (re_rx env) (re_fmt_time env) now se (re_rules env) (g_rules s)")
      case (Inl err)
      with assms i False throws show thesis by (simp add: processing_turn_def bq_take_def Let_def)
    next
      case (Inr r)
      obtain e states where r: "r = (e, states)" by (cases r)
      show thesis
      proof (cases "alarming (re_cfg env) e")
        case True
        with assms i False Inr r have "ls = [Classified se, Raised e]"
          "s' = s\<lparr>g_input := q, g_rules := states, g_interventions := g_interventions s @ event_interventions e,
             g_alerts := g_alerts s @ [e]\<rparr>"
          by (simp_all add: processing_turn_def bq_take_def fold_bq_push) (simp add: bq_push_def)
        with i False Inr r True alert show thesis by simp
      next
        case False
        with assms i \<open>\<not> se_is_kill se\<close> Inr r quiet show thesis by (simp add: processing_turn_def bq_take_def Let_def)
      qed
    qed
  qed
qed

text \<open>The closing mark comes from the processing thread only, so a dead one never closes the output.\<close>

definition closing_inv :: "research_state \<Rightarrow> bool" where
  "closing_inv s =
     (((\<exists>e \<in> set (g_alerts s). ev_is_kill e) \<or> g_outputt s \<noteq> Thread_running \<longrightarrow> g_processing s = Thread_done)
      \<and> timers_hold no_kill (g_rules s))"

lemma processing_turn_closing:
  assumes "processing_turn env now s = Some (ls, s')" "closing_inv s" "g_processing s = Thread_running"
  shows "closing_inv s'"
  using assms(1)
proof (cases rule: processing_turn_cases)
  case (alert se q e states)
  from process_log_no_kill [OF alert(4,2)] assms(2) have "timers_hold no_kill states" "no_kill e" by (auto simp: closing_inv_def)
  with alert assms(2,3) show ?thesis by (auto simp: closing_inv_def no_kill_def)
next
  case (quiet se q e states)
  from process_log_no_kill [OF quiet(4,2)] assms(2) have "timers_hold no_kill states" by (auto simp: closing_inv_def)
  with quiet assms(2) show ?thesis by (auto simp: closing_inv_def)
qed (use assms in \<open>auto simp: closing_inv_def\<close>)

lemma output_turn_closing:
  "output_turn env now s = Some (ls, s') \<Longrightarrow> closing_inv s \<Longrightarrow> closing_inv s'"
  by (auto simp: output_turn_def bq_take_def Let_def closing_inv_def split: list.splits if_splits)

lemma state_turn_closing:
  assumes "state_turn env now s = (ls, s')" "closing_inv s"
  shows "closing_inv s'"
  using state_pass_timers [of no_kill "g_rules s" "re_cfg env" now] assms
  by (fastforce simp: state_turn_def Let_def closing_inv_def fold_bq_push no_kill_def split: prod.splits)

lemma input_turn_frame:
  "input_turn env answer s = (ls, s') \<Longrightarrow>
   g_alerts s' = g_alerts s \<and> g_outputt s' = g_outputt s \<and> g_processing s' = g_processing s \<and> g_rules s' = g_rules s
   \<and> g_main s' = g_main s \<and> g_running s' = g_running s \<and> g_statet s' = g_statet s \<and> g_mailt s' = g_mailt s
   \<and> g_interventiont s' = g_interventiont s \<and> g_errors s' = g_errors s"
  by (auto simp: input_turn_def Let_def split: input_pc.splits recv_result.splits option.splits)

lemma research_step_closing: "research_step env s ls s' \<Longrightarrow> closing_inv s \<Longrightarrow> closing_inv s'"
proof (induction rule: research_step.induct)
  case (Input_turns s answer ls s')
  from input_turn_frame [OF Input_turns(2)] Input_turns show ?case by (simp add: closing_inv_def)
next
  case (Processing_turns s now ls s')
  then show ?case by (auto intro: processing_turn_closing)
next
  case (Processing_throws s now se s' states)
  from Processing_throws.hyps(2) show ?case
  proof (cases rule: processing_turn_cases)
    case (throws se' q err)
    with Processing_throws interrupted_no_kill [OF Processing_throws.hyps(4)] show ?thesis
      by (auto simp: closing_inv_def)
  qed (use Processing_throws in auto)
next
  case (State_turns s now ls s')
  then show ?case by (auto intro: state_turn_closing)
next
  case (Output_turns s now ls s')
  then show ?case by (auto intro: output_turn_closing)
next
  case (Intervention_turns s k s')
  from intervention_turn_frame [OF Intervention_turns(3)] Intervention_turns show ?case by (simp add: closing_inv_def)
qed (simp_all add: closing_inv_def intervention_start_frame input_open_frame)

text \<open>The threads that stopped stay stopped, and main joins them in order.\<close>

lemma processing_turn_frame:
  "processing_turn env now s = Some (ls, s') \<Longrightarrow>
   g_main s' = g_main s \<and> g_running s' = g_running s \<and> g_input_pc s' = g_input_pc s \<and> g_statet s' = g_statet s
   \<and> g_outputt s' = g_outputt s \<and> g_mailt s' = g_mailt s \<and> g_interventiont s' = g_interventiont s"
  by (elim processing_turn_cases) simp_all

lemma output_turn_frame:
  "output_turn env now s = Some (ls, s') \<Longrightarrow>
   g_main s' = g_main s \<and> g_running s' = g_running s \<and> g_input_pc s' = g_input_pc s \<and> g_statet s' = g_statet s
   \<and> g_processing s' = g_processing s \<and> g_mailt s' = g_mailt s \<and> g_interventiont s' = g_interventiont s
   \<and> g_errors s' = g_errors s \<and> received ls = [] \<and> classified ls = []"
  by (auto simp: output_turn_def Let_def stream_defs split: option.splits if_splits)

lemma state_turn_frame:
  "state_turn env now s = (ls, s') \<Longrightarrow>
   g_main s' = g_main s \<and> g_running s' = g_running s \<and> g_input_pc s' = g_input_pc s \<and> g_statet s' = g_statet s
   \<and> g_processing s' = g_processing s \<and> g_mailt s' = g_mailt s \<and> g_interventiont s' = g_interventiont s
   \<and> g_outputt s' = g_outputt s \<and> g_errors s' = g_errors s"
  by (auto simp: state_turn_def Let_def split: prod.splits)

lemma thread_stopped_stable: "research_step env s ls s' \<Longrightarrow> thread_stopped n s \<Longrightarrow> thread_stopped n s'"
proof (induction rule: research_step.induct)
  case (Input_turns s answer ls s')
  then show ?case by (auto simp: thread_stopped_def dest: input_turn_frame split: if_splits)
next
  case (Processing_turns s now ls s')
  then show ?case by (auto simp: thread_stopped_def dest: processing_turn_frame split: if_splits)
next
  case (Processing_throws s now se s' states)
  then show ?case by (auto simp: thread_stopped_def dest: processing_turn_frame split: if_splits)
next
  case (State_turns s now ls s')
  then show ?case by (auto simp: thread_stopped_def dest: state_turn_frame split: if_splits)
next
  case (Output_turns s now ls s')
  then show ?case by (auto simp: thread_stopped_def dest: output_turn_frame split: if_splits)
next
  case (Intervention_starts s opened ns)
  then show ?case by (auto simp: thread_stopped_def intervention_start_frame split: if_splits)
next
  case (Intervention_turns s k s')
  from intervention_turn_frame [OF Intervention_turns(3)] Intervention_turns show ?case by (auto simp: thread_stopped_def split: if_splits)
next
  case (Input_opens s socket_ok bind_ok)
  then show ?case by (auto simp: thread_stopped_def input_open_def split: if_splits)
qed (auto simp: thread_stopped_def split: if_splits)

definition joined :: "research_state \<Rightarrow> nat" where
  "joined s = (case g_main s of Main_join n \<Rightarrow> n | Main_returned \<Rightarrow> 6 | _ \<Rightarrow> 0)"

lemma joined_step:
  assumes "research_step env s ls s'" "\<forall>j < joined s. thread_stopped j s"
  shows "\<forall>j < joined s'. thread_stopped j s'"
proof (cases "g_main s' = g_main s")
  case True
  then have "joined s' = joined s" by (simp add: joined_def)
  with assms thread_stopped_stable [OF assms(1)] show ?thesis by simp
next
  case False
  from assms(1) False consider "joined s' = 0" | "joined s' = joined s"
    | n where "g_main s = Main_join n" "g_main s' = Main_join (Suc n)" "thread_stopped n s"
  proof (cases rule: research_step.cases)
    case (Input_turns answer)
    with False show thesis by (auto dest: input_turn_frame)
  next
    case (Processing_turns now)
    with False show thesis by (auto dest: processing_turn_frame)
  next
    case (Processing_throws now se st states)
    with False show thesis by (auto dest: processing_turn_frame)
  next
    case (State_turns now)
    with False show thesis by (auto dest: state_turn_frame)
  next
    case (Output_turns now)
    with False show thesis by (auto dest: output_turn_frame)
  next
    case (Intervention_turns k)
    with False show thesis by (auto dest: intervention_turn_frame)
  qed (auto simp: joined_def intervention_start_frame input_open_frame)
  then show ?thesis
  proof cases
    case 3
    then have "\<forall>j < Suc n. thread_stopped j s" using assms(2) by (auto simp: joined_def less_Suc_eq)
    with 3 thread_stopped_stable [OF assms(1)] show ?thesis by (simp add: joined_def)
  qed (use assms thread_stopped_stable [OF assms(1)] in simp_all)
qed

lemma run_joined: "research_run env tr s \<Longrightarrow> \<forall>j < joined s. thread_stopped j s"
proof (induction rule: research_run.induct)
  case run_start
  then show ?case by (simp add: research_init_def joined_def)
next
  case (run_step tr s ls s')
  from joined_step [OF run_step(2) run_step.IH] show ?case .
qed

lemma run_closing: "research_run env tr s \<Longrightarrow> closing_inv s"
proof (induction rule: research_run.induct)
  case run_start
  then show ?case by (simp add: research_init_def closing_inv_def timers_hold_def)
next
  case (run_step tr s ls s')
  then show ?case by (blast intro: research_step_closing)
qed

lemma dead_stable: "research_step env s ls s' \<Longrightarrow> g_processing s = Thread_dead \<Longrightarrow> g_processing s' = Thread_dead"
proof (induction rule: research_step.induct)
  case (Input_turns s answer ls s')
  then show ?case by (auto dest: input_turn_frame)
next
  case (State_turns s now ls s')
  then show ?case by (auto dest: state_turn_frame)
next
  case (Output_turns s now ls s')
  then show ?case by (auto dest: output_turn_frame)
next
  case (Intervention_turns s k s')
  then show ?case by (auto dest: intervention_turn_frame)
qed (auto simp: intervention_start_frame input_open_frame)

text \<open>
  C22: A dead classifier hangs the daemon. When \<open>process_log\<close> threw, the closing mark never reaches the
  output and intervention threads: whatever happens afterwards the output thread keeps running and
  the daemon never returns.
\<close>

theorem research_hangs_after_exception:
  assumes "research_run env tr s" and "g_processing s = Thread_dead"
    and "(\<lambda>s s'. \<exists>ls. research_step env s ls s')\<^sup>*\<^sup>* s s'"
  shows "g_processing s' = Thread_dead \<and> g_outputt s' = Thread_running \<and> g_main s' \<noteq> Main_returned"
  using assms(3)
proof -
  from assms(3) have "g_processing s' = Thread_dead \<and> (\<exists>tr'. research_run env tr' s')"
  proof (induction rule: rtranclp_induct)
    case base
    from assms show ?case by blast
  next
    case (step s1 s2)
    then show ?case by (blast intro: dead_stable research_run.run_step)
  qed
  then obtain tr' where d: "g_processing s' = Thread_dead" and r: "research_run env tr' s'" by blast
  from run_closing [OF r] d have o: "g_outputt s' = Thread_running" by (auto simp: closing_inv_def)
  have "g_main s' \<noteq> Main_returned"
  proof
    assume "g_main s' = Main_returned"
    with run_joined [OF r] have "thread_stopped 3 s'" by (simp add: joined_def)
    with o show False by (simp add: thread_stopped_def)
  qed
  with d o show ?thesis by simp
qed

subsection \<open>A clean end\<close>

text \<open>The labels of alerts and their events.\<close>

definition is_alert :: "label \<Rightarrow> bool" where
  "is_alert l = (case l of Raised e \<Rightarrow> True | Overdue e \<Rightarrow> True | Closing e \<Rightarrow> True | _ \<Rightarrow> False)"

definition alert_event :: "label \<Rightarrow> event" where
  "alert_event l = (case l of Raised e \<Rightarrow> e | Overdue e \<Rightarrow> e | Closing e \<Rightarrow> e | _ \<Rightarrow> default_event)"

lemma queued_alerts: "queued tr = map alert_event (filter is_alert tr)"
  by (induction tr) (auto simp: queued_def is_alert_def alert_event_def split: label.splits)

text \<open>Which flags go together.\<close>

definition flags_ok :: "research_state \<Rightarrow> bool" where
  "flags_ok s =
     ((g_main s = Main_start \<longrightarrow> g_running s)
      \<and> (g_errors s = [] \<and> g_input_pc s \<in> {In_kill, In_done} \<longrightarrow> \<not> g_running s)
      \<and> (g_processing s = Thread_dead \<longrightarrow> g_errors s \<noteq> []))"

lemma input_turn_pc:
  "input_turn env answer s = (ls, s') \<Longrightarrow> g_input_pc s \<in> {In_check, In_recv, In_kill} \<Longrightarrow>
   g_input_pc s' \<in> {In_kill, In_done} \<longrightarrow> \<not> g_running s \<or> g_input_pc s = In_kill"
  by (auto simp: input_turn_def Let_def split: recv_result.splits option.splits if_splits)

lemma flags_step: "research_step env s ls s' \<Longrightarrow> flags_ok s \<Longrightarrow> flags_ok s'"
proof (induction rule: research_step.induct)
  case (Input_turns s answer ls s')
  from input_turn_frame [OF Input_turns(2)] input_turn_pc [OF Input_turns(2,1)] Input_turns show ?case
    by (auto simp: flags_ok_def)
next
  case (Processing_turns s now ls s')
  from Processing_turns.hyps(2) show ?case
    by (cases rule: processing_turn_cases) (use Processing_turns in \<open>auto simp: flags_ok_def\<close>)
next
  case (Processing_throws s now se s' states)
  from Processing_throws.hyps(2) show ?case
    by (cases rule: processing_turn_cases) (use Processing_throws in \<open>auto simp: flags_ok_def\<close>)
next
  case (State_turns s now ls s')
  from state_turn_frame [OF State_turns(2)] State_turns show ?case by (simp add: flags_ok_def)
next
  case (Output_turns s now ls s')
  from output_turn_frame [OF Output_turns(2)] Output_turns show ?case by (simp add: flags_ok_def)
next
  case (Intervention_starts s opened ns)
  then show ?case by (auto simp: flags_ok_def intervention_start_def split: prod.split sum.split)
next
  case (Intervention_turns s k s')
  from intervention_turn_frame [OF Intervention_turns(3)] Intervention_turns show ?case by (simp add: flags_ok_def)
qed (auto simp: flags_ok_def input_open_def)

text \<open>The closing message is the last one received.\<close>

definition input_order :: "label list \<Rightarrow> research_state \<Rightarrow> bool" where
  "input_order tr s =
     (if g_input_pc s = In_done
      then g_errors s = [] \<longrightarrow> (\<exists>pre. received tr = pre @ [kill_event] \<and> (\<forall>se \<in> set pre. \<not> se_is_kill se))
      else \<forall>se \<in> set (received tr). \<not> se_is_kill se)"

lemma input_order_same:
  "input_order tr s \<Longrightarrow> received ls = [] \<Longrightarrow> g_input_pc s' = g_input_pc s \<Longrightarrow> (g_errors s' = [] \<longrightarrow> g_errors s = []) \<Longrightarrow>
   input_order (tr @ ls) s'"
  by (auto simp: input_order_def)

lemma received_Nil [simp]: "received [] = []" "classified [] = []" "queued [] = []" "written [] = []"
  by (simp_all add: stream_defs)

lemma input_message_no_kill: "input_message env data = Some se \<Longrightarrow> \<not> se_is_kill se"
  by (auto simp: input_message_def split: option.splits if_splits)

lemma input_turn_order:
  assumes "input_turn env answer s = (ls, s')" "g_input_pc s \<in> {In_check, In_recv, In_kill}" "input_order tr s"
  shows "input_order (tr @ ls) s'"
  using assms
  by (auto simp: input_turn_def input_order_def Let_def stream_defs
      split: input_pc.splits recv_result.splits option.splits if_splits dest: input_message_no_kill)

lemma processing_turn_input:
  "processing_turn env now s = Some (ls, s') \<Longrightarrow> received ls = [] \<and> (g_errors s' = [] \<longrightarrow> g_errors s = [])"
  by (elim processing_turn_cases) (auto simp: stream_defs)

lemma input_order_step: "research_step env s ls s' \<Longrightarrow> flags_ok s \<Longrightarrow> input_order tr s \<Longrightarrow> input_order (tr @ ls) s'"
proof (induction rule: research_step.induct)
  case (Main_starts s se now host)
  then show ?case
    by (auto simp: input_order_def flags_ok_def stream_defs started_event_def se_is_kill_def)
next
  case (Input_turns s answer ls s')
  then show ?case by (auto intro: input_turn_order)
next
  case (Processing_turns s now ls s')
  from processing_turn_frame [OF Processing_turns(2)] processing_turn_input [OF Processing_turns(2)] Processing_turns
  show ?case by (auto intro: input_order_same)
next
  case (Processing_throws s now se s' states)
  from processing_turn_frame [OF Processing_throws(2)] processing_turn_input [OF Processing_throws(2)] Processing_throws
  show ?case by (auto intro: input_order_same)
next
  case (State_turns s now ls s')
  then have "received ls = []" by (auto simp: state_turn_def Let_def split: prod.splits)
  with state_turn_frame [OF State_turns(2)] State_turns show ?case by (auto intro: input_order_same)
next
  case (Output_turns s now ls s')
  from output_turn_frame [OF Output_turns(2)] Output_turns show ?case by (auto intro: input_order_same)
next
  case (Intervention_starts s opened ns)
  then show ?case by (auto simp: input_order_def intervention_start_def split: prod.split sum.split)
next
  case (Intervention_turns s k s')
  from intervention_turn_frame [OF Intervention_turns(3)] Intervention_turns show ?case by (simp add: input_order_def)
next
  case (Input_opens s socket_ok bind_ok)
  then show ?case by (auto simp: input_order_def input_open_def)
qed (simp_all add: input_order_def)

text \<open>The closing mark comes after every alert of a message.\<close>

definition closed_by_mark :: "label list \<Rightarrow> bool" where
  "closed_by_mark ls =
     (\<exists>pre c late. ls = pre @ Closing c # late \<and> ev_is_kill c
        \<and> (\<forall>l \<in> set pre. no_kill (alert_event l)) \<and> (\<forall>l \<in> set late. \<exists>e. l = Overdue e))"

lemma closed_by_mark_snoc:
  "\<forall>l \<in> set pre. no_kill (alert_event l) \<Longrightarrow> ev_is_kill c \<Longrightarrow> closed_by_mark (pre @ [Closing c])"
  unfolding closed_by_mark_def by (intro exI [of _ pre] exI [of _ c] exI [of _ "[]"]) simp

lemma closed_by_mark_late: "closed_by_mark ls \<Longrightarrow> closed_by_mark (ls @ map Overdue es)"
proof -
  assume "closed_by_mark ls"
  then obtain pre c late where "ls = pre @ Closing c # late" "ev_is_kill c" "\<forall>l \<in> set pre. no_kill (alert_event l)"
    "\<forall>l \<in> set late. \<exists>e. l = Overdue e" unfolding closed_by_mark_def by blast
  then show ?thesis
    unfolding closed_by_mark_def by (intro exI [of _ pre] exI [of _ c] exI [of _ "late @ map Overdue es"]) auto
qed

definition alert_order :: "label list \<Rightarrow> research_state \<Rightarrow> bool" where
  "alert_order tr s =
     (if g_processing s = Thread_done
      then classified tr \<noteq> [] \<and> se_is_kill (last (classified tr)) \<and> closed_by_mark (filter is_alert tr)
      else \<forall>l \<in> set (filter is_alert tr). no_kill (alert_event l))"

lemma alert_order_same:
  "alert_order tr s \<Longrightarrow> classified ls = [] \<Longrightarrow> filter is_alert ls = [] \<Longrightarrow> g_processing s' = g_processing s \<Longrightarrow>
   alert_order (tr @ ls) s'"
  by (auto simp: alert_order_def)

lemma alert_order_overdue:
  assumes "alert_order tr s" "\<forall>e \<in> set es. no_kill e" "g_processing s' = g_processing s"
  shows "alert_order (tr @ map Overdue es) s'"
proof -
  have "filter is_alert (map Overdue es) = map Overdue es" by (simp add: filter_id_conv is_alert_def)
  with assms closed_by_mark_late show ?thesis by (auto simp: alert_order_def alert_event_def)
qed

lemma processing_turn_order:
  assumes "processing_turn env now s = Some (ls, s')" "g_processing s = Thread_running" "alert_order tr s" "closing_inv s"
  shows "alert_order (tr @ ls) s'"
  using assms(1)
proof (cases rule: processing_turn_cases)
  case (kill se q)
  let ?e = "event_of_source (re_fmt_time env) se"
  have "filter is_alert (tr @ ls) = filter is_alert tr @ [Closing ?e]" using kill by (simp add: is_alert_def)
  moreover have "\<forall>l \<in> set (filter is_alert tr). no_kill (alert_event l)" using assms(2,3) by (simp add: alert_order_def)
  moreover have "ev_is_kill ?e" using kill by (simp add: ev_is_kill_def se_is_kill_def)
  moreover have "classified (tr @ ls) = classified tr @ [se]" using kill by (simp add: stream_defs)
  ultimately show ?thesis using kill by (auto simp: alert_order_def intro: closed_by_mark_snoc)
next
  case (alert se q e states)
  then have "no_kill e" using process_log_no_kill [OF alert(4,2)] assms(4) by (simp add: closing_inv_def)
  with assms(2,3) alert show ?thesis by (auto simp: alert_order_def is_alert_def alert_event_def)
qed (use assms in \<open>auto simp: alert_order_def is_alert_def\<close>)

lemma state_turn_order:
  assumes "state_turn env now s = (ls, s')" "alert_order tr s" "closing_inv s"
  shows "alert_order (tr @ ls) s'"
proof -
  obtain es states where sp: "state_pass (re_cfg env) now (g_rules s) = (es, states)" by (cases "state_pass (re_cfg env) now (g_rules s)")
  have "\<forall>e \<in> set es. no_kill e" using state_pass_timers [of no_kill "g_rules s" "re_cfg env" now] assms(3) sp
    by (simp add: closing_inv_def)
  moreover have "ls = map Overdue es" "g_processing s' = g_processing s" using assms(1) sp by (auto simp: state_turn_def)
  ultimately show ?thesis using alert_order_overdue [OF assms(2)] by simp
qed

lemma input_turn_labels: "input_turn env answer s = (ls, s') \<Longrightarrow> classified ls = [] \<and> filter is_alert ls = []"
  by (auto simp: input_turn_def Let_def stream_defs is_alert_def split: input_pc.splits recv_result.splits option.splits)

lemma output_turn_labels: "output_turn env now s = Some (ls, s') \<Longrightarrow> filter is_alert ls = []"
  by (auto simp: output_turn_def Let_def is_alert_def split: option.splits if_splits)

lemma alert_order_step: "research_step env s ls s' \<Longrightarrow> closing_inv s \<Longrightarrow> alert_order tr s \<Longrightarrow> alert_order (tr @ ls) s'"
proof (induction rule: research_step.induct)
  case (Main_starts s se now host)
  then show ?case by (auto intro!: alert_order_same simp: stream_defs is_alert_def)
next
  case (Input_turns s answer ls s')
  from input_turn_frame [OF Input_turns(2)] input_turn_labels [OF Input_turns(2)] Input_turns show ?case
    by (auto intro: alert_order_same)
next
  case (Processing_turns s now ls s')
  then show ?case by (auto intro: processing_turn_order)
next
  case (Processing_throws s now se s' states)
  then have "alert_order (tr @ [Classified se]) s'" by (auto intro: processing_turn_order)
  then show ?case by (simp add: alert_order_def)
next
  case (State_turns s now ls s')
  then show ?case by (auto intro: state_turn_order)
next
  case (Output_turns s now ls s')
  from output_turn_frame [OF Output_turns(2)] output_turn_labels [OF Output_turns(2)] Output_turns show ?case
    by (auto intro: alert_order_same)
next
  case (Intervention_turns s k s')
  from intervention_turn_frame [OF Intervention_turns(3)] Intervention_turns show ?case by (auto simp: alert_order_def)
qed (simp_all add: alert_order_def intervention_start_frame input_open_frame)

lemma run_orders: "research_run env tr s \<Longrightarrow> flags_ok s \<and> input_order tr s \<and> alert_order tr s"
proof (induction rule: research_run.induct)
  case run_start
  then show ?case by (simp add: research_init_def flags_ok_def input_order_def alert_order_def)
next
  case (run_step tr s ls s')
  from run_closing [OF run_step(1)] run_step show ?case
    by (blast intro: flags_step input_order_step alert_order_step)
qed

lemma first_split:
  assumes "xs @ k # ys = xs' @ k' # ys'" "\<forall>x \<in> set xs. P x" "\<not> P k" "\<forall>x \<in> set xs'. P x" "\<not> P k'"
  shows "xs = xs'"
proof -
  have "takeWhile P (xs @ k # ys) = xs" "takeWhile P (xs' @ k' # ys') = xs'" using assms(2-5) by simp_all
  with assms(1) show ?thesis by simp
qed

lemma run_complete:
  assumes "research_run env tr s" and "g_main s = Main_returned" and "g_errors s = []"
  shows "g_input s = [] \<and> classified tr = received tr
     \<and> (\<exists>pre c late. filter is_alert tr = pre @ Closing c # late \<and> map alert_event pre = map fst (written tr)
          \<and> (\<forall>l \<in> set late. \<exists>e. l = Overdue e))
     \<and> g_log s = log_text env (written tr)"
proof -
  from run_joined [OF assms(1)] assms(2) have st: "\<forall>j < 6. thread_stopped j s" by (simp add: joined_def)
  have "g_input_pc s = In_done" "g_processing s \<noteq> Thread_running" "g_outputt s \<noteq> Thread_running"
    using st [rule_format, of 0] st [rule_format, of 1] st [rule_format, of 3] by (simp_all add: thread_stopped_def)
  with run_orders [OF assms(1)] assms(3) have pd: "g_processing s = Thread_done"
    and rc: "\<exists>pre. received tr = pre @ [kill_event] \<and> (\<forall>se \<in> set pre. \<not> se_is_kill se)"
    and ao: "alert_order tr s"
    by (auto simp: flags_ok_def input_order_def intro: thread_status.exhaust)
  from run_pipeline [OF assms(1)] \<open>g_outputt s \<noteq> Thread_running\<close> obtain k where
    pl: "received tr = classified tr @ g_input s" "ev_is_kill k" "queued tr = map fst (written tr) @ k # g_alerts s"
      "\<forall>e \<in> set (map fst (written tr)). \<not> ev_is_kill e" "g_log s = log_text env (written tr)"
    by auto
  have i: "g_input s = []"
  proof (rule ccontr)
    assume "g_input s \<noteq> []"
    with rc pl(1) obtain pre where p: "classified tr @ butlast (g_input s) = pre" "\<forall>se \<in> set pre. \<not> se_is_kill se"
      by (metis butlast_append butlast_snoc)
    from ao pd have "classified tr \<noteq> []" "se_is_kill (last (classified tr))" by (auto simp: alert_order_def)
    with p show False by (metis UnCI last_in_set set_append)
  qed
  from ao pd obtain pre c late where cl: "filter is_alert tr = pre @ Closing c # late" "ev_is_kill c"
    "\<forall>l \<in> set pre. no_kill (alert_event l)" "\<forall>l \<in> set late. \<exists>e. l = Overdue e"
    by (auto simp: alert_order_def closed_by_mark_def)
  have "map alert_event pre @ c # map alert_event late = map fst (written tr) @ k # g_alerts s"
    using pl(3) cl(1) by (simp add: queued_alerts alert_event_def)
  then have "map alert_event pre = map fst (written tr)"
    by (rule first_split [where P = no_kill]) (use cl(2,3) pl(2,4) in \<open>auto simp: no_kill_def\<close>)
  with cl i pl(1,5) show ?thesis by auto
qed

text \<open>
  C15: Nothing is lost at a clean end. When the daemon returns and no thread has failed, every message
  received has been classified; every alert raised before the closing mark, so every alert of a
  message, has been written to the log, in order; only the timers that ran out after it are not.
\<close>

theorem research_returns_complete:
  assumes "research_run env tr s" and "g_main s = Main_returned" and "g_errors s = []"
  shows "g_input s = [] \<and> classified tr = received tr
     \<and> (\<exists>pre c late. filter is_alert tr = pre @ Closing c # late \<and> map alert_event pre = map fst (written tr)
          \<and> (\<forall>l \<in> set late. \<exists>e. l = Overdue e))
     \<and> g_log s = log_text env (written tr)"
  using assms by (rule run_complete)

subsection \<open>Executing a run\<close>

text \<open>A choice of the next step, and the step it makes.\<close>

datatype choice =
    Do_start int string | Do_wake | Do_join | Do_return
  | Do_open bool bool | Do_input recv_result
  | Do_process int | Do_state int | Do_state_stop | Do_output int
  | Do_intervention_start bool net_state | Do_intervention | Do_mail int | Do_mail_stop

fun research_exec :: "research_env \<Rightarrow> choice \<Rightarrow> research_state \<Rightarrow> (label list \<times> research_state) option" where
  "research_exec env (Do_start now host) s =
     (if g_main s = Main_start
      then Some ([Received (started_event now host)], s\<lparr>g_main := Main_wait, g_input := bq_push (g_input s) (started_event now host)\<rparr>)
      else None)"
| "research_exec env Do_wake s =
     (if g_main s = Main_wait
      then Some ([], s\<lparr>g_main := Main_join 0, g_running := False, g_smtp := shutdown_mail env (g_smtp s)\<rparr>) else None)"
| "research_exec env Do_join s =
     (case g_main s of
        Main_join n \<Rightarrow> if n < 6 \<and> thread_stopped n s then Some ([], s\<lparr>g_main := Main_join (Suc n)\<rparr>) else None
      | _ \<Rightarrow> None)"
| "research_exec env Do_return s = (if g_main s = Main_join 6 then Some ([], s\<lparr>g_main := Main_returned\<rparr>) else None)"
| "research_exec env (Do_open a b) s = (if g_input_pc s = In_start then Some ([], input_open env a b s) else None)"
| "research_exec env (Do_input answer) s =
     (if g_input_pc s \<in> {In_check, In_recv, In_kill} then Some (input_turn env answer s) else None)"
| "research_exec env (Do_process now) s =
     (if g_processing s = Thread_running then processing_turn env now s else None)"
| "research_exec env (Do_state now) s = (if g_statet s = Thread_running then Some (state_turn env now s) else None)"
| "research_exec env Do_state_stop s =
     (if g_statet s = Thread_running \<and> \<not> g_running s then Some ([], s\<lparr>g_statet := Thread_done\<rparr>) else None)"
| "research_exec env (Do_output now) s = (if g_outputt s = Thread_running then output_turn env now s else None)"
| "research_exec env (Do_intervention_start opened ns) s =
     (if g_interventiont s = Thread_running \<and> g_sink s = None then Some ([], intervention_start env opened ns s) else None)"
| "research_exec env Do_intervention s =
     (case g_sink s of
        None \<Rightarrow> None
      | Some k \<Rightarrow> if g_interventiont s = Thread_running then map_option (\<lambda>s. ([], s)) (intervention_turn env k s) else None)"
| "research_exec env (Do_mail now) s =
     (if g_mailt s = Thread_running \<and> g_running s then
        (case bq_take_for (g_mails s) [] of (inp, q) \<Rightarrow>
         case mail_turn (re_smtp env) (re_cfg env) now inp (g_mail s) (g_smtp s) of (sent, m, st) \<Rightarrow>
           Some ([], s\<lparr>g_mails := q, g_mail := m, g_smtp := st\<rparr>))
      else None)"
| "research_exec env Do_mail_stop s =
     (if g_mailt s = Thread_running \<and> \<not> g_running s then
        (case mail_finish (re_smtp env) (re_cfg env) (g_mail s) (g_smtp s) of (sent, m, st) \<Rightarrow>
           Some ([], s\<lparr>g_mail := m, g_smtp := st, g_mailt := Thread_done\<rparr>))
      else None)"

lemma interrupted_same [simp]: "interrupted_states se m m"
  by (auto simp: interrupted_states_def)

lemma processing_turn_step:
  assumes "g_processing s = Thread_running" "processing_turn env now s = Some (ls, s')"
  shows "research_step env s ls s'"
proof (cases "g_processing s' = Thread_dead")
  case True
  from assms(2) show ?thesis
  proof (cases rule: processing_turn_cases)
    case (throws se q err)
    have "research_step env s [Classified se] (s'\<lparr>g_rules := g_rules s\<rparr>)"
      using assms throws by (intro Processing_throws [where now = now and se = se]) simp_all
    moreover have "s'\<lparr>g_rules := g_rules s\<rparr> = s'" using throws by simp
    ultimately show ?thesis using throws by simp
  qed (use True assms in auto)
qed (use assms in \<open>blast intro: Processing_turns\<close>)

lemma research_exec_step: "research_exec env c s = Some (ls, s') \<Longrightarrow> research_step env s ls s'"
  by (cases c)
    (auto split: if_splits main_pc.splits option.splits prod.splits intro: processing_turn_step research_step.intros)

fun research_execs :: "research_env \<Rightarrow> choice list \<Rightarrow> label list \<times> research_state \<Rightarrow> (label list \<times> research_state) option" where
  "research_execs env [] ts = Some ts"
| "research_execs env (c # cs) ts =
     (case research_exec env c (snd ts) of None \<Rightarrow> None | Some (ls, s) \<Rightarrow> research_execs env cs (fst ts @ ls, s))"

lemma research_execs_run:
  "research_execs env cs (tr, s) = Some (tr', s') \<Longrightarrow> research_run env tr s \<Longrightarrow> research_run env tr' s'"
proof (induction cs arbitrary: tr s)
  case (Cons c cs)
  then obtain ls s1 where e: "research_exec env c s = Some (ls, s1)" "research_execs env cs (tr @ ls, s1) = Some (tr', s')"
    by (auto split: option.splits)
  from Cons.prems(2) research_exec_step [OF e(1)] have "research_run env (tr @ ls) s1" by (rule run_step)
  with Cons.IH e(2) show ?case .
qed simp

text \<open>A daemon with one rule that alerts on every message, and interventions written to a file.\<close>

definition demo_env :: "rule list \<Rightarrow> research_env" where
  "demo_env rs =
     \<lparr>re_cfg = default_research_config\<lparr>rc_mail := False, rc_intervention_kind := Output_file, rc_input_path := ''s''\<rparr>,
      re_rules = \<lparr>std_rules = rs, group_rules = [], cfg_groups = [], cfg_formats = [], cfg_interventions = []\<rparr>,
      re_rx = literal_rx, re_fmt_time = (\<lambda>t. []), re_unit_test = True, re_decode = (\<lambda>d. None), re_encode = (\<lambda>c. ''x''),
      re_net = flaky_net, re_smtp = friendly_smtp\<rparr>"

definition alarm_rule :: rule where
  "alarm_rule = Rule (default_rule\<lparr>r_id := 7, r_priority := 3, r_description := ''any'', r_trigger_group := ''!ALWAYS''\<rparr>) []"

definition closing_schedule :: "choice list" where
  "closing_schedule =
     [Do_start 0 ''h'', Do_open True True, Do_process 1, Do_output 2, Do_wake, Do_input Recv_error, Do_input Recv_error,
      Do_process 3, Do_state_stop, Do_output 4, Do_intervention_start True \<lparr>ns_tick = 0, ns_wire = [], ns_closed = []\<rparr>,
      Do_intervention, Do_join, Do_join, Do_join, Do_join, Do_join, Do_join, Do_return]"

lemma demo_closes:
  "map_option (\<lambda>(tr, s). (g_main s, g_errors s, length (written tr)))
     (research_execs (demo_env [alarm_rule]) closing_schedule ([], research_init (demo_env [alarm_rule])))
   = Some (Main_returned, [], 1)"
  by code_simp

lemma demo_run:
  obtains tr s where "research_run (demo_env [alarm_rule]) tr s" "g_main s = Main_returned" "g_errors s = []"
    "length (written tr) = 1"
proof -
  from demo_closes obtain tr s where
    e: "research_execs (demo_env [alarm_rule]) closing_schedule ([], research_init (demo_env [alarm_rule])) = Some (tr, s)"
    "g_main s = Main_returned" "g_errors s = []" "length (written tr) = 1" by auto
  from that [OF research_execs_run [OF e(1) run_start] e(2-4)] show thesis .
qed

theorem processing_decides_witness:
  "\<exists>s'. map_option snd (processing_turn (demo_env [alarm_rule]) 1
        ((research_init (demo_env [alarm_rule]))\<lparr>g_input := [started_event 0 ''h'']\<rparr>)) = Some s'
     \<and> map ev_rule_id (g_alerts s') = [7] \<and> g_interventions s' = []"
proof -
  let ?env = "demo_env [alarm_rule]"
  let ?s = "(research_init ?env)\<lparr>g_input := [started_event 0 ''h'']\<rparr>"
  let ?p = "process_log (re_rx ?env) (re_fmt_time ?env) 1 (started_event 0 ''h'') (re_rules ?env) (g_rules ?s)"
  have c: "map_sum id (\<lambda>(e, st). (ev_rule_id e, alarming (re_cfg ?env) e, ev_interventions e)) ?p = Inr (7, True, [])" by code_simp
  then obtain e states where p: "?p = Inr (e, states)" by (cases ?p) auto
  with c have e: "ev_rule_id e = 7" "alarming (re_cfg ?env) e" "ev_interventions e = []" by simp_all
  have k: "\<not> se_is_kill (started_event 0 ''h'')" by (simp add: se_is_kill_def started_event_def)
  from processing_decides [where s = ?s and env = ?env, OF _ k p] obtain ls s' its where
    t: "processing_turn ?env 1 ?s = Some (ls, s')" "g_alerts s' = g_alerts ?s @ [e]" "g_interventions s' = g_interventions ?s @ its"
      "\<forall>i. i \<in> set its \<longleftrightarrow> (\<exists>ir \<in> set (ev_interventions e). map_of (ev_fields e) (ir_field ir) = Some (it_argument i)
             \<and> it_name i = ir_name ir \<and> \<not> it_kill i)"
    using e(2) by auto
  then have "its = []" using e(3) by (cases its) auto
  with t e(1) show ?thesis by (simp add: research_init_def)
qed

theorem research_pipeline_witness:
  "\<exists>tr s. research_run (demo_env [alarm_rule]) tr s \<and> length (written tr) = 1
     \<and> g_log s = log_text (demo_env [alarm_rule]) (written tr)"
proof -
  obtain tr s where r: "research_run (demo_env [alarm_rule]) tr s" "length (written tr) = 1" using demo_run by blast
  from research_pipeline [OF r(1)] r show ?thesis by blast
qed

theorem research_returns_complete_witness:
  "\<exists>tr s. research_run (demo_env [alarm_rule]) tr s \<and> g_main s = Main_returned \<and> classified tr = received tr
     \<and> g_input s = []"
proof -
  obtain tr s where r: "research_run (demo_env [alarm_rule]) tr s" "g_main s = Main_returned" "g_errors s = []"
    using demo_run by blast
  from research_returns_complete [OF r] r show ?thesis by blast
qed

text \<open>A rule equal to the start of the selection: it matches and is never selected.\<close>

definition unselectable_rule :: rule where
  "unselectable_rule = Rule (default_rule\<lparr>r_id := - 1, r_priority := 0, r_trigger_group := ''!ALWAYS''\<rparr>) []"

theorem research_hangs_after_exception_witness:
  "\<exists>tr s. research_run (demo_env [unselectable_rule]) tr s \<and> g_errors s = [Engine_error No_fitting_rule]
     \<and> g_main s \<noteq> Main_returned \<and> g_outputt s = Thread_running"
proof -
  let ?env = "demo_env [unselectable_rule]"
  have "map_option (\<lambda>(tr, s). (g_processing s, g_errors s))
      (research_execs ?env [Do_start 0 ''h'', Do_process 1] ([], research_init ?env))
      = Some (Thread_dead, [Engine_error No_fitting_rule])" by code_simp
  then obtain tr s where e: "research_execs ?env [Do_start 0 ''h'', Do_process 1] ([], research_init ?env) = Some (tr, s)"
    "g_processing s = Thread_dead" "g_errors s = [Engine_error No_fitting_rule]" by auto
  from research_execs_run [OF e(1) run_start] have r: "research_run ?env tr s" .
  from research_hangs_after_exception [OF r e(2) rtranclp.rtrancl_refl] r e(3) show ?thesis by blast
qed

subsection \<open>A rule set that never stops the daemon\<close>

lemma safe_rules_never_die:
  assumes "research_run env tr s"
    and "rx_lawful (re_rx env)" and "\<forall>f \<in> set (cfg_formats (re_rules env)). format_safe (re_rx env) f"
    and "\<forall>r \<in> set (std_rules (re_rules env)) \<union> set (group_rules (re_rules env)). rule_safe (re_rx env) None r"
  shows "g_processing s \<noteq> Thread_dead"
  using assms(1)
proof (induction rule: research_run.induct)
  case run_start
  then show ?case by (simp add: research_init_def)
next
  case (run_step tr s ls s')
  have t: "g_processing s2 \<noteq> Thread_dead" if "processing_turn env now s1 = Some (l, s2)" "g_processing s1 = Thread_running" for s1 s2 l now
    using that(1)
  proof (cases rule: processing_turn_cases)
    case (throws se q err)
    with process_log_total [OF assms(2-4)] show ?thesis by (metis Inl_Inr_False)
  qed (use that in auto)
  from run_step(2,3) show ?case
  proof (cases rule: research_step.cases)
    case (Input_turns answer)
    with run_step.IH show ?thesis by (auto dest: input_turn_frame)
  next
    case (State_turns now)
    with run_step.IH show ?thesis by (auto dest: state_turn_frame)
  next
    case (Output_turns now)
    with run_step.IH show ?thesis by (auto dest: output_turn_frame)
  next
    case (Intervention_turns k)
    with run_step.IH show ?thesis by (auto dest: intervention_turn_frame)
  next
    case (Processing_throws now se s2 states)
    with t show ?thesis by blast
  qed (use run_step.IH in \<open>auto simp: intervention_start_frame input_open_frame\<close>)
qed

text \<open>
  Classification of safe rules never fails. On a rule set whose regular expressions are valid and
  named and whose unless rules are placed below the rules they refer to, no run of the daemon, whatever
  it receives, reaches a state in which the classifying thread died.
\<close>

theorem research_never_dies:
  assumes "research_run env tr s"
    and "rx_lawful (re_rx env)" and "\<forall>f \<in> set (cfg_formats (re_rules env)). format_safe (re_rx env) f"
    and "\<forall>r \<in> set (std_rules (re_rules env)) \<union> set (group_rules (re_rules env)). rule_safe (re_rx env) None r"
  shows "g_processing s \<noteq> Thread_dead"
  using assms by (rule safe_rules_never_die)

theorem research_never_dies_witness:
  "\<exists>tr s. research_run (demo_env [alarm_rule]) tr s \<and> g_processing s \<noteq> Thread_dead \<and> written tr \<noteq> []"
proof -
  let ?env = "demo_env [alarm_rule]"
  obtain tr s where r: "research_run ?env tr s" "length (written tr) = 1" using demo_run by blast
  have "rule_safe literal_rx None alarm_rule" by (simp add: alarm_rule_def data_safe_def default_rule_def default_unless_def)
  then have "g_processing s \<noteq> Thread_dead"
    by (intro research_never_dies [OF r(1)]) (simp_all add: demo_env_def)
  moreover have "written tr \<noteq> []" using r(2) by auto
  ultimately show ?thesis using r(1) by blast
qed

subsection \<open>Mails\<close>

text \<open>A sequence of turns of the mail thread: the mails sent and the final state.\<close>

fun mail_turns :: "smtp \<Rightarrow> research_config \<Rightarrow> (int \<times> event option) list \<Rightarrow> mail_state \<Rightarrow> smtp_state \<Rightarrow>
    event list list \<times> mail_state \<times> smtp_state" where
  "mail_turns net cfg [] m st = ([], m, st)"
| "mail_turns net cfg ((now, inp) # inps) m st =
     (case mail_turn net cfg now inp m st of (sent, m, st) \<Rightarrow>
      case mail_turns net cfg inps m st of (mails, m, st) \<Rightarrow>
        ((case sent of None \<Rightarrow> mails | Some q \<Rightarrow> q # mails), m, st))"

definition mail_worthy :: "research_config \<Rightarrow> event \<Rightarrow> bool" where
  "mail_worthy cfg e = (rc_mail_priority cfg \<le> ev_priority e \<or> ev_always_alert e)"

definition offered :: "research_config \<Rightarrow> event option \<Rightarrow> event list" where
  "offered cfg inp = (case inp of None \<Rightarrow> [] | Some e \<Rightarrow> if mail_worthy cfg e then [e] else [])"

lemma mail_accept_queue: "ml_queue (mail_accept cfg now inp m) = ml_queue m @ offered cfg inp"
  by (auto simp: mail_accept_def offered_def mail_worthy_def split: option.split)

lemma mail_turn_conserves:
  "mail_turn net cfg now inp m st = (sent, m', st') \<Longrightarrow>
   (case sent of None \<Rightarrow> [] | Some q \<Rightarrow> q) @ ml_queue m' = ml_queue m @ offered cfg inp"
proof -
  assume t: "mail_turn net cfg now inp m st = (sent, m', st')"
  have "(case sent of None \<Rightarrow> [] | Some q \<Rightarrow> q) @ ml_queue m' = ml_queue (mail_accept cfg now inp m)"
    using t by (auto simp: mail_turn_def Let_def split: if_splits prod.splits sum.splits)
  then show ?thesis by (simp add: mail_accept_queue)
qed

text \<open>
  No mail alert is lost while the daemon runs, and none is sent twice. Whatever mails fail, the
  alerts in the mails that were sent, followed by those still waiting, are exactly the alerts whose
  priority reaches mail_priority or whose rule always alerts, in their order.
\<close>

theorem mail_nothing_lost:
  assumes "mail_turns net cfg inps m st = (mails, m', st')"
  shows "concat mails @ ml_queue m' = ml_queue m @ concat (map (\<lambda>(now, inp). offered cfg inp) inps)"
  using assms
proof (induction inps arbitrary: m st mails)
  case (Cons i inps)
  obtain now inp where i: "i = (now, inp)" by (cases i)
  obtain sent m1 st1 where t: "mail_turn net cfg now inp m st = (sent, m1, st1)" by (cases "mail_turn net cfg now inp m st")
  obtain mails' where ts: "mail_turns net cfg inps m1 st1 = (mails', m', st')"
    and ml: "mails = (case sent of None \<Rightarrow> mails' | Some q \<Rightarrow> q # mails')"
    using Cons.prems i t by (auto split: prod.splits)
  have "concat mails = (case sent of None \<Rightarrow> [] | Some q \<Rightarrow> q) @ concat mails'" using ml by (simp split: option.split)
  with Cons.IH [OF ts] mail_turn_conserves [OF t] i show ?case by simp
qed simp

text \<open>
  Urgent alerts are mailed at once. When the mail of the waiting alerts can be sent, an alert of
  priority mail_instant or more (and of mail_priority) leaves with all waiting alerts in the same turn,
  whatever the intervals; and without such an alert no mail leaves before mail_interval and
  mail_sample_time have passed, unless mail_max_sample_count is reached.
\<close>

theorem mail_instant_at_once:
  assumes "mail_turn net cfg now (Some e) m st = (sent, m', st')"
  shows "(mail_worthy cfg e \<and> rc_mail_instant cfg \<le> ev_priority e
        \<and> fst (send_mail_queue net cfg (ml_queue m @ [e]) st) = Inr () \<longrightarrow> sent = Some (ml_queue m @ [e]) \<and> ml_queue m' = [])
    \<and> (\<forall>q. sent = Some q \<longrightarrow> rc_mail_instant cfg \<le> max (ml_max_priority m) (ev_priority e)
         \<or> ml_last_send m + int (unat (rc_mail_interval cfg)) \<le> now
         \<or> unat (rc_mail_max_sample_count cfg) \<le> length q)"
proof (intro conjI impI allI)
  let ?a = "mail_accept cfg now (Some e) m"
  assume w: "mail_worthy cfg e \<and> rc_mail_instant cfg \<le> ev_priority e
      \<and> fst (send_mail_queue net cfg (ml_queue m @ [e]) st) = Inr ()"
  have q: "ml_queue ?a = ml_queue m @ [e]" using w by (simp add: mail_accept_queue offered_def)
  have "rc_mail_instant cfg \<le> ml_max_priority ?a" using w by (auto simp: mail_accept_def mail_worthy_def)
  then have "mail_due cfg now ?a" by (simp add: mail_due_def)
  with assms q w have "sent = Some (ml_queue m @ [e]) \<and> ml_queue m' = []"
    by (auto simp: mail_turn_def Let_def split: prod.splits sum.splits)
  then show "sent = Some (ml_queue m @ [e])" "ml_queue m' = []" by simp_all
next
  let ?a = "mail_accept cfg now (Some e) m"
  fix q
  assume "sent = Some q"
  with assms have d: "mail_due cfg now ?a" and q: "q = ml_queue ?a"
    by (auto simp: mail_turn_def Let_def split: if_splits prod.splits sum.splits)
  have "ml_last_send ?a = ml_last_send m" "ml_max_priority ?a \<le> max (ml_max_priority m) (ev_priority e)"
    by (auto simp: mail_accept_def)
  with d q show "rc_mail_instant cfg \<le> max (ml_max_priority m) (ev_priority e)
      \<or> ml_last_send m + int (unat (rc_mail_interval cfg)) \<le> now \<or> unat (rc_mail_max_sample_count cfg) \<le> length q"
    by (auto simp: mail_due_def)
qed

definition urgent_event :: event where
  "urgent_event = default_event\<lparr>ev_priority := 9, ev_logstr := ''disk''\<rparr>"

lemma urgent_sent: "fst (send_mail_queue friendly_smtp default_research_config [urgent_event] no_mail) = Inr ()"
  by (simp add: send_mail_queue_def smtp_eval friendly_smtp_def no_mail_def Let_def)

lemma urgent_turn:
  obtains m st where "mail_turn friendly_smtp default_research_config 5 (Some urgent_event) mail_init no_mail = (Some [urgent_event], m, st)"
proof -
  obtain sent m st where t: "mail_turn friendly_smtp default_research_config 5 (Some urgent_event) mail_init no_mail = (sent, m, st)"
    by (cases "mail_turn friendly_smtp default_research_config 5 (Some urgent_event) mail_init no_mail")
  have "sent = Some [urgent_event]" using t urgent_sent
    by (auto simp: mail_turn_def mail_accept_def mail_due_def mail_init_def default_research_config_def urgent_event_def
        Let_def split: if_splits prod.splits sum.splits)
  with t that show thesis by blast
qed

theorem mail_instant_at_once_witness:
  "\<exists>m st. mail_turn friendly_smtp default_research_config 5 (Some urgent_event) mail_init no_mail = (Some [urgent_event], m, st)
     \<and> ml_queue m = []"
proof -
  obtain m st where t: "mail_turn friendly_smtp default_research_config 5 (Some urgent_event) mail_init no_mail = (Some [urgent_event], m, st)"
    by (rule urgent_turn)
  have "mail_worthy default_research_config urgent_event" "rc_mail_instant default_research_config \<le> ev_priority urgent_event"
    by (simp_all add: mail_worthy_def default_research_config_def urgent_event_def)
  with mail_instant_at_once [OF t] t urgent_sent show ?thesis by (auto simp: mail_init_def)
qed

theorem mail_nothing_lost_witness:
  "\<exists>mails m st. mail_turns friendly_smtp default_research_config [(5, Some urgent_event), (6, Some default_event)] mail_init no_mail
       = (mails, m, st) \<and> concat mails @ ml_queue m = [urgent_event]"
proof -
  let ?i = "[(5, Some urgent_event), (6, Some default_event)]"
  obtain mails m st where t: "mail_turns friendly_smtp default_research_config ?i mail_init no_mail = (mails, m, st)"
    by (cases "mail_turns friendly_smtp default_research_config ?i mail_init no_mail")
  from mail_nothing_lost [OF t] t show ?thesis
    by (auto simp: offered_def mail_worthy_def default_research_config_def urgent_event_def default_event_def mail_init_def)
qed

end
