(* ===== verification/Research_Interventions.thy ===== *)
theory Research_Interventions
  imports Research_Daemon_Facts
begin

text \<open>
  The interventions of ctguard-research, from the alerts that request them to the sink: an invariant of the
  runs that ties the queue, the local queue of \<open>intervention_task\<close> and what the sink put out to the alerts
  raised.
\<close>

subsection \<open>What is requested\<close>

definition requests_of :: "label \<Rightarrow> intervention_t list" where
  "requests_of l = (case l of Raised e \<Rightarrow> event_interventions e | _ \<Rightarrow> [])"

definition requested :: "label list \<Rightarrow> intervention_t list" where
  "requested tr = concat (map requests_of tr)"

text \<open>What was pushed into the queue: the requests, and the mark when the classifying thread ended.\<close>

definition pushed :: "label list \<Rightarrow> research_state \<Rightarrow> intervention_t list" where
  "pushed tr s = requested tr @ (if g_processing s = Thread_done then [stop_intervention] else [])"

lemma requested_append [simp]: "requested (tr @ ls) = requested tr @ requested ls"
  by (simp add: requested_def)

lemma requested_Nil [simp]: "requested [] = []"
  by (simp add: requested_def)

lemma requested_Cons [simp]: "requested (l # ls) = requests_of l @ requested ls"
  by (simp add: requested_def)

lemma requests_of_simps [simp]:
  "requests_of (Raised e) = event_interventions e" "requests_of (Received se) = []" "requests_of (Classified se) = []"
  "requests_of (Overdue e) = []" "requests_of (Closing e) = []" "requests_of (Written e now) = []"
  by (simp_all add: requests_of_def)

lemma requested_Overdue [simp]: "requested (map Overdue es) = []"
  by (induction es) simp_all

lemma event_interventions_no_kill: "i \<in> set (event_interventions e) \<Longrightarrow> \<not> it_kill i"
  by (auto simp: event_interventions_mem)

lemma requested_no_kill: "i \<in> set (requested tr) \<Longrightarrow> \<not> it_kill i"
  by (auto simp: requested_def requests_of_def dest: event_interventions_no_kill split: label.splits)

subsection \<open>The sink of the thread\<close>

text \<open>A sink of the configured kind, as the constructor leaves it.\<close>

definition fresh_sink :: "research_env \<Rightarrow> sink_state \<Rightarrow> bool" where
  "fresh_sink env k =
     (\<exists>opened ns. create_sink (re_net env) opened [] (rc_intervention_path (re_cfg env)) (rc_intervention_kind (re_cfg env)) False ns
        = (Inr (fst k), snd k))"

text \<open>What it puts out for a command.\<close>

definition cmd_text :: "research_env \<Rightarrow> intervention_cmd \<Rightarrow> string" where
  "cmd_text env =
     (case rc_intervention_kind (re_cfg env) of Output_file \<Rightarrow> cmd_line | Output_socket \<Rightarrow> re_encode env)"

lemma fresh_sink_kind: "fresh_sink env k \<Longrightarrow> of_kind (rc_intervention_kind (re_cfg env)) k"
  unfolding fresh_sink_def by (auto dest: create_sink_kind)

lemma sending_keeps_kind: "sending_keeps (of_kind kind) (intervention_send net ser)"
  by (auto simp: sending_keeps_def of_kind_def intervention_send_def socket_send_def bind_eq_Some_conv split: sink.splits)

lemma only_kind_cases:
  assumes "datagram_net (re_net env)" "cereal_ok (re_encode env)"
    and "only_when (of_kind (rc_intervention_kind (re_cfg env))) (intervention_send (re_net env) (re_encode env)) x k = Some (r, k')"
  shows "sink_out k' = sink_out k @ (case r of Inl e \<Rightarrow> [] | Inr _ \<Rightarrow> [cmd_text env x])"
proof -
  obtain snk ns where k: "k = (snk, ns)" by (cases k)
  from assms(3) have o: "of_kind (rc_intervention_kind (re_cfg env)) k" "intervention_send (re_net env) (re_encode env) x k = Some (r, k')"
    by (simp_all add: only_when_def split: if_splits)
  show ?thesis
  proof (cases snk)
    case (File_sink out)
    with o k show ?thesis by (auto simp: of_kind_def cmd_text_def intervention_send_def sink_out_def)
  next
    case (Socket_sink c h u)
    with o k have "socket_send (re_net env) (re_encode env x) (Socket_sink c h u) ns = Some (r, k')" "cmd_text env = re_encode env"
      by (simp_all add: of_kind_def cmd_text_def intervention_send_def)
    with socket_send_out [OF assms(1) _ this(1)] assms(2) k Socket_sink show ?thesis
      by (auto simp: cereal_ok_def split: sum.split)
  qed
qed

lemma only_kind_reliable:
  assumes "datagram_net (re_net env)" "cereal_ok (re_encode env)"
  shows "reliable_sink (only_when (of_kind (rc_intervention_kind (re_cfg env))) (intervention_send (re_net env) (re_encode env)))
     sink_out (\<lambda>y x. y = cmd_text env x)"
  by unfold_locales (auto dest: only_kind_cases [OF assms])

subsection \<open>The invariant\<close>

definition it_books :: "research_env \<Rightarrow> label list \<Rightarrow> research_state \<Rightarrow> bool" where
  "it_books env tr s =
     ((g_interventiont s = Thread_dead \<longrightarrow> g_errors s \<noteq> [])
      \<and> (case g_sink s of
           None \<Rightarrow> g_interventions s = pushed tr s \<and> g_resend s = resend_init \<and> g_interventiont s \<noteq> Thread_done
         | Some k \<Rightarrow>
             \<exists>k0 inps. fresh_sink env k0
               \<and> resend_run (intervention_send (re_net env) (re_encode env)) it_kill to_cmd inps resend_init k0 = Some (g_resend s, k)
               \<and> List.map_filter id inps @ g_interventions s = pushed tr s
               \<and> (rt_stopped (g_resend s) \<longleftrightarrow> (\<exists>i \<in> set (List.map_filter id inps). it_kill i))
               \<and> (rt_stopped (g_resend s) \<longleftrightarrow> g_interventiont s = Thread_done)))"

lemma it_books_cong:
  assumes "it_books env tr s" "pushed tr' s' = pushed tr s" "g_interventions s' = g_interventions s" "g_resend s' = g_resend s"
    and "g_sink s' = g_sink s" "g_interventiont s' = g_interventiont s" "g_errors s \<noteq> [] \<longrightarrow> g_errors s' \<noteq> []"
  shows "it_books env tr' s'"
  using assms(1,7) unfolding it_books_def assms(2-6) by blast

lemma it_books_same:
  "it_books env tr s \<Longrightarrow> requested ls = [] \<Longrightarrow> g_interventions s' = g_interventions s \<Longrightarrow> g_resend s' = g_resend s \<Longrightarrow>
   g_sink s' = g_sink s \<Longrightarrow> g_interventiont s' = g_interventiont s \<Longrightarrow>
   (g_processing s' = Thread_done \<longleftrightarrow> g_processing s = Thread_done) \<Longrightarrow> (g_errors s \<noteq> [] \<longrightarrow> g_errors s' \<noteq> []) \<Longrightarrow>
   it_books env (tr @ ls) s'"
  by (rule it_books_cong) (simp_all add: pushed_def)

text \<open>Elements pushed at the end of the queue.\<close>

lemma it_books_push:
  assumes "it_books env tr s" "g_interventions s' = g_interventions s @ xs" "pushed (tr @ ls) s' = pushed tr s @ xs"
    and "g_resend s' = g_resend s" "g_sink s' = g_sink s" "g_interventiont s' = g_interventiont s"
    and "g_errors s \<noteq> [] \<longrightarrow> g_errors s' \<noteq> []"
  shows "it_books env (tr @ ls) s'"
proof -
  have e: "m @ g_interventions s' = pushed (tr @ ls) s' \<longleftrightarrow> m @ g_interventions s = pushed tr s" for m
    unfolding assms(2,3) by (simp flip: append_assoc)
  from e [of "[]"] have e0: "g_interventions s' = pushed (tr @ ls) s' \<longleftrightarrow> g_interventions s = pushed tr s" by simp
  from assms(1,7) show ?thesis unfolding it_books_def e e0 assms(4-6) by blast
qed

lemma processing_turn_books:
  assumes "processing_turn env now s = Some (ls, s')" "g_processing s = Thread_running" "it_books env tr s"
  shows "it_books env (tr @ ls) s'"
  using assms(1)
proof (cases rule: processing_turn_cases)
  case (kill se q)
  with assms(2) show ?thesis by (intro it_books_push [OF assms(3), where xs = "[stop_intervention]"]) (simp_all add: pushed_def)
next
  case (throws se q err)
  with assms(2) show ?thesis by (intro it_books_same [OF assms(3)]) simp_all
next
  case (alert se q e states)
  with assms(2) show ?thesis by (intro it_books_push [OF assms(3), where xs = "event_interventions e"]) (simp_all add: pushed_def)
next
  case (quiet se q e states)
  with assms(2) show ?thesis by (intro it_books_same [OF assms(3)]) simp_all
qed

lemma input_turn_books:
  "input_turn env answer s = (ls, s') \<Longrightarrow> it_books env tr s \<Longrightarrow> it_books env (tr @ ls) s'"
  by (erule it_books_same)
    (auto simp: input_turn_def Let_def split: input_pc.splits recv_result.splits option.splits)

lemma state_turn_books:
  "state_turn env now s = (ls, s') \<Longrightarrow> it_books env tr s \<Longrightarrow> it_books env (tr @ ls) s'"
  by (erule it_books_same) (auto simp: state_turn_def Let_def split: prod.splits)

lemma output_turn_books:
  "output_turn env now s = Some (ls, s') \<Longrightarrow> it_books env tr s \<Longrightarrow> it_books env (tr @ ls) s'"
  by (erule it_books_same) (auto simp: output_turn_def Let_def split: option.splits if_splits)

lemma intervention_turn_books:
  assumes "intervention_turn env k s = Some s'" "g_sink s = Some k" "g_interventiont s = Thread_running" "it_books env tr s"
  shows "it_books env tr s'"
proof -
  let ?send = "intervention_send (re_net env) (re_encode env)"
  obtain inp q where q: "bq_take_for (g_interventions s) [] = (inp, q)" by (cases "bq_take_for (g_interventions s) []")
  with assms(1) obtain rt k' where st: "resend_step ?send it_kill to_cmd inp (g_resend s) k = Some (rt, k')"
    and s': "s' = s\<lparr>g_interventions := q, g_resend := rt, g_sink := Some k',
         g_interventiont := (if rt_stopped rt then Thread_done else Thread_running)\<rparr>"
    by (auto simp: intervention_turn_def bind_eq_Some_conv)
  from assms(2-4) obtain k0 inps where f: "fresh_sink env k0"
    and r: "resend_run ?send it_kill to_cmd inps resend_init k0 = Some (g_resend s, k)"
    and p: "List.map_filter id inps @ g_interventions s = pushed tr s" and n: "\<not> rt_stopped (g_resend s)"
    and kl: "\<forall>i \<in> set (List.map_filter id inps). \<not> it_kill i"
    by (auto simp: it_books_def)
  have g: "List.map_filter id [inp] @ q = g_interventions s"
    using q by (cases "g_interventions s") (auto simp: bq_take_for_def List.map_filter_simps)
  have a: "List.map_filter id (inps @ [inp]) = List.map_filter id inps @ List.map_filter id [inp]"
    by (simp add: List.map_filter_def)
  have "List.map_filter id (inps @ [inp]) @ q = pushed tr s" using p g unfolding a by simp
  moreover have "resend_run ?send it_kill to_cmd (inps @ [inp]) resend_init k0 = Some (rt, k')"
    using resend_run_snoc [OF r n] st by simp
  moreover have "rt_stopped rt \<longleftrightarrow> (\<exists>i \<in> set (List.map_filter id (inps @ [inp])). it_kill i)"
    using resend_step_stopped [OF st] n kl unfolding a by (cases inp) (auto simp: List.map_filter_simps)
  ultimately have "\<exists>k0 inps. fresh_sink env k0
      \<and> resend_run ?send it_kill to_cmd inps resend_init k0 = Some (rt, k') \<and> List.map_filter id inps @ q = pushed tr s
      \<and> (rt_stopped rt \<longleftrightarrow> (\<exists>i \<in> set (List.map_filter id inps). it_kill i))" using f by blast
  moreover have "pushed tr s' = pushed tr s" by (simp add: s' pushed_def)
  ultimately show ?thesis unfolding it_books_def
    by (cases "rt_stopped rt") (simp_all add: s' del: split_paired_Ex)
qed

lemma intervention_start_books:
  assumes "g_sink s = None" "g_interventiont s = Thread_running" "it_books env tr s"
  shows "it_books env tr (intervention_start env opened ns s)"
proof -
  let ?c = "create_sink (re_net env) opened [] (rc_intervention_path (re_cfg env)) (rc_intervention_kind (re_cfg env)) False ns"
  obtain r ns' where c: "?c = (r, ns')" by (cases ?c)
  from assms have b: "g_interventions s = pushed tr s" "g_resend s = resend_init" by (auto simp: it_books_def)
  show ?thesis
  proof (cases r)
    case (Inl e)
    with assms b c show ?thesis by (simp add: it_books_def intervention_start_def pushed_def)
  next
    case (Inr snk)
    with c have "fresh_sink env (snk, ns')" unfolding fresh_sink_def by auto
    moreover have "resend_run (intervention_send (re_net env) (re_encode env)) it_kill to_cmd [] resend_init (snk, ns')
        = Some (resend_init, (snk, ns'))" by simp
    moreover have "List.map_filter id ([] :: intervention_t option list) = []" by (simp add: List.map_filter_simps)
    moreover have n: "\<not> rt_stopped (resend_init :: intervention_cmd resend)" by (simp add: resend_init_def)
    ultimately have "\<exists>k0 inps. fresh_sink env k0
        \<and> resend_run (intervention_send (re_net env) (re_encode env)) it_kill to_cmd inps resend_init k0 = Some (resend_init, (snk, ns'))
        \<and> List.map_filter id inps @ g_interventions s = pushed tr s
        \<and> (rt_stopped (resend_init :: intervention_cmd resend) \<longleftrightarrow> (\<exists>i \<in> set (List.map_filter id inps). it_kill i))"
      using b(1) by (intro exI [of _ "(snk, ns')"] exI [of _ "[]"]) simp
    with assms b(2) c Inr n show ?thesis by (simp add: it_books_def intervention_start_def pushed_def)
  qed
qed

lemma research_step_books: "research_step env s ls s' \<Longrightarrow> it_books env tr s \<Longrightarrow> it_books env (tr @ ls) s'"
proof (induction rule: research_step.induct)
  case (Input_turns s answer ls s')
  then show ?case by (blast intro: input_turn_books)
next
  case (Processing_turns s now ls s')
  then show ?case by (blast intro: processing_turn_books)
next
  case (Processing_throws s now se s' states)
  from processing_turn_books [OF Processing_throws(2,1,5)] have "it_books env (tr @ [Classified se]) s'" .
  from it_books_same [OF this, of "[]" "s'\<lparr>g_rules := states\<rparr>"] show ?case by simp
next
  case (State_turns s now ls s')
  then show ?case by (blast intro: state_turn_books)
next
  case (Output_turns s now ls s')
  then show ?case by (blast intro: output_turn_books)
next
  case (Intervention_starts s opened ns)
  then show ?case by (simp add: intervention_start_books)
next
  case (Intervention_turns s k s')
  then show ?case by (simp add: intervention_turn_books)
next
  case (Input_opens s a b)
  show ?case by (rule it_books_same [OF Input_opens(2)]) (auto simp: input_open_def)
next
  case (Main_starts s se now host)
  show ?case by (rule it_books_same [OF Main_starts(3)]) simp_all
qed (erule it_books_cong; simp add: pushed_def)+

lemma run_books: "research_run env tr s \<Longrightarrow> it_books env tr s"
proof (induction rule: research_run.induct)
  case run_start
  show ?case by (simp add: it_books_def pushed_def research_init_def)
next
  case (run_step tr s ls s')
  then show ?case by (blast intro: research_step_books)
qed

subsection \<open>When the daemon returned\<close>

lemma returned_requests:
  assumes "research_run env tr s" "g_main s = Main_returned" "g_errors s = []"
  obtains k k0 inps where "g_sink s = Some k" "fresh_sink env k0"
    "resend_run (intervention_send (re_net env) (re_encode env)) it_kill to_cmd inps resend_init k0 = Some (g_resend s, k)"
    "accepted it_kill to_cmd inps = map to_cmd (requested tr)"
proof -
  have b: "it_books env tr s" by (rule run_books [OF assms(1)])
  have "thread_stopped 4 s" using run_joined [OF assms(1)] assms(2) by (simp add: joined_def)
  then have "g_interventiont s \<noteq> Thread_running" by (simp add: thread_stopped_def)
  with b assms(3) have d: "g_interventiont s = Thread_done" by (cases "g_interventiont s") (auto simp: it_books_def)
  with b obtain k where k: "g_sink s = Some k" by (auto simp: it_books_def split: option.splits)
  with b d obtain k0 inps where f: "fresh_sink env k0"
    and r: "resend_run (intervention_send (re_net env) (re_encode env)) it_kill to_cmd inps resend_init k0 = Some (g_resend s, k)"
    and p: "List.map_filter id inps @ g_interventions s = pushed tr s" and i: "\<exists>i \<in> set (List.map_filter id inps). it_kill i"
    by (auto simp: it_books_def simp del: split_paired_Ex)
  let ?taken = "List.map_filter id inps"
  from i p obtain i where "i \<in> set (pushed tr s)" "it_kill i" by (metis Un_iff set_append)
  then have pu: "pushed tr s = requested tr @ [stop_intervention]"
    using requested_no_kill [of i tr] by (auto simp: pushed_def split: if_splits)
  have "?taken = requested tr @ [stop_intervention]"
  proof (cases "g_interventions s" rule: rev_cases)
    case Nil
    with p pu show ?thesis by simp
  next
    case (snoc rest x)
    with p pu have "requested tr = ?taken @ rest" by simp
    with i requested_no_kill [of _ tr] show ?thesis by auto
  qed
  moreover have "takeWhile (\<lambda>x. \<not> it_kill x) (requested tr @ [stop_intervention]) = requested tr"
    using requested_no_kill [of _ tr] by (simp add: takeWhile_append stop_intervention_def)
  ultimately have "accepted it_kill to_cmd inps = map to_cmd (requested tr)" by (simp add: accepted_takeWhile)
  with that k f r show thesis by blast
qed

lemma list_all2_equals: "list_all2 (\<lambda>y x. y = f x) ys xs \<longleftrightarrow> ys = map f xs"
  by (induction ys arbitrary: xs) (auto simp: list_all2_Cons1)

lemma requests_accounted:
  assumes "research_run env tr s" "g_main s = Main_returned" "g_errors s = []"
    and "datagram_net (re_net env)" "cereal_ok (re_encode env)"
  obtains k k0 cmds where "g_sink s = Some k" "fresh_sink env k0" "sink_out k = sink_out k0 @ map (cmd_text env) cmds"
    "mset cmds + mset (rt_local (g_resend s)) = mset (map to_cmd (requested tr))"
proof -
  let ?send = "intervention_send (re_net env) (re_encode env)" and ?kind = "of_kind (rc_intervention_kind (re_cfg env))"
  note rel = only_kind_reliable [OF assms(4,5)]
  obtain k k0 inps where k: "g_sink s = Some k" "fresh_sink env k0"
    and r: "resend_run ?send it_kill to_cmd inps resend_init k0 = Some (g_resend s, k)"
    and a: "accepted it_kill to_cmd inps = map to_cmd (requested tr)"
    by (rule returned_requests [OF assms(1-3)])
  have "resend_run (only_when ?kind ?send) it_kill to_cmd inps resend_init k0 = Some (g_resend s, k)"
    unfolding resend_run_only_when [where P = ?kind and send = ?send, OF sending_keeps_kind fresh_sink_kind [OF k(2)]] by (rule r)
  from reliable_sink.resend_run_accounts [OF rel this] obtain cmds where
    p: "reliable_sink.put_out sink_out (\<lambda>y x. y = cmd_text env x) k0 k cmds" and m: "mset cmds + mset (rt_local (g_resend s)) = mset (accepted it_kill to_cmd inps)"
    by (auto simp: resend_init_def)
  from p have "sink_out k = sink_out k0 @ map (cmd_text env) cmds"
    by (auto simp: reliable_sink.put_out_def [OF rel] list_all2_equals)
  with that k m a show thesis by simp
qed

text \<open>
  Every intervention an alert asked for reaches the sink once. When the daemon returned without an error,
  whatever sendings failed, the commands of the interventions its alerts requested are, each once, the new
  lines of the file or the new datagrams of the socket, or still wait in the local queue.
\<close>

theorem research_requests_delivered:
  assumes "research_run env tr s" and "g_main s = Main_returned" and "g_errors s = []"
    and "datagram_net (re_net env)" and "cereal_ok (re_encode env)"
  shows "\<exists>k k0 cmds. g_sink s = Some k \<and> fresh_sink env k0 \<and> sink_out k = sink_out k0 @ map (cmd_text env) cmds
     \<and> mset cmds + mset (rt_local (g_resend s)) = mset (map to_cmd (requested tr))"
  using requests_accounted [OF assms] by metis

text \<open>A regular expression library with one group, the whole text; and a rule that asks for an intervention on it.\<close>

definition whole_rx :: regex_lib where
  "whole_rx = \<lparr>rx_valid = (\<lambda>p. True), rx_marks = (\<lambda>p. 1), rx_search = (\<lambda>p s. Some [s]), rx_match = (\<lambda>p s. Some [s])\<rparr>"

definition block_rule :: rule where
  "block_rule =
     Rule (default_rule\<lparr>r_id := 9, r_priority := 5, r_trigger_group := ''!ALWAYS'', r_reg := Some ''(.*)'', r_regex_fields := [''ip''],
       r_interventions := [\<lparr>ir_name = ''block'', ir_field = ''ip'', ir_ignore_empty_field = False\<rparr>]\<rparr>) []"

text \<open>The archive of a command: the name and the argument behind it.\<close>

definition demo_encode :: "intervention_cmd \<Rightarrow> string" where
  "demo_encode c = ic_name c @ CHR ''|'' # ic_argument c"

definition demo_decode :: "string \<Rightarrow> intervention_cmd option" where
  "demo_decode d =
     (case dropWhile (\<lambda>x. x \<noteq> CHR ''|'') d of [] \<Rightarrow> None
      | b # arg \<Rightarrow> Some \<lparr>ic_name = takeWhile (\<lambda>x. x \<noteq> CHR ''|'') d, ic_argument = arg\<rparr>)"

definition block_env :: research_env where
  "block_env =
     (demo_env [block_rule])\<lparr>re_cfg := default_research_config\<lparr>rc_mail := False, rc_intervention_kind := Output_socket,
         rc_input_path := ''s'', rc_intervention_path := ''t''\<rparr>,
       re_rx := whole_rx, re_encode := demo_encode, re_net := ready_net\<rparr>"

definition block_schedule :: "choice list" where
  "block_schedule =
     [Do_intervention_start True \<lparr>ns_tick = 0, ns_wire = [''old''], ns_closed = []\<rparr>, Do_start 0 ''h'', Do_open True True,
      Do_process 1, Do_intervention, Do_output 2, Do_wake, Do_input Recv_error, Do_input Recv_error,
      Do_process 3, Do_state_stop, Do_output 4,
      Do_intervention, Do_join, Do_join, Do_join, Do_join, Do_join, Do_join, Do_return]"

declare us_send.simps [code] sendall.simps [code]

lemma block_closes:
  "map_option (\<lambda>(tr, s). (g_main s, g_errors s, map to_cmd (requested tr), map_option sink_out (g_sink s), rt_local (g_resend s)))
     (research_execs block_env block_schedule ([], research_init block_env))
   = Some (Main_returned, [], [\<lparr>ic_name = ''block'', ic_argument = ''ctguard-research started''\<rparr>],
       Some [''old'', ''block|ctguard-research started''], [])"
  by code_simp

lemma block_run:
  obtains tr s where "research_run block_env tr s" "g_main s = Main_returned" "g_errors s = []"
    "map to_cmd (requested tr) = [\<lparr>ic_name = ''block'', ic_argument = ''ctguard-research started''\<rparr>]" "rt_local (g_resend s) = []"
    "map_option sink_out (g_sink s) = Some [''old'', ''block|ctguard-research started'']"
proof -
  from block_closes obtain tr s where
    e: "research_execs block_env block_schedule ([], research_init block_env) = Some (tr, s)"
    "g_main s = Main_returned" "g_errors s = []"
    "map to_cmd (requested tr) = [\<lparr>ic_name = ''block'', ic_argument = ''ctguard-research started''\<rparr>]" "rt_local (g_resend s) = []"
    "map_option sink_out (g_sink s) = Some [''old'', ''block|ctguard-research started'']"
    by (auto simp del: map_eq_Cons_conv)
  from that [OF research_execs_run [OF e(1) run_start] e(2-6)] show thesis .
qed

lemma block_env_net: "datagram_net (re_net block_env)" "cereal_ok (re_encode block_env)"
  by (simp_all add: block_env_def cereal_ok_def demo_encode_def)

theorem research_requests_delivered_witness:
  "\<exists>tr s k old. research_run block_env tr s \<and> g_sink s = Some k
     \<and> sink_out k = old @ [''block|ctguard-research started'']"
proof -
  obtain tr s where r: "research_run block_env tr s" "g_main s = Main_returned" "g_errors s = []"
    "map to_cmd (requested tr) = [\<lparr>ic_name = ''block'', ic_argument = ''ctguard-research started''\<rparr>]" "rt_local (g_resend s) = []"
    by (rule block_run)
  from research_requests_delivered [OF r(1-3) block_env_net] obtain k k0 cmds where
    k: "g_sink s = Some k" "sink_out k = sink_out k0 @ map (cmd_text block_env) cmds" "mset cmds + mset (rt_local (g_resend s)) = mset (map to_cmd (requested tr))"
    by blast
  from k(3) r(4,5) have "cmds = [\<lparr>ic_name = ''block'', ic_argument = ''ctguard-research started''\<rparr>]" by simp
  moreover have "cmd_text block_env = demo_encode" by (simp add: cmd_text_def block_env_def)
  ultimately have "sink_out k = sink_out k0 @ [''block|ctguard-research started'']" using k(2) by (simp add: demo_encode_def)
  with k(1) r(1) show ?thesis by blast
qed

end
