(* ===== verification/Research_Liveness.thy ===== *)
theory Research_Liveness
  imports Research_Interventions
begin

text \<open>
  The shutdown of ctguard-research: as long as its classifying thread lives, which safe rules guarantee, the daemon
  can always go on until it returned. With \<open>research_hangs_after_exception\<close> this is the exact condition.
\<close>

subsection \<open>What the shutdown relies on\<close>

definition safe_env :: "research_env \<Rightarrow> bool" where
  "safe_env env =
     (rx_lawful (re_rx env) \<and> (\<forall>f \<in> set (cfg_formats (re_rules env)). format_safe (re_rx env) f)
      \<and> (\<forall>r \<in> set (std_rules (re_rules env)) \<union> set (group_rules (re_rules env)). rule_safe (re_rx env) None r))"

definition stop_inv :: "label list \<Rightarrow> research_state \<Rightarrow> bool" where
  "stop_inv tr s =
     ((g_main s \<noteq> Main_start \<and> g_main s \<noteq> Main_wait \<longrightarrow> \<not> g_running s)
      \<and> (\<forall>n. g_main s = Main_join n \<longrightarrow> n \<le> 6)
      \<and> (g_input_pc s = In_done \<longrightarrow> kill_event \<in> set (received tr))
      \<and> (g_processing s = Thread_running \<longrightarrow> (\<forall>se \<in> set (classified tr). \<not> se_is_kill se)))"

lemma stop_inv_cong:
  "stop_inv tr s \<Longrightarrow> g_main s' = g_main s \<Longrightarrow> g_running s' = g_running s \<Longrightarrow> g_input_pc s' = g_input_pc s \<Longrightarrow>
   g_processing s' = g_processing s \<Longrightarrow> classified ls = [] \<Longrightarrow> stop_inv (tr @ ls) s'"
  by (auto simp: stop_inv_def)

lemma kill_event_kills [simp]: "se_is_kill kill_event"
  by (simp add: kill_event_def se_is_kill_def)

lemma stop_step: "research_step env s ls s' \<Longrightarrow> stop_inv tr s \<Longrightarrow> stop_inv (tr @ ls) s'"
proof (induction rule: research_step.induct)
  case (Input_turns s answer ls s')
  from input_turn_frame [OF Input_turns(2)] input_turn_labels [OF Input_turns(2)] have
    f: "g_main s' = g_main s" "g_running s' = g_running s" "g_processing s' = g_processing s" "classified ls = []" by auto
  have "g_input_pc s' = In_done \<longrightarrow> kill_event \<in> set (received ls)"
    using Input_turns(1,2) by (auto simp: input_turn_def Let_def stream_defs split: recv_result.splits option.splits if_splits)
  with f Input_turns(3) show ?case by (auto simp: stop_inv_def)
next
  case (Processing_turns s now ls s')
  from processing_turn_frame [OF Processing_turns(2)] processing_turn_input [OF Processing_turns(2)] have
    f: "g_main s' = g_main s" "g_running s' = g_running s" "g_input_pc s' = g_input_pc s" by auto
  from Processing_turns.hyps(2) have "g_processing s' = Thread_running \<longrightarrow> (\<forall>se \<in> set (classified ls). \<not> se_is_kill se)"
    by (cases rule: processing_turn_cases) (use Processing_turns(1) in \<open>auto simp: stream_defs\<close>)
  with f Processing_turns(1,4) show ?case by (auto simp: stop_inv_def)
next
  case (Processing_throws s now se s' states)
  from processing_turn_frame [OF Processing_throws(2)] Processing_throws show ?case by (auto simp: stop_inv_def)
next
  case (State_turns s now ls s')
  then have "classified ls = []" by (auto simp: state_turn_def Let_def split: prod.splits)
  with state_turn_frame [OF State_turns(2)] State_turns show ?case by (auto intro: stop_inv_cong)
next
  case (Output_turns s now ls s')
  from output_turn_frame [OF Output_turns(2)] Output_turns show ?case by (auto intro: stop_inv_cong)
next
  case (Intervention_turns s k s')
  from intervention_turn_frame [OF Intervention_turns(3)] Intervention_turns show ?case by (simp add: stop_inv_def)
next
  case (Input_opens s a b)
  then show ?case by (auto simp: stop_inv_def input_open_def)
next
  case (Main_starts s se now host)
  then show ?case by (auto simp: stop_inv_def stream_defs)
qed (auto simp: stop_inv_def intervention_start_frame)

lemma run_stop: "research_run env tr s \<Longrightarrow> stop_inv tr s"
proof (induction rule: research_run.induct)
  case run_start
  show ?case by (simp add: stop_inv_def research_init_def)
next
  case (run_step tr s ls s')
  then show ?case by (blast intro: stop_step)
qed

subsection \<open>To return\<close>

definition rs_returns :: "research_env \<Rightarrow> label list \<Rightarrow> bool" where
  "rs_returns env tr = (\<exists>ls s'. research_run env (tr @ ls) s' \<and> g_main s' = Main_returned)"

lemma rs_returns_step:
  assumes "research_run env tr s" "research_step env s ls s'" "research_run env (tr @ ls) s' \<Longrightarrow> rs_returns env (tr @ ls)"
  shows "rs_returns env tr"
proof -
  from run_step [OF assms(1,2)] assms(3) have "rs_returns env (tr @ ls)" by blast
  then show ?thesis by (auto simp: rs_returns_def)
qed

text \<open>The join of thread \<open>n\<close>, when it stopped.\<close>

lemma rs_join:
  assumes "research_run env tr s" "g_main s = Main_join n" "n < 6" "thread_stopped n s"
    and "\<And>tr s. research_run env tr s \<Longrightarrow> g_main s = Main_join (Suc n) \<Longrightarrow> rs_returns env tr"
  shows "rs_returns env tr"
  by (rule rs_returns_step [OF assms(1) Main_joins [OF assms(2-4)]]) (erule assms(5), simp)

lemma returns_joined:
  assumes "research_run env tr s" "g_main s = Main_join 6"
  shows "rs_returns env tr"
proof (rule rs_returns_step [OF assms(1) Main_returns [OF assms(2)]])
  assume "research_run env (tr @ []) (s\<lparr>g_main := Main_returned\<rparr>)"
  then show "rs_returns env (tr @ [])" unfolding rs_returns_def by (intro exI [of _ "[]"]) auto
qed

lemma returns_mail:
  assumes "research_run env tr s" "g_main s = Main_join 5"
  shows "rs_returns env tr"
proof -
  have j: "rs_returns env tr" if "research_run env tr s" "g_main s = Main_join 5" "g_mailt s \<noteq> Thread_running" for tr s
    by (rule rs_join [OF that(1,2)]) (use that(3) returns_joined in \<open>auto simp: thread_stopped_def\<close>)
  show ?thesis
  proof (cases "g_mailt s = Thread_running")
    case True
    have "\<not> g_running s" using run_stop [OF assms(1)] assms(2) by (simp add: stop_inv_def)
    obtain sent m st where "mail_finish (re_smtp env) (re_cfg env) (g_mail s) (g_smtp s) = (sent, m, st)"
      by (cases "mail_finish (re_smtp env) (re_cfg env) (g_mail s) (g_smtp s)")
    from rs_returns_step [OF assms(1) Mail_stops [OF True \<open>\<not> g_running s\<close> this]] j assms(2) show ?thesis by simp
  qed (use j assms in blast)
qed

lemma returns_intervention:
  assumes "\<forall>x k. intervention_send (re_net env) (re_encode env) x k \<noteq> None"
    and "research_run env tr s" "g_main s = Main_join 4" "g_processing s = Thread_done"
  shows "rs_returns env tr"
proof -
  have j: "rs_returns env tr" if "research_run env tr s" "g_main s = Main_join 4" "g_interventiont s \<noteq> Thread_running" for tr s
    by (rule rs_join [OF that(1,2)]) (use that(3) returns_mail in \<open>auto simp: thread_stopped_def\<close>)
  have l: "rs_returns env tr" if "research_run env tr s" "g_main s = Main_join 4" "g_processing s = Thread_done" "g_sink s \<noteq> None" for tr s
    using that
  proof (induction "length (g_interventions s)" arbitrary: tr s rule: less_induct)
    case less
    show ?case
    proof (cases "g_interventiont s = Thread_running")
      case True
      obtain k where k: "g_sink s = Some k" using less.prems(4) by blast
      have b: "it_books env tr s" by (rule run_books [OF less.prems(1)])
      from b k True obtain inps where p: "List.map_filter id inps @ g_interventions s = pushed tr s"
        and n: "\<forall>i \<in> set (List.map_filter id inps). \<not> it_kill i"
        unfolding it_books_def by (auto simp del: split_paired_Ex)
      have "stop_intervention \<in> set (pushed tr s)" "it_kill stop_intervention"
        using less.prems(3) by (simp_all add: pushed_def stop_intervention_def)
      with p n have "g_interventions s \<noteq> []" by (metis append_Nil2)
      then obtain i q where q: "g_interventions s = i # q" by (cases "g_interventions s") auto
      from resend_step_total [of "intervention_send (re_net env) (re_encode env)" it_kill to_cmd "Some i" "g_resend s" k] assms(1)
      obtain rt k' where "resend_step (intervention_send (re_net env) (re_encode env)) it_kill to_cmd (Some i) (g_resend s) k = Some (rt, k')"
        by auto
      with q obtain s' where t: "intervention_turn env k s = Some s'" and s': "g_interventions s' = q" "g_sink s' \<noteq> None"
        by (auto simp: intervention_turn_def bq_take_for_def)
      from intervention_turn_frame [OF t] less.prems(2,3) have "g_main s' = Main_join 4" "g_processing s' = Thread_done" by auto
      with rs_returns_step [OF less.prems(1) Intervention_turns [OF True k t]] less.hyps [of s'] q s' show ?thesis by simp
    qed (use j less.prems in blast)
  qed
  show ?thesis
  proof (cases "g_interventiont s = Thread_running \<and> g_sink s = None")
    case True
    let ?s = "intervention_start env True \<lparr>ns_tick = 0, ns_wire = [], ns_closed = []\<rparr> s"
    have "g_interventiont ?s = Thread_dead \<or> g_sink ?s \<noteq> None" by (auto simp: intervention_start_def split: prod.splits sum.splits)
    then show ?thesis
      using rs_returns_step [OF assms(2) Intervention_starts, of True "\<lparr>ns_tick = 0, ns_wire = [], ns_closed = []\<rparr>"] True assms(3,4) j l
      by (auto simp: intervention_start_frame)
  qed (use assms j l in blast)
qed

lemma rs_output:
  assumes "\<forall>x k. intervention_send (re_net env) (re_encode env) x k \<noteq> None"
    and "research_run env tr s" "g_main s = Main_join 3" "g_processing s = Thread_done"
  shows "rs_returns env tr"
  using assms(2-4)
proof (induction "length (g_alerts s)" arbitrary: tr s rule: less_induct)
  case less
  show ?case
  proof (cases "g_outputt s = Thread_running")
    case True
    from run_orders [OF less.prems(1)] less.prems(3) have "closed_by_mark (filter is_alert tr)" by (auto simp: alert_order_def)
    then obtain pre c late where f: "filter is_alert tr = pre @ Closing c # late" and "ev_is_kill c" by (auto simp: closed_by_mark_def)
    from f have "Closing c \<in> set (filter is_alert tr)" by simp
    then have "Closing c \<in> set tr" by simp
    then have "c \<in> set (queued tr)" by (force simp: queued_def)
    with run_pipeline [OF less.prems(1)] True \<open>ev_is_kill c\<close> have "c \<in> set (g_alerts s)" by auto
    then obtain e q where q: "g_alerts s = e # q" by (cases "g_alerts s") auto
    then obtain ls s' where t: "output_turn env 0 s = Some (ls, s')" and s': "g_alerts s' = q"
      by (cases "ev_is_kill e") (auto simp: output_turn_def bq_take_def Let_def)
    from output_turn_frame [OF t] less.prems(2,3) have "g_main s' = Main_join 3" "g_processing s' = Thread_done" by auto
    with rs_returns_step [OF less.prems(1) Output_turns [OF True t]] less.hyps [of s'] q s' show ?thesis by simp
  next
    case False
    show ?thesis
    proof (rule rs_returns_step [OF less.prems(1) Main_joins [OF less.prems(2)]])
      show "thread_stopped 3 s" using False by (simp add: thread_stopped_def)
    next
      assume "research_run env (tr @ []) (s\<lparr>g_main := Main_join (Suc 3)\<rparr>)"
      then show "rs_returns env (tr @ [])" by (rule returns_intervention [OF assms(1)]) (use less.prems in simp_all)
    qed simp
  qed
qed

lemma returns_state:
  assumes "\<forall>x k. intervention_send (re_net env) (re_encode env) x k \<noteq> None"
    and "research_run env tr s" "g_main s = Main_join 2" "g_processing s = Thread_done"
  shows "rs_returns env tr"
proof -
  have j: "rs_returns env tr" if "research_run env tr s" "g_main s = Main_join 2" "g_processing s = Thread_done" "g_statet s \<noteq> Thread_running" for tr s
  proof (rule rs_returns_step [OF that(1) Main_joins [OF that(2)]])
    show "thread_stopped 2 s" using that(4) by (simp add: thread_stopped_def)
  next
    assume "research_run env (tr @ []) (s\<lparr>g_main := Main_join (Suc 2)\<rparr>)"
    then show "rs_returns env (tr @ [])" by (rule rs_output [OF assms(1)]) (use that in simp_all)
  qed simp
  show ?thesis
  proof (cases "g_statet s = Thread_running")
    case True
    have "\<not> g_running s" using run_stop [OF assms(2)] assms(3) by (simp add: stop_inv_def)
    from rs_returns_step [OF assms(2) State_stops [OF True this]] j assms(3,4) show ?thesis by simp
  qed (use j assms in blast)
qed

lemma rs_processing:
  assumes "safe_env env" "\<forall>x k. intervention_send (re_net env) (re_encode env) x k \<noteq> None"
    and "research_run env tr s" "g_main s = Main_join 1"
  shows "rs_returns env tr"
  using assms(3,4)
proof (induction "length (g_input s)" arbitrary: tr s rule: less_induct)
  case less
  have nd: "g_processing s \<noteq> Thread_dead" if "research_run env tr s" for tr s
    by (rule safe_rules_never_die [OF that]) (use assms(1) in \<open>simp_all add: safe_env_def\<close>)
  show ?case
  proof (cases "g_processing s = Thread_running")
    case True
    have "thread_stopped 0 s" using run_joined [OF less.prems(1)] less.prems(2) by (simp add: joined_def)
    with run_stop [OF less.prems(1)] True have "kill_event \<in> set (received tr)" "kill_event \<notin> set (classified tr)"
      by (auto simp: thread_stopped_def stop_inv_def)
    with run_pipeline [OF less.prems(1)] have "g_input s \<noteq> []" by auto
    then have "processing_turn env 0 s \<noteq> None"
      by (auto simp: processing_turn_def bq_take_def Let_def split: list.split sum.split prod.split)
    then obtain ls s' where t: "processing_turn env 0 s = Some (ls, s')" by auto
    have r: "research_run env (tr @ ls) s'" by (rule run_step [OF less.prems(1) processing_turn_step [OF True t]])
    from t have l: "length (g_input s') < length (g_input s)" by (cases rule: processing_turn_cases) auto
    from processing_turn_frame [OF t] less.prems(2) have "g_main s' = Main_join 1" by simp
    from less.hyps [OF l r this] show ?thesis by (auto simp: rs_returns_def)
  next
    case False
    with nd [OF less.prems(1)] have d: "g_processing s = Thread_done" by (cases "g_processing s") auto
    show ?thesis
    proof (rule rs_returns_step [OF less.prems(1) Main_joins [OF less.prems(2)]])
      show "thread_stopped 1 s" using d by (simp add: thread_stopped_def)
    next
      assume "research_run env (tr @ []) (s\<lparr>g_main := Main_join (Suc 1)\<rparr>)"
      then show "rs_returns env (tr @ [])" by (rule returns_state [OF assms(2)]) (use d in \<open>simp_all add: numeral_2_eq_2\<close>)
    qed simp
  qed
qed

lemma rs_input:
  assumes "safe_env env" "\<forall>x k. intervention_send (re_net env) (re_encode env) x k \<noteq> None"
    and "research_run env tr s" "g_main s = Main_join 0"
  shows "rs_returns env tr"
proof -
  have d: "rs_returns env tr" if "research_run env tr s" "g_main s = Main_join 0" "g_input_pc s = In_done" for tr s
    by (rule rs_join [OF that(1,2)]) (use that(3) rs_processing [OF assms(1,2)] in \<open>auto simp: thread_stopped_def\<close>)
  have k: "rs_returns env tr" if "research_run env tr s" "g_main s = Main_join 0" "g_input_pc s = In_kill" for tr s
  proof -
    obtain ls s' where t: "input_turn env Recv_error s = (ls, s')" by fastforce
    with that(3) have "g_input_pc s' = In_done" by (auto simp: input_turn_def)
    with rs_returns_step [OF that(1) Input_turns [OF _ t]] d input_turn_frame [OF t] that(2,3) show ?thesis by simp
  qed
  have c: "rs_returns env tr" if "research_run env tr s" "g_main s = Main_join 0" "g_input_pc s = In_check" for tr s
  proof -
    obtain ls s' where t: "input_turn env Recv_error s = (ls, s')" by fastforce
    have "\<not> g_running s" using run_stop [OF that(1)] that(2) by (simp add: stop_inv_def)
    with that(3) t have "g_input_pc s' = In_kill" by (auto simp: input_turn_def)
    with rs_returns_step [OF that(1) Input_turns [OF _ t]] k input_turn_frame [OF t] that(2,3) show ?thesis by simp
  qed
  show ?thesis
  proof (cases "g_input_pc s")
    case In_start
    let ?s = "input_open env True True s"
    have "g_input_pc ?s \<in> {In_check, In_kill}" by (simp add: input_open_def)
    with rs_returns_step [OF assms(3) Input_opens [OF In_start]] c k assms(4) show ?thesis
      by (metis input_open_frame(7) insertE singletonD)
  next
    case In_recv
    obtain ls s' where t: "input_turn env Recv_error s = (ls, s')" by fastforce
    with In_recv have "g_input_pc s' = In_check" by (auto simp: input_turn_def)
    with rs_returns_step [OF assms(3) Input_turns [OF _ t]] c input_turn_frame [OF t] assms(4) In_recv show ?thesis by simp
  qed (use assms c k d in auto)
qed

lemma safe_can_return:
  assumes "safe_env env" "\<forall>x k. intervention_send (re_net env) (re_encode env) x k \<noteq> None" "research_run env tr s"
  shows "rs_returns env tr"
proof -
  note ok = rs_input [OF assms(1,2)] rs_processing [OF assms(1,2)]
  have w: "rs_returns env tr" if "research_run env tr s" "g_main s = Main_wait" for tr s
    by (rule rs_returns_step [OF that(1) Main_wakes [OF that(2)]]) (erule ok(1), simp)
  show ?thesis
  proof (cases "g_main s")
    case Main_start
    show ?thesis by (rule rs_returns_step [OF assms(3) Main_starts [OF Main_start refl]]) (erule w, simp)
  next
    case (Main_join n)
    have pd: "g_processing s = Thread_done" if "1 < n"
    proof -
      have "thread_stopped 1 s" using run_joined [OF assms(3)] Main_join that by (simp add: joined_def)
      moreover have "g_processing s \<noteq> Thread_dead"
        by (rule safe_rules_never_die [OF assms(3)]) (use assms(1) in \<open>simp_all add: safe_env_def\<close>)
      ultimately show ?thesis by (cases "g_processing s") (auto simp: thread_stopped_def)
    qed
    from run_stop [OF assms(3)] Main_join have "n \<le> 6" by (simp add: stop_inv_def)
    then consider "n = 0" | "n = 1" | "n = 2" | "n = 3" | "n = 4" | "n = 5" | "n = 6" by linarith
    then show ?thesis
    proof cases
      case 3
      with pd Main_join returns_state [OF assms(2,3)] show ?thesis by simp
    next
      case 4
      with pd Main_join rs_output [OF assms(2,3)] show ?thesis by simp
    next
      case 5
      with pd Main_join returns_intervention [OF assms(2,3)] show ?thesis by simp
    qed (use ok assms(3) Main_join returns_mail returns_joined in auto)
  next
    case Main_returned
    with assms(3) show ?thesis unfolding rs_returns_def by (intro exI [of _ "[]"]) auto
  qed (use w assms(3) in blast)
qed

end
