(* ===== verification/File_Data.thy ===== *)
theory File_Data
  imports Ctguard_Prelude
begin

unbundle bit_operations_syntax

text \<open>
  src/src/diskscan/filedata.cpp and filedata.hpp: what ctguard-diskscan records of a file system object.
  The digest (\<open>sha2.c\<close>, which \<open>Sha256\<close> models and \<open>File_Digest\<close> puts in) and the unified diff (dtl) are third-party code
  and parameters, as are the answers of the system calls; the diff database is the map of the contents stored by path.
\<close>

subsection \<open>Types and modes\<close>

datatype file_type =
    Directory | Regular_file | Socket_file | Link | Block_device | Character_device | Fifo | Unknown_type

text \<open>The value of the enumerator, and back.\<close>

fun type_code :: "file_type \<Rightarrow> nat" where
  "type_code Directory = 0"
| "type_code Regular_file = 1"
| "type_code Socket_file = 2"
| "type_code Link = 3"
| "type_code Block_device = 4"
| "type_code Character_device = 5"
| "type_code Fifo = 6"
| "type_code Unknown_type = 7"

text \<open>The name \<open>operator<<\<close> prints for a value cast to the type; for other values it prints nothing.\<close>

definition type_name :: "nat \<Rightarrow> string" where
  "type_name t =
     (if t = 4 then ''block device'' else if t = 5 then ''character device'' else if t = 2 then ''socket''
      else if t = 0 then ''directory'' else if t = 6 then ''fifo/pipe'' else if t = 1 then ''regular file''
      else if t = 3 then ''symbolic link'' else if t = 7 then ''unknown object type'' else [])"

type_synonym mode = "32 word"

definition S_IFMT :: mode where "S_IFMT = 0xF000"
definition S_IFSOCK :: mode where "S_IFSOCK = 0xC000"
definition S_IFLNK :: mode where "S_IFLNK = 0xA000"
definition S_IFREG :: mode where "S_IFREG = 0x8000"
definition S_IFBLK :: mode where "S_IFBLK = 0x6000"
definition S_IFDIR :: mode where "S_IFDIR = 0x4000"
definition S_IFCHR :: mode where "S_IFCHR = 0x2000"
definition S_IFIFO :: mode where "S_IFIFO = 0x1000"

lemmas format_defs = S_IFMT_def S_IFSOCK_def S_IFLNK_def S_IFREG_def S_IFBLK_def S_IFDIR_def S_IFCHR_def S_IFIFO_def

definition mode_file_type :: "mode \<Rightarrow> file_type" where
  "mode_file_type m =
     (let f = m AND S_IFMT in
      if f = S_IFBLK then Block_device
      else if f = S_IFCHR then Character_device
      else if f = S_IFDIR then Directory
      else if f = S_IFIFO then Fifo
      else if f = S_IFLNK then Link
      else if f = S_IFREG then Regular_file
      else if f = S_IFSOCK then Socket_file
      else Unknown_type)"

definition mode_to_type :: "mode \<Rightarrow> char" where
  "mode_to_type m =
     (let f = m AND S_IFMT in
      if f = S_IFREG then CHR ''-''
      else if f = S_IFDIR then CHR ''d''
      else if f = S_IFBLK then CHR ''b''
      else if f = S_IFCHR then CHR ''c''
      else if f = S_IFIFO then CHR ''p''
      else if f = S_IFLNK then CHR ''l''
      else if f = S_IFSOCK then CHR ''s''
      else CHR ''?'')"

text \<open>\<open>m & bit\<close> for the permission bits, numbered from the lowest.\<close>

definition mode_bit :: "mode \<Rightarrow> nat \<Rightarrow> bool" where
  "mode_bit m i = (m AND push_bit i 1 \<noteq> 0)"

definition print_mode :: "mode \<Rightarrow> string" where
  "print_mode m =
     [mode_to_type m,
      if mode_bit m 8 then CHR ''r'' else CHR ''-'',
      if mode_bit m 7 then CHR ''w'' else CHR ''-'',
      if mode_bit m 11 then (if mode_bit m 6 then CHR ''s'' else CHR ''S'') else (if mode_bit m 6 then CHR ''x'' else CHR ''-''),
      if mode_bit m 5 then CHR ''r'' else CHR ''-'',
      if mode_bit m 4 then CHR ''w'' else CHR ''-'',
      if mode_bit m 10 then (if mode_bit m 3 then CHR ''s'' else CHR ''l'') else (if mode_bit m 3 then CHR ''x'' else CHR ''-''),
      if mode_bit m 2 then CHR ''r'' else CHR ''-'',
      if mode_bit m 1 then CHR ''w'' else CHR ''-'',
      if mode_bit m 9 then (if mode_bit m 0 then CHR ''t'' else CHR ''T'') else (if mode_bit m 0 then CHR ''x'' else CHR ''-'')]"

subsection \<open>file_data\<close>

text \<open>\<open>fd_sha256\<close> is the array of 65 bytes, of which \<open>sha256()\<close> shows the first 64.\<close>

record file_data =
  fd_exists :: bool
  fd_content_checked :: bool
  fd_path :: string
  fd_user :: string
  fd_group :: string
  fd_size :: int
  fd_type :: file_type
  fd_sha256 :: string
  fd_target :: string
  fd_dead_lnk :: bool
  fd_inode :: "64 word"
  fd_mode :: mode
  fd_mtime :: int
  fd_ctime :: int
  fd_diff :: string

definition fd_digest :: "file_data \<Rightarrow> string" where
  "fd_digest fd = take 64 (fd_sha256 fd)"

text \<open>A new object; the array for the digest is not initialised: \<open>junk\<close>.\<close>

definition new_file_data :: "string \<Rightarrow> file_data" where
  "new_file_data junk =
     \<lparr>fd_exists = False, fd_content_checked = False, fd_path = [], fd_user = [], fd_group = [], fd_size = 0,
      fd_type = Unknown_type, fd_sha256 = junk, fd_target = [], fd_dead_lnk = False, fd_inode = 0, fd_mode = 0,
      fd_mtime = 0, fd_ctime = 0, fd_diff = []\<rparr>"

text \<open>The debug output of an object.\<close>

definition bool_text :: "bool \<Rightarrow> string" where
  "bool_text b = (if b then ''true'' else ''false'')"

definition file_data_text :: "file_data \<Rightarrow> string" where
  "file_data_text fd =
     ''Start file data'' @ [newline]
     @ (if fd_exists fd then
          ''path:    '' @ fd_path fd @ [newline]
          @ ''user:    '' @ fd_user fd @ [newline]
          @ ''group:   '' @ fd_group fd @ [newline]
          @ ''size:    '' @ int_to_string (fd_size fd) @ [newline]
          @ ''inode:   '' @ nat_to_string (unat (fd_inode fd)) @ [newline]
          @ ''mode:    '' @ print_mode (fd_mode fd) @ [newline]
          @ ''mtime    '' @ int_to_string (fd_mtime fd) @ [newline]
          @ ''ctime    '' @ int_to_string (fd_ctime fd) @ [newline]
          @ ''type:    '' @ type_name (type_code (fd_type fd)) @ [newline]
          @ ''checked: '' @ (if fd_content_checked fd then ''1'' else ''0'') @ [newline]
          @ (if fd_type fd = Regular_file then ''sha256:  '' @ fd_digest fd @ [newline]
             else if fd_type fd = Link then
               ''valid:   '' @ bool_text (\<not> fd_dead_lnk fd) @ [newline]
               @ (if fd_dead_lnk fd then [] else ''target:  '' @ fd_target fd @ [newline])
             else [])
        else ''object deleted.'' @ [newline])
     @ ''End file data'' @ [newline]"

subsection \<open>file_data_factory::construct\<close>

record file_stat =
  st_size :: int
  st_mode :: mode
  st_ino :: "64 word"
  st_uid :: nat
  st_gid :: nat
  st_mtime :: int
  st_ctime :: int

text \<open>The answers of the system calls while one object is looked at. The names come from
  \<open>getusername\<close> and \<open>getgroupname\<close>, whose failure throws (Inl); the file is read in chunks, at the end
  of which \<open>read\<close> answers 0 or fails.\<close>

record object_view =
  ov_lstat :: "file_stat option"
  ov_user :: "(int, string option) res"
  ov_group :: "(int, string option) res"
  ov_open :: bool
  ov_chunks :: "string list"
  ov_read_ok :: bool
  ov_target_exists :: bool
  ov_readlink :: "string option"

text \<open>Third-party code: the text SHA256_End makes of the bytes given to SHA256_Update, 64 digits and a zero, and the
  unified diff of two lists of lines.\<close>

record digest_lib =
  dg_sha256 :: "string \<Rightarrow> string"
  dg_diff :: "string list \<Rightarrow> string list \<Rightarrow> string"

type_synonym diff_db = "string \<Rightarrow> string option"

definition deleted_object :: "string \<Rightarrow> string \<Rightarrow> file_data" where
  "deleted_object junk path =
     (new_file_data junk)\<lparr>fd_content_checked := True, fd_path := path, fd_user := ''null'', fd_group := ''null'',
       fd_sha256 := junk[0 := CHR 0x00]\<rparr>"

text \<open>The reading loop: the bytes hashed, the text kept for the diff, and whether it still is one.\<close>

fun read_chunks :: "string list \<Rightarrow> bool \<Rightarrow> string \<Rightarrow> string \<Rightarrow> string \<times> string \<times> bool" where
  "read_chunks [] compute_diff hashed content = (hashed, content, compute_diff)"
| "read_chunks (c # cs) compute_diff hashed content =
     (if compute_diff then
        (if CHR 0x00 \<in> set c then read_chunks cs False (hashed @ c) content
         else read_chunks cs True (hashed @ c) (content @ c))
      else read_chunks cs False (hashed @ c) content)"

definition check_file :: "digest_lib \<Rightarrow> 32 word \<Rightarrow> object_view \<Rightarrow> bool \<Rightarrow> file_data \<Rightarrow> diff_db \<Rightarrow> file_data \<times> diff_db" where
  "check_file dg max_diff v check_diff fd db =
     (let compute_diff = (check_diff \<and> fd_size fd < int (unat max_diff)) in
      if \<not> ov_open v then (fd, db)
      else
        (let found = (if compute_diff then db (fd_path fd) else None);
             (hashed, content, compute_diff) = read_chunks (ov_chunks v) compute_diff [] []
         in
         if \<not> ov_read_ok v then (fd, db)
         else
           (let fd = fd\<lparr>fd_sha256 := dg_sha256 dg hashed\<rparr>;
                db_content = (case found of None \<Rightarrow> [] | Some c \<Rightarrow> c);
                (fd, db) =
                  (if \<not> compute_diff then (fd, db)
                   else (if db_content = [] then fd
                         else fd\<lparr>fd_diff := dg_diff dg (split_string db_content newline) (split_string content newline)\<rparr>,
                         db(fd_path fd \<mapsto> content)))
            in (fd\<lparr>fd_content_checked := True\<rparr>, db))))"

text \<open>The target goes through a buffer of 256 bytes and ends at its first zero.\<close>

definition link_buffer :: "string \<Rightarrow> string" where
  "link_buffer raw =
     (let got = take 256 raw in
      if 256 \<le> length got + 1 then take 255 got else got)"

definition check_link :: "object_view \<Rightarrow> file_data \<Rightarrow> file_data" where
  "check_link v fd =
     (let fd = fd\<lparr>fd_dead_lnk := \<not> ov_target_exists v\<rparr> in
      case ov_readlink v of
        None \<Rightarrow> fd
      | Some raw \<Rightarrow> fd\<lparr>fd_target := c_str (link_buffer raw), fd_content_checked := True\<rparr>)"

definition name_or_unknown :: "string option \<Rightarrow> string" where
  "name_or_unknown n = (case n of None \<Rightarrow> ''!unknown'' | Some x \<Rightarrow> x)"

text \<open>None: the null pointer for an empty path. An exception leaves the diff database as it was.\<close>

definition construct :: "digest_lib \<Rightarrow> 32 word \<Rightarrow> string \<Rightarrow> object_view \<Rightarrow> string \<Rightarrow> bool \<Rightarrow> bool \<Rightarrow> diff_db \<Rightarrow>
    (int, file_data option \<times> diff_db) res" where
  "construct dg max_diff junk v path check_content check_diff db =
     (if path = [] then Inr (None, db)
      else
        (case ov_lstat v of
           None \<Rightarrow> Inr (Some (deleted_object junk path), db)
         | Some s \<Rightarrow>
             rbind (ov_user v) (\<lambda>user. rbind (ov_group v) (\<lambda>group.
             let fd = (new_file_data junk)\<lparr>fd_path := path, fd_exists := True, fd_user := name_or_unknown user,
                   fd_group := name_or_unknown group, fd_size := st_size s, fd_mode := st_mode s, fd_inode := st_ino s,
                   fd_mtime := st_mtime s, fd_ctime := st_ctime s, fd_type := mode_file_type (st_mode s)\<rparr>
             in
             if check_content \<and> fd_type fd = Regular_file then
               (let (fd, db) = check_file dg max_diff v check_diff fd db in Inr (Some fd, db))
             else if check_content \<and> fd_type fd = Link then Inr (Some (check_link v fd), db)
             else Inr (Some fd, db)))))"

end
