(* ===== verification/Account_Lookup.thy ===== *)
theory Account_Lookup
  imports File_Data
begin

text \<open>
  src/src/libs/safe_utilities.cpp and check_file_perms.cpp: the look-ups of users and groups, and the check a
  configuration or rule file has to pass before it is read. What the C library answers is a parameter.
\<close>

subsection \<open>safe_utilities.cpp\<close>

text \<open>\<open>sysconf\<close>, and the answers of the reentrant functions for a key and the size of the buffer they are given: the
  error number they return and the entry, if there is one.\<close>

record accounts =
  na_pw_size_max :: int
  na_gr_size_max :: int
  na_getpwuid :: "nat \<Rightarrow> nat \<Rightarrow> int \<times> string option"
  na_getpwnam :: "string \<Rightarrow> nat \<Rightarrow> int \<times> nat option"
  na_getgrgid :: "nat \<Rightarrow> nat \<Rightarrow> int \<times> string option"
  na_getgrnam :: "string \<Rightarrow> nat \<Rightarrow> int \<times> nat option"

definition default_bufsize :: nat where "default_bufsize = 16384"

definition buffer_size :: "int \<Rightarrow> nat" where
  "buffer_size sz = (if sz = - 1 then default_bufsize else nat sz)"

text \<open>No entry and no error is the empty optional, no entry with an error throws it.\<close>

definition found_entry :: "int \<times> 'a option \<Rightarrow> (int, 'a option) res" where
  "found_entry a =
     (case snd a of
        Some x \<Rightarrow> Inr (Some x)
      | None \<Rightarrow> if fst a = 0 then Inr None else Inl (fst a))"

definition getusername :: "accounts \<Rightarrow> nat \<Rightarrow> (int, string option) res" where
  "getusername na uid = found_entry (na_getpwuid na uid (buffer_size (na_pw_size_max na)))"

definition getuserid :: "accounts \<Rightarrow> string \<Rightarrow> (int, nat option) res" where
  "getuserid na username = found_entry (na_getpwnam na (c_str username) (buffer_size (na_pw_size_max na)))"

definition getgroupname :: "accounts \<Rightarrow> nat \<Rightarrow> (int, string option) res" where
  "getgroupname na gid = found_entry (na_getgrgid na gid (buffer_size (na_gr_size_max na)))"

definition getgroupid :: "accounts \<Rightarrow> string \<Rightarrow> (int, nat option) res" where
  "getgroupid na groupname = found_entry (na_getgrnam na (c_str groupname) (buffer_size (na_gr_size_max na)))"

subsection \<open>check_cfg_file_perms\<close>

datatype perm_error =
    Can_not_stat int
  | Group_not_looked_up int
  | Insecure_owner nat
  | Insecure_group nat
  | Group_writeable
  | Other_writeable
  | Other_readable

text \<open>The ids of the process.\<close>

record identity =
  id_euid :: nat
  id_egid :: nat

text \<open>The permission bits are numbered as in \<open>mode_bit\<close>: S_IWGRP 4, S_IROTH 2, S_IWOTH 1.\<close>

definition check_cfg_file_perms :: "accounts \<Rightarrow> identity \<Rightarrow> (int, file_stat) res \<Rightarrow> (perm_error, unit) res" where
  "check_cfg_file_perms na me st =
     rbind (map_error Can_not_stat st) (\<lambda>info.
     rbind (map_error Group_not_looked_up (getgroupid na ''ctguard'')) (\<lambda>groupid.
       (let ctguard_gid = (case groupid of None \<Rightarrow> 0 | Some g \<Rightarrow> g) in
        if st_uid info \<noteq> 0 \<and> st_uid info \<noteq> id_euid me then Inl (Insecure_owner (st_uid info))
        else if st_gid info \<noteq> 0 \<and> st_gid info \<noteq> id_egid me \<and> st_gid info \<noteq> ctguard_gid then Inl (Insecure_group (st_gid info))
        else if mode_bit (st_mode info) 4 then Inl Group_writeable
        else if mode_bit (st_mode info) 1 then Inl Other_writeable
        else if mode_bit (st_mode info) 2 then Inl Other_readable
        else Inr ())))"

subsection \<open>Who can read and write what passed the check\<close>

text \<open>The access check of a POSIX system for a process that is not the superuser: the first class that applies
  decides; bit 2 of the class is to read, bit 1 to write.\<close>

definition class_shift :: "nat \<Rightarrow> nat set \<Rightarrow> file_stat \<Rightarrow> nat" where
  "class_shift uid gids st = (if uid = st_uid st then 6 else if st_gid st \<in> gids then 3 else 0)"

definition may_read :: "nat \<Rightarrow> nat set \<Rightarrow> file_stat \<Rightarrow> bool" where
  "may_read uid gids st = mode_bit (st_mode st) (class_shift uid gids st + 2)"

definition may_write :: "nat \<Rightarrow> nat set \<Rightarrow> file_stat \<Rightarrow> bool" where
  "may_write uid gids st = mode_bit (st_mode st) (class_shift uid gids st + 1)"

lemma checked_perms:
  assumes "check_cfg_file_perms na me (Inr st) = Inr ()"
  shows "st_uid st = 0 \<or> st_uid st = id_euid me" "\<not> mode_bit (st_mode st) 4" "\<not> mode_bit (st_mode st) 1" "\<not> mode_bit (st_mode st) 2"
    "st_gid st = 0 \<or> st_gid st = id_egid me \<or> getgroupid na ''ctguard'' = Inr (Some (st_gid st))"
  using assms by (auto simp: check_cfg_file_perms_def rbind_Inr_iff Let_def split: if_splits option.splits)

lemma only_owner_writes:
  assumes "check_cfg_file_perms na me (Inr st) = Inr ()" "uid \<noteq> 0" "uid \<noteq> id_euid me"
  shows "\<not> may_write uid gids st"
  using checked_perms [OF assms(1)] assms(2,3) by (auto simp: may_write_def class_shift_def)

lemma only_group_reads:
  assumes "check_cfg_file_perms na me (Inr st) = Inr ()" "uid \<noteq> 0" "uid \<noteq> id_euid me" "may_read uid gids st"
  shows "st_gid st \<in> gids \<and> (st_gid st = 0 \<or> st_gid st = id_egid me \<or> getgroupid na ''ctguard'' = Inr (Some (st_gid st)))"
  using checked_perms [OF assms(1)] assms(2-4)
  by (auto simp: may_read_def class_shift_def numeral_2_eq_2 split: if_splits)

end
