(* ===== verification/Xml_Parser.thy ===== *)
theory Xml_Parser
  imports Std_Containers
begin

text \<open>
  src/src/libs/xml: the XML parser that reads the rule files. The input stream is the list of
  characters not yet read together with the characters read (for \<open>unget\<close>); line and position are
  64-bit counters. The loop of \<open>parse\<close> runs on fuel; \<open>xml_parse\<close> gives three units per character,
  which the totality theorem shows to be enough. Characters above 127 belong to no class of the C locale.
\<close>

subsection \<open>Nodes, errors and the stream\<close>

datatype xml_node = XMLNode
  (node_name: string) (node_attributes: "(string \<times> string) list") (node_value: string) (node_children: "xml_node list")

datatype xml_message =
    Stream_end
  | Unknown_command char
  | Expected_close char
  | Unknown_character nat char
  | Attribute_defined string
  | Tag_not_closed string string
  | Unexpected_end string

datatype xml_error = Xml_error "64 word" "64 word" xml_message | Xml_out_of_fuel

record xml_parser =
  xp_before :: string
  xp_after :: string
  xp_line :: "64 word"
  xp_position :: "64 word"
  xp_escaped :: bool

definition xml_init :: "string \<Rightarrow> xml_parser" where
  "xml_init s = \<lparr>xp_before = [], xp_after = s, xp_line = 1, xp_position = 0, xp_escaped = False\<rparr>"

text \<open>\<open>parse_error\<close>; the column printed is the position minus one, modulo 2 to the 64.\<close>

definition xml_fail :: "xml_parser \<Rightarrow> xml_message \<Rightarrow> (xml_error, 'a) res" where
  "xml_fail x msg = Inl (Xml_error (xp_line x) (xp_position x - 1) msg)"

fun xml_message_text :: "xml_message \<Rightarrow> string" where
  "xml_message_text Stream_end = ''Unexpected stream error/end''"
| "xml_message_text (Unknown_command c) = ''Unknown command sequence '' @ [CHR 0x27, c, CHR 0x27]"
| "xml_message_text (Expected_close c) = ''Expected closing of command sequence instead of '' @ [CHR 0x27, c, CHR 0x27]"
| "xml_message_text (Unknown_character n c) =
     ''Unknown character ('' @ nat_to_string n @ '') '' @ [CHR 0x27, c, CHR 0x27]
     @ (if n = 3 then '', expected '' @ [CHR 0x27] @ ''='' @ [CHR 0x27] else [])"
| "xml_message_text (Attribute_defined k) = ''Attribute '' @ [CHR 0x27] @ k @ [CHR 0x27] @ '' already defined''"
| "xml_message_text (Tag_not_closed n m) =
     ''Tag '' @ [CHR 0x27] @ n @ [CHR 0x27] @ '' not closed while closing tag '' @ [CHR 0x27] @ m @ [CHR 0x27]"
| "xml_message_text (Unexpected_end n) = ''Unexpected end, while in tag '' @ [CHR 0x27] @ n @ [CHR 0x27]"

fun xml_what :: "xml_error \<Rightarrow> string" where
  "xml_what (Xml_error l p msg) =
     nat_to_string (unat l) @ '':'' @ nat_to_string (unat p) @ '': '' @ xml_message_text msg"
| "xml_what Xml_out_of_fuel = []"

definition xml_peek :: "xml_parser \<Rightarrow> char option" where
  "xml_peek x = (case xp_after x of [] \<Rightarrow> None | c # cs \<Rightarrow> Some c)"

text \<open>\<open>m_input.get(); ++m_position\<close> after a look at the next character.\<close>

definition xml_consume :: "xml_parser \<Rightarrow> xml_parser" where
  "xml_consume x =
     (case xp_after x of
        [] \<Rightarrow> x
      | c # cs \<Rightarrow> x\<lparr>xp_before := c # xp_before x, xp_after := cs, xp_position := xp_position x + 1\<rparr>)"

text \<open>\<open>m_input.unget()\<close>: line and position stay.\<close>

definition xml_unget :: "xml_parser \<Rightarrow> xml_parser" where
  "xml_unget x =
     (case xp_before x of
        [] \<Rightarrow> x
      | c # cs \<Rightarrow> x\<lparr>xp_before := cs, xp_after := c # xp_after x\<rparr>)"

definition xml_left :: "xml_parser \<Rightarrow> nat" where
  "xml_left x = length (xp_after x)"

subsection \<open>Reading a character\<close>

function get_char_raw :: "xml_parser \<Rightarrow> (xml_error, char \<times> xml_parser) res" where
  "get_char_raw x =
     (case xp_after x of
        [] \<Rightarrow> xml_fail x Stream_end
      | c # cs \<Rightarrow>
          (let x = x\<lparr>xp_before := c # xp_before x, xp_after := cs\<rparr> in
           if c = CHR 0x0A then get_char_raw (x\<lparr>xp_line := xp_line x + 1, xp_position := 0\<rparr>)
           else Inr (c, x\<lparr>xp_position := xp_position x + 1\<rparr>)))"
  by pat_completeness auto
termination
  by (relation "measure xml_left") (auto simp: xml_left_def)

definition get_char_low :: "xml_parser \<Rightarrow> (xml_error, char \<times> xml_parser) res" where
  "get_char_low x =
     rbind (get_char_raw x) (\<lambda>(c, x).
     if xp_escaped x \<and> c = CHR 0x5C then get_char_raw (x\<lparr>xp_escaped := True\<rparr>)
     else Inr (c, x\<lparr>xp_escaped := False\<rparr>))"

declare get_char_raw.simps [simp del]

text \<open>Every successful read moves the returned character, the last one, in front of the characters read.\<close>

definition just_read :: "xml_parser \<Rightarrow> char \<Rightarrow> xml_parser \<Rightarrow> bool" where
  "just_read x c x' = (xml_left x' < xml_left x \<and> (\<exists>b. xp_before x' = c # b))"

lemma get_char_raw_read: "get_char_raw x = Inr (c, x') \<Longrightarrow> just_read x c x' \<and> xp_escaped x' = xp_escaped x"
proof (induction x rule: get_char_raw.induct)
  case (1 x)
  show ?case
  proof (cases "xp_after x")
    case Nil
    with "1.prems" show ?thesis by (simp add: get_char_raw.simps [of x] xml_fail_def)
  next
    case (Cons a as)
    show ?thesis
    proof (cases "a = CHR 0x0A")
      case True
      from "1.IH" [OF Cons refl True] "1.prems" show ?thesis
        by (simp add: get_char_raw.simps [of x] Cons True just_read_def xml_left_def)
    next
      case False
      with "1.prems" show ?thesis
        by (auto simp: get_char_raw.simps [of x] Cons just_read_def xml_left_def)
    qed
  qed
qed

lemma just_read_trans: "just_read x c y \<Longrightarrow> just_read y d z \<Longrightarrow> just_read x d z"
  by (auto simp: just_read_def)

lemma just_read_left: "just_read x c y \<Longrightarrow> xml_left y < xml_left x"
  by (simp add: just_read_def)

lemma get_char_low_read: "get_char_low x = Inr (c, x') \<Longrightarrow> just_read x c x'"
  by (auto simp: get_char_low_def rbind_Inr_iff just_read_def xml_left_def split: if_splits
      dest!: get_char_raw_read)

lemma get_char_low_escaped: "get_char_low x = Inr (c, x') \<Longrightarrow> \<not> xp_escaped x \<Longrightarrow> \<not> xp_escaped x'"
  by (auto simp: get_char_low_def rbind_Inr_iff split: if_splits dest!: get_char_raw_read)

lemma xml_consume_simps [simp]:
  "xml_left (xml_consume x) = xml_left x - 1" "xp_escaped (xml_consume x) = xp_escaped x"
  by (auto simp: xml_consume_def xml_left_def split: list.splits)

text \<open>The loop over the text of a comment.\<close>

function skip_command :: "xml_parser \<Rightarrow> (xml_error, xml_parser) res" where
  "skip_command x =
     rbind (get_char_low x) (\<lambda>(c, x).
     if c \<noteq> CHR ''-'' \<or> xml_peek x \<noteq> Some (CHR ''-'') then skip_command x else Inr x)"
  by pat_completeness auto
termination
  by (relation "measure xml_left") (auto dest: get_char_low_read just_read_left)

declare skip_command.simps [simp del]

lemma skip_command_read: "skip_command x = Inr x' \<Longrightarrow> xml_left x' < xml_left x \<and> (xp_escaped x \<or> \<not> xp_escaped x')"
proof (induction x rule: skip_command.induct)
  case (1 x)
  from "1.prems" obtain c y where c: "get_char_low x = Inr (c, y)"
    by (subst (asm) skip_command.simps) (auto simp: rbind_Inr_iff)
  then have l: "xml_left y < xml_left x" "xp_escaped x \<or> \<not> xp_escaped y"
    by (auto dest: get_char_low_read just_read_left get_char_low_escaped)
  show ?case
  proof (cases "c \<noteq> CHR ''-'' \<or> xml_peek y \<noteq> Some (CHR ''-'')")
    case True
    with "1.prems" c have "skip_command y = Inr x'" by (simp add: skip_command.simps [of x])
    with "1.IH" [OF c refl True] l show ?thesis by auto
  next
    case False
    with "1.prems" c l show ?thesis by (simp add: skip_command.simps [of x])
  qed
qed

function xml_get_char :: "xml_parser \<Rightarrow> (xml_error, char \<times> xml_parser) res" where
  "xml_get_char x =
     rbind (get_char_low x) (\<lambda>(c, x).
     if c = CHR ''<'' \<and> xml_peek x = Some (CHR ''!'') then
       rbind (get_char_low (xml_consume x)) (\<lambda>(c, x).
       if c \<noteq> CHR ''-'' \<or> xml_peek x \<noteq> Some (CHR ''-'') then xml_fail x (Unknown_command c)
       else
         rbind (skip_command (xml_consume x)) (\<lambda>x.
         rbind (get_char_low (xml_consume x)) (\<lambda>(c, x).
         if c \<noteq> CHR ''>'' then xml_fail x (Expected_close c)
         else xml_get_char x)))
     else Inr (c, x))"
  by pat_completeness auto
termination
  by (relation "measure xml_left")
    (auto dest!: get_char_low_read just_read_left skip_command_read)

declare xml_get_char.simps [simp del]

lemma xml_get_char_read:
  "xml_get_char x = Inr (c, x') \<Longrightarrow> just_read x c x' \<and> (xp_escaped x \<or> \<not> xp_escaped x')"
proof (induction x rule: xml_get_char.induct)
  case (1 x)
  from "1.prems" obtain d y where d: "get_char_low x = Inr (d, y)"
    by (subst (asm) xml_get_char.simps) (auto simp: rbind_Inr_iff)
  note yr = get_char_low_read [OF d]
  show ?case
  proof (cases "d = CHR ''<'' \<and> xml_peek y = Some (CHR ''!'')")
    case False
    with "1.prems" d yr show ?thesis by (auto simp: xml_get_char.simps [of x] dest: get_char_low_escaped)
  next
    case True
    with "1.prems" d obtain e z w f v where
        e: "get_char_low (xml_consume y) = Inr (e, z)" "\<not> (e \<noteq> CHR ''-'' \<or> xml_peek z \<noteq> Some (CHR ''-''))"
      and w: "skip_command (xml_consume z) = Inr w"
      and f: "get_char_low (xml_consume w) = Inr (f, v)" "\<not> f \<noteq> CHR ''>''"
      and r: "xml_get_char v = Inr (c, x')"
      by (subst (asm) xml_get_char.simps) (auto simp: rbind_Inr_iff xml_fail_def split: if_splits)
    note IH = "1.IH" [OF d refl True e(1) refl e(2) w f(1) refl f(2) r]
    have "xml_left v < xml_left x"
      using yr get_char_low_read [OF e(1)] skip_command_read [OF w] get_char_low_read [OF f(1)]
      by (auto simp: just_read_def)
    moreover have "xp_escaped x \<or> \<not> xp_escaped v"
      using get_char_low_escaped [OF d] get_char_low_escaped [OF e(1)] skip_command_read [OF w]
        get_char_low_escaped [OF f(1)] by auto
    ultimately show ?thesis using IH by (auto simp: just_read_def)
  qed
qed

subsection \<open>The parser\<close>

datatype parse_state = Initial | Open_tag_key | Open_tag_attr | Body | Close_tag | Attr_key | Attr_value

record xml_locals =
  loc_name :: string
  loc_value :: string
  loc_close_name :: string
  loc_attr_key :: string
  loc_attr_value :: string
  loc_attributes :: "(string \<times> string) list"
  loc_children :: "xml_node list"

definition no_locals :: xml_locals where
  "no_locals =
     \<lparr>loc_name = [], loc_value = [], loc_close_name = [], loc_attr_key = [], loc_attr_value = [],
      loc_attributes = [], loc_children = []\<rparr>"

text \<open>The inner loops: collect characters while a test on the escape flag and the character holds.\<close>

function take_chars :: "(bool \<Rightarrow> char \<Rightarrow> bool) \<Rightarrow> char \<Rightarrow> string \<Rightarrow> xml_parser \<Rightarrow>
    (xml_error, char \<times> string \<times> xml_parser) res" where
  "take_chars P c acc x =
     (if P (xp_escaped x) c then
        rbind (xml_get_char x) (\<lambda>(c', x'). take_chars P c' (acc @ [c]) x')
      else Inr (c, acc, x))"
  by pat_completeness auto
termination
  by (relation "measure (\<lambda>(P, c, acc, x). xml_left x)") (auto dest!: xml_get_char_read simp: just_read_def)

declare take_chars.simps [simp del]

definition space_char :: "bool \<Rightarrow> char \<Rightarrow> bool" where
  "space_char esc c = isspace c"

definition name_char :: "bool \<Rightarrow> char \<Rightarrow> bool" where
  "name_char esc c = (isalnum c \<or> c = CHR ''_'')"

definition body_char :: "bool \<Rightarrow> char \<Rightarrow> bool" where
  "body_char esc c = ((esc \<or> c \<noteq> CHR ''<'') \<and> (isprint c \<or> c = CHR 0x09))"

definition value_char :: "bool \<Rightarrow> char \<Rightarrow> bool" where
  "value_char esc c = ((esc \<or> c \<noteq> CHR 0x22) \<and> isprint c)"

text \<open>What one turn of the loop does: go on, return the node, or parse a child and go on in the body.\<close>

datatype xml_outcome =
    Continue parse_state xml_locals xml_parser
  | Return_node xml_node xml_parser
  | Parse_child xml_locals xml_parser

definition step_initial :: "xml_locals \<Rightarrow> char \<Rightarrow> xml_parser \<Rightarrow> (xml_error, xml_outcome) res" where
  "step_initial l c x =
     rbind (take_chars space_char c [] x) (\<lambda>(c, _, x).
     if \<not> xp_escaped x \<and> c = CHR ''<'' then Inr (Continue Open_tag_key l x)
     else xml_fail x (Unknown_character 1 c))"

definition step_open_tag_key :: "xml_locals \<Rightarrow> char \<Rightarrow> xml_parser \<Rightarrow> (xml_error, xml_outcome) res" where
  "step_open_tag_key l c x =
     rbind (take_chars name_char c (loc_name l) x) (\<lambda>(c, name, x).
     Inr (Continue Open_tag_attr (l\<lparr>loc_name := name\<rparr>) (xml_unget x)))"

definition step_body :: "xml_locals \<Rightarrow> char \<Rightarrow> xml_parser \<Rightarrow> (xml_error, xml_outcome) res" where
  "step_body l c x =
     rbind (take_chars body_char c [] x) (\<lambda>(c, cs, x).
     let l = l\<lparr>loc_value := loc_value l @ filter (\<lambda>c. c \<noteq> CHR 0x09) cs\<rparr> in
     if \<not> xp_escaped x \<and> c = CHR ''<'' \<and> xml_peek x = Some (CHR ''/'') then
       Inr (Continue Close_tag l (xml_consume x))
     else if \<not> xp_escaped x \<and> c = CHR ''<'' then Inr (Parse_child l (xml_unget x))
     else xml_fail x (Unknown_character 2 c))"

definition step_attr_key :: "xml_locals \<Rightarrow> char \<Rightarrow> xml_parser \<Rightarrow> (xml_error, xml_outcome) res" where
  "step_attr_key l c x =
     rbind (take_chars name_char c [] x) (\<lambda>(c, key, x).
     if key \<in> set (map fst (loc_attributes l)) then xml_fail x (Attribute_defined key)
     else if \<not> xp_escaped x \<and> c = CHR ''='' \<and> xml_peek x = Some (CHR 0x22) then
       Inr (Continue Attr_value (l\<lparr>loc_attr_key := key\<rparr>) (xml_consume x))
     else xml_fail x (Unknown_character 3 c))"

definition step_attr_value :: "xml_locals \<Rightarrow> char \<Rightarrow> xml_parser \<Rightarrow> (xml_error, xml_outcome) res" where
  "step_attr_value l c x =
     rbind (take_chars value_char c [] x) (\<lambda>(c, v, x).
     if \<not> xp_escaped x \<and> c = CHR 0x22 then
       Inr (Continue Open_tag_attr
         (l\<lparr>loc_attributes := loc_attributes l @ [(loc_attr_key l, v)], loc_attr_key := [], loc_attr_value := []\<rparr>) x)
     else xml_fail x (Unknown_character 4 c))"

definition step_open_tag_attr :: "xml_locals \<Rightarrow> char \<Rightarrow> xml_parser \<Rightarrow> (xml_error, xml_outcome) res" where
  "step_open_tag_attr l c x =
     rbind (take_chars space_char c [] x) (\<lambda>(c, _, x).
     if isalnum c then Inr (Continue Attr_key l (xml_unget x))
     else if \<not> xp_escaped x \<and> c = CHR ''/'' \<and> xml_peek x = Some (CHR ''>'') then
       Inr (Return_node (XMLNode (loc_name l) (loc_attributes l) [] []) (xml_consume x))
     else if \<not> xp_escaped x \<and> c = CHR ''>'' then Inr (Continue Body l x)
     else xml_fail x (Unknown_character 5 c))"

definition step_close_tag :: "xml_locals \<Rightarrow> char \<Rightarrow> xml_parser \<Rightarrow> (xml_error, xml_outcome) res" where
  "step_close_tag l c x =
     rbind (take_chars name_char c (loc_close_name l) x) (\<lambda>(c, close, x).
     if \<not> xp_escaped x \<and> c = CHR ''>'' then
       (if loc_name l \<noteq> close then xml_fail x (Tag_not_closed (loc_name l) close)
        else Inr (Return_node (XMLNode (loc_name l) (loc_attributes l) (loc_value l) (loc_children l)) x))
     else xml_fail x (Unknown_character 6 c))"

fun xml_step :: "parse_state \<Rightarrow> xml_locals \<Rightarrow> char \<Rightarrow> xml_parser \<Rightarrow> (xml_error, xml_outcome) res" where
  "xml_step Initial l c x = step_initial l c x"
| "xml_step Open_tag_key l c x = step_open_tag_key l c x"
| "xml_step Body l c x = step_body l c x"
| "xml_step Attr_key l c x = step_attr_key l c x"
| "xml_step Attr_value l c x = step_attr_value l c x"
| "xml_step Open_tag_attr l c x = step_open_tag_attr l c x"
| "xml_step Close_tag l c x = step_close_tag l c x"

text \<open>\<open>while (char c = get_char()) switch (state) ...\<close>\<close>

definition xml_turn :: "parse_state \<Rightarrow> xml_locals \<Rightarrow> xml_parser \<Rightarrow> (xml_error, xml_outcome) res" where
  "xml_turn s l x =
     rbind (xml_get_char x) (\<lambda>(c, x).
     if c = CHR 0x00 then xml_fail x (Unexpected_end (loc_name l)) else xml_step s l c x)"

fun xml_run :: "nat \<Rightarrow> parse_state \<Rightarrow> xml_locals \<Rightarrow> xml_parser \<Rightarrow> (xml_error, xml_node \<times> xml_parser) res" where
  "xml_run 0 s l x = Inl Xml_out_of_fuel"
| "xml_run (Suc n) s l x =
     rbind (xml_turn s l x) (\<lambda>r.
     case r of
       Continue s' l' x' \<Rightarrow> xml_run n s' l' x'
     | Return_node node x' \<Rightarrow> Inr (node, x')
     | Parse_child l' x' \<Rightarrow>
         rbind (xml_run n Initial no_locals x') (\<lambda>(child, y).
         xml_run n Body (l'\<lparr>loc_children := loc_children l' @ [child]\<rparr>) y))"

definition xml_parse :: "string \<Rightarrow> (xml_error, xml_node) res" where
  "xml_parse s =
     rbind (xml_run (3 * length s + 4) Initial no_locals (xml_init s)) (\<lambda>(node, x). Inr node)"

subsection \<open>Printing\<close>

definition attributes_text :: "(string \<times> string) list \<Rightarrow> string" where
  "attributes_text kvs = concat (map (\<lambda>(k, v). '' '' @ k @ [CHR ''='', CHR 0x22] @ v @ [CHR 0x22]) kvs)"

fun node_text :: "xml_node \<Rightarrow> string" where
  "node_text (XMLNode name attrs val cs) =
     ''<'' @ name @ attributes_text attrs @ ''>'' @ val @ concat (map node_text cs) @ ''</'' @ name @ ''>''"

end
