(* ===== verification/Rule_Loader.thy ===== *)
theory Rule_Loader
  imports Rule_Engine Parse_Helper Xml_Parser
begin

text \<open>
  src/src/research/rule.cpp: \<open>parse_rules\<close> turns the XML tree of a rule file into the rule
  configuration, checking every node. \<open>find_rule\<close> returns a pointer into the forest; here
  \<open>add_child\<close> is the assignment through it. A \<open>lib_exception\<close> carries its message, a wrapped
  exception its cause; \<open>Trim_ub\<close> marks the call of \<open>trim\<close> on an empty string, which reads
  \<open>str[npos]\<close>.
\<close>

datatype regex_problem = Regex_invalid | Regex_mark_count nat nat

datatype loader_error =
    Lib_exception string
  | Rule_out_of_range rule_parse_error
  | Invalid_always_alert string parse_error
  | Invalid_if_rule string parse_error
  | Invalid_regex string string regex_problem
  | Open_failed
  | Xml_exception xml_error
  | Trim_ub

subsection \<open>find_rule and the assignment through it\<close>

fun find_rule :: "rule list \<Rightarrow> rule_id \<Rightarrow> rule option" where
  "find_rule [] i = None"
| "find_rule (Rule d cs # rs) i =
     (if r_id d = i then Some (Rule d cs)
      else case find_rule cs i of Some r \<Rightarrow> Some r | None \<Rightarrow> find_rule rs i)"

fun add_child :: "rule_id \<Rightarrow> rule \<Rightarrow> rule list \<Rightarrow> rule list option" where
  "add_child i ex [] = None"
| "add_child i ex (Rule d cs # rs) =
     (if r_id d = i then Some (Rule d (cs @ [ex]) # rs)
      else case add_child i ex cs of
        Some cs' \<Rightarrow> Some (Rule d cs' # rs)
      | None \<Rightarrow> (case add_child i ex rs of None \<Rightarrow> None | Some rs' \<Rightarrow> Some (Rule d cs # rs')))"

subsection \<open>trim, lists and match kinds\<close>

fun trim_left :: "string \<Rightarrow> string" where
  "trim_left (c # d # s) = (if isspace c then trim_left (d # s) else c # d # s)"
| "trim_left s = s"

definition trim :: "string \<Rightarrow> (loader_error, string) res" where
  "trim s = (if s = [] then Inl Trim_ub else Inr (rev (trim_left (rev (trim_left s)))))"

fun map_trim :: "string list \<Rightarrow> (loader_error, string list) res" where
  "map_trim [] = Inr []"
| "map_trim (s # ss) = rbind (trim s) (\<lambda>t. rbind (map_trim ss) (\<lambda>ts. Inr (t # ts)))"

definition comma_list :: "string \<Rightarrow> (loader_error, string list) res" where
  "comma_list s = map_trim (split_string s (CHR '',''))"

definition parse_rule_match :: "string \<Rightarrow> rule_match option" where
  "parse_rule_match v =
     (if v = ''exact'' then Some Match_exact
      else if v = ''regex'' then Some Match_regex
      else if v = ''empty'' then Some Match_empty
      else None)"

definition no_attributes :: "string \<Rightarrow> xml_node \<Rightarrow> (loader_error, unit) res" where
  "no_attributes ctx node =
     (case node_attributes node of
        [] \<Rightarrow> Inr ()
      | (k, v) # _ \<Rightarrow> Inl (Lib_exception (''Invalid attribute for '' @ ctx @ '' node: '' @ quote k)))"

definition no_children :: "string \<Rightarrow> xml_node \<Rightarrow> (loader_error, unit) res" where
  "no_children ctx node =
     (case node_children node of
        [] \<Rightarrow> Inr ()
      | c # _ \<Rightarrow> Inl (Lib_exception (''Invalid child for '' @ ctx @ '' node: '' @ quote (node_name c))))"

definition lib_check :: "bool \<Rightarrow> string \<Rightarrow> (loader_error, unit) res" where
  "lib_check ok msg = (if ok then Inr () else Inl (Lib_exception msg))"

definition id_text :: "rule_id \<Rightarrow> string" where
  "id_text i = nat_to_string (unat i)"

subsection \<open>group, intervention and format nodes\<close>

definition load_group :: "xml_node \<Rightarrow> rule_cfg \<Rightarrow> (loader_error, rule_cfg) res" where
  "load_group node cfg =
     rbind (no_attributes ''group'' node) (\<lambda>_.
     rbind (no_children ''group'' node) (\<lambda>_.
     rbind (trim (node_value node)) (\<lambda>v.
     rbind (lib_check (v \<noteq> []) ''Invalid empty group node'') (\<lambda>_.
     rbind (lib_check (hd v \<noteq> CHR ''!'') (''Invalid reserved group node '' @ quote v)) (\<lambda>_.
     Inr (cfg\<lparr>cfg_groups := insort_insert v (cfg_groups cfg)\<rparr>))))))"

definition load_intervention :: "xml_node \<Rightarrow> rule_cfg \<Rightarrow> (loader_error, rule_cfg) res" where
  "load_intervention node cfg =
     rbind (no_attributes ''intervention'' node) (\<lambda>_.
     rbind (no_children ''intervention'' node) (\<lambda>_.
     rbind (trim (node_value node)) (\<lambda>v.
     rbind (lib_check (v \<noteq> []) ''Invalid empty intervention node'') (\<lambda>_.
     Inr (cfg\<lparr>cfg_interventions := insort_insert v (cfg_interventions cfg)\<rparr>)))))"

definition format_attribute :: "string \<times> string \<Rightarrow> rule_format \<Rightarrow> (loader_error, rule_format) res" where
  "format_attribute a f =
     (if fst a = ''name'' then Inr (f\<lparr>f_name := snd a\<rparr>)
      else Inl (Lib_exception (''Invalid attribute for format node: '' @ quote (fst a))))"

text \<open>The regular expression text accumulates in \<open>f_reg\<close> (\<open>ireg\<close> in the code).\<close>

definition format_child :: "xml_node \<Rightarrow> rule_format \<Rightarrow> (loader_error, rule_format) res" where
  "format_child sub f =
     (if node_name sub = ''regex'' then
        rbind (no_attributes ''format'' sub) (\<lambda>_. Inr (f\<lparr>f_reg := f_reg f @ node_value sub\<rparr>))
      else if node_name sub = ''fields'' then
        rbind (no_attributes ''fields'' sub) (\<lambda>_.
        rbind (comma_list (node_value sub)) (\<lambda>fs. Inr (f\<lparr>f_fields := f_fields f @ fs\<rparr>)))
      else Inl (Lib_exception (''Unsupported format node child: '' @ node_name sub)))"

definition check_marks :: "regex_lib \<Rightarrow> string \<Rightarrow> string \<Rightarrow> nat \<Rightarrow> (loader_error, unit) res" where
  "check_marks rx what ireg n =
     (if \<not> rx_valid rx ireg then Inl (Invalid_regex ireg what Regex_invalid)
      else if rx_marks rx ireg \<noteq> n then Inl (Invalid_regex ireg what (Regex_mark_count (rx_marks rx ireg) n))
      else Inr ())"

definition load_format :: "regex_lib \<Rightarrow> xml_node \<Rightarrow> rule_cfg \<Rightarrow> (loader_error, rule_cfg) res" where
  "load_format rx node cfg =
     rbind (fold_res format_attribute (node_attributes node) \<lparr>f_name = [], f_reg = [], f_fields = []\<rparr>) (\<lambda>f.
     rbind (fold_res format_child (node_children node) f) (\<lambda>f.
     rbind (lib_check (f_name f \<noteq> []) ''No name given for format'') (\<lambda>_.
     rbind (lib_check (f_reg f \<noteq> []) (''No regex given for format '' @ quote (f_name f))) (\<lambda>_.
     rbind (check_marks rx (''format '' @ quote (f_name f)) (f_reg f) (length (f_fields f))) (\<lambda>_.
     Inr (cfg\<lparr>cfg_formats := cfg_formats cfg @ [f]\<rparr>))))))"

subsection \<open>rule nodes\<close>

text \<open>The rule being read (\<open>ex\<close>) and the two other locals of the branch.\<close>

record rule_build =
  rb_rule :: rule_data
  rb_unless_id :: rule_id
  rb_ireg :: string

definition rule_attribute :: "string \<times> string \<Rightarrow> rule_data \<Rightarrow> (loader_error, rule_data) res" where
  "rule_attribute a ex =
     (if fst a = ''id'' then
        rbind (map_error Rule_out_of_range (rule_parse_integral (fst a) (snd a))) (\<lambda>i. Inr (ex\<lparr>r_id := i\<rparr>))
      else if fst a = ''priority'' then
        rbind (map_error Rule_out_of_range (rule_parse_integral (fst a) (snd a))) (\<lambda>p. Inr (ex\<lparr>r_priority := p\<rparr>))
      else if fst a = ''always_alert'' then
        rbind (map_error (Invalid_always_alert (snd a)) (parse_bool (snd a))) (\<lambda>b. Inr (ex\<lparr>r_always_alert := b\<rparr>))
      else Inl (Lib_exception (''Invalid attribute for rule node: '' @ quote (fst a))))"

fun parse_ids :: "string \<Rightarrow> string list \<Rightarrow> (loader_error, rule_id list) res" where
  "parse_ids v [] = Inr []"
| "parse_ids v (s # ss) =
     rbind (trim s) (\<lambda>t.
     rbind (map_error (Invalid_if_rule v) (parse_integral t)) (\<lambda>i.
     rbind (parse_ids v ss) (\<lambda>is. Inr (i # is))))"

definition unless_attribute :: "string \<times> string \<Rightarrow> unless_rule \<Rightarrow> (loader_error, unless_rule) res" where
  "unless_attribute a ur =
     (if fst a = ''timeout'' then
        rbind (map_error Rule_out_of_range (rule_parse_integral (fst a) (snd a))) (\<lambda>n. Inr (ur\<lparr>ur_timeout := n\<rparr>))
      else Inl (Lib_exception (''Invalid attribute for unless_rule node: '' @ quote (fst a))))"

text \<open>The attributes of \<open>if_field\<close> and \<open>if_trait\<close>: name and kind of match.\<close>

definition match_attribute :: "string \<Rightarrow> string \<times> string \<Rightarrow> string \<times> rule_match \<Rightarrow>
    (loader_error, string \<times> rule_match) res" where
  "match_attribute node a s =
     (if fst a = ''name'' then Inr (snd a, snd s)
      else if fst a = ''match'' then
        (case parse_rule_match (snd a) of
           Some rm \<Rightarrow> Inr (fst s, rm)
         | None \<Rightarrow> Inl (Lib_exception (''Invalid attribute match value '' @ quote (snd a) @ '' : Invalid rule_match value'')))
      else Inl (Lib_exception (''Invalid attribute for '' @ node @ '' node: '' @ quote (fst a))))"

definition load_condition :: "string \<Rightarrow> xml_node \<Rightarrow> rule_id \<Rightarrow> (string, rule_match \<times> string) smap \<Rightarrow>
    (loader_error, (string, rule_match \<times> string) smap) res" where
  "load_condition node sub i m =
     rbind (fold_res (match_attribute node) (node_attributes sub) ([], Match_exact)) (\<lambda>(name, rm).
     rbind (lib_check (name \<noteq> []) (''No name given for '' @ node @ '' node in rule '' @ id_text i)) (\<lambda>_.
     Inr (smap_insert name (rm, node_value sub) m)))"

definition activation_attribute :: "string \<times> string \<Rightarrow> activation_group \<Rightarrow> (loader_error, activation_group) res" where
  "activation_attribute a ag =
     (if fst a = ''time'' then
        rbind (map_error Rule_out_of_range (rule_parse_integral (fst a) (snd a))) (\<lambda>n. Inr (ag\<lparr>ag_time := n\<rparr>))
      else if fst a = ''rate'' then
        rbind (map_error Rule_out_of_range (rule_parse_integral (fst a) (snd a))) (\<lambda>n. Inr (ag\<lparr>ag_rate := n\<rparr>))
      else if fst a = ''reset'' then
        rbind (map_error Rule_out_of_range (rule_parse_bool (fst a) (snd a))) (\<lambda>b. Inr (ag\<lparr>ag_reset := b\<rparr>))
      else Inl (Lib_exception (''Invalid attribute for activation_group node: '' @ quote (fst a))))"

definition load_activation :: "xml_node \<Rightarrow> rule_id \<Rightarrow> (loader_error, activation_group) res" where
  "load_activation sub i =
     rbind (fold_res activation_attribute (node_attributes sub) default_activation) (\<lambda>ag.
     rbind (lib_check (ag_time ag \<noteq> 0) (''No time given for activation_group node in rule '' @ id_text i)) (\<lambda>_.
     rbind (lib_check (ag_rate ag \<noteq> 0) (''No rate given for activation_group node in rule '' @ id_text i)) (\<lambda>_.
     rbind (lib_check (\<not> ag_rate ag < 2)
        (''Invalid rate given for activation_group node in rule id '' @ id_text i @ '': '' @ nat_to_string (unat (ag_rate ag)))) (\<lambda>_.
     Inr (ag\<lparr>ag_group_name := node_value sub\<rparr>)))))"

definition intervention_attribute :: "string \<times> string \<Rightarrow> intervention_rule \<Rightarrow> (loader_error, intervention_rule) res" where
  "intervention_attribute a ir =
     (if fst a = ''name'' then Inr (ir\<lparr>ir_name := snd a\<rparr>)
      else if fst a = ''field'' then Inr (ir\<lparr>ir_field := snd a\<rparr>)
      else if fst a = ''ignore_empty_field'' then
        rbind (map_error Rule_out_of_range (rule_parse_bool (fst a) (snd a))) (\<lambda>b. Inr (ir\<lparr>ir_ignore_empty_field := b\<rparr>))
      else Inl (Lib_exception (''Invalid attribute for intervention node: '' @ quote (fst a))))"

definition load_rule_intervention :: "string list \<Rightarrow> xml_node \<Rightarrow> rule_id \<Rightarrow> (loader_error, intervention_rule) res" where
  "load_rule_intervention known sub i =
     rbind (fold_res intervention_attribute (node_attributes sub)
              \<lparr>ir_name = [], ir_field = [], ir_ignore_empty_field = False\<rparr>) (\<lambda>ir.
     rbind (lib_check (ir_name ir \<noteq> []) (''No name given for intervention node in rule '' @ id_text i)) (\<lambda>_.
     rbind (lib_check (ir_field ir \<noteq> []) (''No field given for intervention node in rule '' @ id_text i)) (\<lambda>_.
     rbind (lib_check (ir_name ir \<in> set known)
        (''Invalid intervention name '' @ quote (ir_name ir) @ '' for rule '' @ id_text i)) (\<lambda>_.
     Inr ir))))"

definition rule_child :: "string list \<Rightarrow> xml_node \<Rightarrow> rule_build \<Rightarrow> (loader_error, rule_build) res" where
  "rule_child known sub rb =
     (let ex = rb_rule rb; v = node_value sub; name = node_name sub in
      if name = ''regex'' then
        rbind (no_attributes ''regex'' sub) (\<lambda>_. Inr (rb\<lparr>rb_ireg := rb_ireg rb @ v\<rparr>))
      else if name = ''fields'' then
        rbind (no_attributes ''fields'' sub) (\<lambda>_.
        rbind (comma_list v) (\<lambda>fs. Inr (rb\<lparr>rb_rule := ex\<lparr>r_regex_fields := r_regex_fields ex @ fs\<rparr>\<rparr>)))
      else if name = ''description'' then
        rbind (no_attributes ''description'' sub) (\<lambda>_. Inr (rb\<lparr>rb_rule := ex\<lparr>r_description := r_description ex @ v\<rparr>\<rparr>))
      else if name = ''if_rule'' then
        rbind (no_attributes ''if_rule'' sub) (\<lambda>_.
        rbind (parse_ids v (split_string v (CHR '',''))) (\<lambda>is.
        Inr (rb\<lparr>rb_rule := ex\<lparr>r_parent_ids := r_parent_ids ex @ is\<rparr>\<rparr>)))
      else if name = ''unless_rule'' then
        rbind (fold_res unless_attribute (node_attributes sub) default_unless) (\<lambda>ur.
        rbind (map_error Rule_out_of_range (rule_parse_integral name v)) (\<lambda>i.
        Inr (rb\<lparr>rb_unless_id := i, rb_rule := ex\<lparr>r_unless := ur\<lparr>ur_id := i\<rparr>\<rparr>\<rparr>)))
      else if name = ''group'' then
        rbind (no_attributes ''group'' sub) (\<lambda>_.
        rbind (comma_list v) (\<lambda>gs. Inr (rb\<lparr>rb_rule := ex\<lparr>r_groups := fold insort_insert gs (r_groups ex)\<rparr>\<rparr>)))
      else if name = ''if_group'' then
        rbind (no_attributes ''if_group'' sub) (\<lambda>_. Inr (rb\<lparr>rb_rule := ex\<lparr>r_trigger_group := v\<rparr>\<rparr>))
      else if name = ''if_field'' then
        rbind (load_condition ''if_field'' sub (r_id ex) (r_trigger_fields ex)) (\<lambda>m. Inr (rb\<lparr>rb_rule := ex\<lparr>r_trigger_fields := m\<rparr>\<rparr>))
      else if name = ''if_trait'' then
        rbind (load_condition ''if_trait'' sub (r_id ex) (r_trigger_traits ex)) (\<lambda>m. Inr (rb\<lparr>rb_rule := ex\<lparr>r_trigger_traits := m\<rparr>\<rparr>))
      else if name = ''activation_group'' then
        rbind (load_activation sub (r_id ex)) (\<lambda>ag. Inr (rb\<lparr>rb_rule := ex\<lparr>r_activation := ag\<rparr>\<rparr>))
      else if name = ''same_field'' then
        rbind (no_attributes ''same_field'' sub) (\<lambda>_. Inr (rb\<lparr>rb_rule := ex\<lparr>r_same_field := v\<rparr>\<rparr>))
      else if name = ''intervention'' then
        rbind (load_rule_intervention known sub (r_id ex)) (\<lambda>ir. Inr (rb\<lparr>rb_rule := ex\<lparr>r_interventions := r_interventions ex @ [ir]\<rparr>\<rparr>))
      else Inl (Lib_exception (''Unsupported rule node child: '' @ name)))"

definition known_id :: "rule_cfg \<Rightarrow> rule_id \<Rightarrow> bool" where
  "known_id cfg i = (find_rule (std_rules cfg) i \<noteq> None \<or> find_rule (group_rules cfg) i \<noteq> None)"

text \<open>The checks of the finished rule; the regular expression is compiled here.\<close>

definition validate_rule :: "regex_lib \<Rightarrow> rule_cfg \<Rightarrow> rule_build \<Rightarrow> (loader_error, rule_data) res" where
  "validate_rule rx cfg rb =
     (let ex = rb_rule rb; i = r_id ex; ireg = rb_ireg rb in
      rbind (lib_check (i \<noteq> 0) ''No id given'') (\<lambda>_.
      rbind (lib_check (\<not> known_id cfg i) (''Duplicate id given: '' @ id_text i)) (\<lambda>_.
      rbind (lib_check (r_priority ex \<noteq> - 1) (''No priority given for rule '' @ id_text i)) (\<lambda>_.
      rbind (lib_check (\<not> (r_parent_ids ex \<noteq> [] \<and> r_trigger_group ex \<noteq> []))
         (''if_rule and if_group are not supported together in rule '' @ id_text i)) (\<lambda>_.
      rbind (lib_check (\<not> (r_same_field ex \<noteq> [] \<and> ag_group_name (r_activation ex) = []))
         (''same_field only works with activation_group in rule '' @ id_text i)) (\<lambda>_.
      rbind (lib_check (\<not> (ur_id (r_unless ex) \<noteq> 0 \<and> \<not> known_id cfg (ur_id (r_unless ex))))
         (''No such unless_rule in rule '' @ id_text i)) (\<lambda>_.
      rbind (lib_check (\<not> (ur_id (r_unless ex) \<noteq> 0 \<and> r_parent_ids ex = []))
         (''unless_rule only works with if_rule in rule '' @ id_text i)) (\<lambda>_.
      rbind (if ireg = [] then Inr ex
             else rbind (check_marks rx (''rule '' @ id_text i) ireg (length (r_regex_fields ex))) (\<lambda>_.
                  Inr (ex\<lparr>r_reg := Some ireg\<rparr>))) (\<lambda>ex.
      rbind (lib_check (r_trigger_group ex = [] \<or> r_trigger_group ex \<in> set (cfg_groups cfg) \<or> r_trigger_group ex = ''!ALWAYS'')
         (''Invalid trigger group '' @ quote (r_trigger_group ex) @ '' for rule '' @ id_text i)) (\<lambda>_.
      rbind (lib_check (ag_group_name (r_activation ex) = [] \<or> ag_group_name (r_activation ex) \<in> set (cfg_groups cfg))
         (''Invalid activation group '' @ quote (ag_group_name (r_activation ex)) @ '' for rule '' @ id_text i)) (\<lambda>_.
      rbind (case dropWhile (\<lambda>g. g \<in> set (cfg_groups cfg)) (r_groups ex) of
               [] \<Rightarrow> Inr ()
             | g # _ \<Rightarrow> Inl (Lib_exception (''Invalid group '' @ quote g @ '' in rule '' @ id_text i))) (\<lambda>_.
      rbind (lib_check (i \<notin> set (r_parent_ids ex))
         (''Invalid if_rule id '' @ quote (id_text i) @ '' in rule '' @ id_text i)) (\<lambda>_.
      Inr ex)))))))))))))"

text \<open>\<open>find_rule(cfg, id)\<close>, else \<open>find_rule(group_rules, id)\<close>, and the child is appended there.\<close>

definition attach :: "rule_id \<Rightarrow> rule \<Rightarrow> rule_cfg \<Rightarrow> rule_cfg option" where
  "attach i ex cfg =
     (case add_child i ex (std_rules cfg) of
        Some rs \<Rightarrow> Some (cfg\<lparr>std_rules := rs\<rparr>)
      | None \<Rightarrow> (case add_child i ex (group_rules cfg) of
          Some rs \<Rightarrow> Some (cfg\<lparr>group_rules := rs\<rparr>)
        | None \<Rightarrow> None))"

definition attach_to :: "string \<Rightarrow> rule_data \<Rightarrow> rule_id \<Rightarrow> rule_cfg \<Rightarrow> (loader_error, rule_cfg) res" where
  "attach_to what ex i cfg =
     (case attach i (Rule ex []) cfg of
        Some cfg' \<Rightarrow> Inr cfg'
      | None \<Rightarrow> Inl (Lib_exception (''Invalid '' @ what @ '' trigger '' @ quote (id_text i) @ '' for rule ''
                   @ id_text (r_id ex) @ '': no such rule id'')))"

definition insert_rule :: "rule_data \<Rightarrow> rule_cfg \<Rightarrow> (loader_error, rule_cfg) res" where
  "insert_rule ex cfg =
     (if r_trigger_group ex \<noteq> [] \<or> ag_group_name (r_activation ex) \<noteq> [] then
        Inr (cfg\<lparr>group_rules := group_rules cfg @ [Rule ex []]\<rparr>)
      else if r_parent_ids ex = [] then Inr (cfg\<lparr>std_rules := std_rules cfg @ [Rule ex []]\<rparr>)
      else fold_res (attach_to ''rule'' ex) (r_parent_ids ex) cfg)"

definition load_rule :: "regex_lib \<Rightarrow> xml_node \<Rightarrow> rule_cfg \<Rightarrow> (loader_error, rule_cfg) res" where
  "load_rule rx node cfg =
     rbind (fold_res rule_attribute (node_attributes node) default_rule) (\<lambda>ex.
     rbind (fold_res (rule_child (cfg_interventions cfg)) (node_children node)
              \<lparr>rb_rule = ex, rb_unless_id = 0, rb_ireg = []\<rparr>) (\<lambda>rb.
     rbind (validate_rule rx cfg rb) (\<lambda>ex.
     rbind (insert_rule ex cfg) (\<lambda>cfg.
     if rb_unless_id rb \<noteq> 0 then attach_to ''unless_rule'' ex (rb_unless_id rb) cfg else Inr cfg))))"

subsection \<open>parse_rules\<close>

definition load_node :: "regex_lib \<Rightarrow> xml_node \<Rightarrow> rule_cfg \<Rightarrow> (loader_error, rule_cfg) res" where
  "load_node rx node cfg =
     (if node_name node = ''group'' then load_group node cfg
      else if node_name node = ''intervention'' then load_intervention node cfg
      else if node_name node = ''format'' then load_format rx node cfg
      else if node_name node = ''rule'' then load_rule rx node cfg
      else Inl (Lib_exception (''Unexpected node, got '' @ quote (node_name node))))"

definition load_root :: "regex_lib \<Rightarrow> xml_node \<Rightarrow> rule_cfg \<Rightarrow> (loader_error, rule_cfg) res" where
  "load_root rx root cfg =
     (if node_name root \<noteq> ''rule_group'' then
        Inl (Lib_exception (''Expected root '' @ quote ''rule_group'' @ '' node, got '' @ quote (node_name root)))
      else rbind (no_attributes ''root'' root) (\<lambda>_. fold_res (load_node rx) (node_children root) cfg))"

text \<open>\<open>file\<close> is the text of the rule file, None when it cannot be opened.\<close>

definition parse_rules :: "regex_lib \<Rightarrow> string option \<Rightarrow> rule_cfg \<Rightarrow> (loader_error, rule_cfg) res" where
  "parse_rules rx file cfg =
     (case file of
        None \<Rightarrow> Inl Open_failed
      | Some text \<Rightarrow> rbind (map_error Xml_exception (xml_parse text)) (\<lambda>root. load_root rx root cfg))"

definition empty_cfg :: rule_cfg where
  "empty_cfg = \<lparr>std_rules = [], group_rules = [], cfg_groups = [], cfg_formats = [], cfg_interventions = []\<rparr>"

end
