(* ===== verification/Startup.thy ===== *)
theory Startup
  imports Account_Lookup Daemon_Configs Rule_Engine Rule_Loader
begin

text \<open>
  The four \<open>main\<close> functions: research/research.cpp, logscan/logscan.cpp, intervention/intervention.cpp and
  diskscan/diskscan.cpp, from the switches of the command line to the call of \<open>daemon()\<close>, and the mode of
  ctguard-research that reads lines from the standard input. The answers of \<open>getopt_long\<close>, the file system
  and the accounts are parameters. Of the messages on the standard error only the reason is kept; the log
  level and the \<open>umask\<close> are not modelled.
\<close>

subsection \<open>The command line\<close>

text \<open>What \<open>getopt_long\<close> answers in turn: the letter of a switch (0 for a long one with a flag, which no table
  has) with its argument; and the arguments that are left.\<close>

record arguments =
  ar_switches :: "(char \<times> string) list"
  ar_rest :: "string list"

record start_options =
  so_cfg_path :: string
  so_verbose :: int
  so_foreground :: bool
  so_configdump :: bool
  so_stdinput :: bool
  so_singlerun :: bool
  so_unit_test :: bool

definition default_options :: "string \<Rightarrow> start_options" where
  "default_options cfg_path =
     \<lparr>so_cfg_path = cfg_path, so_verbose = 0, so_foreground = False, so_configdump = False, so_stdinput = False,
      so_singlerun = False, so_unit_test = False\<rparr>"

datatype switch_end = Shows_version | Shows_help | Bad_switch

definition common_switch :: "char \<Rightarrow> string \<Rightarrow> start_options \<Rightarrow> (switch_end, start_options) res" where
  "common_switch c optarg so =
     (if c = CHR 0x00 then Inr so
      else if c = CHR ''v'' then Inr (so\<lparr>so_verbose := so_verbose so + 1\<rparr>)
      else if c = CHR ''f'' then Inr (so\<lparr>so_foreground := True\<rparr>)
      else if c = CHR ''c'' then Inr (so\<lparr>so_cfg_path := optarg\<rparr>)
      else if c = CHR ''C'' then Inr (so\<lparr>so_configdump := True\<rparr>)
      else if c = CHR ''x'' then Inr (so\<lparr>so_unit_test := True\<rparr>)
      else if c = CHR ''V'' then Inl Shows_version
      else if c = CHR ''h'' then Inl Shows_help
      else Inl Bad_switch)"

definition research_switch :: "char \<Rightarrow> string \<Rightarrow> start_options \<Rightarrow> (switch_end, start_options) res" where
  "research_switch c optarg so = (if c = CHR ''I'' then Inr (so\<lparr>so_stdinput := True\<rparr>) else common_switch c optarg so)"

definition diskscan_switch :: "char \<Rightarrow> string \<Rightarrow> start_options \<Rightarrow> (switch_end, start_options) res" where
  "diskscan_switch c optarg so = (if c = CHR ''S'' then Inr (so\<lparr>so_singlerun := True\<rparr>) else common_switch c optarg so)"

subsection \<open>Refusals\<close>

text \<open>The directory entries \<open>readdir\<close> answers, by their \<open>d_type\<close>.\<close>

datatype entry_type = Entry_dir | Entry_reg | Entry_link | Entry_other

record files =
  fs_stat :: "string \<Rightarrow> (int, file_stat) res"
  fs_text :: "string \<Rightarrow> string option"
  fs_entries :: "string \<Rightarrow> ((string \<times> entry_type) list \<times> bool) option"
  fs_appends :: "string \<Rightarrow> bool"

record system =
  sy_files :: files
  sy_accounts :: accounts
  sy_identity :: identity
  sy_rx :: regex_lib
  sy_ord :: hash_order

datatype rules_error =
    Rules_insecure perm_error
  | Rules_not_parsed loader_error
  | Rules_not_listed

datatype refusal =
    Bad_options
  | Extra_arguments "string list"
  | Config_insecure perm_error
  | Config_invalid cfg_error
  | No_rules_set
  | Rules_refused string rules_error
  | No_rules
  | No_log_files
  | No_actions
  | Group_unknown string
  | User_unknown string
  | Command_unknown string
  | Log_not_opened
  | Output_not_opened string

text \<open>The program shows something on the standard output, or refuses to start, or goes on.\<close>

datatype 'r start = Shows string | Refuses refusal | Starts 'r

fun start_bind :: "'a start \<Rightarrow> ('a \<Rightarrow> 'b start) \<Rightarrow> 'b start" where
  "start_bind (Shows s) f = Shows s"
| "start_bind (Refuses r) f = Refuses r"
| "start_bind (Starts x) f = f x"

definition or_refuse :: "('e \<Rightarrow> refusal) \<Rightarrow> ('e, 'a) res \<Rightarrow> 'a start" where
  "or_refuse f r = (case r of Inl e \<Rightarrow> Refuses (f e) | Inr x \<Rightarrow> Starts x)"

text \<open>The exit code: only logscan without anything to monitor refuses with success.\<close>

definition exit_code :: "'r start \<Rightarrow> nat" where
  "exit_code s = (case s of Refuses r \<Rightarrow> if r = No_log_files then 0 else 1 | _ \<Rightarrow> 0)"

fun read_switches :: "(char \<Rightarrow> string \<Rightarrow> start_options \<Rightarrow> (switch_end, start_options) res) \<Rightarrow> (char \<times> string) list \<Rightarrow>
    start_options \<Rightarrow> (switch_end, start_options) res" where
  "read_switches sw [] so = Inr so"
| "read_switches sw ((c, optarg) # cs) so = rbind (sw c optarg so) (read_switches sw cs)"

definition read_options :: "(char \<Rightarrow> string \<Rightarrow> start_options \<Rightarrow> (switch_end, start_options) res) \<Rightarrow> string \<Rightarrow> string \<Rightarrow> string \<Rightarrow>
    arguments \<Rightarrow> start_options start" where
  "read_options sw default_cfg_path version help args =
     (case read_switches sw (ar_switches args) (default_options default_cfg_path) of
        Inl Shows_version \<Rightarrow> Shows version
      | Inl Shows_help \<Rightarrow> Shows help
      | Inl Bad_switch \<Rightarrow> Refuses Bad_options
      | Inr so \<Rightarrow> if ar_rest args \<noteq> [] then Refuses (Extra_arguments (ar_rest args)) else Starts so)"

definition version_text :: "string \<Rightarrow> string" where
  "version_text name = name @ '' 0.1dev'' @ [newline]"

subsection \<open>The configuration\<close>

definition check_perms :: "system \<Rightarrow> string \<Rightarrow> (perm_error, unit) res" where
  "check_perms sy path = check_cfg_file_perms (sy_accounts sy) (sy_identity sy) (fs_stat (sy_files sy) (c_str path))"

definition file_text :: "system \<Rightarrow> string \<Rightarrow> string option" where
  "file_text sy path = fs_text (sy_files sy) (c_str path)"

definition load_config :: "system \<Rightarrow> (string option \<Rightarrow> (cfg_error, 'c) res) \<Rightarrow> string \<Rightarrow> 'c start" where
  "load_config sy parse path =
     start_bind (or_refuse Config_insecure (check_perms sy path)) (\<lambda>_.
     or_refuse Config_invalid (parse (file_text sy path)))"

definition open_log :: "system \<Rightarrow> start_options \<Rightarrow> string \<Rightarrow> unit start" where
  "open_log sy so path = (if so_foreground so \<or> fs_appends (sy_files sy) (c_str path) then Starts () else Refuses Log_not_opened)"

subsection \<open>The dumps of the configuration\<close>

definition kind_text :: "output_kind \<Rightarrow> string" where
  "kind_text k = (case k of Output_socket \<Rightarrow> ''socket'' | Output_file \<Rightarrow> ''file'')"

definition word_text :: "'w::len word \<Rightarrow> string" where
  "word_text w = nat_to_string (unat w)"

definition research_config_text :: "research_config \<Rightarrow> string" where
  "research_config_text cfg =
     ''START config dump'' @ [newline]
     @ ''    input_path:           '' @ rc_input_path cfg @ [newline]
     @ ''    intervention_kind     '' @ kind_text (rc_intervention_kind cfg) @ [newline]
     @ ''    intervention_path     '' @ rc_intervention_path cfg @ [newline]
     @ ''    log_path:             '' @ rc_log_path cfg @ [newline]
     @ ''    log_priority:         '' @ word_text (rc_log_priority cfg) @ [newline]
     @ ''    mail_fromto           '' @ rc_mail_fromaddr cfg @ [newline]
     @ ''    mail_host             '' @ rc_mail_host cfg @ [newline]
     @ ''    mail_instant          '' @ word_text (rc_mail_instant cfg) @ [newline]
     @ ''    mail_interval         '' @ word_text (rc_mail_interval cfg) @ [newline]
     @ ''    mail_max_sample_count '' @ word_text (rc_mail_max_sample_count cfg) @ [newline]
     @ ''    mail_port             '' @ rc_mail_port cfg @ [newline]
     @ ''    mail_priority         '' @ word_text (rc_mail_priority cfg) @ [newline]
     @ ''    mail_replyaddr        '' @ rc_mail_replyaddr cfg @ [newline]
     @ ''    mail_sample_time      '' @ word_text (rc_mail_sample_time cfg) @ [newline]
     @ ''    mail_toaddr           '' @ rc_mail_toaddr cfg @ [newline]
     @ ''    output_path:          '' @ rc_output_path cfg @ [newline]
     @ ''    rules_directory:      '' @ rc_rules_directory cfg @ [newline]
     @ ''    rules_file:           '' @ rc_rules_file cfg @ [newline]
     @ ''END config dump'' @ [newline]"

definition logscan_config_text :: "logscan_config \<Rightarrow> string" where
  "logscan_config_text cfg =
     ''START config dump'' @ [newline]
     @ ''    check_interval      = '' @ word_text (lc_check_interval cfg) @ '' second(s)'' @ [newline]
     @ ''    log_path            = '' @ lc_log_path cfg @ [newline]
     @ ''    output_kind         = '' @ kind_text (lc_output_kind cfg) @ [newline]
     @ ''    output_path         = '' @ lc_output_path cfg @ [newline]
     @ ''    state_file          = '' @ lc_state_file cfg @ [newline]
     @ ''    state_file_interval = '' @ word_text (lc_state_file_interval cfg) @ '' (relative to check_interval)'' @ [newline]
     @ ''    systemd_input       = '' @ bool_text (lc_systemd_input cfg) @ [newline]
     @ ''    systemd_socket      = '' @ lc_systemd_socket cfg @ [newline]
     @ ''    logfiles:'' @ [newline]
     @ concat (map (\<lambda>lf. ''        path: '' @ setw 20 (lf_path lf) @ '', timeout_warning: ''
         @ word_text (lf_timeout_alert lf) @ '' second(s)'' @ [newline]) (lc_log_files cfg))
     @ ''END config dump'' @ [newline]"

definition dump_whitelist :: "string list \<Rightarrow> string" where
  "dump_whitelist ws = concat (map (\<lambda>w. w @ '', '') ws)"

definition intervention_config_text :: "intervention_config \<Rightarrow> string" where
  "intervention_config_text cfg =
     ''START config dump'' @ [newline]
     @ ''    input_path:           '' @ ic_input_path cfg @ [newline]
     @ ''    log_path:             '' @ ic_log_path cfg @ [newline]
     @ concat (map (\<lambda>a. ''    action:   name: '' @ ia_name a @ ''; cmd: '' @ ia_command a @ ''; user: '' @ ia_user a
         @ ''; group: '' @ ia_group a @ ''; command_timeout: '' @ word_text (ia_command_timeout a) @ ''; regex: '' @ ia_regex a
         @ ''; whitelist: '' @ dump_whitelist (ia_whitelist a) @ '';'' @ [newline]) (ic_actions cfg))
     @ ''END config dump'' @ [newline]"

definition scan_option_text :: "scan_option \<Rightarrow> string" where
  "scan_option_text so = (case so of Scan_full \<Rightarrow> ''FULL'')"

definition diskscan_config_text :: "diskscan_config \<Rightarrow> string" where
  "diskscan_config_text cfg =
     ''START config dump'' @ [newline]
     @ ''    block_size          = '' @ word_text (dc_block_size cfg) @ '' (entries)'' @ [newline]
     @ ''    db_path             = '' @ dc_db_path cfg @ [newline]
     @ ''    diffdb_path         = '' @ dc_diffdb_path cfg @ [newline]
     @ ''    log_path            = '' @ dc_log_path cfg @ [newline]
     @ ''    max_diff_size       = '' @ word_text (dc_max_diff_size cfg) @ '' (bytes)'' @ [newline]
     @ ''    output_kind         = '' @ kind_text (dc_output_kind cfg) @ [newline]
     @ ''    output_path         = '' @ dc_output_path cfg @ [newline]
     @ ''    realtime_ignore     = TODO'' @ [newline]
     @ ''    scaninterval        = '' @ word_text (dc_scaninterval cfg) @ '' second(s)'' @ [newline]
     @ ''    settle_time         = '' @ word_text (dc_settle_time cfg) @ '' millisecond(s)'' @ [newline]
     @ ''    watches:'' @ [newline]
     @ concat (map (\<lambda>w. ''        path: '' @ setw 20 (w_path w) @ '', recursive: '' @ bool_text (w_recursive w)
         @ '', realtime: '' @ bool_text (w_realtime w) @ '', options: '' @ scan_option_text (w_option w)
         @ '', check_diff: '' @ bool_text (w_check_diff w) @ [newline]) (dc_watches cfg))
     @ ''END config dump'' @ [newline]"

subsection \<open>research: the rules\<close>

definition load_rule_file :: "system \<Rightarrow> string \<Rightarrow> rule_cfg \<Rightarrow> (rules_error, rule_cfg) res" where
  "load_rule_file sy path rules =
     rbind (map_error Rules_insecure (check_perms sy path)) (\<lambda>_.
     map_error Rules_not_parsed (parse_rules (sy_rx sy) (file_text sy path) rules))"

text \<open>The regular files of the directory whose names do not start with a dot, in the order of the set of their paths.\<close>

definition is_hidden :: "string \<Rightarrow> bool" where
  "is_hidden name = (take 1 name = ''.'')"

definition rule_path :: "string \<Rightarrow> string \<Rightarrow> string" where
  "rule_path dir name = (if last dir = CHR ''/'' then dir @ name else dir @ ''/'' @ name)"

definition rule_paths :: "string \<Rightarrow> (string \<times> entry_type) list \<Rightarrow> string list" where
  "rule_paths dir entries =
     fold (\<lambda>(name, ty) paths. if ty \<noteq> Entry_reg \<or> is_hidden name then paths else insort_insert (rule_path dir name) paths) entries []"

text \<open>A refusal names the file or the directory.\<close>

definition load_rules :: "system \<Rightarrow> research_config \<Rightarrow> rule_cfg start" where
  "load_rules sy cfg =
     (if rc_rules_file cfg \<noteq> [] then
        or_refuse (Rules_refused (rc_rules_file cfg)) (load_rule_file sy (rc_rules_file cfg) empty_cfg)
      else
        (let dir = rc_rules_directory cfg in
         start_bind (or_refuse (Rules_refused dir) (map_error Rules_insecure (check_perms sy dir))) (\<lambda>_.
         case fs_entries (sy_files sy) (c_str dir) of
           None \<Rightarrow> Refuses (Rules_refused dir Rules_not_listed)
         | Some (entries, failed) \<Rightarrow>
             if failed then Refuses (Rules_refused dir Rules_not_listed)
             else
               (case fold_res (\<lambda>f rules. map_error (Pair f) (load_rule_file sy f rules)) (rule_paths dir entries) empty_cfg of
                  Inl (f, e) \<Rightarrow> Refuses (Rules_refused f e)
                | Inr rules \<Rightarrow> Starts rules))))"

subsection \<open>The four programs up to daemon()\<close>

definition research_help :: string where
  "research_help =
     ''usage:'' @ [newline]
     @ ''  ctguard-research [options]'' @ [newline]
     @ ''    -v --verbose           print debug information (may be specified multiple times)'' @ [newline]
     @ ''    -f --foreground        run in foreground'' @ [newline]
     @ ''    -c --cfg-file PATH     specify configuration file (default: /etc/ctguard/research.conf)'' @ [newline]
     @ ''    -I --input             read input from stdin'' @ [newline]
     @ ''    -C --config-dump       print read configuration and exit'' @ [newline]
     @ ''    -x --unittest          precautions for unit tests (e.g. no timestamps)'' @ [newline]
     @ ''    -V --version           print version and exit'' @ [newline]
     @ ''    -h --help              this help overview'' @ [newline]"

text \<open>The alerts go to a file, unless lines of the standard input are classified.\<close>

definition open_output :: "system \<Rightarrow> start_options \<Rightarrow> research_config \<Rightarrow> unit start" where
  "open_output sy so cfg =
     (if so_stdinput so \<or> fs_appends (sy_files sy) (c_str (rc_output_path cfg)) then Starts ()
      else Refuses (Output_not_opened (rc_output_path cfg)))"

definition research_start :: "system \<Rightarrow> arguments \<Rightarrow> (start_options \<times> research_config \<times> rule_cfg) start" where
  "research_start sy args =
     start_bind (read_options research_switch ''/etc/ctguard/research.conf'' (version_text ''ctguard-research'') research_help args) (\<lambda>so.
     start_bind (load_config sy (research_parse_config (sy_ord sy)) (so_cfg_path so)) (\<lambda>cfg.
     if so_configdump so then Shows (research_config_text cfg)
     else if rc_rules_file cfg = [] \<and> rc_rules_directory cfg = [] then Refuses No_rules_set
     else
       start_bind (load_rules sy cfg) (\<lambda>rules.
       if std_rules rules = [] \<and> group_rules rules = [] then Refuses No_rules
       else
         start_bind (open_log sy so (rc_log_path cfg)) (\<lambda>_.
         start_bind (open_output sy so cfg) (\<lambda>_. Starts (so, cfg, rules))))))"

definition logscan_help :: string where
  "logscan_help =
     ''usage:'' @ [newline]
     @ ''  ctguard-logscan [options]'' @ [newline]
     @ ''    -v --verbose           print debug information (maybe specified multiple times)'' @ [newline]
     @ ''    -f --foreground        run in foreground (useful for debugging and systemd)'' @ [newline]
     @ ''    -c --cfg-file PATH     specify configuration file (default: /etc/ctguard/logscan.conf)'' @ [newline]
     @ ''    -C --config-dump       print read configuration and exit'' @ [newline]
     @ ''    -x --unittest          precautions for unit tests (e.g. no timestamps, output to file)'' @ [newline]
     @ ''    -V --version           print version and exit'' @ [newline]
     @ ''    -h --help              this help overview'' @ [newline]"

definition logscan_start :: "system \<Rightarrow> arguments \<Rightarrow> (start_options \<times> logscan_config) start" where
  "logscan_start sy args =
     start_bind (read_options common_switch ''/etc/ctguard/logscan.conf'' (version_text ''ctguard-logscan'') logscan_help args) (\<lambda>so.
     start_bind (load_config sy (logscan_parse_config (sy_ord sy)) (so_cfg_path so)) (\<lambda>cfg.
     if so_configdump so then Shows (logscan_config_text cfg)
     else if lc_log_files cfg = [] \<and> \<not> lc_systemd_input cfg then Refuses No_log_files
     else start_bind (open_log sy so (lc_log_path cfg)) (\<lambda>_. Starts (so, cfg))))"

text \<open>intervention looks up the groups, users and commands of its actions, with a buffer of 4096 bytes.\<close>

definition check_group :: "system \<Rightarrow> intervention_action \<Rightarrow> unit start" where
  "check_group sy a =
     (if ia_group a = [] then Starts ()
      else
        (case na_getgrnam (sy_accounts sy) (c_str (ia_group a)) 4096 of
           (ret, gr) \<Rightarrow> if ret \<noteq> 0 \<or> gr = None then Refuses (Group_unknown (ia_group a)) else Starts ()))"

definition check_user :: "system \<Rightarrow> intervention_action \<Rightarrow> unit start" where
  "check_user sy a =
     (if ia_user a = [] then Starts ()
      else
        (case na_getpwnam (sy_accounts sy) (c_str (ia_user a)) 4096 of
           (ret, pw) \<Rightarrow> if ret \<noteq> 0 \<or> pw = None then Refuses (User_unknown (ia_user a)) else Starts ()))"

definition check_command :: "system \<Rightarrow> intervention_action \<Rightarrow> unit start" where
  "check_command sy a =
     (case fs_stat (sy_files sy) (c_str (ia_command a)) of
        Inl e \<Rightarrow> Refuses (Command_unknown (ia_command a))
      | Inr st \<Rightarrow> Starts ())"

fun check_actions :: "system \<Rightarrow> intervention_action list \<Rightarrow> unit start" where
  "check_actions sy [] = Starts ()"
| "check_actions sy (a # as) =
     start_bind (check_group sy a) (\<lambda>_. start_bind (check_user sy a) (\<lambda>_. start_bind (check_command sy a) (\<lambda>_. check_actions sy as)))"

definition intervention_help :: string where
  "intervention_help =
     ''usage:'' @ [newline]
     @ ''  ctguard-intervention [options]'' @ [newline]
     @ ''    -v --verbose           print debug information (may be specified multiple times)'' @ [newline]
     @ ''    -f --foreground        run in foreground'' @ [newline]
     @ ''    -c --cfg-file PATH     specify configuration file (default: /etc/ctguard/intervention.conf)'' @ [newline]
     @ ''    -C --config-dump       print read configuration and exit'' @ [newline]
     @ ''    -x --unit-test         precautions for unit tests (e.g. no timestamps)'' @ [newline]
     @ ''    -V --version           print version and exit'' @ [newline]
     @ ''    -h --help              this help overview'' @ [newline]"

definition intervention_start :: "system \<Rightarrow> arguments \<Rightarrow> (start_options \<times> intervention_config) start" where
  "intervention_start sy args =
     start_bind (read_options common_switch ''/etc/ctguard/intervention.conf'' (version_text ''ctguard-intervention'') intervention_help args) (\<lambda>so.
     start_bind (load_config sy (intervention_parse_config (sy_rx sy) (sy_ord sy)) (so_cfg_path so)) (\<lambda>cfg.
     if so_configdump so then Shows (intervention_config_text cfg)
     else if ic_actions cfg = [] then Refuses No_actions
     else start_bind (check_actions sy (ic_actions cfg)) (\<lambda>_.
       start_bind (open_log sy so (ic_log_path cfg)) (\<lambda>_. Starts (so, cfg)))))"

definition diskscan_help :: string where
  "diskscan_help =
     ''usage:'' @ [newline]
     @ ''  ctguard-diskscan [options]'' @ [newline]
     @ ''    -v --verbose           print debug information (maybe specified multiple times)'' @ [newline]
     @ ''    -f --foreground        run in foreground (useful for debugging and systemd)'' @ [newline]
     @ ''    -c --cfg-file PATH     specify configuration file (default: /etc/ctguard/diskscan.conf)'' @ [newline]
     @ ''    -C --dump-config       print read configuration and exit'' @ [newline]
     @ ''    -S --singlescan        run only a single scan and exit'' @ [newline]
     @ ''    -x --unittest          precautions for unit tests (e.g. no timestamps, output to file)'' @ [newline]
     @ ''    -V --version           print version and exit'' @ [newline]
     @ ''    -h --help              this help overview'' @ [newline]"

definition diskscan_start :: "system \<Rightarrow> arguments \<Rightarrow> (start_options \<times> diskscan_config) start" where
  "diskscan_start sy args =
     start_bind (read_options diskscan_switch ''/etc/ctguard/diskscan.conf'' (version_text ''ctguard-diskscan'') diskscan_help args) (\<lambda>so.
     start_bind (load_config sy (diskscan_read_config (sy_rx sy) (sy_ord sy)) (so_cfg_path so)) (\<lambda>cfg.
     if so_configdump so then Shows (diskscan_config_text cfg)
     else start_bind (open_log sy so (dc_log_path cfg)) (\<lambda>_. Starts (so, cfg))))"

subsection \<open>research: lines from the standard input\<close>

text \<open>What is shown for a line.\<close>

definition intervention_notes :: "event \<Rightarrow> string" where
  "intervention_notes e =
     concat (map (\<lambda>i. case map_of (ev_fields e) (ir_field i) of
         None \<Rightarrow> []
       | Some v \<Rightarrow> ''Would fire intervention '' @ quote (ir_name i) @ '' with argument '' @ quote v @ ''.'')
       (ev_interventions e))"

definition stdin_answer :: "research_config \<Rightarrow> event \<Rightarrow> string" where
  "stdin_answer cfg e =
     [newline] @ ''Rule matched:'' @ [newline]
     @ [CHR 0x09] @ ''rule id  : '' @ word_text (ev_rule_id e) @ [newline]
     @ [CHR 0x09] @ ''priority : '' @ word_text (ev_priority e) @ [newline]
     @ [CHR 0x09] @ ''message  : '' @ (if ev_description e = [] then ''((none))'' else ev_description e) @ [newline]
     @ (if rc_log_priority cfg \<le> ev_priority e then
          ''Would create alert with priority '' @ word_text (ev_priority e) @ ''.'' @ [newline] @ intervention_notes e
        else ''Would not create any alert.'' @ [newline])"

definition stdin_greeting :: string where
  "stdin_greeting =
     ''ctguard-research'' @ [newline, newline] @ ''  Enter loginput to see its handling.'' @ [newline]
     @ ''   - use '' @ quote ''quit'' @ '' to exit'' @ [newline]"

definition line_event :: "string \<Rightarrow> source_event" where
  "line_event line = default_source_event\<lparr>se_message := line\<rparr>"

text \<open>\<open>RUNNING\<close> stays true: no handler of a signal is set in this mode. \<open>lines\<close>: what \<open>getline\<close> gives before it fails;
  then the line stays empty. \<open>clock i\<close>: the time at which the line number \<open>i\<close> is classified. The result is the
  text shown and how the loop ends, None when it goes on forever; an exception of \<open>process_log\<close> is not caught.
  What \<open>process_log\<close> itself prints when asked to be verbose is not modelled.\<close>

partial_function (option) stdin_loop :: "regex_lib \<Rightarrow> (int \<Rightarrow> string) \<Rightarrow> research_config \<Rightarrow> rule_cfg \<Rightarrow> (nat \<Rightarrow> int) \<Rightarrow> nat \<Rightarrow>
    string list \<Rightarrow> rules_state \<Rightarrow> string \<Rightarrow> (string \<times> (engine_error, unit) res) option" where
  "stdin_loop rx fmt cfg rules clock i lines states out =
     (let (line, rest) = (case lines of [] \<Rightarrow> ([], []) | l # ls \<Rightarrow> (l, ls)) in
      if line = ''quit'' then Some (out @ [newline] @ ''>'' @ [newline] @ ''Ending'' @ [newline], Inr ())
      else
        (case process_log rx fmt (clock i) (line_event line) rules states of
           Inl err \<Rightarrow> Some (out @ [newline] @ ''>'', Inl err)
         | Inr (e, states') \<Rightarrow>
             stdin_loop rx fmt cfg rules clock (Suc i) rest states' (out @ [newline] @ ''>'' @ stdin_answer cfg e)))"

definition stdin_run :: "regex_lib \<Rightarrow> (int \<Rightarrow> string) \<Rightarrow> research_config \<Rightarrow> rule_cfg \<Rightarrow> (nat \<Rightarrow> int) \<Rightarrow> string list \<Rightarrow>
    (string \<times> (engine_error, unit) res) option" where
  "stdin_run rx fmt cfg rules clock lines = stdin_loop rx fmt cfg rules clock 0 lines [] stdin_greeting"

end
