(* ===== verification/Xml_Parser_Facts.thy ===== *)
theory Xml_Parser_Facts
  imports Xml_Parser
begin

text \<open>
  The XML parser returns for every text, its escape flag never gets set, and it reads back every
  printed node whose names, attribute values and text are representable.
\<close>

subsection \<open>Totality\<close>

definition fuel_error :: "(xml_error, 'a) res \<Rightarrow> bool" where
  "fuel_error r = (r = Inl Xml_out_of_fuel)"

lemma fuel_error_simps [simp]:
  "\<not> fuel_error (Inr x)" "fuel_error (Inl e) \<longleftrightarrow> e = Xml_out_of_fuel" "\<not> fuel_error (xml_fail y msg)"
  by (simp_all add: fuel_error_def xml_fail_def)

lemma fuel_error_rbind: "fuel_error (rbind m f) \<longleftrightarrow> fuel_error m \<or> (\<exists>a. m = Inr a \<and> fuel_error (f a))"
  by (cases m) auto

lemma get_char_raw_fuel [simp]: "\<not> fuel_error (get_char_raw x)"
  by (induction x rule: get_char_raw.induct) (subst get_char_raw.simps, auto simp: Let_def split: list.split)

lemma get_char_low_fuel [simp]: "\<not> fuel_error (get_char_low x)"
  by (auto simp: get_char_low_def fuel_error_rbind)

lemma skip_command_fuel [simp]: "\<not> fuel_error (skip_command x)"
  by (induction x rule: skip_command.induct) (subst skip_command.simps, auto simp: fuel_error_rbind)

lemma xml_get_char_fuel [simp]: "\<not> fuel_error (xml_get_char x)"
proof (induction x rule: xml_get_char.induct)
  case (1 x)
  then show ?case by (subst xml_get_char.simps) (fastforce simp: fuel_error_rbind split: if_splits)
qed

lemma take_chars_fuel [simp]: "\<not> fuel_error (take_chars P c acc x)"
  by (induction P c acc x rule: take_chars.induct) (subst take_chars.simps, auto simp: fuel_error_rbind)

lemma xml_turn_fuel [simp]: "\<not> fuel_error (xml_turn s l x)"
  by (cases s) (auto simp: xml_turn_def fuel_error_rbind step_initial_def step_open_tag_key_def step_body_def
      step_attr_key_def step_attr_value_def step_open_tag_attr_def step_close_tag_def Let_def)

lemma take_chars_read:
  "take_chars P c acc x = Inr (c', cs, x') \<Longrightarrow> xp_before x = c # b \<Longrightarrow>
   xml_left x' \<le> xml_left x \<and> (\<exists>b'. xp_before x' = c' # b') \<and> (xp_escaped x \<or> \<not> xp_escaped x')"
proof (induction P c acc x arbitrary: b rule: take_chars.induct)
  case (1 P c acc x)
  show ?case
  proof (cases "P (xp_escaped x) c")
    case False
    with "1.prems" show ?thesis by (auto simp: take_chars.simps [of P c])
  next
    case True
    with "1.prems" obtain d y where d: "xml_get_char x = Inr (d, y)"
      and r: "take_chars P d (acc @ [c]) y = Inr (c', cs, x')"
      by (subst (asm) take_chars.simps) (auto simp: rbind_Inr_iff)
    from xml_get_char_read [OF d] obtain b' where "xp_before y = d # b'" "xml_left y < xml_left x"
      "xp_escaped x \<or> \<not> xp_escaped y" by (auto simp: just_read_def)
    with "1.IH" [OF True d refl r] show ?thesis by auto
  qed
qed

lemma xml_unget_left: "xp_before x = c # b \<Longrightarrow> xml_left (xml_unget x) = Suc (xml_left x)"
  by (simp add: xml_unget_def xml_left_def)

lemma xml_unget_escaped [simp]: "xp_escaped (xml_unget x) = xp_escaped x"
  by (simp add: xml_unget_def split: list.split)

fun state_rank :: "parse_state \<Rightarrow> nat" where
  "state_rank Open_tag_key = 2"
| "state_rank Open_tag_attr = 1"
| "state_rank Body = 1"
| "state_rank s = 0"

definition run_measure :: "parse_state \<Rightarrow> xml_parser \<Rightarrow> nat" where
  "run_measure s x = 3 * xml_left x + state_rank s"

fun outcome_ok :: "parse_state \<Rightarrow> xml_parser \<Rightarrow> xml_outcome \<Rightarrow> bool" where
  "outcome_ok s x (Continue s' l' x') =
     (run_measure s' x' < run_measure s x \<and> (xp_escaped x \<or> \<not> xp_escaped x') \<and> xml_left x' \<le> xml_left x)"
| "outcome_ok s x (Return_node node x') = (xml_left x' < xml_left x \<and> (xp_escaped x \<or> \<not> xp_escaped x'))"
| "outcome_ok s x (Parse_child l' x') =
     (s = Body \<and> xml_left x' \<le> xml_left x \<and> (xp_escaped x \<or> \<not> xp_escaped x'))"

lemma xml_turn_ok:
  assumes "xml_turn s l x = Inr r"
  shows "outcome_ok s x r"
proof -
  from assms obtain c y where c: "xml_get_char x = Inr (c, y)" "xml_step s l c y = Inr r"
    by (auto simp: xml_turn_def rbind_Inr_iff xml_fail_def split: if_splits)
  from xml_get_char_read [OF c(1)] obtain b where y: "xp_before y = c # b" "xml_left y < xml_left x"
    "xp_escaped x \<or> \<not> xp_escaped y" by (auto simp: just_read_def)
  note take = take_chars_read [OF _ y(1)]
  note defs = rbind_Inr_iff run_measure_def xml_fail_def Let_def
  show ?thesis
  proof (cases s)
    case Initial
    with c(2) y show ?thesis by (auto simp: step_initial_def defs split: if_splits dest!: take)
  next
    case Open_tag_key
    with c(2) y show ?thesis by (auto simp: step_open_tag_key_def defs xml_unget_left split: if_splits dest!: take)
  next
    case Open_tag_attr
    with c(2) y show ?thesis by (auto simp: step_open_tag_attr_def defs xml_unget_left split: if_splits dest!: take)
  next
    case Body
    with c(2) y show ?thesis by (auto simp: step_body_def defs xml_unget_left split: if_splits dest!: take)
  next
    case Close_tag
    with c(2) y show ?thesis by (auto simp: step_close_tag_def defs split: if_splits dest!: take)
  next
    case Attr_key
    with c(2) y show ?thesis by (auto simp: step_attr_key_def defs split: if_splits dest!: take)
  next
    case Attr_value
    with c(2) y show ?thesis by (auto simp: step_attr_value_def defs split: if_splits dest!: take)
  qed
qed

lemma xml_run_ok:
  assumes "run_measure s x < n"
  shows "\<not> fuel_error (xml_run n s l x) \<and>
    (\<forall>node y. xml_run n s l x = Inr (node, y) \<longrightarrow> xml_left y < xml_left x \<and> (xp_escaped x \<or> \<not> xp_escaped y))"
  using assms
proof (induction n arbitrary: s l x)
  case 0
  then show ?case by simp
next
  case (Suc n)
  show ?case
  proof (cases "xml_turn s l x")
    case (Inl e)
    then show ?thesis using xml_turn_fuel [of s l x] by simp
  next
    case (Inr r)
    note ok = xml_turn_ok [OF Inr]
    show ?thesis
    proof (cases r)
      case (Continue s' l' x')
      with ok Suc.prems Suc.IH [of s' x' l'] Inr show ?thesis by auto
    next
      case (Return_node node x')
      with ok Inr show ?thesis by auto
    next
      case (Parse_child l' x')
      with ok have B: "s = Body" "xml_left x' \<le> xml_left x" "xp_escaped x \<or> \<not> xp_escaped x'" by auto
      then have m1: "run_measure Initial x' < n" using Suc.prems by (simp add: run_measure_def)
      note child = Suc.IH [OF m1, of no_locals]
      have m2: "run_measure Body y < n" if "xml_left y < xml_left x'" for y
        using that B Suc.prems by (simp add: run_measure_def)
      show ?thesis
      proof (cases "xml_run n Initial no_locals x'")
        case (Inl e)
        with child Inr Parse_child show ?thesis by auto
      next
        case (Inr p)
        obtain node y where p: "p = (node, y)" by (cases p)
        have y: "xml_left y < xml_left x'" "xp_escaped x' \<or> \<not> xp_escaped y" using child Inr p by auto
        from Suc.IH [OF m2 [OF y(1)]] y B show ?thesis
          using \<open>xml_turn s l x = Inr r\<close> Parse_child Inr p by fastforce
      qed
    qed
  qed
qed

text \<open>
  C39: The XML parser returns. For every text \<open>xml_parse\<close> gives a node or a parse error: the three
  units of fuel per character suffice.
\<close>

theorem xml_parse_total: "xml_parse s \<noteq> Inl Xml_out_of_fuel"
proof -
  have "run_measure Initial (xml_init s) < 3 * length s + 4"
    by (simp add: run_measure_def xml_init_def xml_left_def)
  from xml_run_ok [OF this, of no_locals] show ?thesis
    by (auto simp: xml_parse_def fuel_error_def [symmetric] fuel_error_rbind)
qed

subsection \<open>The escape flag\<close>

text \<open>
  Backslashes do not escape. While parsing any text the escape flag stays false, so that the
  branch of \<open>get_char_low\<close> that would read the character after a backslash is never taken: a
  read is one \<open>get_char_raw\<close>.
\<close>

theorem xml_never_escaped:
  assumes "\<not> xp_escaped x"
  shows "get_char_low x = get_char_raw x
    \<and> (\<forall>n s l node y. run_measure s x < n \<and> xml_run n s l x = Inr (node, y) \<longrightarrow> \<not> xp_escaped y)"
proof
  have "x'\<lparr>xp_escaped := False\<rparr> = x'" if "get_char_raw x = Inr (c, x')" for c x'
    using get_char_raw_read [OF that] assms by simp
  then show "get_char_low x = get_char_raw x"
    using get_char_raw_read [of x] assms
    by (cases "get_char_raw x") (auto simp: get_char_low_def)
  show "\<forall>n s l node y. run_measure s x < n \<and> xml_run n s l x = Inr (node, y) \<longrightarrow> \<not> xp_escaped y"
    using xml_run_ok assms by blast
qed

theorem xml_never_escaped_witness:
  "get_char_low (xml_init [CHR 0x5C, CHR ''n'']) = get_char_raw (xml_init [CHR 0x5C, CHR ''n''])"
  using xml_never_escaped [of "xml_init [CHR 0x5C, CHR ''n'']"] by (simp add: xml_init_def)

subsection \<open>Reading printed nodes\<close>

text \<open>\<open>xat x rest\<close>: the parser stands before \<open>rest\<close>.\<close>

definition xat :: "xml_parser \<Rightarrow> string \<Rightarrow> bool" where
  "xat x rest = (xp_after x = rest \<and> \<not> xp_escaped x)"

text \<open>Characters that are read as they are, before the text that follows.\<close>

definition plain :: "char \<Rightarrow> bool" where
  "plain c = (c \<noteq> CHR 0x0A \<and> c \<noteq> CHR ''<'' \<and> c \<noteq> CHR 0x00)"

definition plain_before :: "char \<Rightarrow> string \<Rightarrow> bool" where
  "plain_before c rest = (c \<noteq> CHR 0x0A \<and> c \<noteq> CHR 0x00 \<and> (c = CHR ''<'' \<longrightarrow> (\<forall>cs. rest \<noteq> CHR ''!'' # cs)))"

lemma plain_plain_before [simp]: "plain c \<Longrightarrow> plain_before c rest"
  by (simp add: plain_def plain_before_def)

lemma xml_get_char_plain:
  assumes "xat x (c # rest)" "plain_before c rest"
  shows "xml_get_char x = Inr (c, xml_consume x) \<and> xat (xml_consume x) rest
    \<and> (\<exists>b. xp_before (xml_consume x) = c # b)"
proof -
  have "get_char_low x = Inr (c, xml_consume x)"
    using assms
    by (simp add: get_char_low_def get_char_raw.simps [of x] xat_def plain_before_def xml_consume_def Let_def)
  moreover have "\<not> (c = CHR ''<'' \<and> xml_peek (xml_consume x) = Some (CHR ''!''))"
    using assms by (auto simp: xat_def plain_before_def xml_consume_def xml_peek_def split: list.splits)
  ultimately show ?thesis using assms
    by (auto simp: xml_get_char.simps [of x] xat_def xml_consume_def)
qed

lemma take_chars_plain:
  assumes "xat x (w @ d # rest)" "\<forall>c \<in> set w. plain c \<and> P False c" "\<not> P False d" "plain_before d rest"
    "P False c"
  shows "\<exists>x'. take_chars P c acc x = Inr (d, acc @ c # w, x') \<and> xat x' rest \<and> (\<exists>b. xp_before x' = d # b)"
  using assms
proof (induction w arbitrary: x c acc)
  case Nil
  then have e: "\<not> xp_escaped x" by (simp add: xat_def)
  from Nil xml_get_char_plain [of x d rest] have
    g: "xml_get_char x = Inr (d, xml_consume x)" "xat (xml_consume x) rest" "\<exists>b. xp_before (xml_consume x) = d # b"
    by auto
  have "take_chars P d (acc @ [c]) (xml_consume x) = Inr (d, acc @ [c], xml_consume x)"
    using Nil g(2) by (simp add: take_chars.simps [of P d] xat_def)
  with g e Nil.prems show ?case by (simp add: take_chars.simps [of P c])
next
  case (Cons a w)
  then have e: "\<not> xp_escaped x" by (simp add: xat_def)
  from Cons.prems xml_get_char_plain [of x a "w @ d # rest"] have
    g: "xml_get_char x = Inr (a, xml_consume x)" "xat (xml_consume x) (w @ d # rest)"
    by auto
  from Cons.IH [OF g(2), of a "acc @ [c]"] Cons.prems obtain x' where
    "take_chars P a (acc @ [c]) (xml_consume x) = Inr (d, acc @ c # a # w, x')" "xat x' rest" "\<exists>b. xp_before x' = d # b"
    by auto
  with g e Cons.prems show ?case by (simp add: take_chars.simps [of P c])
qed

text \<open>One turn of the loop reads a whole word and the character that ends it.\<close>

lemma turn_reads:
  assumes "xat x (w @ d # rest)" "\<forall>c \<in> set w. plain c \<and> P False c" "\<not> P False d" "plain_before d rest"
  shows "\<exists>c y x'. xml_get_char x = Inr (c, y) \<and> c \<noteq> CHR 0x00 \<and> (w \<noteq> [] \<or> c = d) \<and>
           take_chars P c acc y = Inr (d, acc @ w, x') \<and> xat x' rest \<and> (\<exists>b. xp_before x' = d # b)"
proof (cases w)
  case Nil
  with assms xml_get_char_plain [of x d rest] have
    g: "xml_get_char x = Inr (d, xml_consume x)" "xat (xml_consume x) rest" "\<exists>b. xp_before (xml_consume x) = d # b"
    by auto
  have "take_chars P d acc (xml_consume x) = Inr (d, acc, xml_consume x)"
    using assms g(2) by (simp add: take_chars.simps [of P d] xat_def)
  with g Nil assms(4) show ?thesis by (auto simp: plain_before_def)
next
  case (Cons a v)
  with assms xml_get_char_plain [of x a "v @ d # rest"] have
    g: "xml_get_char x = Inr (a, xml_consume x)" "xat (xml_consume x) (v @ d # rest)" "a \<noteq> CHR 0x00"
    by (auto simp: plain_def)
  from take_chars_plain [OF g(2), of P a acc] assms Cons obtain x' where
    "take_chars P a acc (xml_consume x) = Inr (d, acc @ w, x')" "xat x' rest" "\<exists>b. xp_before x' = d # b"
    by auto
  with g Cons show ?thesis by auto
qed

lemma xat_unget: "xat x rest \<Longrightarrow> xp_before x = d # b \<Longrightarrow> xat (xml_unget x) (d # rest)"
  by (simp add: xat_def xml_unget_def)

lemma xat_peek: "xat x (c # rest) \<Longrightarrow> xml_peek x = Some c \<and> xat (xml_consume x) rest"
  by (simp add: xat_def xml_peek_def xml_consume_def)

definition name_ok :: "string \<Rightarrow> bool" where
  "name_ok n = (\<forall>c \<in> set n. isalnum c \<or> c = CHR ''_'')"

definition attribute_ok :: "string \<times> string \<Rightarrow> bool" where
  "attribute_ok a =
     (name_ok (fst a) \<and> fst a \<noteq> [] \<and> isalnum (hd (fst a))
      \<and> (\<forall>c \<in> set (snd a). isprint c \<and> c \<noteq> CHR ''<'' \<and> c \<noteq> CHR 0x22))"

definition value_ok :: "string \<Rightarrow> bool" where
  "value_ok v = (\<forall>c \<in> set v. isprint c \<and> c \<noteq> CHR ''<'')"

fun node_ok :: "xml_node \<Rightarrow> bool" where
  "node_ok (XMLNode n as v cs) =
     (name_ok n \<and> (\<forall>a \<in> set as. attribute_ok a) \<and> distinct (map fst as) \<and> value_ok v \<and> (\<forall>c \<in> set cs. node_ok c))"

lemma name_plain: "name_ok n \<Longrightarrow> c \<in> set n \<Longrightarrow> plain c \<and> name_char False c"
  by (auto simp: name_ok_def name_char_def plain_def ctype_defs)

lemma isalnum_plain: "isalnum c \<Longrightarrow> plain c"
  by (auto simp: plain_def ctype_defs)

lemma isprint_plain: "isprint c \<Longrightarrow> c \<noteq> CHR ''<'' \<Longrightarrow> plain c"
  by (auto simp: plain_def ctype_defs)

text \<open>With enough fuel the loop ends with \<open>node\<close> before \<open>rest\<close>.\<close>

definition xml_runs :: "parse_state \<Rightarrow> xml_locals \<Rightarrow> xml_parser \<Rightarrow> xml_node \<Rightarrow> string \<Rightarrow> bool" where
  "xml_runs s l x node rest = (\<exists>k x'. xat x' rest \<and> (\<forall>n \<ge> k. xml_run n s l x = Inr (node, x')))"

lemma runs_continue:
  assumes "xml_turn s l x = Inr (Continue s' l' x')" "xml_runs s' l' x' node rest"
  shows "xml_runs s l x node rest"
proof -
  from assms(2) obtain k y where k: "xat y rest" "\<forall>n \<ge> k. xml_run n s' l' x' = Inr (node, y)"
    by (auto simp: xml_runs_def)
  have "xml_run n s l x = Inr (node, y)" if "n \<ge> Suc k" for n
    using that k(2) assms(1) by (cases n) auto
  with k(1) show ?thesis by (auto simp: xml_runs_def)
qed

lemma runs_return:
  assumes "xml_turn s l x = Inr (Return_node node x')" "xat x' rest"
  shows "xml_runs s l x node rest"
proof -
  have "xml_run n s l x = Inr (node, x')" if "n \<ge> 1" for n
    using that assms(1) by (cases n) auto
  with assms(2) show ?thesis by (auto simp: xml_runs_def)
qed

lemma runs_child:
  assumes "xml_turn s l x = Inr (Parse_child l' x')" "xml_runs Initial no_locals x' child mid"
    and "\<And>y. xat y mid \<Longrightarrow> xml_runs Body (l'\<lparr>loc_children := loc_children l' @ [child]\<rparr>) y node rest"
  shows "xml_runs s l x node rest"
proof -
  from assms(2) obtain k y where k: "xat y mid" "\<forall>n \<ge> k. xml_run n Initial no_locals x' = Inr (child, y)"
    by (auto simp: xml_runs_def)
  from assms(3) [OF k(1)] obtain k' z where k': "xat z rest"
    "\<forall>n \<ge> k'. xml_run n Body (l'\<lparr>loc_children := loc_children l' @ [child]\<rparr>) y = Inr (node, z)"
    by (auto simp: xml_runs_def)
  have "xml_run n s l x = Inr (node, z)" if "n \<ge> Suc (max k k')" for n
    using that k k' assms(1) by (cases n) auto
  with k'(1) show ?thesis by (auto simp: xml_runs_def)
qed

lemma turn_initial:
  assumes "xat x (CHR ''<'' # rest)" "\<forall>cs. rest \<noteq> CHR ''!'' # cs"
  shows "\<exists>x'. xml_turn Initial l x = Inr (Continue Open_tag_key l x') \<and> xat x' rest"
proof -
  obtain c y x' where "xml_get_char x = Inr (c, y)" "c \<noteq> CHR 0x00"
      "take_chars space_char c [] y = Inr (CHR ''<'', [], x')" "xat x' rest"
    using turn_reads [of x "[]" "CHR ''<''" rest space_char "[]"] assms
    by (auto simp: plain_before_def space_char_def ctype_defs)
  then show ?thesis by (auto simp: xml_turn_def step_initial_def xat_def)
qed

lemma turn_open_tag_key:
  assumes "xat x (n @ d # rest)" "name_ok n" "\<not> name_char False d" "plain d"
  shows "\<exists>x'. xml_turn Open_tag_key l x = Inr (Continue Open_tag_attr (l\<lparr>loc_name := loc_name l @ n\<rparr>) x') \<and> xat x' (d # rest)"
proof -
  obtain c y x' b where "xml_get_char x = Inr (c, y)" "c \<noteq> CHR 0x00"
      "take_chars name_char c (loc_name l) y = Inr (d, loc_name l @ n, x')" "xat x' rest" "xp_before x' = d # b"
    using turn_reads [of x n d rest name_char "loc_name l"] assms name_plain [OF assms(2)] by auto
  then show ?thesis by (auto simp: xml_turn_def step_open_tag_key_def xat_unget)
qed

lemma turn_attr_start:
  assumes "xat x (CHR '' '' # k # rest)" "isalnum k"
  shows "\<exists>x'. xml_turn Open_tag_attr l x = Inr (Continue Attr_key l x') \<and> xat x' (k # rest)"
proof -
  obtain c y x' b where "xml_get_char x = Inr (c, y)" "c \<noteq> CHR 0x00"
      "take_chars space_char c [] y = Inr (k, '' '', x')" "xat x' rest" "xp_before x' = k # b"
    using turn_reads [of x "'' ''" k rest space_char "[]"] assms isalnum_plain [OF assms(2)]
    by (auto simp: plain_def space_char_def isalnum_not_isspace) (auto simp: ctype_defs plain_before_def)
  then show ?thesis using assms(2) by (auto simp: xml_turn_def step_open_tag_attr_def xat_unget)
qed

lemma turn_attr_key:
  assumes "xat x (k @ CHR ''='' # CHR 0x22 # rest)" "name_ok k" "k \<notin> set (map fst (loc_attributes l))"
  shows "\<exists>x'. xml_turn Attr_key l x = Inr (Continue Attr_value (l\<lparr>loc_attr_key := k\<rparr>) x') \<and> xat x' rest"
proof -
  obtain c y x' where "xml_get_char x = Inr (c, y)" "c \<noteq> CHR 0x00"
      "take_chars name_char c [] y = Inr (CHR ''='', k, x')" "xat x' (CHR 0x22 # rest)"
    using turn_reads [of x k "CHR ''=''" "CHR 0x22 # rest" name_char "[]"] assms name_plain [OF assms(2)]
    by (auto simp: plain_before_def name_char_def ctype_defs)
  then show ?thesis using assms(3) xat_peek [of x' "CHR 0x22" rest]
    by (auto simp: xml_turn_def step_attr_key_def xat_def)
qed

lemma turn_attr_value:
  assumes "xat x (v @ CHR 0x22 # rest)" "\<forall>c \<in> set v. isprint c \<and> c \<noteq> CHR ''<'' \<and> c \<noteq> CHR 0x22"
  shows "\<exists>x'. xml_turn Attr_value l x = Inr (Continue Open_tag_attr
      (l\<lparr>loc_attributes := loc_attributes l @ [(loc_attr_key l, v)], loc_attr_key := [], loc_attr_value := []\<rparr>) x') \<and> xat x' rest"
proof -
  obtain c y x' where "xml_get_char x = Inr (c, y)" "c \<noteq> CHR 0x00"
      "take_chars value_char c [] y = Inr (CHR 0x22, v, x')" "xat x' rest"
    using turn_reads [of x v "CHR 0x22" rest value_char "[]"] assms
    by (auto simp: plain_before_def value_char_def isprint_plain)
  then show ?thesis by (auto simp: xml_turn_def step_attr_value_def xat_def)
qed

lemma turn_open_end:
  assumes "xat x (CHR ''>'' # rest)"
  shows "\<exists>x'. xml_turn Open_tag_attr l x = Inr (Continue Body l x') \<and> xat x' rest"
proof -
  obtain c y x' where "xml_get_char x = Inr (c, y)" "c \<noteq> CHR 0x00"
      "take_chars space_char c [] y = Inr (CHR ''>'', [], x')" "xat x' rest"
    using turn_reads [of x "[]" "CHR ''>''" rest space_char "[]"] assms
    by (auto simp: plain_before_def space_char_def ctype_defs)
  then show ?thesis by (auto simp: xml_turn_def step_open_tag_attr_def xat_def ctype_defs)
qed

lemma body_plain: "isprint c \<Longrightarrow> c \<noteq> CHR ''<'' \<Longrightarrow> plain c \<and> body_char False c \<and> c \<noteq> CHR 0x09"
  by (auto simp: body_char_def plain_def ctype_defs)

lemma body_reads:
  assumes "xat x (v @ CHR ''<'' # rest)" "value_ok v" "\<forall>cs. rest \<noteq> CHR ''!'' # cs"
  shows "\<exists>c y x' b. xml_get_char x = Inr (c, y) \<and> c \<noteq> CHR 0x00 \<and>
      take_chars body_char c [] y = Inr (CHR ''<'', v, x') \<and> xat x' rest \<and> xp_before x' = CHR ''<'' # b"
proof -
  have "\<forall>c \<in> set v. plain c \<and> body_char False c" using assms(2) by (auto simp: value_ok_def dest: body_plain)
  moreover have "\<not> body_char False (CHR ''<'')" by (simp add: body_char_def)
  moreover have "plain_before (CHR ''<'') rest" using assms(3) by (simp add: plain_before_def)
  ultimately show ?thesis using turn_reads [OF assms(1), of body_char "[]"] by fastforce
qed

lemma value_no_tab: "value_ok v \<Longrightarrow> filter (\<lambda>c. c \<noteq> CHR 0x09) v = v"
  by (auto simp: value_ok_def filter_id_conv dest: body_plain)

lemma turn_body_close:
  assumes "xat x (v @ CHR ''<'' # CHR ''/'' # rest)" "value_ok v"
  shows "\<exists>x'. xml_turn Body l x = Inr (Continue Close_tag (l\<lparr>loc_value := loc_value l @ v\<rparr>) x') \<and> xat x' rest"
proof -
  obtain c y x' b where "xml_get_char x = Inr (c, y)" "c \<noteq> CHR 0x00"
      "take_chars body_char c [] y = Inr (CHR ''<'', v, x')" "xat x' (CHR ''/'' # rest)"
    using body_reads [OF assms(1,2)] by auto
  then show ?thesis using xat_peek [of x' "CHR ''/''" rest] value_no_tab [OF assms(2)]
    by (auto simp: xml_turn_def step_body_def Let_def xat_def)
qed

lemma turn_body_child:
  assumes "xat x (v @ CHR ''<'' # k # rest)" "value_ok v" "k \<noteq> CHR ''!''" "k \<noteq> CHR ''/''"
  shows "\<exists>x'. xml_turn Body l x = Inr (Parse_child (l\<lparr>loc_value := loc_value l @ v\<rparr>) x') \<and> xat x' (CHR ''<'' # k # rest)"
proof -
  obtain c y x' b where *: "xml_get_char x = Inr (c, y)" "c \<noteq> CHR 0x00"
      "take_chars body_char c [] y = Inr (CHR ''<'', v, x')" "xat x' (k # rest)" "xp_before x' = CHR ''<'' # b"
    using body_reads [OF assms(1,2)] assms(3) by auto
  then have "xat (xml_unget x') (CHR ''<'' # k # rest)" by (blast intro: xat_unget)
  then show ?thesis using * xat_peek [of x' k rest] value_no_tab [OF assms(2)] assms(4)
    by (auto simp: xml_turn_def step_body_def Let_def xat_def)
qed

lemma turn_close:
  assumes "xat x (n @ CHR ''>'' # rest)" "name_ok n" "loc_name l = n" "loc_close_name l = []"
  shows "\<exists>x'. xml_turn Close_tag l x =
      Inr (Return_node (XMLNode n (loc_attributes l) (loc_value l) (loc_children l)) x') \<and> xat x' rest"
proof -
  obtain c y x' where "xml_get_char x = Inr (c, y)" "c \<noteq> CHR 0x00"
      "take_chars name_char c [] y = Inr (CHR ''>'', n, x')" "xat x' rest"
    using turn_reads [of x n "CHR ''>''" rest name_char "[]"] assms name_plain [OF assms(2)]
    by (auto simp: plain_before_def name_char_def ctype_defs)
  then show ?thesis using assms(3,4) by (auto simp: xml_turn_def step_close_tag_def xat_def)
qed

lemma runs_attributes:
  assumes "xat x (attributes_text as @ CHR ''>'' # rest)" "\<forall>a \<in> set as. attribute_ok a"
    "distinct (map fst (loc_attributes l @ as))"
    and body: "\<And>x' l'. xat x' rest \<Longrightarrow> loc_name l' = loc_name l \<Longrightarrow> loc_value l' = loc_value l \<Longrightarrow>
      loc_close_name l' = loc_close_name l \<Longrightarrow> loc_children l' = loc_children l \<Longrightarrow>
      loc_attributes l' = loc_attributes l @ as \<Longrightarrow> xml_runs Body l' x' node out"
  shows "xml_runs Open_tag_attr l x node out"
  using assms
proof (induction as arbitrary: x l)
  case Nil
  then obtain x' where "xml_turn Open_tag_attr l x = Inr (Continue Body l x')" "xat x' rest"
    using turn_open_end [of x rest l] by (auto simp: attributes_text_def)
  with Nil.prems(4) show ?case by (auto intro: runs_continue)
next
  case (Cons a as)
  obtain k v where a: "a = (k, v)" by (cases a)
  from Cons.prems(2) a have ok: "name_ok k" "k \<noteq> []" "isalnum (hd k)"
    "\<forall>c \<in> set v. isprint c \<and> c \<noteq> CHR ''<'' \<and> c \<noteq> CHR 0x22" by (auto simp: attribute_ok_def)
  let ?more = "attributes_text as @ CHR ''>'' # rest"
  obtain k0 ks where k: "k = k0 # ks" using ok(2) by (cases k) auto
  have "xat x (CHR '' '' # k0 # ks @ CHR ''='' # CHR 0x22 # v @ CHR 0x22 # ?more)"
    using Cons.prems(1) by (simp add: a k attributes_text_def)
  from turn_attr_start [OF this, of l] ok(3) k obtain x1 where
    1: "xml_turn Open_tag_attr l x = Inr (Continue Attr_key l x1)" "xat x1 (k @ CHR ''='' # CHR 0x22 # v @ CHR 0x22 # ?more)"
    by auto
  have new: "k \<notin> set (map fst (loc_attributes l))" using Cons.prems(3) a by auto
  from turn_attr_key [OF 1(2) ok(1) new] obtain x2 where
    2: "xml_turn Attr_key l x1 = Inr (Continue Attr_value (l\<lparr>loc_attr_key := k\<rparr>) x2)" "xat x2 (v @ CHR 0x22 # ?more)" by blast
  let ?l = "l\<lparr>loc_attributes := loc_attributes l @ [(k, v)], loc_attr_key := [], loc_attr_value := []\<rparr>"
  from turn_attr_value [OF 2(2) ok(4), of "l\<lparr>loc_attr_key := k\<rparr>"] obtain x3 where
    3: "xml_turn Attr_value (l\<lparr>loc_attr_key := k\<rparr>) x2 = Inr (Continue Open_tag_attr ?l x3)" "xat x3 ?more"
    by auto
  have "xml_runs Open_tag_attr ?l x3 node out"
  proof (rule Cons.IH [OF 3(2)])
    show "\<forall>a \<in> set as. attribute_ok a" using Cons.prems(2) by simp
    show "distinct (map fst (loc_attributes ?l @ as))" using Cons.prems(3) a by auto
    show "xml_runs Body l' x' node out"
      if "xat x' rest" "loc_name l' = loc_name ?l" "loc_value l' = loc_value ?l" "loc_close_name l' = loc_close_name ?l"
        "loc_children l' = loc_children ?l" "loc_attributes l' = loc_attributes ?l @ as" for x' l'
      using that a by (intro Cons.prems(4)) auto
  qed
  from runs_continue [OF 1(1) runs_continue [OF 2(1) runs_continue [OF 3(1) this]]] show ?case .
qed

lemma node_text_starts:
  "node_ok c \<Longrightarrow> \<exists>k t. node_text c = CHR ''<'' # k # t \<and> k \<noteq> CHR ''!'' \<and> k \<noteq> CHR ''/''"
proof (cases c)
  case (XMLNode n as v cs)
  assume "node_ok c"
  then have "\<forall>c \<in> set n. isalnum c \<or> c = CHR ''_''" by (simp add: XMLNode name_ok_def)
  then show ?thesis
    by (cases n; cases as) (auto simp: XMLNode attributes_text_def ctype_defs)
qed

lemma runs_children:
  assumes "\<And>c x rest. c \<in> set cs \<Longrightarrow> xat x (node_text c @ rest) \<Longrightarrow> xml_runs Initial no_locals x c rest"
    and "\<forall>c \<in> set cs. node_ok c" "value_ok v" "name_ok n"
    and "xat x (v @ concat (map node_text cs) @ ''</'' @ n @ ''>'' @ rest)"
    and "loc_name l = n" "loc_close_name l = []"
  shows "xml_runs Body l x (XMLNode n (loc_attributes l) (loc_value l @ v) (loc_children l @ cs)) rest"
  using assms
proof (induction cs arbitrary: x l v)
  case Nil
  then obtain x1 where 1: "xml_turn Body l x = Inr (Continue Close_tag (l\<lparr>loc_value := loc_value l @ v\<rparr>) x1)"
      "xat x1 (n @ CHR ''>'' # rest)"
    using turn_body_close [of x v "n @ CHR ''>'' # rest" l] by auto
  obtain x2 where "xml_turn Close_tag (l\<lparr>loc_value := loc_value l @ v\<rparr>) x1 =
      Inr (Return_node (XMLNode n (loc_attributes l) (loc_value l @ v) (loc_children l)) x2)" "xat x2 rest"
    using turn_close [OF 1(2) Nil.prems(4), of "l\<lparr>loc_value := loc_value l @ v\<rparr>"] Nil.prems(6,7) by auto
  from runs_continue [OF 1(1) runs_return [OF this]] show ?case by simp
next
  case (Cons c cs)
  let ?tail = "concat (map node_text cs) @ ''</'' @ n @ ''>'' @ rest"
  obtain k t where t: "node_text c = CHR ''<'' # k # t" "k \<noteq> CHR ''!''" "k \<noteq> CHR ''/''"
    using node_text_starts Cons.prems(2) by (metis list.set_intros(1))
  have "xat x (v @ CHR ''<'' # k # t @ ?tail)" using Cons.prems(5) t by simp
  from turn_body_child [OF this Cons.prems(3) t(2,3), of l] t obtain x1 where
    1: "xml_turn Body l x = Inr (Parse_child (l\<lparr>loc_value := loc_value l @ v\<rparr>) x1)" "xat x1 (node_text c @ ?tail)"
    by auto
  have child: "xml_runs Initial no_locals x1 c ?tail"
    using Cons.prems(1) 1(2) by simp
  show ?case
  proof (rule runs_child [OF 1(1) child])
    fix y assume "xat y ?tail"
    from Cons.IH [of "[]" y "l\<lparr>loc_value := loc_value l @ v, loc_children := loc_children l @ [c]\<rparr>"]
      this Cons.prems
    show "xml_runs Body ((l\<lparr>loc_value := loc_value l @ v\<rparr>)
        \<lparr>loc_children := loc_children (l\<lparr>loc_value := loc_value l @ v\<rparr>) @ [c]\<rparr>) y
      (XMLNode n (loc_attributes l) (loc_value l @ v) (loc_children l @ c # cs)) rest"
      by (simp add: value_ok_def)
  qed
qed

lemma runs_node:
  "node_ok node \<Longrightarrow> xat x (node_text node @ rest) \<Longrightarrow> xml_runs Initial no_locals x node rest"
proof (induction node arbitrary: x rest)
  case (XMLNode n as v cs)
  from XMLNode.prems(1) have ok: "name_ok n" "\<forall>a \<in> set as. attribute_ok a" "distinct (map fst as)" "value_ok v"
    "\<forall>c \<in> set cs. node_ok c" by auto
  let ?body = "v @ concat (map node_text cs) @ ''</'' @ n @ ''>'' @ rest"
  let ?open = "attributes_text as @ CHR ''>'' # ?body"
  have x: "xat x (CHR ''<'' # n @ ?open)" using XMLNode.prems(2) by simp
  have "\<forall>s. n @ ?open \<noteq> CHR ''!'' # s"
    using ok(1) by (cases n; cases as) (auto simp: attributes_text_def name_ok_def ctype_defs)
  from turn_initial [OF x this, of no_locals] obtain x1 where
    1: "xml_turn Initial no_locals x = Inr (Continue Open_tag_key no_locals x1)" "xat x1 (n @ ?open)" by blast
  obtain d t where d: "?open = d # t" "\<not> name_char False d" "plain d"
    by (cases as) (auto simp: attributes_text_def name_char_def plain_def ctype_defs)
  from turn_open_tag_key [of x1 n d t no_locals] 1(2) ok(1) d obtain x2 where
    2: "xml_turn Open_tag_key no_locals x1 = Inr (Continue Open_tag_attr (no_locals\<lparr>loc_name := loc_name no_locals @ n\<rparr>) x2)"
      "xat x2 ?open" by auto
  have "xml_runs Open_tag_attr (no_locals\<lparr>loc_name := n\<rparr>) x2 (XMLNode n as v cs) rest"
  proof (rule runs_attributes [OF 2(2) ok(2)])
    show "distinct (map fst (loc_attributes (no_locals\<lparr>loc_name := n\<rparr>) @ as))" using ok(3) by (simp add: no_locals_def)
    fix x' and l' :: xml_locals
    assume x': "xat x' ?body" and l': "loc_name l' = loc_name (no_locals\<lparr>loc_name := n\<rparr>)"
      "loc_value l' = loc_value (no_locals\<lparr>loc_name := n\<rparr>)" "loc_close_name l' = loc_close_name (no_locals\<lparr>loc_name := n\<rparr>)"
      "loc_children l' = loc_children (no_locals\<lparr>loc_name := n\<rparr>)" "loc_attributes l' = loc_attributes (no_locals\<lparr>loc_name := n\<rparr>) @ as"
    from runs_children [OF _ ok(5,4,1) x', of l'] XMLNode.IH ok(5) l'
    show "xml_runs Body l' x' (XMLNode n as v cs) rest" by (simp add: no_locals_def)
  qed
  then show ?case using runs_continue [OF 1(1)] runs_continue [OF 2(1)] by (simp add: no_locals_def)
qed

lemma xml_run_more_fuel:
  "\<not> fuel_error (xml_run n s l x) \<Longrightarrow> n \<le> m \<Longrightarrow> xml_run m s l x = xml_run n s l x"
proof (induction n arbitrary: m s l x)
  case 0
  then show ?case by simp
next
  case (Suc n)
  obtain m' where m: "m = Suc m'" "n \<le> m'" using Suc.prems(2) by (cases m) auto
  show ?case
  proof (cases "xml_turn s l x")
    case (Inr r)
    show ?thesis
    proof (cases r)
      case (Parse_child l' x')
      with Inr Suc.prems(1) have a: "\<not> fuel_error (xml_run n Initial no_locals x')" by (auto simp: fuel_error_rbind)
      note c = Suc.IH [OF a m(2)]
      show ?thesis
        using Inr Parse_child m c Suc.prems(1) Suc.IH [OF _ m(2)]
        by (auto simp: fuel_error_rbind intro!: rbind_cong)
    next
      case (Continue s' l' x')
      with Inr Suc.prems(1) have "\<not> fuel_error (xml_run n s' l' x')" by simp
      from Suc.IH [OF this m(2)] show ?thesis using Inr Continue m by simp
    next
      case (Return_node node y)
      then show ?thesis using Inr m by simp
    qed
  next
    case (Inl e)
    then show ?thesis by (simp add: m)
  qed
qed

lemma node_text_parse:
  assumes "node_ok node"
  shows "xml_parse (node_text node) = Inr node"
proof -
  let ?s = "node_text node" and ?n = "3 * length (node_text node) + 4"
  have "xat (xml_init ?s) (?s @ [])" by (simp add: xat_def xml_init_def)
  from runs_node [OF assms this] obtain k x' where
    k: "\<forall>n \<ge> k. xml_run n Initial no_locals (xml_init ?s) = Inr (node, x')" by (auto simp: xml_runs_def)
  have "run_measure Initial (xml_init ?s) < ?n"
    by (simp add: run_measure_def xml_init_def xml_left_def)
  from xml_run_ok [OF this, of no_locals] have "\<not> fuel_error (xml_run ?n Initial no_locals (xml_init ?s))" by blast
  from xml_run_more_fuel [OF this, of "max k ?n"] k
  have "xml_run ?n Initial no_locals (xml_init ?s) = Inr (node, x')" by (metis max.cobounded1 max.cobounded2)
  then show ?thesis by (simp add: xml_parse_def)
qed

text \<open>
  C38: Printing and parsing are inverse. A node whose names consist of letters, digits and
  underscores, whose attributes have distinct names starting with a letter or digit and printable
  values without quotes, and whose text is printable, is read back from its printed form.
\<close>

theorem xml_print_parse:
  assumes "node_ok node"
  shows "xml_parse (node_text node) = Inr node"
  using assms by (rule node_text_parse)

theorem xml_print_parse_witness:
  "xml_parse (node_text (XMLNode ''rule'' [(''id'', ''7'')] ''text'' [XMLNode ''regex'' [] ''a.*b'' []]))
   = Inr (XMLNode ''rule'' [(''id'', ''7'')] ''text'' [XMLNode ''regex'' [] ''a.*b'' []])"
  by (rule xml_print_parse) (simp add: name_ok_def attribute_ok_def value_ok_def ctype_defs)

end
