(* ===== verification/Rule_Loader_Facts.thy ===== *)
theory Rule_Loader_Facts
  imports Rule_Loader Rule_Engine_Facts Xml_Parser_Facts
begin

text \<open>
  What a successfully loaded rule configuration satisfies, and that the rule engine cannot fail on
  it (but for the rules the loader accepts although the engine cannot evaluate them).
\<close>

subsection \<open>Forests\<close>

fun forest_datas :: "rule list \<Rightarrow> rule_data list" where
  "forest_datas [] = []"
| "forest_datas (Rule d cs # rs) = d # forest_datas cs @ forest_datas rs"

text \<open>\<open>forest_all Q p rs\<close>: \<open>Q\<close> holds for every rule and the id of the rule above it.\<close>

fun forest_all :: "(rule_id option \<Rightarrow> rule_data \<Rightarrow> bool) \<Rightarrow> rule_id option \<Rightarrow> rule list \<Rightarrow> bool" where
  "forest_all Q p [] = True"
| "forest_all Q p (Rule d cs # rs) = (Q p d \<and> forest_all Q (Some (r_id d)) cs \<and> forest_all Q p rs)"

lemma forest_datas_append [simp]: "forest_datas (rs @ rs') = forest_datas rs @ forest_datas rs'"
  by (induction rs rule: forest_datas.induct) auto

lemma forest_all_append [simp]: "forest_all Q p (rs @ rs') \<longleftrightarrow> forest_all Q p rs \<and> forest_all Q p rs'"
  by (induction rs rule: forest_datas.induct) auto

lemma find_rule_None_iff: "find_rule rs i = None \<longleftrightarrow> i \<notin> r_id ` set (forest_datas rs)"
  by (induction rs i rule: find_rule.induct) (auto split: option.splits)

lemma find_rule_Some: "find_rule rs i = Some (Rule d cs) \<Longrightarrow> r_id d = i \<and> d \<in> set (forest_datas rs)"
  by (induction rs i rule: find_rule.induct) (auto split: option.splits if_splits)

text \<open>Where the child goes: below the rule, below its children, or in the rest of the forest.\<close>

lemma add_child_cases [consumes 1, case_names here below later]:
  assumes "add_child i ex (Rule d cs # rs) = Some rs'"
  obtains "r_id d = i" "rs' = Rule d (cs @ [ex]) # rs"
  | cs' where "r_id d \<noteq> i" "add_child i ex cs = Some cs'" "rs' = Rule d cs' # rs"
  | rs1 where "r_id d \<noteq> i" "add_child i ex cs = None" "add_child i ex rs = Some rs1" "rs' = Rule d cs # rs1"
  using assms by (auto split: if_splits option.splits)

lemma add_child_datas:
  "add_child i ex rs = Some rs' \<Longrightarrow> ex = Rule d [] \<Longrightarrow> set (forest_datas rs') = insert d (set (forest_datas rs))"
proof (induction i ex rs arbitrary: rs' rule: add_child.induct)
  case (2 i ex d' cs rs)
  from "2.prems"(1) show ?case
  proof (cases rule: add_child_cases)
    case here
    with "2.prems"(2) show ?thesis by auto
  next
    case (below cs')
    from "2.IH"(1) [OF below(1,2) "2.prems"(2)] below(3) show ?thesis by auto
  next
    case (later rs1)
    from "2.IH"(2) [OF later(1-3) "2.prems"(2)] later(4) show ?thesis by auto
  qed
qed simp

lemma add_child_all:
  "add_child i ex rs = Some rs' \<Longrightarrow> ex = Rule d [] \<Longrightarrow> forest_all Q p rs \<Longrightarrow> Q (Some i) d \<Longrightarrow> forest_all Q p rs'"
proof (induction i ex rs arbitrary: rs' p rule: add_child.induct)
  case (2 i ex d' cs rs)
  from "2.prems"(1) show ?case
  proof (cases rule: add_child_cases)
    case here
    with "2.prems" show ?thesis by auto
  next
    case (below cs')
    from "2.IH"(1) [OF below(1,2) "2.prems"(2)] below "2.prems" show ?thesis by auto
  next
    case (later rs1)
    from "2.IH"(2) [OF later(1-3) "2.prems"(2)] later "2.prems" show ?thesis by auto
  qed
qed simp

text \<open>All rules of a configuration.\<close>

definition all_datas :: "rule_cfg \<Rightarrow> rule_data set" where
  "all_datas cfg = set (forest_datas (std_rules cfg)) \<union> set (forest_datas (group_rules cfg))"

definition cfg_all :: "(rule_id option \<Rightarrow> rule_data \<Rightarrow> bool) \<Rightarrow> rule_cfg \<Rightarrow> bool" where
  "cfg_all Q cfg = (forest_all Q None (std_rules cfg) \<and> forest_all Q None (group_rules cfg))"

lemma known_id_iff: "known_id cfg i \<longleftrightarrow> i \<in> r_id ` all_datas cfg"
  using find_rule_None_iff [of "std_rules cfg" i] find_rule_None_iff [of "group_rules cfg" i]
  by (auto simp: known_id_def all_datas_def image_Un)

text \<open>What inserting a rule leaves: the sets of the configuration.\<close>

definition same_tables :: "rule_cfg \<Rightarrow> rule_cfg \<Rightarrow> bool" where
  "same_tables c c' =
     (cfg_groups c' = cfg_groups c \<and> cfg_formats c' = cfg_formats c \<and> cfg_interventions c' = cfg_interventions c)"

lemma attach_props:
  assumes "attach i (Rule d []) cfg = Some cfg'"
  shows "all_datas cfg' = insert d (all_datas cfg)" "same_tables cfg cfg'"
    "cfg_all Q cfg \<Longrightarrow> Q (Some i) d \<Longrightarrow> cfg_all Q cfg'"
  using assms
  by (auto simp: attach_def all_datas_def same_tables_def cfg_all_def dest: add_child_datas
      intro: add_child_all split: option.splits)

lemma attach_to_Inr: "attach_to what d i cfg = Inr cfg' \<longleftrightarrow> attach i (Rule d []) cfg = Some cfg'"
  by (simp add: attach_to_def split: option.split)

text \<open>A rule has been inserted below parents that satisfy \<open>Q\<close>.\<close>

definition inserted :: "(rule_id option \<Rightarrow> rule_data \<Rightarrow> bool) \<Rightarrow> rule_data \<Rightarrow> rule_cfg \<Rightarrow> rule_cfg \<Rightarrow> bool" where
  "inserted Q d c c' =
     (all_datas c' \<subseteq> insert d (all_datas c) \<and> same_tables c c' \<and> (cfg_all Q c \<longrightarrow> cfg_all Q c'))"

lemma inserted_refl [simp]: "inserted Q d c c"
  by (auto simp: inserted_def same_tables_def)

lemma inserted_attach: "inserted Q d c c' \<Longrightarrow> attach i (Rule d []) c' = Some c'' \<Longrightarrow> Q (Some i) d \<Longrightarrow> inserted Q d c c''"
  using attach_props(1,2) [of i d c' c''] attach_props(3) [of i d c' c'' Q]
  by (auto simp: inserted_def same_tables_def)

lemma inserted_fold:
  assumes "fold_res (attach_to what d) is c' = Inr c''" "inserted Q d c c'" "\<forall>i \<in> set is. Q (Some i) d"
  shows "inserted Q d c c''"
  using assms(1,2)
proof (rule fold_res_invariant)
  show "inserted Q d c t" if "i \<in> set is" "inserted Q d c s" "attach_to what d i s = Inr t" for i s t
    using that assms(3) by (auto simp: attach_to_Inr intro: inserted_attach)
qed

lemma insert_rule_inserted:
  assumes "insert_rule d cfg = Inr cfg'" "\<forall>i \<in> set (r_parent_ids d). Q (Some i) d"
    and "r_trigger_group d \<noteq> [] \<or> ag_group_name (r_activation d) \<noteq> [] \<or> r_parent_ids d = [] \<longrightarrow> Q None d"
  shows "inserted Q d cfg cfg'"
proof -
  consider (group) "r_trigger_group d \<noteq> [] \<or> ag_group_name (r_activation d) \<noteq> []"
    | (std) "r_trigger_group d = []" "ag_group_name (r_activation d) = []" "r_parent_ids d = []"
    | (child) "r_trigger_group d = []" "ag_group_name (r_activation d) = []" "r_parent_ids d \<noteq> []"
    by blast
  then show ?thesis
  proof cases
    case group
    with assms(1) have "cfg' = cfg\<lparr>group_rules := group_rules cfg @ [Rule d []]\<rparr>" by (simp add: insert_rule_def)
    with group assms(3) show ?thesis by (auto simp: inserted_def all_datas_def same_tables_def cfg_all_def)
  next
    case std
    with assms(1) have "cfg' = cfg\<lparr>std_rules := std_rules cfg @ [Rule d []]\<rparr>" by (simp add: insert_rule_def)
    with std assms(3) show ?thesis by (auto simp: inserted_def all_datas_def same_tables_def cfg_all_def)
  next
    case child
    with assms(1) have "fold_res (attach_to ''rule'' d) (r_parent_ids d) cfg = Inr cfg'" by (simp add: insert_rule_def)
    then show ?thesis using inserted_refl assms(2) by (rule inserted_fold)
  qed
qed

subsection \<open>What the rule nodes give\<close>

definition build_ok :: "string list \<Rightarrow> rule_build \<Rightarrow> bool" where
  "build_ok known rb =
     (rb_unless_id rb = ur_id (r_unless (rb_rule rb))
      \<and> (\<forall>ir \<in> set (r_interventions (rb_rule rb)). ir_name ir \<in> set known)
      \<and> (ag_group_name (r_activation (rb_rule rb)) \<noteq> [] \<longrightarrow>
           ag_time (r_activation (rb_rule rb)) \<noteq> 0 \<and> 2 \<le> ag_rate (r_activation (rb_rule rb)))
      \<and> r_reg (rb_rule rb) = None)"

lemma rule_attribute_frame:
  "rule_attribute a ex = Inr ex' \<Longrightarrow>
     r_unless ex' = r_unless ex \<and> r_interventions ex' = r_interventions ex \<and> r_activation ex' = r_activation ex \<and> r_reg ex' = r_reg ex"
  by (auto simp: rule_attribute_def rbind_Inr_iff split: if_splits)

lemma lib_check_Inr [simp]: "lib_check b msg = Inr u \<longleftrightarrow> b"
  by (auto simp: lib_check_def)

lemma rule_child_ok: "rule_child known sub rb = Inr rb' \<Longrightarrow> build_ok known rb \<Longrightarrow> build_ok known rb'"
  by (auto simp: rule_child_def Let_def build_ok_def rbind_Inr_iff load_activation_def load_rule_intervention_def
      not_less split: if_splits)

lemma build_ok_loaded:
  assumes "fold_res rule_attribute as default_rule = Inr ex"
    and "fold_res (rule_child known) subs \<lparr>rb_rule = ex, rb_unless_id = 0, rb_ireg = []\<rparr> = Inr rb"
  shows "build_ok known rb"
  using assms(2)
proof (rule fold_res_invariant)
  have "r_unless ex = r_unless default_rule \<and> r_interventions ex = r_interventions default_rule
      \<and> r_activation ex = r_activation default_rule \<and> r_reg ex = r_reg default_rule"
    using assms(1) by (rule fold_res_invariant) (auto dest: rule_attribute_frame)
  then show "build_ok known \<lparr>rb_rule = ex, rb_unless_id = 0, rb_ireg = []\<rparr>"
    by (simp add: build_ok_def default_rule_def default_activation_def default_unless_def)
qed (rule rule_child_ok)

subsection \<open>Validated rules\<close>

text \<open>What the checks establish of a rule below (the rule with) id \<open>p\<close>.\<close>

definition rule_loaded :: "regex_lib \<Rightarrow> rule_id option \<Rightarrow> rule_data \<Rightarrow> bool" where
  "rule_loaded rx p d =
     (r_id d \<noteq> 0 \<and> r_priority d \<noteq> - 1 \<and> r_id d \<notin> set (r_parent_ids d)
      \<and> (r_parent_ids d = [] \<or> r_trigger_group d = [])
      \<and> (r_same_field d \<noteq> [] \<longrightarrow> ag_group_name (r_activation d) \<noteq> [])
      \<and> (ur_id (r_unless d) \<noteq> 0 \<longrightarrow> r_parent_ids d \<noteq> [])
      \<and> (ag_group_name (r_activation d) \<noteq> [] \<longrightarrow> ag_time (r_activation d) \<noteq> 0 \<and> 2 \<le> ag_rate (r_activation d))
      \<and> (case r_reg d of None \<Rightarrow> True | Some pat \<Rightarrow> rx_valid rx pat \<and> rx_marks rx pat = length (r_regex_fields d))
      \<and> (case p of
           None \<Rightarrow> r_trigger_group d \<noteq> [] \<or> ag_group_name (r_activation d) \<noteq> [] \<or> r_parent_ids d = []
         | Some i \<Rightarrow> i \<in> set (r_parent_ids d) \<or> (i \<noteq> 0 \<and> i = ur_id (r_unless d))))"

text \<open>The groups and interventions a rule names are declared.\<close>

definition rule_closed :: "rule_cfg \<Rightarrow> rule_data \<Rightarrow> bool" where
  "rule_closed cfg d =
     (set (r_groups d) \<subseteq> set (cfg_groups cfg)
      \<and> (r_trigger_group d = [] \<or> r_trigger_group d = ''!ALWAYS'' \<or> r_trigger_group d \<in> set (cfg_groups cfg))
      \<and> (ag_group_name (r_activation d) = [] \<or> ag_group_name (r_activation d) \<in> set (cfg_groups cfg))
      \<and> (\<forall>ir \<in> set (r_interventions d). ir_name ir \<in> set (cfg_interventions cfg)))"

definition cfg_loaded :: "regex_lib \<Rightarrow> rule_cfg \<Rightarrow> bool" where
  "cfg_loaded rx cfg =
     (cfg_all (rule_loaded rx) cfg
      \<and> (\<forall>d \<in> all_datas cfg. rule_closed cfg d)
      \<and> (\<forall>d \<in> all_datas cfg. \<forall>d' \<in> all_datas cfg. r_id d = r_id d' \<longrightarrow> d = d')
      \<and> (\<forall>f \<in> set (cfg_formats cfg). f_name f \<noteq> [] \<and> rx_valid rx (f_reg f) \<and> rx_marks rx (f_reg f) = length (f_fields f)))"

lemma check_marks_Inr [simp]: "check_marks rx what ireg n = Inr u \<longleftrightarrow> rx_valid rx ireg \<and> rx_marks rx ireg = n"
  by (auto simp: check_marks_def)

lemma dropWhile_subset: "dropWhile (\<lambda>g. g \<in> A) xs = [] \<longleftrightarrow> set xs \<subseteq> A"
  by (auto simp: dropWhile_eq_Nil_conv)

text \<open>The rule before and after its regular expression is compiled.\<close>

definition compiled :: "regex_lib \<Rightarrow> rule_build \<Rightarrow> rule_data \<Rightarrow> bool" where
  "compiled rx rb d =
     (if rb_ireg rb = [] then d = rb_rule rb
      else d = (rb_rule rb)\<lparr>r_reg := Some (rb_ireg rb)\<rparr> \<and> rx_valid rx (rb_ireg rb)
           \<and> rx_marks rx (rb_ireg rb) = length (r_regex_fields (rb_rule rb)))"

lemma validate_rule_compiled: "validate_rule rx cfg rb = Inr d \<Longrightarrow> compiled rx rb d"
  by (auto simp: validate_rule_def Let_def rbind_Inr_iff compiled_def split: if_splits list.splits)

lemma compiled_frame:
  "compiled rx rb d \<Longrightarrow>
     r_id d = r_id (rb_rule rb) \<and> r_priority d = r_priority (rb_rule rb) \<and> r_parent_ids d = r_parent_ids (rb_rule rb)
     \<and> r_trigger_group d = r_trigger_group (rb_rule rb) \<and> r_same_field d = r_same_field (rb_rule rb)
     \<and> r_activation d = r_activation (rb_rule rb) \<and> r_unless d = r_unless (rb_rule rb) \<and> r_groups d = r_groups (rb_rule rb)
     \<and> r_interventions d = r_interventions (rb_rule rb) \<and> r_regex_fields d = r_regex_fields (rb_rule rb)"
  by (auto simp: compiled_def split: if_splits)

lemma validate_rule_checks:
  assumes "validate_rule rx cfg rb = Inr d"
  shows "r_id d \<noteq> 0" "\<not> known_id cfg (r_id d)" "r_priority d \<noteq> - 1" "r_parent_ids d = [] \<or> r_trigger_group d = []"
    "r_same_field d \<noteq> [] \<longrightarrow> ag_group_name (r_activation d) \<noteq> []"
    "ur_id (r_unless d) \<noteq> 0 \<longrightarrow> r_parent_ids d \<noteq> []"
    "r_id d \<notin> set (r_parent_ids d)"
    "r_trigger_group d = [] \<or> r_trigger_group d \<in> set (cfg_groups cfg) \<or> r_trigger_group d = ''!ALWAYS''"
    "ag_group_name (r_activation d) = [] \<or> ag_group_name (r_activation d) \<in> set (cfg_groups cfg)"
    "set (r_groups d) \<subseteq> set (cfg_groups cfg)"
proof -
  have f: "compiled rx rb d" using assms by (rule validate_rule_compiled)
  note fr = compiled_frame [OF f]
  show "r_id d \<noteq> 0" "\<not> known_id cfg (r_id d)" "r_priority d \<noteq> - 1" "r_parent_ids d = [] \<or> r_trigger_group d = []"
    "r_same_field d \<noteq> [] \<longrightarrow> ag_group_name (r_activation d) \<noteq> []"
    "ur_id (r_unless d) \<noteq> 0 \<longrightarrow> r_parent_ids d \<noteq> []"
    using assms fr by (auto simp: validate_rule_def Let_def rbind_Inr_iff)
  show "r_id d \<notin> set (r_parent_ids d)"
    "r_trigger_group d = [] \<or> r_trigger_group d \<in> set (cfg_groups cfg) \<or> r_trigger_group d = ''!ALWAYS''"
    "ag_group_name (r_activation d) = [] \<or> ag_group_name (r_activation d) \<in> set (cfg_groups cfg)"
    using assms fr by (auto simp: validate_rule_def Let_def rbind_Inr_iff)
  have "dropWhile (\<lambda>g. g \<in> set (cfg_groups cfg)) (r_groups d) = []"
    using assms fr by (auto simp: validate_rule_def Let_def rbind_Inr_iff split: list.splits)
  then show "set (r_groups d) \<subseteq> set (cfg_groups cfg)" by (simp only: dropWhile_subset)
qed

lemma load_rule_loaded:
  assumes "load_rule rx node cfg = Inr cfg'" "cfg_loaded rx cfg"
  shows "cfg_loaded rx cfg'"
proof -
  obtain ex rb d cfg1 where
      a: "fold_res rule_attribute (node_attributes node) default_rule = Inr ex"
    and b: "fold_res (rule_child (cfg_interventions cfg)) (node_children node)
              \<lparr>rb_rule = ex, rb_unless_id = 0, rb_ireg = []\<rparr> = Inr rb"
    and v: "validate_rule rx cfg rb = Inr d" and i: "insert_rule d cfg = Inr cfg1"
    and u: "(if rb_unless_id rb \<noteq> 0 then attach_to ''unless_rule'' d (rb_unless_id rb) cfg1 else Inr cfg1) = Inr cfg'"
    using assms(1) by (auto simp: load_rule_def rbind_Inr_iff)
  have bo: "build_ok (cfg_interventions cfg) rb" using a b by (rule build_ok_loaded)
  have c: "compiled rx rb d" using v by (rule validate_rule_compiled)
  note fr = compiled_frame [OF c]
  note ch = validate_rule_checks [OF v]
  have common: "case r_reg d of None \<Rightarrow> True | Some pat \<Rightarrow> rx_valid rx pat \<and> rx_marks rx pat = length (r_regex_fields d)"
    using c bo by (auto simp: compiled_def build_ok_def split: if_splits)
  have act: "ag_group_name (r_activation d) \<noteq> [] \<longrightarrow> ag_time (r_activation d) \<noteq> 0 \<and> 2 \<le> ag_rate (r_activation d)"
    using bo fr by (simp add: build_ok_def)
  have below: "rule_loaded rx (Some i) d" if "i \<in> set (r_parent_ids d) \<or> (i \<noteq> 0 \<and> i = ur_id (r_unless d))" for i
    using that ch common act by (auto simp: rule_loaded_def)
  have top: "r_trigger_group d \<noteq> [] \<or> ag_group_name (r_activation d) \<noteq> [] \<or> r_parent_ids d = [] \<longrightarrow> rule_loaded rx None d"
    using ch common act by (auto simp: rule_loaded_def)
  have ins1: "inserted (rule_loaded rx) d cfg cfg1"
    using i below top by (intro insert_rule_inserted) auto
  have "rb_unless_id rb = ur_id (r_unless d)" using bo fr by (simp add: build_ok_def)
  then have ins: "inserted (rule_loaded rx) d cfg cfg'"
    using u ins1 below by (auto simp: attach_to_Inr intro: inserted_attach split: if_splits)
  have closed: "rule_closed cfg d" using ch bo fr by (auto simp: rule_closed_def build_ok_def)
  have new: "r_id d \<notin> r_id ` all_datas cfg" using ch(2) by (simp add: known_id_iff)
  have sub: "all_datas cfg' \<subseteq> insert d (all_datas cfg)" and tabs: "same_tables cfg cfg'"
    and all: "cfg_all (rule_loaded rx) cfg'"
    using ins assms(2) by (auto simp: inserted_def cfg_loaded_def)
  have cl: "rule_closed cfg' x = rule_closed cfg x" for x
    using tabs by (simp add: rule_closed_def same_tables_def)
  have "\<forall>x \<in> all_datas cfg'. rule_closed cfg' x"
    using sub closed assms(2) unfolding cl by (auto simp: cfg_loaded_def)
  moreover have "\<forall>x \<in> all_datas cfg'. \<forall>y \<in> all_datas cfg'. r_id x = r_id y \<longrightarrow> x = y"
  proof (intro ballI impI)
    fix x y assume xy: "x \<in> all_datas cfg'" "y \<in> all_datas cfg'" "r_id x = r_id y"
    with sub have "x = d \<or> x \<in> all_datas cfg" "y = d \<or> y \<in> all_datas cfg" by auto
    with xy(3) new assms(2) show "x = y" by (auto simp: cfg_loaded_def image_iff)
  qed
  moreover have "cfg_formats cfg' = cfg_formats cfg" using tabs by (simp add: same_tables_def)
  ultimately show ?thesis using all assms(2) by (simp add: cfg_loaded_def)
qed

lemma rule_closed_mono:
  "rule_closed cfg d \<Longrightarrow> set (cfg_groups cfg) \<subseteq> set (cfg_groups cfg') \<Longrightarrow>
   set (cfg_interventions cfg) \<subseteq> set (cfg_interventions cfg') \<Longrightarrow> rule_closed cfg' d"
  by (auto simp: rule_closed_def)

lemma cfg_loaded_tables:
  assumes "cfg_loaded rx cfg" "std_rules cfg' = std_rules cfg" "group_rules cfg' = group_rules cfg"
    "set (cfg_groups cfg) \<subseteq> set (cfg_groups cfg')" "set (cfg_interventions cfg) \<subseteq> set (cfg_interventions cfg')"
    "\<forall>f \<in> set (cfg_formats cfg'). f \<in> set (cfg_formats cfg) \<or>
        (f_name f \<noteq> [] \<and> rx_valid rx (f_reg f) \<and> rx_marks rx (f_reg f) = length (f_fields f))"
  shows "cfg_loaded rx cfg'"
proof -
  have "all_datas cfg' = all_datas cfg" "cfg_all Q cfg' = cfg_all Q cfg" for Q
    using assms(2,3) by (simp_all add: all_datas_def cfg_all_def)
  with assms show ?thesis by (auto simp: cfg_loaded_def intro: rule_closed_mono)
qed

lemma load_node_loaded:
  assumes "load_node rx node cfg = Inr cfg'" "cfg_loaded rx cfg"
  shows "cfg_loaded rx cfg'"
proof -
  consider (group) "load_group node cfg = Inr cfg'" | (intervention) "load_intervention node cfg = Inr cfg'"
    | (format) "load_format rx node cfg = Inr cfg'" | (rule) "load_rule rx node cfg = Inr cfg'"
    using assms(1) by (auto simp: load_node_def split: if_splits)
  then show ?thesis
  proof cases
    case group
    then show ?thesis
      by (intro cfg_loaded_tables [OF assms(2)]) (auto simp: load_group_def rbind_Inr_iff set_insort_insert)
  next
    case intervention
    then show ?thesis
      by (intro cfg_loaded_tables [OF assms(2)]) (auto simp: load_intervention_def rbind_Inr_iff set_insort_insert)
  next
    case format
    then show ?thesis
      by (intro cfg_loaded_tables [OF assms(2)]) (auto simp: load_format_def rbind_Inr_iff)
  next
    case rule
    then show ?thesis using assms(2) by (rule load_rule_loaded)
  qed
qed

lemma load_root_loaded:
  "load_root rx root cfg = Inr cfg' \<Longrightarrow> cfg_loaded rx cfg \<Longrightarrow> cfg_loaded rx cfg'"
  by (auto simp: load_root_def rbind_Inr_iff intro: fold_res_invariant load_node_loaded split: if_splits)

lemma cfg_loaded_empty [simp]: "cfg_loaded rx empty_cfg"
  by (simp add: cfg_loaded_def empty_cfg_def cfg_all_def all_datas_def)

lemma parse_rules_keeps: "parse_rules rx file cfg = Inr cfg' \<Longrightarrow> cfg_loaded rx cfg \<Longrightarrow> cfg_loaded rx cfg'"
  by (auto simp: parse_rules_def rbind_Inr_iff intro: load_root_loaded split: option.splits)

text \<open>
  C34: What loading a rule file guarantees. When \<open>parse_rules\<close> succeeds, every format and rule has a
  valid regular expression with as many groups as named fields; every rule has an id, unique in the
  configuration (copies below several parents are equal), and a priority; it hangs below a rule it
  names as parent or, as an unless rule, below the rule it waits for, and at the top only without parents
  or with a group condition; activation groups have a time and a rate of at least 2; and all groups
  and interventions that rules name are declared.
\<close>

theorem parse_rules_loaded:
  assumes "parse_rules rx file empty_cfg = Inr cfg"
  shows "cfg_loaded rx cfg"
  using assms by (rule parse_rules_keeps) simp

text \<open>Evaluation of the loader on concrete nodes.\<close>

lemmas integral_eval = rule_parse_integral_def parse_integral_def stoul_def read_sign_def ulong_max_def ctype_defs
  digit_value_def unsigned_minus_1_eq_mask mask_eq_exp_minus_1

lemmas loader_eval = load_root_def load_node_def load_group_def load_intervention_def load_format_def load_rule_def
  rule_attribute_def rule_child_def validate_rule_def insert_rule_def attach_to_def attach_def known_id_def
  no_attributes_def no_children_def lib_check_def check_marks_def comma_list_def split_string_cut_at trim_def
  load_activation_def activation_attribute_def unless_attribute_def Let_def empty_cfg_def default_rule_def
  default_activation_def default_unless_def literal_rx_def insort_insert_key_def

text \<open>A small rule file: a group, a rule with a group, a child with a regular expression.\<close>

definition demo_leaf :: "string \<Rightarrow> string \<Rightarrow> xml_node" where
  "demo_leaf n v = XMLNode n [] v []"

definition demo_rule :: "string \<Rightarrow> xml_node list \<Rightarrow> xml_node" where
  "demo_rule i cs = XMLNode ''rule'' [(''id'', i), (''priority'', ''3'')] [] cs"

definition demo_root :: xml_node where
  "demo_root = XMLNode ''rule_group'' [] []
     [demo_leaf ''group'' '' web '', demo_rule ''1'' [demo_leaf ''group'' ''web''],
      demo_rule ''2'' [demo_leaf ''if_rule'' ''1'', demo_leaf ''regex'' ''boom'']]"

definition demo_rules :: string where
  "demo_rules = node_text demo_root"

definition demo_loaded :: rule_cfg where
  "demo_loaded = \<lparr>std_rules =
      [Rule (default_rule\<lparr>r_id := 1, r_priority := 3, r_groups := [''web'']\<rparr>)
        [Rule (default_rule\<lparr>r_id := 2, r_priority := 3, r_parent_ids := [1], r_reg := Some ''boom''\<rparr>) []]],
      group_rules = [], cfg_groups = [''web''], cfg_formats = [], cfg_interventions = []\<rparr>"

lemma demo_rules_xml: "xml_parse demo_rules = Inr demo_root"
  unfolding demo_rules_def
  by (rule node_text_parse)
    (simp add: demo_root_def demo_leaf_def demo_rule_def name_ok_def attribute_ok_def value_ok_def ctype_defs)

lemma demo_rules_load: "parse_rules literal_rx (Some demo_rules) empty_cfg = Inr demo_loaded"
  by (simp add: parse_rules_def demo_rules_xml)
    (simp add: loader_eval integral_eval demo_root_def demo_leaf_def demo_rule_def demo_loaded_def)

theorem parse_rules_loaded_witness: "cfg_loaded literal_rx demo_loaded"
  using parse_rules_loaded [OF demo_rules_load] .

subsection \<open>The engine on loaded rules\<close>

text \<open>What the loader does not check, and the engine needs: the patterns of the conditions are
  regular expressions, an unless rule has no activation group, and the sentinel of the selection is no rule.\<close>

definition engine_ready :: "regex_lib \<Rightarrow> rule_data \<Rightarrow> bool" where
  "engine_ready rx d =
     (list_all (trigger_safe rx) (r_trigger_fields d) \<and> list_all (trigger_safe rx) (r_trigger_traits d)
      \<and> (ur_id (r_unless d) \<noteq> 0 \<longrightarrow> ag_group_name (r_activation d) = [])
      \<and> (r_priority d \<noteq> 0 \<or> r_id d \<noteq> - 1))"

lemma loaded_data_safe: "rule_loaded rx p d \<Longrightarrow> engine_ready rx d \<Longrightarrow> data_safe rx p d"
  by (auto simp: rule_loaded_def engine_ready_def data_safe_def split: option.splits)

lemma forest_safe:
  "forest_all (rule_loaded rx) p rs \<Longrightarrow> \<forall>d \<in> set (forest_datas rs). engine_ready rx d \<Longrightarrow>
   \<forall>r \<in> set rs. rule_safe rx p r"
proof (induction "rule_loaded rx" p rs rule: forest_all.induct)
  case (2 p d cs rs)
  then show ?case by (auto intro: loaded_data_safe)
qed simp

lemma loaded_rules_safe:
  assumes "cfg_loaded rx cfg" "\<forall>d \<in> all_datas cfg. engine_ready rx d"
  shows "\<forall>r \<in> set (std_rules cfg) \<union> set (group_rules cfg). rule_safe rx None r" "\<forall>f \<in> set (cfg_formats cfg). format_safe rx f"
proof -
  have std: "\<forall>r \<in> set (std_rules cfg). rule_safe rx None r"
    using assms by (intro forest_safe) (auto simp: cfg_loaded_def cfg_all_def all_datas_def)
  have grp: "\<forall>r \<in> set (group_rules cfg). rule_safe rx None r"
    using assms by (intro forest_safe) (auto simp: cfg_loaded_def cfg_all_def all_datas_def)
  from std grp show "\<forall>r \<in> set (std_rules cfg) \<union> set (group_rules cfg). rule_safe rx None r" by blast
  show "\<forall>f \<in> set (cfg_formats cfg). format_safe rx f" using assms(1) by (auto simp: cfg_loaded_def format_safe_def)
qed

text \<open>
  C35: A loaded rule set never fails. On every configuration that \<open>parse_rules\<close> loads, whose
  conditions use valid patterns, whose unless rules have no activation group and where no rule has
  priority 0 together with the largest id, \<open>process_log\<close> classifies every message, at any time and in
  any state, without an exception.
\<close>

theorem loaded_rules_never_throw:
  assumes "rx_lawful rx" and "parse_rules rx file empty_cfg = Inr cfg" and "\<forall>d \<in> all_datas cfg. engine_ready rx d"
  shows "\<exists>e states'. process_log rx fmt_time now se cfg states = Inr (e, states')"
proof -
  have "cfg_loaded rx cfg" using assms(2) by (rule parse_rules_keeps) simp
  from loaded_rules_safe [OF this assms(3)] show ?thesis using assms(1) by (intro process_log_total) auto
qed

theorem loaded_rules_never_throw_witness:
  "\<exists>e states'. process_log literal_rx (\<lambda>t. []) 7 default_source_event demo_loaded [] = Inr (e, states')"
proof (rule loaded_rules_never_throw [OF literal_rx_lawful demo_rules_load])
  show "\<forall>d \<in> all_datas demo_loaded. engine_ready literal_rx d"
    by (simp add: all_datas_def demo_loaded_def engine_ready_def default_rule_def default_unless_def)
qed

subsection \<open>Rules the loader should refuse\<close>

text \<open>An unless rule that also has an activation group.\<close>

definition unless_activation_rules :: xml_node where
  "unless_activation_rules = XMLNode ''rule_group'' [] []
     [demo_leaf ''group'' ''web'', demo_rule ''1'' [], demo_rule ''2'' [],
      demo_rule ''3'' [demo_leaf ''if_rule'' ''1'', XMLNode ''unless_rule'' [(''timeout'', ''9'')] ''2'' [],
        XMLNode ''activation_group'' [(''time'', ''5''), (''rate'', ''2'')] ''web'' []]]"

text \<open>
  A loaded rule set can stop the engine. A rule with \<open>if_rule\<close>, \<open>unless_rule\<close> and
  \<open>activation_group\<close> is accepted and put at the top of the group rules, where \<open>check_rule\<close> ends with
  the exception "Unknown child case" for every message; the exception is not caught in the
  processing thread.
\<close>

theorem unless_activation_throws:
  "(case load_root literal_rx unless_activation_rules empty_cfg of
      Inl err \<Rightarrow> False
    | Inr cfg \<Rightarrow> process_log literal_rx (\<lambda>t. []) now se cfg [] = Inl (Unknown_child_case 0 [1] 2))"
proof -
  let ?act = "\<lparr>ag_time = 5, ag_rate = 2, ag_group_name = ''web'', ag_reset = False\<rparr>"
  let ?r3 = "default_rule\<lparr>r_id := 3, r_priority := 3, r_parent_ids := [1],
     r_unless := \<lparr>ur_id = 2, ur_timeout = 9\<rparr>, r_activation := ?act\<rparr>"
  let ?std = "[Rule (default_rule\<lparr>r_id := 1, r_priority := 3\<rparr>) [],
                Rule (default_rule\<lparr>r_id := 2, r_priority := 3\<rparr>) [Rule ?r3 []]]"
  let ?cfg = "\<lparr>std_rules = ?std, group_rules = [Rule ?r3 []], cfg_groups = [''web''], cfg_formats = [], cfg_interventions = []\<rparr>"
  have l: "load_root literal_rx unless_activation_rules empty_cfg = Inr ?cfg"
    by (simp add: loader_eval integral_eval unless_activation_rules_def demo_leaf_def demo_rule_def)
  have plain: "check_rule literal_rx now e (default_rule\<lparr>r_id := i, r_priority := 3\<rparr>) st = Inr ((False, [], []), st)" for e i st
    by (simp add: check_rule_def check_activation_def check_regex_def group_triggers_def default_rule_def
        default_unless_def default_activation_def)
  have std: "check_top_rules literal_rx now e ?std st = Inr (e, st)" for e st
    by (simp add: check_top_rules_stop plain)
  have "check_rule literal_rx now e ?r3 st = Inl (Unknown_child_case 0 [1] 2)" if "ev_rule_id e = 0" for e st
    using that by (simp add: check_rule_def check_unless_def default_rule_def)
  then have grp: "check_top_rules literal_rx now e [Rule ?r3 []] st = Inl (Unknown_child_case 0 [1] 2)"
    if "ev_rule_id e = 0" for e st
    using that by (simp add: check_top_rules.simps [of _ _ e])
  obtain e0 where "format_log literal_rx (event_of_source (\<lambda>t. []) se) [] = Inr e0" "ev_rule_id e0 = 0"
    by (simp add: event_of_source_def default_event_def)
  then show ?thesis unfolding l by (simp add: process_log_def std grp del: format_log.simps)
qed

end
