(* ===== verification/Startup_Facts.thy ===== *)
theory Startup_Facts
  imports Startup Rule_Loader_Facts
begin

text \<open>
  What is known when one of the programs calls \<open>daemon()\<close>: the files it read were safe from others, and the
  order in which a directory lists the rule files does not matter; the mode that reads the standard input
  classifies like the daemon, and does not end with its input.
\<close>

subsection \<open>Programs that started\<close>

lemma start_bind_Starts: "start_bind m f = Starts y \<longleftrightarrow> (\<exists>x. m = Starts x \<and> f x = Starts y)"
  by (cases m) auto

lemma or_refuse_Starts: "or_refuse f r = Starts x \<longleftrightarrow> r = Inr x"
  by (auto simp: or_refuse_def split: sum.splits)

lemma load_config_Starts:
  "load_config sy parse path = Starts cfg \<longleftrightarrow> check_perms sy path = Inr () \<and> parse (file_text sy path) = Inr cfg"
  by (auto simp: load_config_def start_bind_Starts or_refuse_Starts)

lemma load_rule_file_Inr:
  "load_rule_file sy path rules = Inr rules' \<longleftrightarrow>
     check_perms sy path = Inr () \<and> parse_rules (sy_rx sy) (file_text sy path) rules = Inr rules'"
  by (auto simp: load_rule_file_def rbind_Inr_iff)

text \<open>The rule files that are read, in their order.\<close>

definition read_rules :: "system \<Rightarrow> string list \<Rightarrow> rule_cfg \<Rightarrow> (loader_error, rule_cfg) res" where
  "read_rules sy paths = fold_res (\<lambda>f. parse_rules (sy_rx sy) (file_text sy f)) paths"

lemma load_rule_files:
  "fold_res (\<lambda>f rules. map_error (Pair f) (load_rule_file sy f rules)) paths rules = Inr rules' \<longleftrightarrow>
     (\<forall>f \<in> set paths. check_perms sy f = Inr ()) \<and> read_rules sy paths rules = Inr rules'"
proof (induction paths arbitrary: rules)
  case (Cons f paths)
  then show ?case by (auto simp: rbind_Inr_iff load_rule_file_Inr read_rules_def)
qed (simp add: read_rules_def)

lemma load_rules_Starts:
  assumes "load_rules sy cfg = Starts rules"
  obtains paths where "\<forall>f \<in> set paths. check_perms sy f = Inr ()" "read_rules sy paths empty_cfg = Inr rules"
proof (cases "rc_rules_file cfg = []")
  case True
  with assms obtain entries where "fold_res (\<lambda>f rules. map_error (Pair f) (load_rule_file sy f rules))
      (rule_paths (rc_rules_directory cfg) entries) empty_cfg = Inr rules"
    by (auto simp: load_rules_def start_bind_Starts or_refuse_Starts Let_def split: option.splits if_splits sum.splits prod.splits)
  with that show thesis unfolding load_rule_files by blast
next
  case False
  with assms have "load_rule_file sy (rc_rules_file cfg) empty_cfg = Inr rules"
    by (auto simp: load_rules_def or_refuse_Starts)
  then show thesis by (intro that [of "[rc_rules_file cfg]"]) (auto simp: load_rule_file_Inr read_rules_def)
qed

lemma read_rules_loaded: "read_rules sy paths rules = Inr rules' \<Longrightarrow> cfg_loaded (sy_rx sy) rules \<Longrightarrow> cfg_loaded (sy_rx sy) rules'"
  unfolding read_rules_def by (rule fold_res_invariant) (auto intro: parse_rules_keeps)

lemma research_start_Starts:
  assumes "research_start sy args = Starts (so, cfg, rules)"
  obtains paths where "check_perms sy (so_cfg_path so) = Inr ()" "research_parse_config (sy_ord sy) (file_text sy (so_cfg_path so)) = Inr cfg"
    "\<forall>f \<in> set paths. check_perms sy f = Inr ()" "read_rules sy paths empty_cfg = Inr rules"
    "std_rules rules \<noteq> [] \<or> group_rules rules \<noteq> []" "\<not> so_configdump so"
proof -
  from assms have c: "load_config sy (research_parse_config (sy_ord sy)) (so_cfg_path so) = Starts cfg" and r: "load_rules sy cfg = Starts rules"
    and n: "std_rules rules \<noteq> [] \<or> group_rules rules \<noteq> []" "\<not> so_configdump so"
    by (auto simp: research_start_def start_bind_Starts split: if_splits)
  obtain paths where p: "\<forall>f \<in> set paths. check_perms sy f = Inr ()" "read_rules sy paths empty_cfg = Inr rules"
    by (rule load_rules_Starts [OF r])
  show thesis by (rule that [OF _ _ p n]) (use c in \<open>simp_all add: load_config_Starts\<close>)
qed

lemma started_rules_loaded: "research_start sy args = Starts (so, cfg, rules) \<Longrightarrow> cfg_loaded (sy_rx sy) rules"
  by (erule research_start_Starts) (auto intro: read_rules_loaded)

text \<open>A file nobody but the superuser and the user of the process can write, and of the others only its group read.\<close>

definition file_safe :: "system \<Rightarrow> string \<Rightarrow> bool" where
  "file_safe sy path =
     (\<exists>st. fs_stat (sy_files sy) (c_str path) = Inr st
        \<and> (\<forall>uid gids. uid \<noteq> 0 \<and> uid \<noteq> id_euid (sy_identity sy) \<longrightarrow>
             \<not> may_write uid gids st \<and> (may_read uid gids st \<longrightarrow> st_gid st \<in> gids)))"

lemma check_perms_safe:
  assumes "check_perms sy path = Inr ()"
  shows "file_safe sy path"
proof -
  from assms obtain st where st: "fs_stat (sy_files sy) (c_str path) = Inr st"
    "check_cfg_file_perms (sy_accounts sy) (sy_identity sy) (Inr st) = Inr ()"
    by (cases "fs_stat (sy_files sy) (c_str path)") (auto simp: check_perms_def check_cfg_file_perms_def)
  from st(1) only_owner_writes [OF st(2)] only_group_reads [OF st(2)] show ?thesis unfolding file_safe_def by blast
qed

text \<open>
  C36: A started research daemon read only files that were safe. Its configuration is the parse of the
  configuration file and its rules, at least one, those of the rule files, loaded one after the other; no
  user but the superuser and its own could write one of these files when it looked, and no other could read
  one unless a member of the file's group.
\<close>

theorem research_starts_safely:
  assumes "research_start sy args = Starts (so, cfg, rules)"
  shows "research_parse_config (sy_ord sy) (file_text sy (so_cfg_path so)) = Inr cfg \<and> file_safe sy (so_cfg_path so)
     \<and> (std_rules rules \<noteq> [] \<or> group_rules rules \<noteq> [])
     \<and> (\<exists>paths. read_rules sy paths empty_cfg = Inr rules \<and> (\<forall>f \<in> set paths. file_safe sy f))"
  using assms by (rule research_start_Starts) (auto intro: check_perms_safe)

subsection \<open>The order of a directory\<close>

lemma rule_paths_fold:
  "fold (\<lambda>(name, ty) paths. if ty \<noteq> Entry_reg \<or> is_hidden name then paths else insort_insert (rule_path dir name) paths) entries paths
     = fold insort_insert (List.map_filter (\<lambda>(name, ty). if ty \<noteq> Entry_reg \<or> is_hidden name then None else Some (rule_path dir name)) entries) paths"
  by (induction entries arbitrary: paths) (auto simp: List.map_filter_def split: prod.splits)

text \<open>
  The order of a directory does not matter. The rule files that are loaded are the regular files of the
  directory whose names do not start with a dot, each once and in the order of their paths: listings with the
  same entries, in whatever order and however often, load the same files.
\<close>

theorem rule_paths_order_free:
  "sorted (rule_paths dir entries) \<and> distinct (rule_paths dir entries)
   \<and> set (rule_paths dir entries) = {rule_path dir name | name. (name, Entry_reg) \<in> set entries \<and> \<not> is_hidden name}
   \<and> (set entries' = set entries \<longrightarrow> rule_paths dir entries' = rule_paths dir entries)"
proof -
  have s: "set (rule_paths dir es) = {rule_path dir name | name. (name, Entry_reg) \<in> set es \<and> \<not> is_hidden name}" for es
  proof -
    have "set (List.map_filter (\<lambda>(name, ty). if ty \<noteq> Entry_reg \<or> is_hidden name then None else Some (rule_path dir name)) es)
        = {rule_path dir name | name. (name, Entry_reg) \<in> set es \<and> \<not> is_hidden name}"
      by (induction es) (auto simp: List.map_filter_simps split: option.splits if_splits)
    then show ?thesis unfolding rule_paths_def rule_paths_fold by simp
  qed
  have o: "sorted (rule_paths dir es)" "distinct (rule_paths dir es)" for es
    unfolding rule_paths_def rule_paths_fold by (simp_all add: sorted_fold_insort_insert distinct_fold_insort_insert)
  have "rule_paths dir entries' = rule_paths dir entries" if "set entries' = set entries"
    using sorted_distinct_set_unique [OF o [of entries'] o [of entries]] s [of entries'] s [of entries] that by simp
  with o s show ?thesis by blast
qed

subsection \<open>Lines from the standard input\<close>

text \<open>The lines classified one after the other.\<close>

fun classify_lines :: "regex_lib \<Rightarrow> (int \<Rightarrow> string) \<Rightarrow> rule_cfg \<Rightarrow> (nat \<Rightarrow> int) \<Rightarrow> nat \<Rightarrow> string list \<Rightarrow> rules_state \<Rightarrow>
    (engine_error, event list \<times> rules_state) res" where
  "classify_lines rx fmt rules clock i [] states = Inr ([], states)"
| "classify_lines rx fmt rules clock i (l # ls) states =
     rbind (process_log rx fmt (clock i) (line_event l) rules states) (\<lambda>(e, states).
     rbind (classify_lines rx fmt rules clock (Suc i) ls states) (\<lambda>(es, states). Inr (e # es, states)))"

definition prompt_text :: string where
  "prompt_text = newline # ''>''"

definition ending_text :: string where
  "ending_text = newline # ''Ending'' @ [newline]"

lemma stdin_loop_quit:
  "stdin_loop rx fmt cfg rules clock i (''quit'' # ls) states out = Some (out @ prompt_text @ ending_text, Inr ())"
  by (subst stdin_loop.simps) (simp add: prompt_text_def ending_text_def)

lemma stdin_loop_line:
  "l \<noteq> ''quit'' \<Longrightarrow> process_log rx fmt (clock i) (line_event l) rules states = Inr (e, states') \<Longrightarrow>
   stdin_loop rx fmt cfg rules clock i (l # ls) states out
     = stdin_loop rx fmt cfg rules clock (Suc i) ls states' (out @ prompt_text @ stdin_answer cfg e)"
  by (subst stdin_loop.simps) (simp add: prompt_text_def)

lemma stdin_loop_lines:
  "''quit'' \<notin> set pre \<Longrightarrow> classify_lines rx fmt rules clock i pre states = Inr (es, states') \<Longrightarrow>
   stdin_loop rx fmt cfg rules clock i (pre @ ls) states out
     = stdin_loop rx fmt cfg rules clock (i + length pre) ls states'
         (out @ concat (map (\<lambda>e. prompt_text @ stdin_answer cfg e) es))"
proof (induction pre arbitrary: i states es out)
  case (Cons l pre)
  from Cons.prems(2) obtain e st es' where c: "process_log rx fmt (clock i) (line_event l) rules states = Inr (e, st)"
    "classify_lines rx fmt rules clock (Suc i) pre st = Inr (es', states')" "es = e # es'"
    by (auto simp: rbind_Inr_iff)
  from Cons.prems(1) have "l \<noteq> ''quit''" "''quit'' \<notin> set pre" by auto
  with Cons.IH [OF this(2) c(2)] stdin_loop_line [of l rx fmt clock i rules states e st cfg "pre @ ls" out] c show ?case by simp
qed simp

text \<open>
  The interactive mode classifies like the engine. The lines before the first "quit" are classified one
  after the other, each with the rule states its predecessors left, and what is shown is the answer to
  each, in order; what follows is not read.
\<close>

theorem stdin_classifies:
  assumes "''quit'' \<notin> set pre" and "classify_lines rx fmt rules clock 0 pre [] = Inr (es, states)"
  shows "stdin_run rx fmt cfg rules clock (pre @ ''quit'' # post)
    = Some (stdin_greeting @ concat (map (\<lambda>e. prompt_text @ stdin_answer cfg e) es) @ prompt_text @ ending_text, Inr ())"
  unfolding stdin_run_def stdin_loop_lines [OF assms] stdin_loop_quit by simp

text \<open>Without "quit" and without an exception the loop never ends.\<close>

definition never_throws :: "regex_lib \<Rightarrow> (int \<Rightarrow> string) \<Rightarrow> rule_cfg \<Rightarrow> bool" where
  "never_throws rx fmt rules = (\<forall>now se states. \<exists>e states'. process_log rx fmt now se rules states = Inr (e, states'))"

lemma stdin_loop_endless:
  assumes "stdin_loop rx fmt cfg rules clock i lines states out = Some r"
  shows "never_throws rx fmt rules \<longrightarrow> ''quit'' \<in> set lines"
proof (rule stdin_loop.raw_induct [OF _ assms, where P = "\<lambda>rx fmt cfg rules clock i lines states out r. never_throws rx fmt rules \<longrightarrow> ''quit'' \<in> set lines"])
  fix loop rx fmt cfg rules clock i lines states out r
  assume ih: "\<And>rx fmt cfg rules clock i lines states out r.
      loop rx fmt cfg rules clock i lines states out = Some r \<Longrightarrow> never_throws rx fmt rules \<longrightarrow> ''quit'' \<in> set lines"
    and step: "(let (line, rest) = (case lines of [] \<Rightarrow> ([], []) | l # ls \<Rightarrow> (l, ls)) in
      if line = ''quit'' then Some (out @ [newline] @ ''>'' @ [newline] @ ''Ending'' @ [newline], Inr ())
      else
        (case process_log rx fmt (clock i) (line_event line) rules states of
           Inl err \<Rightarrow> Some (out @ [newline] @ ''>'', Inl err)
         | Inr (e, states') \<Rightarrow> loop rx fmt cfg rules clock (Suc i) rest states' (out @ [newline] @ ''>'' @ stdin_answer cfg e))) = Some r"
  show "never_throws rx fmt rules \<longrightarrow> ''quit'' \<in> set lines"
  proof
    assume n: "never_throws rx fmt rules"
    obtain line rest where l: "(case lines of [] \<Rightarrow> ([], []) | l # ls \<Rightarrow> (l, ls)) = (line, rest)" by fastforce
    show "''quit'' \<in> set lines"
    proof (cases "line = ''quit''")
      case True
      with l show ?thesis by (auto split: list.splits)
    next
      case False
      obtain e st where "process_log rx fmt (clock i) (line_event line) rules states = Inr (e, st)"
        using n unfolding never_throws_def by blast
      with step l False have "loop rx fmt cfg rules clock (Suc i) rest st (out @ [newline] @ ''>'' @ stdin_answer cfg e) = Some r"
        by (simp add: Let_def)
      from ih [OF this] n have "''quit'' \<in> set rest" by blast
      with l show ?thesis by (auto split: list.splits)
    qed
  qed
qed

lemma classify_lines_total:
  assumes "never_throws rx fmt rules"
  shows "\<exists>es st'. classify_lines rx fmt rules clock i lines st = Inr (es, st')"
proof (induction lines arbitrary: i st)
  case (Cons l ls)
  from assms [unfolded never_throws_def] obtain e st1 where "process_log rx fmt (clock i) (line_event l) rules st = Inr (e, st1)" by blast
  moreover from Cons.IH obtain es st2 where "classify_lines rx fmt rules clock (Suc i) ls st1 = Inr (es, st2)" by blast
  ultimately show ?case by simp
qed simp

lemma started_rules_never_throw:
  assumes "research_start sy args = Starts (so, cfg, rules)" "rx_lawful (sy_rx sy)" "\<forall>d \<in> all_datas rules. engine_ready (sy_rx sy) d"
  shows "never_throws (sy_rx sy) fmt rules"
  using loaded_rules_safe [OF started_rules_loaded [OF assms(1)] assms(3)] assms(2)
  unfolding never_throws_def by (auto intro: process_log_total)

text \<open>
  C37: The interactive mode does not end with its input. When the rules the program loaded are ready (\<open>engine_ready\<close>: valid patterns in the
  conditions, no unless rule with an activation group, no rule with priority 0 and the largest id), so that no line throws, it
  returns exactly when one of the lines is "quit": at the end of the input it goes on forever, with empty lines.
\<close>

theorem stdin_ends_only_by_quit:
  assumes "research_start sy args = Starts (so, cfg, rules)" and "rx_lawful (sy_rx sy)"
    and "\<forall>d \<in> all_datas rules. engine_ready (sy_rx sy) d"
  shows "stdin_run (sy_rx sy) fmt cfg rules clock lines \<noteq> None \<longleftrightarrow> ''quit'' \<in> set lines"
proof -
  have n: "never_throws (sy_rx sy) fmt rules" by (rule started_rules_never_throw [OF assms])
  have "stdin_run (sy_rx sy) fmt cfg rules clock lines \<noteq> None" if "''quit'' \<in> set lines"
  proof -
    from that obtain pre post where l: "lines = pre @ ''quit'' # post" "''quit'' \<notin> set pre" by (meson split_list_first)
    obtain es st where "classify_lines (sy_rx sy) fmt rules clock 0 pre [] = Inr (es, st)" using classify_lines_total [OF n] by blast
    with l show ?thesis unfolding stdin_run_def by (simp add: stdin_loop_lines stdin_loop_quit)
  qed
  with stdin_loop_endless n show ?thesis unfolding stdin_run_def by blast
qed

subsection \<open>Witnesses\<close>

text \<open>A system on which everything is owned by root, with a directory of one rule file.\<close>

definition root_file :: file_stat where
  "root_file = \<lparr>st_size = 9, st_mode = 0x8180, st_ino = 7, st_uid = 0, st_gid = 0, st_mtime = 1, st_ctime = 1\<rparr>"

definition demo_accounts :: accounts where
  "demo_accounts =
     \<lparr>na_pw_size_max = - 1, na_gr_size_max = 1024, na_getpwuid = (\<lambda>u n. (0, None)), na_getpwnam = (\<lambda>u n. (0, Some 33)),
      na_getgrgid = (\<lambda>g n. (0, None)), na_getgrnam = (\<lambda>g n. (0, Some 4))\<rparr>"

definition demo_system :: system where
  "demo_system =
     \<lparr>sy_files = \<lparr>fs_stat = (\<lambda>p. Inr root_file),
        fs_text = [''/etc/ctguard/research.conf'' \<mapsto> ''research { mail = false }'', ''/etc/ctguard/rules/web.xml'' \<mapsto> demo_rules,
          ''/etc/ctguard/intervention.conf'' \<mapsto> demo_intervention],
        fs_entries = (\<lambda>p. Some ([(''web.xml'', Entry_reg), (''.web.swp'', Entry_reg), (''old'', Entry_dir)], False)), fs_appends = (\<lambda>p. True)\<rparr>,
      sy_accounts = demo_accounts, sy_identity = \<lparr>id_euid = 5, id_egid = 5\<rparr>, sy_rx = literal_rx, sy_ord = id\<rparr>"

definition no_arguments :: arguments where
  "no_arguments = \<lparr>ar_switches = [(CHR ''f'', [])], ar_rest = []\<rparr>"

lemma demo_perms: "check_perms demo_system p = Inr ()"
  by (simp add: check_perms_def check_cfg_file_perms_def demo_system_def root_file_def demo_accounts_def getgroupid_def
      found_entry_def mode_bit_def Let_def)

lemma demo_starts:
  "research_start demo_system no_arguments
     = Starts ((default_options ''/etc/ctguard/research.conf'')\<lparr>so_foreground := True\<rparr>, default_research_config\<lparr>rc_mail := False\<rparr>, demo_loaded)"
proof -
  have c: "research_parse_config id (Some ''research { mail = false }'') = Inr (default_research_config\<lparr>rc_mail := False\<rparr>)"
    by (simp add: research_parse_config_def read_file_def demo_research_parsed research_top_def no_subgroups_def
        research_option_def research_path_option_def research_number_option_def first_argument_def bool_argument_def
        parse_bool_def)
  have t: "file_text demo_system ''/etc/ctguard/research.conf'' = Some ''research { mail = false }''"
    "file_text demo_system ''/etc/ctguard/rules/web.xml'' = Some demo_rules"
    by (simp_all add: file_text_def demo_system_def c_str_def)
  have s: "sy_ord demo_system = id" "sy_rx demo_system = literal_rx"
    "fs_entries (sy_files demo_system) p = Some ([(''web.xml'', Entry_reg), (''.web.swp'', Entry_reg), (''old'', Entry_dir)], False)" for p
    by (simp_all add: demo_system_def)
  have r: "rule_paths ''/etc/ctguard/rules/'' [(''web.xml'', Entry_reg), (''.web.swp'', Entry_reg), (''old'', Entry_dir)]
      = [''/etc/ctguard/rules/web.xml'']"
    by (simp add: rule_paths_def is_hidden_def rule_path_def insort_insert_key_def)
  have o: "read_options research_switch ''/etc/ctguard/research.conf'' v h no_arguments
      = Starts ((default_options ''/etc/ctguard/research.conf'')\<lparr>so_foreground := True\<rparr>)" for v h
    by (simp add: read_options_def no_arguments_def research_switch_def common_switch_def)
  have l: "load_rules demo_system (default_research_config\<lparr>rc_mail := False\<rparr>) = Starts demo_loaded"
    by (simp add: load_rules_def default_research_config_def or_refuse_def demo_perms s r load_rule_file_def t demo_rules_load Let_def)
  show ?thesis
    by (simp add: research_start_def o load_config_def or_refuse_def demo_perms default_options_def t s c l)
      (simp add: default_research_config_def demo_loaded_def open_log_def open_output_def demo_system_def)
qed

theorem research_starts_safely_witness:
  "file_safe demo_system ''/etc/ctguard/research.conf'' \<and> std_rules demo_loaded \<noteq> []"
  using research_starts_safely [OF demo_starts] by (simp add: default_options_def demo_loaded_def)

theorem rule_paths_order_free_witness:
  "rule_paths ''r'' [(''b'', Entry_reg), (''a'', Entry_reg)] = [''r/a'', ''r/b'']
   \<and> rule_paths ''r'' [(''a'', Entry_reg), (''b'', Entry_reg), (''a'', Entry_reg)] = [''r/a'', ''r/b'']"
proof -
  have "set [(''a'', Entry_reg), (''b'', Entry_reg), (''a'', Entry_reg)] = set [(''b'', Entry_reg), (''a'', Entry_reg)]" by auto
  with rule_paths_order_free [of "''r''" "[(''b'', Entry_reg), (''a'', Entry_reg)]"]
  have "rule_paths ''r'' [(''a'', Entry_reg), (''b'', Entry_reg), (''a'', Entry_reg)] = rule_paths ''r'' [(''b'', Entry_reg), (''a'', Entry_reg)]" by blast
  moreover have "rule_paths ''r'' [(''b'', Entry_reg), (''a'', Entry_reg)] = [''r/a'', ''r/b'']"
    by (simp add: rule_paths_def is_hidden_def rule_path_def insort_insert_key_def)
  ultimately show ?thesis by simp
qed

lemma demo_loaded_ready: "\<forall>d \<in> all_datas demo_loaded. engine_ready literal_rx d"
  by (simp add: all_datas_def demo_loaded_def engine_ready_def default_rule_def default_unless_def)

theorem stdin_classifies_witness:
  "\<exists>e. stdin_run literal_rx (\<lambda>t. []) default_research_config demo_loaded (\<lambda>i. 0) [''boom'', ''quit'', ''x'']
     = Some (stdin_greeting @ prompt_text @ stdin_answer default_research_config e @ prompt_text @ ending_text, Inr ())"
proof -
  have n: "never_throws literal_rx (\<lambda>t. []) demo_loaded"
    using started_rules_never_throw [OF demo_starts] literal_rx_lawful demo_loaded_ready by (simp add: demo_system_def)
  obtain es st where c: "classify_lines literal_rx (\<lambda>t. []) demo_loaded (\<lambda>i. 0) 0 [''boom''] [] = Inr (es, st)"
    using classify_lines_total [OF n] by blast
  then obtain e where "es = [e]" by (auto simp: rbind_Inr_iff)
  with stdin_classifies [OF _ c, of default_research_config "[''x'']"] show ?thesis by auto
qed

theorem stdin_ends_only_by_quit_witness:
  "stdin_run literal_rx (\<lambda>t. []) (default_research_config\<lparr>rc_mail := False\<rparr>) demo_loaded (\<lambda>i. 0) [''boom''] = None"
proof -
  have "rx_lawful (sy_rx demo_system)" "\<forall>d \<in> all_datas demo_loaded. engine_ready (sy_rx demo_system) d"
    using literal_rx_lawful demo_loaded_ready by (simp_all add: demo_system_def)
  from stdin_ends_only_by_quit [OF demo_starts this, of "\<lambda>t. []" "\<lambda>i. 0" "[''boom'']"]
  show ?thesis by (simp add: demo_system_def del: not_None_eq)
qed

end
