(* ===== verification/Logscan.thy ===== *)
theory Logscan
  imports Daemon_Configs
begin

text \<open>
  src/src/logscan/daemon.cpp and logfile.hpp: how ctguard-logscan follows the monitored files. A file
  is seen through what the system calls of one turn answer (\<open>file_view\<close>); a position is a
  \<open>fpos\<close>, here the offset it holds, with -1 for the failure of \<open>tellg\<close>. Also the state file that keeps
  inode and position over a restart, and the messages of the systemd socket. The forwarding thread is in
  \<open>Event_Sinks\<close>. Log output of the daemon itself is not modelled.
\<close>

record logfile =
  ls_config :: logfile_config
  ls_fd :: int
  ls_position :: int
  ls_inode :: "64 word"
  ls_size :: int
  ls_down :: bool
  ls_last_updated :: int
  ls_timeout_triggered :: bool

definition new_logfile :: "logfile_config \<Rightarrow> logfile" where
  "new_logfile lc =
     \<lparr>ls_config = lc, ls_fd = - 1, ls_position = 0, ls_inode = - 1, ls_size = - 1, ls_down = False,
      ls_last_updated = 0, ls_timeout_triggered = False\<rparr>"

abbreviation ls_path :: "logfile \<Rightarrow> string" where
  "ls_path ls \<equiv> lf_path (ls_config ls)"

definition log_2_se :: "bool \<Rightarrow> int \<Rightarrow> string \<Rightarrow> bool \<Rightarrow> string \<Rightarrow> source_event" where
  "log_2_se unit_test now source control message =
     default_source_event\<lparr>
       se_control_message := control, se_message := message, se_source_domain := source,
       se_source_program := ''ctguard-logscan'', se_time_scanned := (if unit_test then 0 else now)\<rparr>"

subsection \<open>The state file\<close>

type_synonym saved_state = "string \<times> 64 word \<times> int"

datatype logscan_error = Substr_out_of_range string

text \<open>\<open>is >> x\<close> for an unsigned 64 bit \<open>x\<close>: the value and the rest of the stream, None when it fails.\<close>

definition extract_ulong :: "string \<Rightarrow> (64 word \<times> string) option" where
  "extract_ulong s =
     (let (neg, body) = read_sign (skip_spaces s);
          digits = takeWhile isdigit body;
          v = digits_value 0 digits
      in if digits = [] \<or> ulong_max < v then None
         else Some (if neg then - of_nat v else of_nat v, dropWhile isdigit body))"

text \<open>One line: \<open>Some\<close> is an entry, None a line that is skipped.\<close>

definition state_entry :: "string \<Rightarrow> (logscan_error, saved_state option) res" where
  "state_entry line =
     (case str_find CHR 0x22 1 line of
        None \<Rightarrow> Inr None
      | Some pathpos \<Rightarrow>
          if length line < pathpos + 2 then Inl (Substr_out_of_range line)
          else
            (let file = substr line 1 (Some (pathpos - 1)); rest = substr line (pathpos + 2) None in
             case extract_ulong rest of
               None \<Rightarrow> Inr None
             | Some (inode, rest) \<Rightarrow>
                 (case rest of
                    [] \<Rightarrow> Inr None
                  | c # rest \<Rightarrow>
                      if c \<noteq> CHR '','' then Inr None
                      else (case extract_ulong rest of
                          None \<Rightarrow> Inr None
                        | Some (pos, _) \<Rightarrow> Inr (Some (file, inode, sint pos))))))"

fun state_entries :: "string list \<Rightarrow> (logscan_error, saved_state list) res" where
  "state_entries [] = Inr []"
| "state_entries (line # lines) =
     (if line = [] then state_entries lines
      else rbind (state_entry line) (\<lambda>e. rbind (state_entries lines) (\<lambda>es.
           Inr (case e of None \<Rightarrow> es | Some s \<Rightarrow> s # es))))"

text \<open>\<open>file\<close> is the text of the state file, None when it cannot be opened. The last line of
  \<open>std::getline\<close> is the text after the last newline, if not empty; empty lines are skipped anyway.\<close>

definition get_state :: "string option \<Rightarrow> (logscan_error, saved_state list) res" where
  "get_state file =
     (case file of None \<Rightarrow> Inr [] | Some content \<Rightarrow> state_entries (cut_at newline content))"

definition state_line :: "logfile \<Rightarrow> string" where
  "state_line ls =
     CHR 0x22 # ls_path ls @ [CHR 0x22, CHR '',''] @ nat_to_string (unat (ls_inode ls)) @ '','' @ int_to_string (ls_position ls) @ [newline]"

text \<open>The new text replaces the file by \<open>rename\<close>; when the temporary file cannot be written or renamed, the
  old one stays.\<close>

definition save_state :: "bool \<Rightarrow> bool \<Rightarrow> logfile list \<Rightarrow> string option \<Rightarrow> string option" where
  "save_state open_ok rename_ok states file =
     (if open_ok \<and> rename_ok then Some (concat (map state_line states)) else file)"

subsection \<open>Opening the files at the start\<close>

record file_view =
  fv_open :: int
  fv_stat :: "(64 word \<times> int) option"
  fv_reopen :: int
  fv_text :: "string option"

text \<open>The saved states of the file, in the order of the state file.\<close>

fun apply_saved :: "bool \<Rightarrow> int \<Rightarrow> 64 word \<Rightarrow> saved_state list \<Rightarrow> logfile \<Rightarrow> bool \<times> source_event list \<times> logfile" where
  "apply_saved ut now ino [] ls = (False, [], ls)"
| "apply_saved ut now ino ((path, sinode, spos) # saved) ls =
     (if path \<noteq> ls_path ls then apply_saved ut now ino saved ls
      else if ino \<noteq> sinode then
        (case apply_saved ut now ino saved (ls\<lparr>ls_position := 0\<rparr>) of
           (found, es, ls') \<Rightarrow> (True, log_2_se ut now (ls_path ls) True ''!File got replaced'' # es, ls'))
      else
        (case apply_saved ut now ino saved (ls\<lparr>ls_position := spos\<rparr>) of (found, es, ls') \<Rightarrow> (True, es, ls')))"

definition open_logfile :: "bool \<Rightarrow> int \<Rightarrow> saved_state list \<Rightarrow> file_view \<Rightarrow> logfile_config \<Rightarrow> source_event list \<times> logfile" where
  "open_logfile ut now saved v lc =
     (let ls = (new_logfile lc)\<lparr>ls_fd := fv_open v\<rparr> in
      if ls_fd ls = - 1 then ([], ls\<lparr>ls_down := True\<rparr>)
      else
        (case fv_stat v of
           None \<Rightarrow> ([], ls\<lparr>ls_down := True\<rparr>)
         | Some (ino, sz) \<Rightarrow>
             (case apply_saved ut now ino saved ls of
                (found, es, ls) \<Rightarrow>
                  (let ls = ls\<lparr>ls_inode := ino, ls_size := sz\<rparr>;
                       ls = (if found then ls else ls\<lparr>ls_position := sz\<rparr>)
                   in (es, ls\<lparr>ls_last_updated := now\<rparr>)))))"

subsection \<open>One turn over a file\<close>

definition scan_timeout :: "bool \<Rightarrow> int \<Rightarrow> logfile \<Rightarrow> source_event list \<times> logfile" where
  "scan_timeout ut now ls =
     (let t = lf_timeout_alert (ls_config ls) in
      if t \<noteq> 0 \<and> \<not> ls_timeout_triggered ls \<and> ls_last_updated ls + int (unat t) \<le> now then
        ([log_2_se ut now (ls_path ls) True ''!Timeout alert''], ls\<lparr>ls_timeout_triggered := True\<rparr>)
      else ([], ls))"

text \<open>The results with False end the turn for this file (\<open>continue\<close>).\<close>

definition scan_open :: "bool \<Rightarrow> int \<Rightarrow> file_view \<Rightarrow> logfile \<Rightarrow> bool \<times> source_event list \<times> logfile" where
  "scan_open ut now v ls =
     (if ls_fd ls = - 1 \<or> ls_down ls then
        (let ls = ls\<lparr>ls_fd := fv_open v\<rparr> in
         if ls_fd ls = - 1 then (False, [], ls)
         else (True, [log_2_se ut now (ls_path ls) True ''!File coming alive''],
               ls\<lparr>ls_down := False, ls_timeout_triggered := False\<rparr>))
      else (True, [], ls))"

definition scan_inode :: "bool \<Rightarrow> int \<Rightarrow> file_view \<Rightarrow> 64 word \<Rightarrow> logfile \<Rightarrow> bool \<times> source_event list \<times> logfile" where
  "scan_inode ut now v ino ls =
     (if ino \<noteq> ls_inode ls then
        (let e = log_2_se ut now (ls_path ls) True ''!File got replaced'';
             ls = ls\<lparr>ls_inode := ino, ls_position := 0, ls_fd := fv_reopen v\<rparr>
         in if ls_fd ls = - 1 then (False, [e, log_2_se ut now (ls_path ls) True ''!File went down''], ls)
            else (True, [e], ls))
      else (True, [], ls))"

text \<open>The \<open>getline\<close> loop from offset \<open>p\<close>: every line that is not empty, and what \<open>tellg\<close> answers after it.
  After a last line without newline the stream is at its end and \<open>tellg\<close> fails.\<close>

fun read_lines :: "nat \<Rightarrow> string \<Rightarrow> string \<Rightarrow> (string \<times> int) list" where
  "read_lines p line [] = (if line = [] then [] else [(line, - 1)])"
| "read_lines p line (c # cs) =
     (if c = newline then
        (if line = [] then read_lines (Suc p) [] cs else (line, int (Suc p)) # read_lines (Suc p) [] cs)
      else read_lines (Suc p) (line @ [c]) cs)"

definition scan_read :: "bool \<Rightarrow> int \<Rightarrow> file_view \<Rightarrow> logfile \<Rightarrow> source_event list \<times> logfile" where
  "scan_read ut now v ls =
     (case fv_text v of
        None \<Rightarrow> ([], ls)
      | Some content \<Rightarrow>
          if ls_position ls < 0 then ([], ls)
          else
            (let got = read_lines (nat (ls_position ls)) [] (drop (nat (ls_position ls)) content) in
             (map (\<lambda>(line, _). log_2_se ut now (ls_path ls) False line) got,
              if got = [] then ls
              else ls\<lparr>ls_position := snd (last got), ls_last_updated := now, ls_timeout_triggered := False\<rparr>)))"

definition scan_size :: "bool \<Rightarrow> int \<Rightarrow> file_view \<Rightarrow> int \<Rightarrow> logfile \<Rightarrow> source_event list \<times> logfile" where
  "scan_size ut now v sz ls =
     (if sz = ls_size ls then ([], ls)
      else
        (let (e, ls) = (if sz < ls_size ls
             then ([log_2_se ut now (ls_path ls) True ''!File truncated''], ls\<lparr>ls_position := 0\<rparr>) else ([], ls));
             (es, ls) = scan_read ut now v (ls\<lparr>ls_size := sz\<rparr>)
         in (e @ es, ls)))"

definition scan_stat :: "bool \<Rightarrow> int \<Rightarrow> file_view \<Rightarrow> logfile \<Rightarrow> source_event list \<times> logfile" where
  "scan_stat ut now v ls =
     (case fv_stat v of
        None \<Rightarrow> ([log_2_se ut now (ls_path ls) True ''!File went down''], ls\<lparr>ls_down := True\<rparr>)
      | Some (ino, sz) \<Rightarrow>
          (case scan_inode ut now v ino ls of
             (False, es, ls) \<Rightarrow> (es, ls)
           | (True, es, ls) \<Rightarrow> (let (es', ls) = scan_size ut now v sz ls in (es @ es', ls))))"

definition scan_file :: "bool \<Rightarrow> int \<Rightarrow> file_view \<Rightarrow> logfile \<Rightarrow> source_event list \<times> logfile" where
  "scan_file ut now v ls =
     (let (e, ls) = scan_timeout ut now ls in
      case scan_open ut now v ls of
        (False, es, ls) \<Rightarrow> (e @ es, ls)
      | (True, es, ls) \<Rightarrow> (let (es', ls) = scan_stat ut now v ls in (e @ es @ es', ls)))"

subsection \<open>logfile_task\<close>

record logscan_task =
  lt_files :: "logfile list"
  lt_interval :: "32 word"

fun scan_files :: "bool \<Rightarrow> int \<Rightarrow> file_view list \<Rightarrow> logfile list \<Rightarrow> source_event list \<times> logfile list" where
  "scan_files ut now (v # vs) (ls # lss) =
     (let (es, ls) = scan_file ut now v ls; (es', lss) = scan_files ut now vs lss in (es @ es', ls # lss))"
| "scan_files ut now vs lss = ([], lss)"

fun open_logfiles :: "bool \<Rightarrow> int \<Rightarrow> saved_state list \<Rightarrow> file_view list \<Rightarrow> logfile_config list \<Rightarrow> source_event list \<times> logfile list" where
  "open_logfiles ut now saved (v # vs) (lc # lcs) =
     (let (es, ls) = open_logfile ut now saved v lc; (es', lss) = open_logfiles ut now saved vs lcs in (es @ es', ls # lss))"
| "open_logfiles ut now saved vs lcs = ([], [])"

text \<open>The start of the thread: None when there is no file to monitor.\<close>

definition logfile_start :: "bool \<Rightarrow> int \<Rightarrow> string option \<Rightarrow> file_view list \<Rightarrow> logscan_config \<Rightarrow>
    (logscan_error, (source_event list \<times> logscan_task) option) res" where
  "logfile_start ut now file vs cfg =
     rbind (get_state file) (\<lambda>saved.
     let (es, lss) = open_logfiles ut now saved vs (lc_log_files cfg) in
     Inr (if lss = [] then None else Some (es, \<lparr>lt_files = lss, lt_interval = 0\<rparr>)))"

text \<open>One turn of the loop; the state file is written when the counter passes the interval.\<close>

definition logfile_turn :: "bool \<Rightarrow> int \<Rightarrow> file_view list \<Rightarrow> bool \<Rightarrow> bool \<Rightarrow> logscan_config \<Rightarrow> logscan_task \<times> string option \<Rightarrow>
    source_event list \<times> logscan_task \<times> string option" where
  "logfile_turn ut now vs open_ok rename_ok cfg ts =
     (let (es, lss) = scan_files ut now vs (lt_files (fst ts)); n = lt_interval (fst ts) + 1 in
      if lc_state_file_interval cfg < n then
        (es, \<lparr>lt_files = lss, lt_interval = 0\<rparr>, save_state open_ok rename_ok lss (snd ts))
      else (es, \<lparr>lt_files = lss, lt_interval = n\<rparr>, snd ts))"

text \<open>After the loop the state is written once more.\<close>

definition logfile_stop :: "bool \<Rightarrow> bool \<Rightarrow> logscan_task \<times> string option \<Rightarrow> string option" where
  "logfile_stop open_ok rename_ok ts = save_state open_ok rename_ok (lt_files (fst ts)) (snd ts)"

subsection \<open>systemd_task\<close>

text \<open>A datagram in the buffer of 512 bytes; \<open>junk\<close> is what the buffer held before (it is not
  initialised). A message that starts with \<open><\<close> and has \<open>>\<close> as its fourth byte loses four bytes.\<close>

definition systemd_buffer :: "string \<Rightarrow> string \<Rightarrow> string" where
  "systemd_buffer junk data =
     (let got = take 512 data in
      if 512 \<le> length got then got[511 := CHR 0x00]
      else got @ [CHR 0x00] @ drop (Suc (length got)) junk)"

definition systemd_message :: "int \<Rightarrow> string \<Rightarrow> string \<Rightarrow> source_event" where
  "systemd_message now junk data =
     (let buffer = systemd_buffer junk data in
      default_source_event\<lparr>
        se_message := c_str (if buffer ! 0 = CHR ''<'' \<and> buffer ! 3 = CHR ''>'' then drop 4 buffer else buffer),
        se_source_domain := ''systemd_syslog'', se_source_program := ''ctguard-logscan'', se_time_scanned := now\<rparr>)"

text \<open>The inner loop over the answers of \<open>recv\<close> (None: an error or the timeout): an error or an empty
  datagram ends it; the messages are those put into the queue.\<close>

fun systemd_receive :: "int \<Rightarrow> string \<Rightarrow> string option list \<Rightarrow> source_event list" where
  "systemd_receive now junk [] = []"
| "systemd_receive now junk (None # answers) = []"
| "systemd_receive now junk (Some data # answers) =
     systemd_message now junk data # (if data = [] then [] else systemd_receive now junk answers)"

text \<open>The guards at the start of the thread and the creation of its socket.\<close>

datatype systemd_start = Systemd_disabled | Systemd_not_root | Systemd_error | Systemd_bind_too_long nat | Systemd_runs

definition systemd_init :: "logscan_config \<Rightarrow> nat \<Rightarrow> bool \<Rightarrow> bool \<Rightarrow> bool \<Rightarrow> systemd_start" where
  "systemd_init cfg euid socket_ok option_ok bind_ok =
     (if \<not> lc_systemd_input cfg then Systemd_disabled
      else if euid \<noteq> 0 then Systemd_not_root
      else if \<not> socket_ok then Systemd_error
      else if sun_path_max < length (lc_systemd_socket cfg) then Systemd_bind_too_long (length (lc_systemd_socket cfg))
      else if \<not> option_ok \<or> \<not> bind_ok then Systemd_error
      else Systemd_runs)"

end
