(* ===== verification/Logscan_Daemon.thy ===== *)
theory Logscan_Daemon
  imports Logscan Blocked_Queue
begin

text \<open>
  src/src/logscan/daemon.cpp: \<open>daemon()\<close> of ctguard-logscan, the interleaving of its main thread with the three
  it starts. A step is labelled with the events it put into the queue. The thread that follows the files
  looks at all of them in one step and puts the events it found into the queue one by one afterwards. What the
  system calls answer is chosen freely in every step; a failing \<open>sigtimedwait\<close> ends the waiting like a signal.
\<close>

record logscan_env =
  le_cfg :: logscan_config
  le_unit_test :: bool
  le_net :: net
  le_ser :: "source_event \<Rightarrow> string"

datatype logscan_thread_error =
    Logfile_error logscan_error
  | Systemd_socket_error
  | Systemd_address_too_long nat

datatype logscan_main = Lm_start | Lm_wait | Lm_stopping | Lm_killing | Lm_join nat | Lm_returned

datatype logfile_pc = Lf_start | Lf_check | Lf_scan | Lf_done

datatype systemd_pc = Sd_start | Sd_check | Sd_recv | Sd_done

record logscan_state =
  lg_running :: bool
  lg_main :: logscan_main
  lg_logfile :: logfile_pc
  lg_systemd :: systemd_pc
  lg_output_done :: bool
  lg_queue :: "source_event blocked_queue"
  lg_task :: logscan_task
  lg_outbox :: "source_event list"
  lg_file :: "string option"
  lg_errors :: "logscan_thread_error list"
  lg_resend :: "source_event resend"
  lg_sink :: sink_state

text \<open>The sink is created before the threads: its exception ends \<open>daemon()\<close> at once. \<open>file\<close>: the state file.\<close>

definition logscan_begin :: "logscan_env \<Rightarrow> bool \<Rightarrow> string \<Rightarrow> string option \<Rightarrow> net_state \<Rightarrow> (sink_error, logscan_state) res" where
  "logscan_begin env opened host file ns =
     (case create_sink (le_net env) opened host (lc_output_path (le_cfg env)) (lc_output_kind (le_cfg env)) (le_unit_test env) ns of
        (Inl e, ns) \<Rightarrow> Inl e
      | (Inr k, ns) \<Rightarrow>
          Inr \<lparr>lg_running = True, lg_main = Lm_start, lg_logfile = Lf_start, lg_systemd = Sd_start, lg_output_done = False,
            lg_queue = [], lg_task = \<lparr>lt_files = [], lt_interval = 0\<rparr>, lg_outbox = [], lg_file = file, lg_errors = [],
            lg_resend = resend_init, lg_sink = (k, ns)\<rparr>)"

subsection \<open>The thread that follows the files\<close>

definition logfile_begin :: "logscan_env \<Rightarrow> int \<Rightarrow> file_view list \<Rightarrow> logscan_state \<Rightarrow> logscan_state" where
  "logfile_begin env now vs s =
     (case logfile_start (le_unit_test env) now (lg_file s) vs (le_cfg env) of
        Inl e \<Rightarrow> s\<lparr>lg_logfile := Lf_done, lg_errors := Logfile_error e # lg_errors s\<rparr>
      | Inr None \<Rightarrow> s\<lparr>lg_logfile := Lf_done\<rparr>
      | Inr (Some (es, t)) \<Rightarrow> s\<lparr>lg_logfile := Lf_check, lg_task := t, lg_outbox := es\<rparr>)"

definition logfile_check :: "logscan_env \<Rightarrow> bool \<Rightarrow> bool \<Rightarrow> logscan_state \<Rightarrow> logscan_state" where
  "logfile_check env open_ok rename_ok s =
     (if lg_running s then s\<lparr>lg_logfile := Lf_scan\<rparr>
      else s\<lparr>lg_logfile := Lf_done, lg_file := logfile_stop open_ok rename_ok (lg_task s, lg_file s)\<rparr>)"

definition logfile_scan :: "logscan_env \<Rightarrow> int \<Rightarrow> file_view list \<Rightarrow> bool \<Rightarrow> bool \<Rightarrow> logscan_state \<Rightarrow> logscan_state" where
  "logfile_scan env now vs open_ok rename_ok s =
     (case logfile_turn (le_unit_test env) now vs open_ok rename_ok (le_cfg env) (lg_task s, lg_file s) of
        (es, t, file) \<Rightarrow> s\<lparr>lg_logfile := Lf_check, lg_task := t, lg_outbox := es, lg_file := file\<rparr>)"

subsection \<open>The thread of the systemd socket\<close>

definition systemd_begin :: "logscan_env \<Rightarrow> nat \<Rightarrow> bool \<Rightarrow> bool \<Rightarrow> bool \<Rightarrow> logscan_state \<Rightarrow> logscan_state" where
  "systemd_begin env euid socket_ok option_ok bind_ok s =
     (case systemd_init (le_cfg env) euid socket_ok option_ok bind_ok of
        Systemd_disabled \<Rightarrow> s\<lparr>lg_systemd := Sd_done\<rparr>
      | Systemd_not_root \<Rightarrow> s\<lparr>lg_systemd := Sd_done\<rparr>
      | Systemd_error \<Rightarrow> s\<lparr>lg_systemd := Sd_done, lg_errors := Systemd_socket_error # lg_errors s\<rparr>
      | Systemd_bind_too_long n \<Rightarrow> s\<lparr>lg_systemd := Sd_done, lg_errors := Systemd_address_too_long n # lg_errors s\<rparr>
      | Systemd_runs \<Rightarrow> s\<lparr>lg_systemd := Sd_check\<rparr>)"

text \<open>One answer of \<open>recv\<close> (None: an error or the timeout); an empty datagram is put into the queue too.\<close>

definition systemd_turn :: "int \<Rightarrow> string \<Rightarrow> string option \<Rightarrow> logscan_state \<Rightarrow> source_event list \<times> logscan_state" where
  "systemd_turn now junk answer s =
     (case lg_systemd s of
        Sd_check \<Rightarrow> ([], s\<lparr>lg_systemd := (if lg_running s then Sd_recv else Sd_done)\<rparr>)
      | Sd_recv \<Rightarrow>
          (case answer of
             None \<Rightarrow> ([], s\<lparr>lg_systemd := Sd_check\<rparr>)
           | Some data \<Rightarrow>
               (let e = systemd_message now junk data in
                ([e], s\<lparr>lg_queue := bq_push (lg_queue s) e, lg_systemd := (if data = [] then Sd_check else Sd_recv)\<rparr>)))
      | _ \<Rightarrow> ([], s))"

subsection \<open>The forwarding thread\<close>

text \<open>One turn; the timed take times out on an empty queue. None: a send that never returns.\<close>

definition forward_turn :: "logscan_env \<Rightarrow> logscan_state \<Rightarrow> logscan_state option" where
  "forward_turn env s =
     (case bq_take_for (lg_queue s) [] of
        (inp, q) \<Rightarrow>
          Option.bind (resend_step (event_send (le_net env) (le_ser env)) se_is_kill (\<lambda>se. se) inp (lg_resend s) (lg_sink s))
            (\<lambda>(rt, k). Some (s\<lparr>lg_queue := q, lg_resend := rt, lg_sink := k, lg_output_done := rt_stopped rt\<rparr>)))"

subsection \<open>daemon()\<close>

definition logscan_kill :: source_event where
  "logscan_kill = default_source_event\<lparr>se_control_message := True, se_message := ''!KILL''\<rparr>"

definition daemon_event :: "logscan_env \<Rightarrow> int \<Rightarrow> string \<Rightarrow> source_event" where
  "daemon_event env now msg = log_2_se (le_unit_test env) now ''daemon'' True msg"

inductive logscan_step :: "logscan_env \<Rightarrow> logscan_state \<Rightarrow> source_event list \<Rightarrow> logscan_state \<Rightarrow> bool" for env where
  Lg_starts: "lg_main s = Lm_start \<Longrightarrow> e = daemon_event env now ''ctguard-logscan started'' \<Longrightarrow>
    logscan_step env s [e] (s\<lparr>lg_main := Lm_wait, lg_queue := bq_push (lg_queue s) e\<rparr>)"
| Lg_wakes: "lg_main s = Lm_wait \<Longrightarrow> e = daemon_event env now ''ctguard-logscan shutting down...'' \<Longrightarrow>
    logscan_step env s [e] (s\<lparr>lg_main := Lm_stopping, lg_queue := bq_push (lg_queue s) e\<rparr>)"
| Lg_stops: "lg_main s = Lm_stopping \<Longrightarrow> logscan_step env s [] (s\<lparr>lg_main := Lm_killing, lg_running := False\<rparr>)"
| Lg_kills: "lg_main s = Lm_killing \<Longrightarrow>
    logscan_step env s [logscan_kill] (s\<lparr>lg_main := Lm_join 0, lg_queue := bq_push (lg_queue s) logscan_kill\<rparr>)"
| Lg_joins_logfile: "lg_main s = Lm_join 0 \<Longrightarrow> lg_logfile s = Lf_done \<Longrightarrow> logscan_step env s [] (s\<lparr>lg_main := Lm_join 1\<rparr>)"
| Lg_joins_systemd: "lg_main s = Lm_join 1 \<Longrightarrow> lg_systemd s = Sd_done \<Longrightarrow> logscan_step env s [] (s\<lparr>lg_main := Lm_join 2\<rparr>)"
| Lg_joins_output: "lg_main s = Lm_join 2 \<Longrightarrow> lg_output_done s \<Longrightarrow> logscan_step env s [] (s\<lparr>lg_main := Lm_returned\<rparr>)"
| Lg_logfile_begins: "lg_logfile s = Lf_start \<Longrightarrow> length vs = length (lc_log_files (le_cfg env)) \<Longrightarrow>
    logscan_step env s [] (logfile_begin env now vs s)"
| Lg_logfile_pushes: "lg_outbox s = e # es \<Longrightarrow>
    logscan_step env s [e] (s\<lparr>lg_outbox := es, lg_queue := bq_push (lg_queue s) e\<rparr>)"
| Lg_logfile_checks: "lg_logfile s = Lf_check \<Longrightarrow> lg_outbox s = [] \<Longrightarrow>
    logscan_step env s [] (logfile_check env open_ok rename_ok s)"
| Lg_logfile_scans: "lg_logfile s = Lf_scan \<Longrightarrow> lg_outbox s = [] \<Longrightarrow> length vs = length (lt_files (lg_task s)) \<Longrightarrow>
    logscan_step env s [] (logfile_scan env now vs open_ok rename_ok s)"
| Lg_systemd_begins: "lg_systemd s = Sd_start \<Longrightarrow>
    logscan_step env s [] (systemd_begin env euid socket_ok option_ok bind_ok s)"
| Lg_systemd_turns: "lg_systemd s \<in> {Sd_check, Sd_recv} \<Longrightarrow> systemd_turn now junk answer s = (es, s') \<Longrightarrow>
    logscan_step env s es s'"
| Lg_forwards: "\<not> lg_output_done s \<Longrightarrow> forward_turn env s = Some s' \<Longrightarrow> logscan_step env s [] s'"

text \<open>A run from the state \<open>s0\<close> and the events put into the queue, in order.\<close>

inductive logscan_run :: "logscan_env \<Rightarrow> logscan_state \<Rightarrow> source_event list \<Rightarrow> logscan_state \<Rightarrow> bool" for env s0 where
  lg_start: "logscan_begin env opened host saved ns = Inr s0 \<Longrightarrow> logscan_run env s0 [] s0"
| lg_step: "logscan_run env s0 tr s \<Longrightarrow> logscan_step env s es s' \<Longrightarrow> logscan_run env s0 (tr @ es) s'"

end
