(* ===== verification/Logscan_Facts.thy ===== *)
theory Logscan_Facts
  imports Logscan
begin

text \<open>
  What ctguard-logscan reports of the files it follows: every complete line once, whatever the moments
  at which it looks; what an unfinished line, a truncation and a rotation lead to; and the round trip of
  the state file.
\<close>

subsection \<open>The lines of a text\<close>

text \<open>The reading loop yields the lines, and the position after a complete text leaves no line unread.\<close>

lemma read_lines_lines: "newline \<notin> set acc \<Longrightarrow> map fst (read_lines p acc s) = text_lines (acc @ s)"
proof (induction p acc s rule: read_lines.induct)
  case (1 p line)
  then show ?case by (simp add: text_lines_plain)
next
  case (2 p line c cs)
  then show ?case by (auto simp: text_lines_newline)
qed

definition next_position :: "nat \<Rightarrow> (string \<times> int) list \<Rightarrow> int" where
  "next_position p got = (if got = [] then int p else snd (last got))"

lemma read_lines_position:
  assumes "newline \<notin> set acc" "length acc \<le> p" "complete (acc @ s)"
  shows "\<exists>k. next_position (p - length acc) (read_lines p acc s) = int (p - length acc + k) \<and> k \<le> length (acc @ s)
     \<and> text_lines (drop k (acc @ s)) = []"
  using assms
proof (induction s arbitrary: p acc)
  case Nil
  then have "acc = []" by (cases acc rule: rev_cases) (auto simp: complete_def)
  then show ?case by (simp add: next_position_def)
next
  case (Cons c s)
  show ?case
  proof (cases "c = newline")
    case False
    with Cons.prems Cons.IH [of "acc @ [c]" "Suc p"] show ?thesis by simp
  next
    case nl: True
    have cs: "complete s" using Cons.prems(3) by (auto simp: complete_def split: if_splits)
    from Cons.IH [of "[]" "Suc p"] cs obtain k where
      k: "next_position (Suc p) (read_lines (Suc p) [] s) = int (Suc p + k)" "k \<le> length s" "text_lines (drop k s) = []" by auto
    show ?thesis
    proof (cases "acc = []")
      case False
      then have "next_position (p - length acc) (read_lines p acc (c # s)) = next_position (Suc p) (read_lines (Suc p) [] s)"
        using nl by (simp add: next_position_def)
      with k Cons.prems(2) nl show ?thesis by (intro exI [of _ "length acc + Suc k"]) auto
    next
      case acc: True
      show ?thesis
      proof (cases "read_lines (Suc p) [] s = []")
        case True
        have "text_lines s = []" using read_lines_lines [of "[]" "Suc p" s] True by simp
        with True nl acc show ?thesis
          by (intro exI [of _ 0]) (simp add: next_position_def text_lines_newline [of "[]", simplified])
      next
        case False
        then have "next_position p (read_lines p [] (c # s)) = next_position (Suc p) (read_lines (Suc p) [] s)"
          using nl by (simp add: next_position_def)
        with k nl acc show ?thesis by (intro exI [of _ "Suc k"]) simp
      qed
    qed
  qed
qed

lemma complete_drop: "complete t \<Longrightarrow> complete (drop p t)"
  by (cases "p < length t") (auto simp: complete_def)

text \<open>Reading a complete text from \<open>p\<close> and then, from the new position, a text that extends it.\<close>

lemma read_more:
  assumes "complete t" "p \<le> length t" "got = read_lines p [] (drop p t)"
  obtains q where "next_position p got = int q" "p \<le> q" "q \<le> length t"
    "text_lines (drop p (t @ u)) = map fst got @ text_lines (drop q (t @ u))" "text_lines (drop q t) = []"
proof -
  have c: "complete (drop p t)" using assms(1) by (rule complete_drop)
  from read_lines_position [of "[]" p "drop p t"] c assms(3) obtain k where
    k: "next_position p got = int (p + k)" "k \<le> length (drop p t)" "text_lines (drop k (drop p t)) = []" by auto
  have cq: "complete (drop (p + k) t)" using assms(1) by (rule complete_drop)
  have "text_lines (drop p (t @ u)) = map fst got @ text_lines u"
    using read_lines_lines [of "[]" p "drop p t"] assms(2,3) c by (simp add: text_lines_append)
  moreover have "text_lines (drop (p + k) (t @ u)) = text_lines u"
    using k(2,3) cq assms(2) by (simp add: text_lines_append add.commute)
  ultimately show thesis using k assms(2) by (intro that [of "p + k"]) (auto simp: add.commute)
qed

subsection \<open>Following a file that grows\<close>

text \<open>What the system calls answer for a file with this inode and text that can be opened.\<close>

definition plain_view :: "64 word \<Rightarrow> string \<Rightarrow> file_view" where
  "plain_view ino t = \<lparr>fv_open = 3, fv_stat = Some (ino, int (length t)), fv_reopen = 3, fv_text = Some t\<rparr>"

text \<open>Turns over one file: the time and what is seen.\<close>

fun follow :: "bool \<Rightarrow> (int \<times> file_view) list \<Rightarrow> logfile \<Rightarrow> source_event list \<times> logfile" where
  "follow ut [] ls = ([], ls)"
| "follow ut ((now, v) # vs) ls =
     (let (es, ls) = scan_file ut now v ls; (es', ls) = follow ut vs ls in (es @ es', ls))"

definition log_lines :: "source_event list \<Rightarrow> string list" where
  "log_lines es = map se_message (filter (\<lambda>e. \<not> se_control_message e) es)"

lemma log_lines_append [simp]: "log_lines (xs @ ys) = log_lines xs @ log_lines ys"
  by (simp add: log_lines_def)

lemma log_lines_Nil [simp]: "log_lines [] = []"
  by (simp add: log_lines_def)

lemma log_2_se_simps [simp]:
  "se_control_message (log_2_se ut now p c m) = c" "se_message (log_2_se ut now p c m) = m"
  "se_source_domain (log_2_se ut now p c m) = p"
  by (simp_all add: log_2_se_def)

lemma log_lines_control [simp]: "log_lines (log_2_se ut now p True m # es) = log_lines es"
  by (simp add: log_lines_def)

lemma log_lines_got [simp]: "log_lines (map (\<lambda>(line, _). log_2_se ut now p False line) got) = map fst got"
  by (induction got) (auto simp: log_lines_def)

text \<open>A file that is open and whose inode is known.\<close>

definition tracked :: "64 word \<Rightarrow> logfile \<Rightarrow> bool" where
  "tracked ino ls = (ls_fd ls \<noteq> - 1 \<and> \<not> ls_down ls \<and> ls_inode ls = ino)"

lemma scan_timeout_frame:
  "scan_timeout ut now ls = (es, ls') \<Longrightarrow>
   log_lines es = [] \<and> ls_fd ls' = ls_fd ls \<and> ls_down ls' = ls_down ls \<and> ls_inode ls' = ls_inode ls
   \<and> ls_size ls' = ls_size ls \<and> ls_position ls' = ls_position ls \<and> ls_config ls' = ls_config ls"
  by (auto simp: scan_timeout_def Let_def split: if_splits)

text \<open>A turn over a tracked file is the timeout check and the size check.\<close>

lemma scan_tracked:
  assumes "tracked ino ls" "fv_stat v = Some (ino, sz)" "scan_file ut now v ls = (es, ls')"
  obtains es1 ls1 es2 where "scan_timeout ut now ls = (es1, ls1)" "scan_size ut now v sz ls1 = (es2, ls')" "es = es1 @ es2"
    "tracked ino ls1" "log_lines es1 = []" "ls_size ls1 = ls_size ls" "ls_position ls1 = ls_position ls"
proof -
  obtain es1 ls1 where t: "scan_timeout ut now ls = (es1, ls1)" by (cases "scan_timeout ut now ls")
  from scan_timeout_frame [OF t] have f: "tracked ino ls1" "log_lines es1 = []" "ls_size ls1 = ls_size ls" "ls_position ls1 = ls_position ls"
    using assms(1) by (auto simp: tracked_def)
  obtain es2 ls2 where z: "scan_size ut now v sz ls1 = (es2, ls2)" by (cases "scan_size ut now v sz ls1")
  have o: "scan_open ut now v ls1 = (True, [], ls1)" "scan_inode ut now v ino ls1 = (True, [], ls1)"
    using f(1) by (auto simp: tracked_def scan_open_def scan_inode_def)
  have "es = es1 @ es2" "ls' = ls2" using assms(2,3) t o z by (auto simp: scan_file_def scan_stat_def)
  with that t z f show thesis by simp
qed

lemma scan_read_frame:
  "scan_read ut now v ls = (es, ls') \<Longrightarrow>
   ls_fd ls' = ls_fd ls \<and> ls_down ls' = ls_down ls \<and> ls_inode ls' = ls_inode ls \<and> ls_size ls' = ls_size ls"
  by (auto simp: scan_read_def Let_def split: option.splits if_splits)

lemma scan_size_same: "scan_size ut now v (ls_size ls) ls = ([], ls)"
  by (simp add: scan_size_def)

text \<open>One turn over a text that is no shorter.\<close>

lemma scan_grown:
  assumes "tracked ino ls" "scan_file ut now (plain_view ino t) ls = (es, ls')" "complete t"
    and "ls_size ls \<le> int (length t)" "ls_position ls = int p" "p \<le> length t"
  obtains q where "tracked ino ls'" "ls_position ls' = int q" "q \<le> length t" "ls_size ls' = int (length t)"
    "\<And>u. text_lines (drop p (t @ u)) = log_lines es @ text_lines (drop q (t @ u))"
    "ls_size ls < int (length t) \<Longrightarrow> text_lines (drop q t) = []" "ls_size ls = int (length t) \<Longrightarrow> q = p"
proof -
  have sv: "fv_stat (plain_view ino t) = Some (ino, int (length t))" by (simp add: plain_view_def)
  from scan_tracked [OF assms(1) sv assms(2)] obtain es1 ls1 es2 where
    s: "scan_size ut now (plain_view ino t) (int (length t)) ls1 = (es2, ls')" "es = es1 @ es2" "tracked ino ls1"
      "log_lines es1 = []" "ls_size ls1 = ls_size ls" "ls_position ls1 = ls_position ls" by blast
  show thesis
  proof (cases "ls_size ls = int (length t)")
    case True
    with s scan_size_same [of ut now "plain_view ino t" ls1] have "es2 = []" "ls' = ls1" by auto
    with s True assms(5,6) that [of p] show thesis by simp
  next
    case False
    with assms(4) have lt: "ls_size ls < int (length t)" by simp
    define got where "got = read_lines p [] (drop p t)"
    have r: "scan_read ut now (plain_view ino t) (ls1\<lparr>ls_size := int (length t)\<rparr>) = (es2, ls')"
      using s(1,5) lt by (simp add: scan_size_def)
    then have es2: "log_lines es2 = map fst got" and pos: "ls_position ls' = next_position p got"
      using s(6) assms(5) by (auto simp: scan_read_def plain_view_def got_def next_position_def Let_def split: if_splits)
    from scan_read_frame [OF r] s(3) have tr: "tracked ino ls'" "ls_size ls' = int (length t)" by (auto simp: tracked_def)
    from read_more [OF assms(3,6) got_def, of "[]"] obtain q where
      q: "next_position p got = int q" "q \<le> length t" "text_lines (drop q t) = []" by metis
    have "text_lines (drop p (t @ u)) = log_lines es @ text_lines (drop q (t @ u))" for u
    proof -
      from read_more [OF assms(3,6) got_def, of u] obtain q' where
        q': "next_position p got = int q'" "text_lines (drop p (t @ u)) = map fst got @ text_lines (drop q' (t @ u))" by metis
      with q(1) have "q' = q" by simp
      with q'(2) s(2,4) es2 show ?thesis by simp
    qed
    with tr q pos lt that [of q] show thesis by simp
  qed
qed

text \<open>Texts that grow by complete lines, the first one extending \<open>t\<close>.\<close>

fun growing :: "string \<Rightarrow> (int \<times> string) list \<Rightarrow> bool" where
  "growing t [] = True"
| "growing t ((now, t') # ts) = ((\<exists>u. t' = t @ u) \<and> complete t' \<and> growing t' ts)"

definition final_text :: "string \<Rightarrow> (int \<times> string) list \<Rightarrow> string" where
  "final_text t ts = (if ts = [] then t else snd (last ts))"

lemma growing_final: "growing t ts \<Longrightarrow> \<exists>u. final_text t ts = t @ u"
proof (induction t ts rule: growing.induct)
  case (2 t now t' ts)
  then obtain u where "final_text t' ts = t' @ u" by auto
  moreover have "final_text t ((now, t') # ts) = final_text t' ts" by (auto simp: final_text_def)
  ultimately show ?case using 2 by auto
qed (simp add: final_text_def)

lemma follow_growing:
  assumes "tracked ino ls" "growing t ts" "ls_size ls = int (length t)" "ls_position ls = int p" "p \<le> length t"
    and "follow ut (map (\<lambda>(now, t). (now, plain_view ino t)) ts) ls = (es, ls')"
  shows "\<exists>q. tracked ino ls' \<and> ls_position ls' = int q
     \<and> text_lines (drop p (final_text t ts)) = log_lines es @ text_lines (drop q (final_text t ts))
     \<and> (length t < length (final_text t ts) \<or> text_lines (drop p t) = [] \<longrightarrow> text_lines (drop q (final_text t ts)) = [])"
  using assms
proof (induction ts arbitrary: t ls p es)
  case Nil
  then show ?case by (auto simp: final_text_def)
next
  case (Cons x ts)
  obtain now t' where x: "x = (now, t')" by (cases x)
  from Cons.prems(2) x obtain u where u: "t' = t @ u" "complete t'" "growing t' ts" by auto
  obtain es1 ls1 where s: "scan_file ut now (plain_view ino t') ls = (es1, ls1)" by (cases "scan_file ut now (plain_view ino t') ls")
  obtain es2 where f: "follow ut (map (\<lambda>(now, t). (now, plain_view ino t)) ts) ls1 = (es2, ls')" "es = es1 @ es2"
    using Cons.prems(6) x s by (auto simp: Let_def split: prod.splits)
  have sz: "ls_size ls \<le> int (length t')" "p \<le> length t'" using Cons.prems(3,5) u(1) by auto
  from scan_grown [OF Cons.prems(1) s u(2) sz(1) Cons.prems(4) sz(2)] obtain q where
    q: "tracked ino ls1" "ls_position ls1 = int q" "q \<le> length t'" "ls_size ls1 = int (length t')"
      "\<And>w. text_lines (drop p (t' @ w)) = log_lines es1 @ text_lines (drop q (t' @ w))"
      "ls_size ls < int (length t') \<Longrightarrow> text_lines (drop q t') = []" "ls_size ls = int (length t') \<Longrightarrow> q = p" by blast
  have ft: "final_text t (x # ts) = final_text t' ts" using x by (auto simp: final_text_def)
  from growing_final [OF u(3)] obtain w where w: "final_text t' ts = t' @ w" by blast
  from Cons.IH [OF q(1) u(3) q(4,2,3) f(1)] obtain r where
    r: "tracked ino ls'" "ls_position ls' = int r"
      "text_lines (drop q (final_text t' ts)) = log_lines es2 @ text_lines (drop r (final_text t' ts))"
      "length t' < length (final_text t' ts) \<or> text_lines (drop q t') = [] \<longrightarrow> text_lines (drop r (final_text t' ts)) = []" by blast
  have "text_lines (drop p (final_text t' ts)) = log_lines es @ text_lines (drop r (final_text t' ts))"
    using q(5) [of w] r(3) w f(2) by simp
  moreover have "length t < length (final_text t' ts) \<or> text_lines (drop p t) = [] \<longrightarrow> text_lines (drop r (final_text t' ts)) = []"
  proof
    assume a: "length t < length (final_text t' ts) \<or> text_lines (drop p t) = []"
    show "text_lines (drop r (final_text t' ts)) = []"
    proof (cases "length t' = length t")
      case True
      with u(1) have "t' = t" by simp
      moreover have "q = p" using q(7) Cons.prems(3) True by simp
      ultimately show ?thesis using a r(4) by auto
    next
      case False
      then have "ls_size ls < int (length t')" using u(1) Cons.prems(3) by simp
      with q(6) r(4) show ?thesis by simp
    qed
  qed
  ultimately show ?case using r(1,2) ft by auto
qed

text \<open>
  C24: Every line is reported once. A file that grows by complete lines, looked at whenever, yields in
  total exactly the non-empty lines after the position where it was opened, each once and in order,
  as if it had been read in one go at the end, provided it grew since it was opened.
\<close>

theorem follow_reports_lines:
  assumes "tracked ino ls" and "growing t ts" and "ls_size ls = int (length t)" and "ls_position ls = int p" and "p \<le> length t"
    and "length t < length (final_text t ts)"
    and "follow ut (map (\<lambda>(now, t). (now, plain_view ino t)) ts) ls = (es, ls')"
  shows "log_lines es = text_lines (drop p (final_text t ts))"
  using follow_growing [OF assms(1-5,7)] assms(6) by auto


text \<open>A file with one line when it is opened, which gets a second one.\<close>

definition demo_config :: logfile_config where
  "demo_config = \<lparr>lf_path = ''f'', lf_timeout_alert = 0\<rparr>"

definition demo_text :: "string \<Rightarrow> string" where
  "demo_text more_text = ''a'' @ [newline] @ more_text"

definition demo_logfile :: logfile where
  "demo_logfile = snd (open_logfile True 0 [] (plain_view 7 (demo_text [])) demo_config)"

lemma demo_logfile_opened: "tracked 7 demo_logfile" "ls_size demo_logfile = 2" "ls_position demo_logfile = 2"
  by (simp_all add: demo_logfile_def open_logfile_def plain_view_def demo_text_def tracked_def new_logfile_def Let_def)

theorem follow_reports_lines_witness:
  "\<exists>es ls'. follow True [(1, plain_view 7 (demo_text [])), (2, plain_view 7 (demo_text (''b'' @ [newline])))] demo_logfile = (es, ls')
     \<and> log_lines es = [''b'']"
proof -
  let ?t = "demo_text []" and ?u = "demo_text (''b'' @ [newline])"
  let ?ts = "[(1 :: int, ?t), (2, ?u)]"
  obtain es ls' where f: "follow True (map (\<lambda>(now, t). (now, plain_view 7 t)) ?ts) demo_logfile = (es, ls')"
    by (cases "follow True (map (\<lambda>(now, t). (now, plain_view 7 t)) ?ts) demo_logfile")
  have "growing ?t ?ts" "2 \<le> length ?t" "length ?t < length (final_text ?t ?ts)" "ls_size demo_logfile = int (length ?t)"
    "ls_position demo_logfile = int 2"
    by (simp_all add: demo_text_def complete_def final_text_def demo_logfile_opened)
  with follow_reports_lines [OF demo_logfile_opened(1) _ _ _ _ _ f, of ?t 2]
  have "log_lines es = text_lines (drop 2 (final_text ?t ?ts))" by blast
  also have "\<dots> = [''b'']" by (simp add: final_text_def demo_text_def text_lines_def newline_def)
  finally show ?thesis using f by (simp add: Let_def split: prod.splits) 
qed

subsection \<open>Unfinished lines\<close>

lemma read_lines_unfinished:
  "acc @ s \<noteq> [] \<Longrightarrow> last (acc @ s) \<noteq> newline \<Longrightarrow> read_lines p acc s \<noteq> [] \<and> snd (last (read_lines p acc s)) = - 1"
proof (induction p acc s rule: read_lines.induct)
  case (2 p line c cs)
  show ?case
  proof (cases "c = newline")
    case True
    with 2 have "cs \<noteq> []" "last cs \<noteq> newline" by (auto split: if_splits)
    with 2 True show ?thesis by auto
  qed (use 2 in auto)
qed simp

lemma follow_lost:
  assumes "tracked ino ls" "ls_position ls < 0" "ls_size ls \<le> int n" "sorted (n # map (length \<circ> snd) ts)"
    and "follow ut (map (\<lambda>(now, t). (now, plain_view ino t)) ts) ls = (es, ls')"
  shows "log_lines es = []"
  using assms
proof (induction ts arbitrary: ls n es)
  case (Cons x ts)
  obtain now t where x: "x = (now, t)" by (cases x)
  obtain es1 ls1 where s: "scan_file ut now (plain_view ino t) ls = (es1, ls1)" by (cases "scan_file ut now (plain_view ino t) ls")
  obtain es2 where f: "follow ut (map (\<lambda>(now, t). (now, plain_view ino t)) ts) ls1 = (es2, ls')" "es = es1 @ es2"
    using Cons.prems(5) x s by (auto simp: Let_def split: prod.splits)
  have "fv_stat (plain_view ino t) = Some (ino, int (length t))" by (simp add: plain_view_def)
  from scan_tracked [OF Cons.prems(1) this s] obtain ea lsa eb where
    z: "scan_size ut now (plain_view ino t) (int (length t)) lsa = (eb, ls1)" "es1 = ea @ eb" "tracked ino lsa"
      "log_lines ea = []" "ls_size lsa = ls_size ls" "ls_position lsa = ls_position ls" by blast
  have "\<not> int (length t) < ls_size ls" using Cons.prems(3,4) x by simp
  with z Cons.prems(2) have "eb = []" "ls_position ls1 = ls_position ls" "tracked ino ls1" "ls_size ls1 = int (length t)"
    by (auto simp: scan_size_def scan_read_def plain_view_def tracked_def split: if_splits)
  with Cons.IH [of ls1 "length t"] Cons.prems(2,4) f z(2,4) x show ?case by simp
qed simp

text \<open>
  C27: An unfinished line ends the monitoring. When a turn finds text whose last line has no newline yet,
  that line is reported as it is, \<open>tellg\<close> fails and the position becomes -1: from then on no line of the
  file is ever reported, however it grows.
\<close>

theorem unfinished_line_ends_monitoring:
  assumes "tracked ino ls" and "ls_position ls = int p" and "p < length t" and "last t \<noteq> newline"
    and "ls_size ls < int (length t)" and "scan_file ut now (plain_view ino t) ls = (es, ls1)"
    and "sorted (length t # map (length \<circ> snd) ts)"
    and "follow ut (map (\<lambda>(now, t). (now, plain_view ino t)) ts) ls1 = (es', ls')"
  shows "log_lines es = text_lines (drop p t) \<and> ls_position ls1 = - 1 \<and> log_lines es' = []"
proof -
  have sv: "fv_stat (plain_view ino t) = Some (ino, int (length t))" by (simp add: plain_view_def)
  from scan_tracked [OF assms(1) sv assms(6)] obtain es1 lsa es2 where
    s: "scan_size ut now (plain_view ino t) (int (length t)) lsa = (es2, ls1)" "es = es1 @ es2" "tracked ino lsa"
      "log_lines es1 = []" "ls_size lsa = ls_size ls" "ls_position lsa = ls_position ls" by blast
  define got where "got = read_lines p [] (drop p t)"
  have "got \<noteq> [] \<and> snd (last got) = - 1"
    unfolding got_def by (rule read_lines_unfinished) (use assms(3,4) in auto)
  moreover have r: "scan_read ut now (plain_view ino t) (lsa\<lparr>ls_size := int (length t)\<rparr>) = (es2, ls1)"
    using s(1,5) assms(5) by (simp add: scan_size_def)
  ultimately have pos: "ls_position ls1 = - 1" and ln: "log_lines es2 = map fst got"
    using s(6) assms(2) by (auto simp: scan_read_def plain_view_def got_def Let_def)
  from scan_read_frame [OF r] s(3) have tr: "tracked ino ls1" "ls_size ls1 = int (length t)" by (auto simp: tracked_def)
  have "log_lines es' = []" by (rule follow_lost [OF tr(1) _ _ assms(7,8)]) (use pos tr in simp_all)
  with pos ln s(2,4) read_lines_lines [of "[]" p "drop p t"] show ?thesis by (simp add: got_def)
qed

theorem unfinished_line_ends_monitoring_witness:
  "\<exists>es ls1 es' ls'. scan_file True 1 (plain_view 7 (demo_text ''par'')) demo_logfile = (es, ls1) \<and> log_lines es = [''par'']
     \<and> follow True [(2, plain_view 7 (demo_text (''partial'' @ [newline] @ ''next'' @ [newline])))] ls1 = (es', ls')
     \<and> log_lines es' = []"
proof -
  let ?t = "demo_text ''par''" and ?ts = "[(2 :: int, demo_text (''partial'' @ [newline] @ ''next'' @ [newline]))]"
  obtain es ls1 where s: "scan_file True 1 (plain_view 7 ?t) demo_logfile = (es, ls1)"
    by (cases "scan_file True 1 (plain_view 7 ?t) demo_logfile")
  obtain es' ls' where f: "follow True (map (\<lambda>(now, t). (now, plain_view 7 t)) ?ts) ls1 = (es', ls')"
    by (cases "follow True (map (\<lambda>(now, t). (now, plain_view 7 t)) ?ts) ls1")
  have "2 < length ?t" "last ?t \<noteq> newline" "ls_size demo_logfile < int (length ?t)" "ls_position demo_logfile = int 2"
    "sorted (length ?t # map (length \<circ> snd) ?ts)"
    by (simp_all add: demo_text_def demo_logfile_opened newline_def)
  with unfinished_line_ends_monitoring [OF demo_logfile_opened(1) _ _ _ _ s _ f, of 2]
  have "log_lines es = text_lines (drop 2 ?t)" "log_lines es' = []" by blast+
  moreover have "text_lines (drop 2 ?t) = [''par'']" by (simp add: demo_text_def text_lines_def newline_def)
  ultimately show ?thesis using s f by (intro exI [of _ es] exI [of _ ls1] exI [of _ es'] exI [of _ ls']) simp
qed

subsection \<open>Rotation\<close>

text \<open>
  A rotated file is read from its start, if it has another size. When the inode of a followed file
  changes, the replacement is reported first; then every line of the new file, from its start, unless the
  new file has exactly the size the old one had: then nothing is read, until it changes its size.
\<close>

theorem rotated_file_read:
  assumes "tracked ino ls" and "ino' \<noteq> ino" and "scan_file ut now (plain_view ino' t) ls = (es, ls')"
  shows "log_lines es = (if int (length t) = ls_size ls then [] else text_lines t)
     \<and> ''!File got replaced'' \<in> se_message ` set es \<and> tracked ino' ls'"
proof -
  obtain e1 ls1 where t: "scan_timeout ut now ls = (e1, ls1)" by (cases "scan_timeout ut now ls")
  from scan_timeout_frame [OF t] have f: "tracked ino ls1" "log_lines e1 = []" "ls_size ls1 = ls_size ls"
    using assms(1) by (auto simp: tracked_def)
  define ls2 where "ls2 = ls1\<lparr>ls_inode := ino', ls_position := 0, ls_fd := 3\<rparr>"
  have o: "scan_open ut now (plain_view ino' t) ls1 = (True, [], ls1)"
    "scan_inode ut now (plain_view ino' t) ino' ls1 = (True, [log_2_se ut now (ls_path ls1) True ''!File got replaced''], ls2)"
    using f(1) assms(2) by (auto simp: tracked_def scan_open_def scan_inode_def ls2_def plain_view_def Let_def)
  obtain e2 ls3 where z: "scan_size ut now (plain_view ino' t) (int (length t)) ls2 = (e2, ls3)"
    by (cases "scan_size ut now (plain_view ino' t) (int (length t)) ls2")
  have es: "es = e1 @ log_2_se ut now (ls_path ls1) True ''!File got replaced'' # e2" "ls' = ls3"
    using assms(3) t o z by (simp_all add: scan_file_def scan_stat_def plain_view_def)
  have "log_lines e2 = (if int (length t) = ls_size ls then [] else text_lines t) \<and> tracked ino' ls3"
  proof (cases "int (length t) = ls_size ls")
    case True
    with z f(1,3) show ?thesis by (auto simp: scan_size_def ls2_def tracked_def)
  next
    case False
    define x where "x = (if int (length t) < ls_size ls2 then [log_2_se ut now (ls_path ls2) True ''!File truncated''] else [])"
    have "ls2\<lparr>ls_position := 0\<rparr> = ls2" "ls_size ls2 = ls_size ls" using f(3) by (simp_all add: ls2_def)
    with z False obtain e3 where
      r: "scan_read ut now (plain_view ino' t) (ls2\<lparr>ls_size := int (length t)\<rparr>) = (e3, ls3)" and e2: "e2 = x @ e3"
      by (auto simp: scan_size_def x_def split: prod.splits if_splits)
    have "log_lines e3 = text_lines t"
      using r read_lines_lines [of "[]" 0 t] by (auto simp: scan_read_def plain_view_def ls2_def Let_def split: if_splits)
    moreover have "log_lines x = []" by (simp add: x_def)
    ultimately show ?thesis using e2 False scan_read_frame [OF r] f(1) by (auto simp: ls2_def tracked_def)
  qed
  with es f(2) show ?thesis by simp
qed

theorem rotated_file_read_witness:
  "\<exists>es ls'. scan_file True 1 (plain_view 8 (''b'' @ [newline])) demo_logfile = (es, ls') \<and> log_lines es = []
     \<and> ''!File got replaced'' \<in> se_message ` set es"
proof -
  let ?t = "''b'' @ [newline]"
  obtain es ls' where s: "scan_file True 1 (plain_view 8 ?t) demo_logfile = (es, ls')"
    by (cases "scan_file True 1 (plain_view 8 ?t) demo_logfile")
  have n: "(8 :: 64 word) \<noteq> 7" by simp
  from rotated_file_read [OF demo_logfile_opened(1) n s] s show ?thesis by (simp add: demo_logfile_opened(2))
qed

subsection \<open>The state file\<close>

lemma newline_not_digit [simp]: "\<not> isdigit newline"
  by (simp add: newline_def isdigit_def char_code_def)

lemma nat_to_string_no_newline [simp]: "newline \<notin> set (nat_to_string n)"
  using nat_to_string_digits [of newline n] newline_not_digit by blast

lemma int_to_string_no_newline: "newline \<notin> set (int_to_string i)"
proof -
  have "newline \<noteq> CHR ''-''" by (simp add: newline_def)
  then show ?thesis by (simp add: int_to_string_def)
qed

lemma takeWhile_digits_append: "\<not> isdigit c \<Longrightarrow> takeWhile isdigit (nat_to_string n @ c # r) = nat_to_string n"
  using nat_to_string_digits by (subst takeWhile_append2) auto

lemma dropWhile_digits_append: "\<not> isdigit c \<Longrightarrow> dropWhile isdigit (nat_to_string n @ c # r) = c # r"
  using nat_to_string_digits by (subst dropWhile_append2) auto

lemma extract_ulong_print: "extract_ulong (nat_to_string (unat (w :: 64 word)) @ '','' @ r) = Some (w, '','' @ r)"
proof -
  let ?s = "nat_to_string (unat w) @ '','' @ r"
  have h: "?s \<noteq> []" "isdigit (hd ?s)" using hd_nat_to_string_digit [of "unat w"] by (simp_all add: hd_append)
  have "unat w < 2 ^ 64" using unsigned_less [of w] by simp
  then have "unat w \<le> ulong_max" by (simp add: ulong_max_def)
  moreover have "\<not> isdigit CHR '',''" by (simp add: isdigit_def char_code_def)
  ultimately show ?thesis
    by (simp add: extract_ulong_def skip_spaces_digit [OF h, simplified] read_sign_digit [OF h, simplified]
        takeWhile_digits_append dropWhile_digits_append)
qed

lemma extract_ulong_position:
  assumes "- (2 ^ 63) \<le> i" "i < 2 ^ 63"
  shows "\<exists>w. extract_ulong (int_to_string i) = Some (w, []) \<and> sint w = i"
proof -
  have sg: "sint (of_int i :: 64 word) = i"
    using assms by (simp add: signed_of_int signed_take_bit_int_eq_self)
  show ?thesis
  proof (cases "i < 0")
    case True
    let ?n = "nat (- i)"
    have "?n \<le> ulong_max" using assms True by (simp add: ulong_max_def)
    moreover have "skip_spaces (CHR ''-'' # nat_to_string ?n) = CHR ''-'' # nat_to_string ?n"
      by (simp add: isspace_def char_code_def)
    moreover have "- of_nat ?n = (of_int i :: 64 word)" using True by (simp add: of_nat_nat)
    ultimately have "extract_ulong (int_to_string i) = Some (of_int i, [])"
      using True by (simp add: extract_ulong_def int_to_string_def read_sign_def)
    with sg show ?thesis by blast
  next
    case False
    let ?n = "nat i"
    have "?n \<le> ulong_max" using assms False by (simp add: ulong_max_def)
    moreover have "of_nat ?n = (of_int i :: 64 word)" using False by (simp add: of_nat_nat)
    ultimately have "extract_ulong (int_to_string i) = Some (of_int i, [])"
      using False hd_nat_to_string_digit [of ?n]
      by (simp add: extract_ulong_def int_to_string_def skip_spaces_digit read_sign_digit)
    with sg show ?thesis by blast
  qed
qed

text \<open>What can be saved: paths without quotes and newlines, positions of a 64 bit offset.\<close>

definition savable :: "logfile \<Rightarrow> bool" where
  "savable ls = (CHR 0x22 \<notin> set (ls_path ls) \<and> newline \<notin> set (ls_path ls) \<and> - (2 ^ 63) \<le> ls_position ls \<and> ls_position ls < 2 ^ 63)"

lemma state_entry_line:
  assumes "savable ls"
  shows "state_entry (butlast (state_line ls)) = Inr (Some (ls_path ls, ls_inode ls, ls_position ls))"
proof -
  let ?r = "nat_to_string (unat (ls_inode ls)) @ '','' @ int_to_string (ls_position ls)"
  let ?l = "CHR 0x22 # ls_path ls @ CHR 0x22 # CHR '','' # ?r"
  have bl: "butlast (state_line ls) = ?l" by (simp add: state_line_def butlast_append)
  have "index_of CHR 0x22 (ls_path ls @ CHR 0x22 # CHR '','' # ?r) = Some (length (ls_path ls))"
    using assms by (intro index_of_append) (simp add: savable_def)
  then have f: "str_find CHR 0x22 1 ?l = Some (1 + length (ls_path ls))" by (simp add: str_find_def)
  obtain w where w: "extract_ulong (int_to_string (ls_position ls)) = Some (w, [])" "sint w = ls_position ls"
    using extract_ulong_position assms by (auto simp: savable_def)
  show ?thesis
    unfolding bl state_entry_def f using w extract_ulong_print [of "ls_inode ls" "int_to_string (ls_position ls)"]
    by (simp add: substr_def)
qed

lemma state_line_split:
  assumes "savable ls"
  obtains l where "state_line ls = l @ [newline]" "newline \<notin> set l" "l \<noteq> []"
    "state_entry l = Inr (Some (ls_path ls, ls_inode ls, ls_position ls))"
proof -
  let ?l = "CHR 0x22 # ls_path ls @ [CHR 0x22, CHR '',''] @ nat_to_string (unat (ls_inode ls)) @ '','' @ int_to_string (ls_position ls)"
  have l: "state_line ls = ?l @ [newline]" by (simp add: state_line_def)
  moreover have "newline \<noteq> CHR 0x22" "newline \<noteq> CHR '',''" by (simp_all add: newline_def)
  then have "newline \<notin> set ?l" using assms int_to_string_no_newline by (auto simp: savable_def)
  moreover have "state_entry ?l = Inr (Some (ls_path ls, ls_inode ls, ls_position ls))"
    using state_entry_line [OF assms] by (simp add: l del: append.append_Cons append_Cons)
  ultimately show thesis using that [of ?l] by blast
qed

text \<open>
  C28: The state survives a restart. What \<open>save_state\<close> writes of files whose paths have no quote and no newline, at positions
  of 64 bits, \<open>get_state\<close> reads back: for every file its path, inode and position, in order, also the position -1.
\<close>

theorem state_file_roundtrip:
  assumes "\<forall>ls \<in> set lss. savable ls"
  shows "get_state (save_state True True lss old) = Inr (map (\<lambda>ls. (ls_path ls, ls_inode ls, ls_position ls)) lss)"
proof -
  have "state_entries (cut_at newline (concat (map state_line lss))) = Inr (map (\<lambda>ls. (ls_path ls, ls_inode ls, ls_position ls)) lss)"
    using assms
  proof (induction lss)
    case (Cons ls lss)
    from Cons.prems obtain l where
      l: "state_line ls = l @ [newline]" "newline \<notin> set l" "l \<noteq> []"
        "state_entry l = Inr (Some (ls_path ls, ls_inode ls, ls_position ls))"
      using state_line_split [of ls] by auto
    have "cut_at newline (concat (map state_line (ls # lss))) = l # cut_at newline (concat (map state_line lss))"
      using l(1) cut_at_prefix [OF l(2)] by simp
    with l Cons show ?case by simp
  qed simp
  then show ?thesis by (simp add: get_state_def save_state_def)
qed

theorem state_file_roundtrip_witness:
  "get_state (save_state True True [demo_logfile, demo_logfile\<lparr>ls_position := - 1\<rparr>] None) = Inr [(''f'', 7, 2), (''f'', 7, - 1)]"
proof -
  have c: "ls_config demo_logfile = demo_config" "ls_inode demo_logfile = 7"
    by (simp_all add: demo_logfile_def open_logfile_def plain_view_def new_logfile_def Let_def)
  then show ?thesis
    using state_file_roundtrip [of "[demo_logfile, demo_logfile\<lparr>ls_position := - 1\<rparr>]" None]
    by (simp add: savable_def demo_logfile_opened demo_config_def newline_def)
qed

subsection \<open>Messages of the systemd socket\<close>

text \<open>
  The text of a systemd message. A datagram of 4 to 511 bytes without zero bytes becomes an event with
  the text of the datagram, without its four-byte priority if it has one; the old contents of the
  buffer do not matter.
\<close>

theorem systemd_message_text:
  assumes "4 \<le> length data" and "length data < 512" and "CHR 0x00 \<notin> set data"
  shows "se_message (systemd_message now junk data)
     = (if data ! 0 = CHR ''<'' \<and> data ! 3 = CHR ''>'' then drop 4 data else data)"
proof -
  have b: "systemd_buffer junk data = data @ CHR 0x00 # drop (Suc (length data)) junk"
    using assms(2) by (simp add: systemd_buffer_def Let_def)
  have c: "c_str (xs @ CHR 0x00 # ys) = xs" if "CHR 0x00 \<notin> set xs" for xs ys
    using that unfolding c_str_def by (subst takeWhile_append2) auto
  have "CHR 0x00 \<notin> set (drop 4 data)" using assms(3) by (meson in_set_dropD)
  moreover have "data \<noteq> []" using assms(1) by auto
  ultimately show ?thesis using assms b c by (simp add: systemd_message_def nth_append Let_def)
qed

theorem systemd_message_text_witness:
  "se_message (systemd_message 1 [] ''<12>hello'') = ''hello''"
  using systemd_message_text [of "''<12>hello''" 1 "[]"] by simp

end
