(* ===== verification/Logscan_Runs.thy ===== *)
theory Logscan_Runs
  imports Logscan_Daemon Logscan_Facts
begin

text \<open>
  The runs of ctguard-logscan: only its main thread can end the forwarding, everything put into the queue before
  the closing mark is put out once or waits in the local queue, what is put there later is lost; and the
  daemon can always go on to return.
\<close>

subsection \<open>No event is taken for the closing mark\<close>

lemma log_2_se_kill: "se_is_kill (log_2_se ut now src c m) \<longleftrightarrow> c \<and> m = ''!KILL''"
  by (simp add: se_is_kill_def log_2_se_def)

definition no_mark :: "source_event list \<Rightarrow> bool" where
  "no_mark es = (\<forall>e \<in> set es. \<not> se_is_kill e)"

lemma no_mark_simps [simp]:
  "no_mark []" "no_mark (e # es) \<longleftrightarrow> \<not> se_is_kill e \<and> no_mark es" "no_mark (es @ fs) \<longleftrightarrow> no_mark es \<and> no_mark fs"
  by (auto simp: no_mark_def)

lemma scan_read_no_mark: "scan_read ut now v ls = (es, ls') \<Longrightarrow> no_mark es"
  by (auto simp: scan_read_def no_mark_def log_2_se_kill Let_def split: option.splits if_splits)

lemma scan_size_no_mark: "scan_size ut now v sz ls = (es, ls') \<Longrightarrow> no_mark es"
  by (auto simp: scan_size_def log_2_se_kill Let_def split: if_splits prod.splits dest: scan_read_no_mark)

lemma scan_inode_no_mark: "scan_inode ut now v ino ls = (b, es, ls') \<Longrightarrow> no_mark es"
  by (auto simp: scan_inode_def log_2_se_kill Let_def split: if_splits)

lemma scan_stat_no_mark: "scan_stat ut now v ls = (es, ls') \<Longrightarrow> no_mark es"
  by (auto simp: scan_stat_def log_2_se_kill split: option.splits prod.splits bool.splits
      dest: scan_size_no_mark scan_inode_no_mark)

lemma scan_open_no_mark: "scan_open ut now v ls = (b, es, ls') \<Longrightarrow> no_mark es"
  by (auto simp: scan_open_def log_2_se_kill Let_def split: if_splits)

lemma scan_timeout_no_mark: "scan_timeout ut now ls = (es, ls') \<Longrightarrow> no_mark es"
  by (auto simp: scan_timeout_def log_2_se_kill Let_def split: if_splits)

lemma scan_file_no_mark: "scan_file ut now v ls = (es, ls') \<Longrightarrow> no_mark es"
  by (auto simp: scan_file_def split: prod.splits bool.splits dest: scan_timeout_no_mark scan_open_no_mark scan_stat_no_mark)

lemma scan_files_no_mark: "scan_files ut now vs lss = (es, lss') \<Longrightarrow> no_mark es"
  by (induction ut now vs lss arbitrary: es lss' rule: scan_files.induct) (auto split: prod.splits dest: scan_file_no_mark)

lemma apply_saved_no_mark: "apply_saved ut now ino saved ls = (b, es, ls') \<Longrightarrow> no_mark es"
  by (induction ut now ino saved ls arbitrary: b es ls' rule: apply_saved.induct)
    (auto simp: log_2_se_kill split: if_splits prod.splits)

lemma open_logfile_no_mark: "open_logfile ut now saved v lc = (es, ls') \<Longrightarrow> no_mark es"
  by (auto simp: open_logfile_def Let_def split: if_splits option.splits prod.splits dest: apply_saved_no_mark)

lemma open_logfiles_no_mark: "open_logfiles ut now saved vs lcs = (es, lss) \<Longrightarrow> no_mark es"
  by (induction ut now saved vs lcs arbitrary: es lss rule: open_logfiles.induct)
    (auto split: prod.splits dest: open_logfile_no_mark)

lemma systemd_message_no_mark: "\<not> se_is_kill (systemd_message now junk data)"
  by (simp add: se_is_kill_def systemd_message_def default_source_event_def Let_def)

lemma logfile_start_no_mark: "logfile_start ut now file vs cfg = Inr (Some (es, t)) \<Longrightarrow> no_mark es"
proof -
  assume s: "logfile_start ut now file vs cfg = Inr (Some (es, t))"
  then obtain saved where saved: "get_state file = Inr saved" by (auto simp: logfile_start_def rbind_Inr_iff)
  obtain es' lss where o: "open_logfiles ut now saved vs (lc_log_files cfg) = (es', lss)" by fastforce
  from s saved o have "es = es'" by (auto simp: logfile_start_def split: if_splits)
  with open_logfiles_no_mark [OF o] show ?thesis by simp
qed

lemma logfile_begin_outbox:
  "lg_outbox s = [] \<Longrightarrow> no_mark (lg_outbox (logfile_begin env now vs s))"
  by (auto simp: logfile_begin_def split: sum.split option.split dest: logfile_start_no_mark)

lemma logfile_scan_outbox: "no_mark (lg_outbox (logfile_scan env now vs a b s))"
  by (auto simp: logfile_scan_def logfile_turn_def Let_def split: prod.splits if_splits dest: scan_files_no_mark)

lemma daemon_event_no_mark: "msg \<noteq> ''!KILL'' \<Longrightarrow> \<not> se_is_kill (daemon_event env now msg)"
  by (simp add: daemon_event_def log_2_se_kill)

lemma kill_mark [simp]: "se_is_kill logscan_kill"
  by (simp add: logscan_kill_def se_is_kill_def)

subsection \<open>What stays the same\<close>

lemma logfile_begin_frame:
  "lg_main (logfile_begin env now vs s) = lg_main s" "lg_running (logfile_begin env now vs s) = lg_running s"
  "lg_queue (logfile_begin env now vs s) = lg_queue s" "lg_resend (logfile_begin env now vs s) = lg_resend s"
  "lg_sink (logfile_begin env now vs s) = lg_sink s" "lg_output_done (logfile_begin env now vs s) = lg_output_done s"
  "lg_systemd (logfile_begin env now vs s) = lg_systemd s" "lg_logfile (logfile_begin env now vs s) \<in> {Lf_check, Lf_done}"
  by (simp_all add: logfile_begin_def split: sum.split option.split prod.split)

lemma logfile_check_frame:
  "lg_main (logfile_check env a b s) = lg_main s" "lg_running (logfile_check env a b s) = lg_running s"
  "lg_queue (logfile_check env a b s) = lg_queue s" "lg_resend (logfile_check env a b s) = lg_resend s"
  "lg_sink (logfile_check env a b s) = lg_sink s" "lg_output_done (logfile_check env a b s) = lg_output_done s"
  "lg_systemd (logfile_check env a b s) = lg_systemd s" "lg_outbox (logfile_check env a b s) = lg_outbox s"
  by (simp_all add: logfile_check_def)

lemma logfile_scan_frame:
  "lg_main (logfile_scan env now vs a b s) = lg_main s" "lg_running (logfile_scan env now vs a b s) = lg_running s"
  "lg_queue (logfile_scan env now vs a b s) = lg_queue s" "lg_resend (logfile_scan env now vs a b s) = lg_resend s"
  "lg_sink (logfile_scan env now vs a b s) = lg_sink s" "lg_output_done (logfile_scan env now vs a b s) = lg_output_done s"
  "lg_systemd (logfile_scan env now vs a b s) = lg_systemd s" "lg_logfile (logfile_scan env now vs a b s) = Lf_check"
  by (simp_all add: logfile_scan_def split: prod.split)

lemma systemd_begin_frame:
  "lg_main (systemd_begin env u a b c s) = lg_main s" "lg_running (systemd_begin env u a b c s) = lg_running s"
  "lg_queue (systemd_begin env u a b c s) = lg_queue s" "lg_resend (systemd_begin env u a b c s) = lg_resend s"
  "lg_sink (systemd_begin env u a b c s) = lg_sink s" "lg_output_done (systemd_begin env u a b c s) = lg_output_done s"
  "lg_logfile (systemd_begin env u a b c s) = lg_logfile s" "lg_outbox (systemd_begin env u a b c s) = lg_outbox s"
  "lg_systemd (systemd_begin env u a b c s) \<in> {Sd_check, Sd_done}"
  by (simp_all add: systemd_begin_def split: systemd_start.split)

lemmas step_frames = logfile_begin_frame logfile_check_frame logfile_scan_frame systemd_begin_frame

lemma systemd_turn_frame:
  "systemd_turn now junk answer s = (es, s') \<Longrightarrow>
   lg_main s' = lg_main s \<and> lg_running s' = lg_running s \<and> lg_queue s' = lg_queue s @ es \<and> lg_resend s' = lg_resend s
   \<and> lg_sink s' = lg_sink s \<and> lg_output_done s' = lg_output_done s \<and> lg_logfile s' = lg_logfile s \<and> lg_outbox s' = lg_outbox s
   \<and> no_mark es"
  by (auto simp: systemd_turn_def bq_push_def Let_def systemd_message_no_mark split: systemd_pc.splits option.splits)

lemma forward_turn_frame:
  "forward_turn env s = Some s' \<Longrightarrow>
   lg_main s' = lg_main s \<and> lg_running s' = lg_running s \<and> lg_logfile s' = lg_logfile s \<and> lg_systemd s' = lg_systemd s
   \<and> lg_outbox s' = lg_outbox s"
  by (auto simp: forward_turn_def bind_eq_Some_conv split: prod.splits)

subsection \<open>The mark\<close>

definition mark_inv :: "source_event list \<Rightarrow> logscan_state \<Rightarrow> bool" where
  "mark_inv tr s =
     (no_mark (lg_outbox s) \<and> (lg_logfile s = Lf_start \<longrightarrow> lg_outbox s = [])
      \<and> (case lg_main s of
           Lm_join n \<Rightarrow> (\<exists>before late. tr = before @ logscan_kill # late \<and> no_mark before \<and> no_mark late)
         | Lm_returned \<Rightarrow> (\<exists>before late. tr = before @ logscan_kill # late \<and> no_mark before \<and> no_mark late)
         | _ \<Rightarrow> no_mark tr)
      \<and> (lg_running s \<longleftrightarrow> lg_main s \<in> {Lm_start, Lm_wait, Lm_stopping}))"

definition marked :: "source_event list \<Rightarrow> bool" where
  "marked tr = (\<exists>before late. tr = before @ logscan_kill # late \<and> no_mark before \<and> no_mark late)"

lemma marked_push: "marked tr \<Longrightarrow> no_mark es \<Longrightarrow> marked (tr @ es)"
proof -
  assume "marked tr" "no_mark es"
  then obtain before late where "tr = before @ logscan_kill # late" "no_mark before" "no_mark late" by (auto simp: marked_def)
  with \<open>no_mark es\<close> show ?thesis unfolding marked_def by (intro exI [of _ before] exI [of _ "late @ es"]) simp
qed

lemma marked_kill: "no_mark tr \<Longrightarrow> marked (tr @ [logscan_kill])"
  unfolding marked_def by (intro exI [of _ tr] exI [of _ "[]"]) simp

lemma mark_inv_alt:
  "mark_inv tr s \<longleftrightarrow> no_mark (lg_outbox s) \<and> (lg_logfile s = Lf_start \<longrightarrow> lg_outbox s = [])
     \<and> (if lg_main s \<in> {Lm_start, Lm_wait, Lm_stopping, Lm_killing} then no_mark tr else marked tr)
     \<and> (lg_running s \<longleftrightarrow> lg_main s \<in> {Lm_start, Lm_wait, Lm_stopping})"
  by (cases "lg_main s") (auto simp: mark_inv_def marked_def)

lemma mark_push:
  assumes "mark_inv tr s" "no_mark es" "lg_main s' = lg_main s" "lg_running s' = lg_running s"
    and "no_mark (lg_outbox s')" "lg_logfile s' = Lf_start \<longrightarrow> lg_outbox s' = []"
  shows "mark_inv (tr @ es) s'"
  using assms marked_push [of tr es] unfolding mark_inv_alt by (auto split: if_splits)

lemma lg_mark_step: "logscan_step env s es s' \<Longrightarrow> mark_inv tr s \<Longrightarrow> mark_inv (tr @ es) s'"
proof (induction rule: logscan_step.induct)
  case (Lg_starts s e now)
  then show ?case by (auto simp: mark_inv_alt daemon_event_no_mark)
next
  case (Lg_wakes s e now)
  then show ?case by (auto simp: mark_inv_alt daemon_event_no_mark)
next
  case (Lg_kills s)
  then show ?case by (auto simp: mark_inv_alt marked_kill)
next
  case (Lg_logfile_begins s vs now)
  then have o: "lg_outbox s = []" by (simp add: mark_inv_alt)
  show ?case
    by (rule mark_push [OF Lg_logfile_begins(3)])
      (use logfile_begin_outbox [OF o] logfile_begin_frame(8) [of env now vs s] in \<open>auto simp: step_frames\<close>)
next
  case (Lg_logfile_pushes s e es)
  then show ?case by (intro mark_push [OF Lg_logfile_pushes(2)]) (auto simp: mark_inv_alt)
next
  case (Lg_logfile_checks s a b)
  show ?case
    by (rule mark_push [OF Lg_logfile_checks(3)]) (use Lg_logfile_checks in \<open>auto simp: step_frames\<close>)
next
  case (Lg_logfile_scans s vs now a b)
  show ?case by (rule mark_push [OF Lg_logfile_scans(4)]) (auto simp: step_frames logfile_scan_outbox)
next
  case (Lg_systemd_begins s u a b c)
  show ?case by (rule mark_push [OF Lg_systemd_begins(2)]) (use Lg_systemd_begins(2) in \<open>auto simp: step_frames mark_inv_alt\<close>)
next
  case (Lg_systemd_turns s now junk answer es s')
  from systemd_turn_frame [OF Lg_systemd_turns(2)] show ?case
    by (intro mark_push [OF Lg_systemd_turns(3)]) (use Lg_systemd_turns(3) in \<open>auto simp: mark_inv_alt\<close>)
next
  case (Lg_forwards s s')
  from forward_turn_frame [OF Lg_forwards(2)] show ?case
    by (intro mark_push [OF Lg_forwards(3)]) (use Lg_forwards(3) in \<open>auto simp: mark_inv_alt\<close>)
qed (auto simp: mark_inv_alt)

subsection \<open>The books of the forwarding thread\<close>

definition forward_books :: "logscan_env \<Rightarrow> sink_state \<Rightarrow> source_event list \<Rightarrow> logscan_state \<Rightarrow> bool" where
  "forward_books env k0 tr s =
     (\<exists>inps. resend_run (event_send (le_net env) (le_ser env)) se_is_kill (\<lambda>se. se) inps resend_init k0 = Some (lg_resend s, lg_sink s)
        \<and> List.map_filter id inps @ lg_queue s = tr
        \<and> (rt_stopped (lg_resend s) \<longleftrightarrow> (\<exists>i \<in> set (List.map_filter id inps). se_is_kill i))
        \<and> (rt_stopped (lg_resend s) \<longleftrightarrow> lg_output_done s)
        \<and> no_mark (butlast (List.map_filter id inps)))"

lemma books_push:
  assumes "forward_books env k0 tr s" "lg_queue s' = lg_queue s @ es" "lg_resend s' = lg_resend s" "lg_sink s' = lg_sink s"
    and "lg_output_done s' = lg_output_done s"
  shows "forward_books env k0 (tr @ es) s'"
proof -
  have e: "m @ lg_queue s' = tr @ es \<longleftrightarrow> m @ lg_queue s = tr" for m unfolding assms(2) by (simp flip: append_assoc)
  from assms(1) show ?thesis unfolding forward_books_def e assms(3-5) .
qed

lemma forward_turn_books:
  assumes "forward_turn env s = Some s'" "\<not> lg_output_done s" "forward_books env k0 tr s"
  shows "forward_books env k0 tr s'"
proof -
  let ?send = "event_send (le_net env) (le_ser env)"
  obtain inp q where q: "bq_take_for (lg_queue s) [] = (inp, q)" by (cases "bq_take_for (lg_queue s) []")
  with assms(1) obtain rt k where st: "resend_step ?send se_is_kill (\<lambda>se. se) inp (lg_resend s) (lg_sink s) = Some (rt, k)"
    and s': "s' = s\<lparr>lg_queue := q, lg_resend := rt, lg_sink := k, lg_output_done := rt_stopped rt\<rparr>"
    by (auto simp: forward_turn_def bind_eq_Some_conv)
  from assms(2,3) obtain inps where
    r: "resend_run ?send se_is_kill (\<lambda>se. se) inps resend_init k0 = Some (lg_resend s, lg_sink s)"
    and p: "List.map_filter id inps @ lg_queue s = tr" and n: "\<not> rt_stopped (lg_resend s)"
    and kl: "no_mark (List.map_filter id inps)"
    by (auto simp: forward_books_def no_mark_def)
  have a: "List.map_filter id (inps @ [inp]) = List.map_filter id inps @ List.map_filter id [inp]"
    by (simp add: List.map_filter_def)
  have i: "List.map_filter id [inp] = (case inp of None \<Rightarrow> [] | Some x \<Rightarrow> [x])" by (simp add: List.map_filter_simps split: option.split)
  have "List.map_filter id [inp] @ q = lg_queue s"
    using q by (cases "lg_queue s") (auto simp: bq_take_for_def List.map_filter_simps)
  then have "List.map_filter id (inps @ [inp]) @ q = tr" using p unfolding a by simp
  moreover have "resend_run ?send se_is_kill (\<lambda>se. se) (inps @ [inp]) resend_init k0 = Some (rt, k)"
    using resend_run_snoc [OF r n] st by simp
  moreover have "rt_stopped rt \<longleftrightarrow> (\<exists>i \<in> set (List.map_filter id (inps @ [inp])). se_is_kill i)"
    using resend_step_stopped [OF st] n kl unfolding a i by (cases inp) (auto simp: no_mark_def)
  moreover have "no_mark (butlast (List.map_filter id (inps @ [inp])))"
    using kl unfolding a i by (cases inp) (auto simp: no_mark_def dest: in_set_butlastD)
  ultimately show ?thesis unfolding forward_books_def by (intro exI [of _ "inps @ [inp]"]) (simp add: s')
qed

lemma lg_books_step: "logscan_step env s es s' \<Longrightarrow> forward_books env k0 tr s \<Longrightarrow> forward_books env k0 (tr @ es) s'"
proof (induction rule: logscan_step.induct)
  case (Lg_systemd_turns s now junk answer es s')
  from systemd_turn_frame [OF Lg_systemd_turns(2)] show ?case by (intro books_push [OF Lg_systemd_turns(3)]) auto
next
  case (Lg_forwards s s')
  then show ?case by (simp add: forward_turn_books)
qed (erule books_push; simp add: step_frames bq_push_def)+

lemma lg_run_books: "logscan_run env s0 tr s \<Longrightarrow> forward_books env (lg_sink s0) tr s \<and> mark_inv tr s"
proof (induction rule: logscan_run.induct)
  case (lg_start opened host fl ns)
  have "forward_books env (lg_sink s0) [] s0"
    unfolding forward_books_def
    by (rule exI [of _ "[]"]) (use lg_start in \<open>auto simp: logscan_begin_def resend_init_def List.map_filter_simps split: prod.splits sum.splits\<close>)
  moreover have "mark_inv [] s0" using lg_start by (auto simp: logscan_begin_def mark_inv_alt split: prod.splits sum.splits)
  ultimately show ?case ..
next
  case (lg_step tr s es s')
  then show ?case by (blast intro: lg_books_step lg_mark_step)
qed

subsection \<open>When the daemon returned\<close>

lemma thread_order_done: "logscan_run env s0 tr s \<Longrightarrow> lg_main s = Lm_returned \<longrightarrow> lg_output_done s"
proof (induction rule: logscan_run.induct)
  case (lg_start opened host fl ns)
  then show ?case by (auto simp: logscan_begin_def split: prod.splits sum.splits)
next
  case (lg_step tr s es s')
  from lg_step(2) lg_step.IH show ?case
    by cases (auto simp: step_frames dest: systemd_turn_frame forward_turn_frame)
qed

lemma accepted_before_mark:
  assumes "List.map_filter id inps = before @ [logscan_kill]" "no_mark before"
  shows "accepted se_is_kill (\<lambda>se. se) inps = before"
proof -
  have "takeWhile (\<lambda>x. \<not> se_is_kill x) before = before" using assms(2) by (simp add: no_mark_def)
  then show ?thesis using assms by (simp add: accepted_takeWhile takeWhile_append no_mark_def)
qed

lemma start_kind: "logscan_run env s0 tr s \<Longrightarrow> of_kind (lc_output_kind (le_cfg env)) (lg_sink s0)"
  by (induction rule: logscan_run.induct) (auto simp: logscan_begin_def split: prod.splits sum.splits dest: create_sink_kind)

lemma run_accounts:
  assumes "logscan_run env s0 tr s" and "lg_main s = Lm_returned"
    and "datagram_net (le_net env)" and "cereal_ok (le_ser env)"
  shows "\<exists>before late ys es. tr = before @ logscan_kill # late \<and> no_mark before \<and> no_mark late \<and> lg_queue s = late
     \<and> sink_out (lg_sink s) = sink_out (lg_sink s0) @ ys \<and> list_all2 (event_carried (lc_output_kind (le_cfg env)) (le_ser env)) ys es
     \<and> mset es + mset (rt_local (lg_resend s)) = mset before"
proof -
  note rel = only_event_reliable [OF assms(3,4), of "lc_output_kind (le_cfg env)"]
  from lg_run_books [OF assms(1)] have b: "forward_books env (lg_sink s0) tr s" and m: "mark_inv tr s" by auto
  from m assms(2) obtain before late where tr: "tr = before @ logscan_kill # late" and nm: "no_mark before" "no_mark late"
    by (auto simp: mark_inv_alt marked_def)
  from thread_order_done [OF assms(1)] assms(2) have "lg_output_done s" by simp
  with b obtain inps where
    r: "resend_run (event_send (le_net env) (le_ser env)) se_is_kill (\<lambda>se. se) inps resend_init (lg_sink s0) = Some (lg_resend s, lg_sink s)"
    and p: "List.map_filter id inps @ lg_queue s = tr" and k: "\<exists>i \<in> set (List.map_filter id inps). se_is_kill i"
    and bl: "no_mark (butlast (List.map_filter id inps))"
    unfolding forward_books_def by auto
  obtain taken x where t: "List.map_filter id inps = taken @ [x]" using k by (cases "List.map_filter id inps" rule: rev_cases) auto
  with k bl have x: "se_is_kill x" "no_mark taken" by (auto simp: no_mark_def)
  have eq: "taken @ x # lg_queue s = before @ logscan_kill # late" using p t tr by simp
  have "takeWhile (\<lambda>e. \<not> se_is_kill e) (taken @ x # lg_queue s) = taken"
    "takeWhile (\<lambda>e. \<not> se_is_kill e) (before @ logscan_kill # late) = before"
    using x nm by (auto simp: takeWhile_append no_mark_def)
  with eq have e: "taken = before" by simp
  with eq have q: "x = logscan_kill" "lg_queue s = late" by simp_all
  have acc: "accepted se_is_kill (\<lambda>se. se) inps = before" using accepted_before_mark [of inps before] t e q(1) nm(1) by simp
  have r': "resend_run (only_when (of_kind (lc_output_kind (le_cfg env))) (event_send (le_net env) (le_ser env))) se_is_kill (\<lambda>se. se) inps
      resend_init (lg_sink s0) = Some (lg_resend s, lg_sink s)"
    unfolding resend_run_only_when [OF sending_keeps_event_kind start_kind [OF assms(1)]] by (rule r)
  from reliable_sink.resend_run_accounts [OF rel r'] obtain es where
    d: "reliable_sink.put_out sink_out (event_carried (lc_output_kind (le_cfg env)) (le_ser env)) (lg_sink s0) (lg_sink s) es"
    and m: "mset es + mset (rt_local (lg_resend s)) = mset before"
    by (auto simp: resend_init_def acc)
  from d obtain ys where "sink_out (lg_sink s) = sink_out (lg_sink s0) @ ys"
    "list_all2 (event_carried (lc_output_kind (le_cfg env)) (le_ser env)) ys es"
    unfolding reliable_sink.put_out_def [OF rel] by blast
  with m tr nm q(2) show ?thesis by blast
qed

text \<open>
  C23: What logscan found it delivers, up to the closing mark. When the daemon returned, whatever the files, the
  sockets and the interleaving of its threads were, exactly one closing mark was put into the queue, by the main
  thread; the events before it are each put out once by the sink or left in the local queue; and the events
  after it are lost: they are still in the queue.
\<close>

theorem logscan_returns_accounted:
  assumes "logscan_run env s0 tr s" and "lg_main s = Lm_returned"
    and "datagram_net (le_net env)" and "cereal_ok (le_ser env)"
  shows "\<exists>before late ys es. tr = before @ logscan_kill # late \<and> no_mark before \<and> no_mark late \<and> lg_queue s = late
     \<and> sink_out (lg_sink s) = sink_out (lg_sink s0) @ ys \<and> list_all2 (event_carried (lc_output_kind (le_cfg env)) (le_ser env)) ys es
     \<and> mset es + mset (rt_local (lg_resend s)) = mset before"
  using assms by (rule run_accounts)

subsection \<open>The daemon can always return\<close>

definition lg_returns :: "logscan_env \<Rightarrow> logscan_state \<Rightarrow> source_event list \<Rightarrow> bool" where
  "lg_returns env s0 tr = (\<exists>es s'. logscan_run env s0 (tr @ es) s' \<and> lg_main s' = Lm_returned)"

lemma lg_returns_more: "lg_returns env s0 (tr @ es) \<Longrightarrow> lg_returns env s0 tr"
  by (auto simp: lg_returns_def)

text \<open>To return after one more step.\<close>

lemma lg_returns_step:
  assumes "logscan_run env s0 tr s" "logscan_step env s es s'" "logscan_run env s0 (tr @ es) s' \<Longrightarrow> lg_returns env s0 (tr @ es)"
  shows "lg_returns env s0 tr"
  using assms lg_returns_more lg_step by blast

lemma join_bound: "logscan_run env s0 tr s \<Longrightarrow> lg_main s = Lm_join n \<Longrightarrow> n \<le> 2"
proof (induction arbitrary: n rule: logscan_run.induct)
  case (lg_start opened host fl ns)
  then show ?case by (auto simp: logscan_begin_def split: prod.splits sum.splits)
next
  case (lg_step tr s es s')
  from lg_step(2) lg_step.IH lg_step.prems show ?case
    by cases (auto simp: step_frames dest: systemd_turn_frame forward_turn_frame)
qed

definition lg_sends :: "logscan_env \<Rightarrow> bool" where
  "lg_sends env = (\<forall>x k. event_send (le_net env) (le_ser env) x k \<noteq> None)"

lemma lg_returns_output:
  assumes "lg_sends env" "logscan_run env s0 tr s" "lg_main s = Lm_join 2"
  shows "lg_returns env s0 tr"
  using assms(2,3)
proof (induction "length (lg_queue s)" arbitrary: tr s rule: less_induct)
  case less
  show ?case
  proof (cases "lg_output_done s")
    case True
    from less.prems(1) Lg_joins_output [OF less.prems(2) True] show ?thesis
    proof (rule lg_returns_step)
      assume "logscan_run env s0 (tr @ []) (s\<lparr>lg_main := Lm_returned\<rparr>)"
      then show "lg_returns env s0 (tr @ [])" unfolding lg_returns_def by (intro exI [of _ "[]"]) auto
    qed
  next
    case False
    from lg_run_books [OF less.prems(1)] have b: "forward_books env (lg_sink s0) tr s" and m: "mark_inv tr s" by auto
    from m less.prems(2) have "logscan_kill \<in> set tr" by (auto simp: mark_inv_alt marked_def)
    moreover from b False obtain inps where "List.map_filter id inps @ lg_queue s = tr" "\<forall>i \<in> set (List.map_filter id inps). \<not> se_is_kill i"
      unfolding forward_books_def by blast
    ultimately have "lg_queue s \<noteq> []" using kill_mark by (metis append_Nil2)
    then obtain e q where q: "lg_queue s = e # q" by (cases "lg_queue s") auto
    from resend_step_total [of "event_send (le_net env) (le_ser env)" se_is_kill "\<lambda>se. se" "Some e" "lg_resend s" "lg_sink s"] assms(1)
    obtain rt k where "resend_step (event_send (le_net env) (le_ser env)) se_is_kill (\<lambda>se. se) (Some e) (lg_resend s) (lg_sink s) = Some (rt, k)"
      by (auto simp: lg_sends_def)
    with q obtain s' where f: "forward_turn env s = Some s'" and s': "lg_queue s' = q" by (auto simp: forward_turn_def bq_take_for_def)
    from less.prems(1) Lg_forwards [OF False f] show ?thesis
    proof (rule lg_returns_step)
      assume "logscan_run env s0 (tr @ []) s'"
      then show "lg_returns env s0 (tr @ [])"
        using less.hyps [of s'] q s' less.prems(2) forward_turn_frame [OF f] by simp
    qed
  qed
qed

lemma returns_systemd:
  assumes "lg_sends env" "logscan_run env s0 tr s" "lg_main s = Lm_join 1"
  shows "lg_returns env s0 tr"
proof -
  have d: "lg_returns env s0 tr" if "logscan_run env s0 tr s" "lg_main s = Lm_join 1" "lg_systemd s = Sd_done" for tr s
    by (rule lg_returns_step [OF that(1) Lg_joins_systemd [OF that(2,3)]]) (erule lg_returns_output [OF assms(1)], simp)
  have t: "logscan_step env s [] (s\<lparr>lg_systemd := Sd_check\<rparr>)" if "lg_systemd s = Sd_recv" for s
    using that by (intro Lg_systemd_turns [where answer = None]) (auto simp: systemd_turn_def)
  have c: "lg_returns env s0 tr" if r: "logscan_run env s0 tr s" "lg_main s = Lm_join 1" "lg_systemd s = Sd_check" for tr s
  proof -
    from lg_run_books [OF r(1)] r(2) have "\<not> lg_running s" by (auto simp: mark_inv_alt)
    with r(3) have "logscan_step env s [] (s\<lparr>lg_systemd := Sd_done\<rparr>)"
      by (intro Lg_systemd_turns [where answer = None]) (auto simp: systemd_turn_def)
    from r(1) this show ?thesis by (rule lg_returns_step) (erule d, use r in simp_all)
  qed
  show ?thesis
  proof (cases "lg_systemd s")
    case Sd_start
    let ?s = "systemd_begin env 0 True True True s"
    from assms(2) Lg_systemd_begins [OF Sd_start] show ?thesis
    proof (rule lg_returns_step)
      assume r: "logscan_run env s0 (tr @ []) ?s"
      have m: "lg_main ?s = Lm_join 1" using assms(3) by (simp add: step_frames)
      from systemd_begin_frame(9) [of env 0 True True True s] c [OF r m] d [OF r m] show "lg_returns env s0 (tr @ [])" by blast
    qed
  next
    case Sd_recv
    from assms(2) t [OF this] show ?thesis by (rule lg_returns_step) (erule c, use assms(3) in simp_all)
  qed (use assms c d in auto)
qed

lemma lg_drain:
  assumes "logscan_run env s0 tr s"
    and "\<And>tr' s'. logscan_run env s0 tr' s' \<Longrightarrow> lg_outbox s' = [] \<Longrightarrow> lg_main s' = lg_main s \<Longrightarrow> lg_logfile s' = lg_logfile s \<Longrightarrow>
      lg_returns env s0 tr'"
  shows "lg_returns env s0 tr"
  using assms
proof (induction "lg_outbox s" arbitrary: tr s)
  case Nil
  then show ?case by simp
next
  case (Cons e es)
  from Cons.prems(1) Lg_logfile_pushes [OF Cons.hyps(2) [symmetric]] show ?case
    by (rule lg_returns_step) (erule Cons.hyps(1) [rotated], use Cons.prems(2) in simp_all)
qed

lemma returns_logfile:
  assumes "lg_sends env" "logscan_run env s0 tr s" "lg_main s = Lm_join 0"
  shows "lg_returns env s0 tr"
proof -
  have d: "lg_returns env s0 tr" if "logscan_run env s0 tr s" "lg_main s = Lm_join 0" "lg_logfile s = Lf_done" for tr s
    by (rule lg_returns_step [OF that(1) Lg_joins_logfile [OF that(2,3)]]) (erule returns_systemd [OF assms(1)], simp)
  have c: "lg_returns env s0 tr" if r: "logscan_run env s0 tr s" "lg_main s = Lm_join 0" "lg_logfile s = Lf_check" for tr s
  proof (rule lg_drain [OF r(1)])
    fix tr' s'
    assume r': "logscan_run env s0 tr' s'" "lg_outbox s' = []" "lg_main s' = lg_main s" "lg_logfile s' = lg_logfile s"
    with lg_run_books [OF r'(1)] r(2) have "\<not> lg_running s'" by (auto simp: mark_inv_alt)
    then have "lg_logfile (logfile_check env True True s') = Lf_done" by (simp add: logfile_check_def)
    with Lg_logfile_checks [of s' env True True] r' r show "lg_returns env s0 tr'"
      by (intro lg_returns_step [OF r'(1)]) (auto intro: d simp: step_frames)
  qed
  have x: "length (replicate n v) = n" for n and v :: file_view by simp
  show ?thesis
  proof (cases "lg_logfile s")
    case Lf_start
    let ?s = "logfile_begin env 0 (replicate (length (lc_log_files (le_cfg env))) undefined) s"
    from assms(2) Lg_logfile_begins [OF Lf_start x] show ?thesis
    proof (rule lg_returns_step)
      assume r: "logscan_run env s0 (tr @ []) ?s"
      have m: "lg_main ?s = Lm_join 0" using assms(3) by (simp add: step_frames)
      from logfile_begin_frame(8) c [OF r m] d [OF r m] show "lg_returns env s0 (tr @ [])" by blast
    qed
  next
    case Lf_scan
    show ?thesis
    proof (rule lg_drain [OF assms(2)])
      fix tr' s'
      assume r': "logscan_run env s0 tr' s'" "lg_outbox s' = []" "lg_main s' = lg_main s" "lg_logfile s' = lg_logfile s"
      with Lf_scan have "lg_logfile s' = Lf_scan" by simp
      from r'(1) Lg_logfile_scans [OF this r'(2) x] show "lg_returns env s0 tr'"
        by (rule lg_returns_step) (erule c, use r' assms(3) in \<open>simp_all add: step_frames\<close>)
    qed
  qed (use assms c d in auto)
qed

text \<open>
  C25: The daemon can always return. From every state it can reach, whatever its threads did, ctguard-logscan can go
  on until \<open>daemon()\<close> returned, provided that the system does not go on forever refusing the datagrams of a socket
  whose connections it accepts: then the retry loop of \<open>unix_socket_client::send\<close> ends.
\<close>

theorem logscan_can_return:
  assumes "datagram_net (le_net env)" and "refusals_end (le_net env)" and "logscan_run env s0 tr s"
  shows "\<exists>es s'. logscan_run env s0 (tr @ es) s' \<and> lg_main s' = Lm_returned"
proof -
  have snd: "lg_sends env" using event_send_returns [OF assms(1,2)] by (simp add: lg_sends_def)
  have kil: "lg_returns env s0 tr" if "logscan_run env s0 tr s" "lg_main s = Lm_killing" for tr s
    by (rule lg_returns_step [OF that(1) Lg_kills [OF that(2)]]) (erule returns_logfile [OF snd], simp)
  have stp: "lg_returns env s0 tr" if "logscan_run env s0 tr s" "lg_main s = Lm_stopping" for tr s
    by (rule lg_returns_step [OF that(1) Lg_stops [OF that(2)]]) (erule kil, simp)
  have wai: "lg_returns env s0 tr" if "logscan_run env s0 tr s" "lg_main s = Lm_wait" for tr s
    by (rule lg_returns_step [OF that(1) Lg_wakes [OF that(2) refl]]) (erule stp, simp)
  have sta: "lg_returns env s0 tr" if "logscan_run env s0 tr s" "lg_main s = Lm_start" for tr s
    by (rule lg_returns_step [OF that(1) Lg_starts [OF that(2) refl]]) (erule wai, simp)
  have "lg_returns env s0 tr"
  proof (cases "lg_main s")
    case (Lm_join n)
    with join_bound [OF assms(3)] have "n = 0 \<or> n = 1 \<or> n = 2" by auto
    with assms(3) Lm_join snd show ?thesis by (auto intro: returns_logfile returns_systemd lg_returns_output)
  next
    case Lm_returned
    with assms(3) show ?thesis unfolding lg_returns_def by (intro exI [of _ "[]"]) auto
  qed (use assms(3) kil stp wai sta in auto)
  then show ?thesis by (simp add: lg_returns_def)
qed

subsection \<open>The last look at the files\<close>

text \<open>How a run goes on: the events put into the queue on the way.\<close>

inductive logscan_steps :: "logscan_env \<Rightarrow> logscan_state \<Rightarrow> source_event list \<Rightarrow> logscan_state \<Rightarrow> bool" for env s where
  ls_refl: "logscan_steps env s [] s"
| ls_step: "logscan_steps env s es s' \<Longrightarrow> logscan_step env s' fs s'' \<Longrightarrow> logscan_steps env s (es @ fs) s''"

lemma run_goes_on: "logscan_steps env s es s' \<Longrightarrow> logscan_run env s0 tr s \<Longrightarrow> logscan_run env s0 (tr @ es) s'"
proof (induction rule: logscan_steps.induct)
  case (ls_step es s' fs s'')
  from lg_step [OF ls_step.IH [OF ls_step.prems] ls_step.hyps(2)] show ?case by simp
qed simp

lemma first_mark_unique:
  "u @ x # v = u' @ x # v' \<Longrightarrow> x \<notin> set u \<Longrightarrow> x \<notin> set u' \<Longrightarrow> u = u' \<and> v = v'"
proof (induction u arbitrary: u')
  case Nil
  then show ?case by (cases u') auto
next
  case (Cons a u)
  then show ?case by (cases u') auto
qed

lemma joined_logfile:
  "logscan_run env s0 tr s \<Longrightarrow> (\<exists>n. lg_main s = Lm_join (Suc n)) \<or> lg_main s = Lm_returned \<Longrightarrow> lg_logfile s = Lf_done"
proof (induction rule: logscan_run.induct)
  case (lg_start opened host fl ns)
  then show ?case by (auto simp: logscan_begin_def split: prod.splits sum.splits)
next
  case (lg_step tr s es s')
  from lg_step(2) lg_step.IH lg_step.prems show ?case
    by cases (auto simp: step_frames dest: systemd_turn_frame forward_turn_frame)
qed

lemma other_threads_keep:
  "lg_task (systemd_begin env u a b c s) = lg_task s" "lg_file (systemd_begin env u a b c s) = lg_file s"
  "systemd_turn now junk answer s = (es, s') \<Longrightarrow> lg_task s' = lg_task s \<and> lg_file s' = lg_file s"
  "forward_turn env s = Some s' \<Longrightarrow> lg_task s' = lg_task s \<and> lg_file s' = lg_file s"
  by (auto simp: systemd_begin_def systemd_turn_def forward_turn_def Let_def bind_eq_Some_conv
      split: systemd_start.splits systemd_pc.splits option.splits prod.splits)

text \<open>After the last look, with the events \<open>es\<close>, the task \<open>t\<close> and the state file \<open>saved\<close>; \<open>fs\<close> was put into the queue since.\<close>

definition last_look :: "source_event list \<Rightarrow> logscan_task \<Rightarrow> string option \<Rightarrow> source_event list \<Rightarrow> logscan_state \<Rightarrow> bool" where
  "last_look es t saved fs s =
     (\<not> lg_running s \<and> lg_task s = t \<and> mset es \<subseteq># mset fs + mset (lg_outbox s)
      \<and> (lg_logfile s = Lf_check \<and> lg_file s = saved
         \<or> lg_logfile s = Lf_done \<and> lg_outbox s = [] \<and> (\<exists>a b. lg_file s = logfile_stop a b (t, saved))))"

lemma last_look_push:
  assumes "last_look es t saved fs s" "lg_running s' = lg_running s" "lg_task s' = lg_task s" "lg_file s' = lg_file s"
    and "lg_logfile s' = lg_logfile s" "lg_outbox s' = lg_outbox s"
  shows "last_look es t saved (fs @ gs) s'"
proof -
  have "mset fs + mset (lg_outbox s) \<subseteq># mset (fs @ gs) + mset (lg_outbox s)" by simp
  with assms show ?thesis unfolding last_look_def by (auto intro: subset_mset.order_trans)
qed

lemmas last_look_same = last_look_push [where gs = "[]", unfolded append_Nil2]

lemma last_look_step:
  "logscan_step env s gs s' \<Longrightarrow> last_look es t saved fs s \<Longrightarrow> lg_main s \<notin> {Lm_start, Lm_wait, Lm_stopping} \<Longrightarrow>
   last_look es t saved (fs @ gs) s'"
proof (induction rule: logscan_step.induct)
  case (Lg_logfile_pushes s e gs)
  then have "mset fs + mset (lg_outbox s) = mset (fs @ [e]) + mset gs" by simp
  with Lg_logfile_pushes show ?case unfolding last_look_def by auto
next
  case (Lg_logfile_checks s a b)
  then show ?case by (auto simp: last_look_def logfile_check_def)
next
  case (Lg_systemd_turns s now junk answer gs s')
  from systemd_turn_frame [OF Lg_systemd_turns(2)] other_threads_keep(3) [OF Lg_systemd_turns(2)] Lg_systemd_turns(3) show ?case
    by (auto intro: last_look_push)
next
  case (Lg_forwards s s')
  from forward_turn_frame [OF Lg_forwards(2)] other_threads_keep(4) [OF Lg_forwards(2)] show ?case
    by (simp add: last_look_same [OF Lg_forwards(3)])
next
  case (Lg_systemd_begins s u a b c)
  then show ?case by (auto intro: last_look_same simp: step_frames other_threads_keep)
next
  case (Lg_kills s)
  show ?case by (rule last_look_push [OF Lg_kills(2)]) simp_all
qed (auto simp: last_look_def)

lemma last_look_steps:
  assumes "logscan_steps env s fs s'" "logscan_run env s0 tr s" "logscan_kill \<in> set tr" "last_look es t saved [] s"
  shows "last_look es t saved fs s'"
  using assms
proof (induction rule: logscan_steps.induct)
  case (ls_step fs s' gs s'')
  from run_goes_on [OF ls_step.hyps(1) ls_step.prems(1)] lg_run_books have "mark_inv (tr @ fs) s'" by blast
  moreover from ls_step.prems(2) have "\<not> no_mark (tr @ fs)" by (auto simp: no_mark_def intro!: bexI [of _ logscan_kill])
  ultimately have "lg_main s' \<notin> {Lm_start, Lm_wait, Lm_stopping}" by (auto simp: mark_inv_alt)
  with ls_step show ?case by (blast intro: last_look_step)
qed simp

subsection \<open>Executing a run\<close>

datatype logscan_choice =
    Cg_start int | Cg_wake int | Cg_stop | Cg_kill | Cg_join
  | Cg_begin int "file_view list" | Cg_push | Cg_check bool bool | Cg_scan int "file_view list" bool bool
  | Cg_systemd_begin nat bool bool bool | Cg_systemd int string "string option" | Cg_forward

fun logscan_exec :: "logscan_env \<Rightarrow> logscan_choice \<Rightarrow> logscan_state \<Rightarrow> (source_event list \<times> logscan_state) option" where
  "logscan_exec env (Cg_start now) s =
     (let e = daemon_event env now ''ctguard-logscan started'' in
      if lg_main s = Lm_start then Some ([e], s\<lparr>lg_main := Lm_wait, lg_queue := bq_push (lg_queue s) e\<rparr>) else None)"
| "logscan_exec env (Cg_wake now) s =
     (let e = daemon_event env now ''ctguard-logscan shutting down...'' in
      if lg_main s = Lm_wait then Some ([e], s\<lparr>lg_main := Lm_stopping, lg_queue := bq_push (lg_queue s) e\<rparr>) else None)"
| "logscan_exec env Cg_stop s =
     (if lg_main s = Lm_stopping then Some ([], s\<lparr>lg_main := Lm_killing, lg_running := False\<rparr>) else None)"
| "logscan_exec env Cg_kill s =
     (if lg_main s = Lm_killing
      then Some ([logscan_kill], s\<lparr>lg_main := Lm_join 0, lg_queue := bq_push (lg_queue s) logscan_kill\<rparr>) else None)"
| "logscan_exec env Cg_join s =
     (if lg_main s = Lm_join 0 \<and> lg_logfile s = Lf_done then Some ([], s\<lparr>lg_main := Lm_join 1\<rparr>)
      else if lg_main s = Lm_join 1 \<and> lg_systemd s = Sd_done then Some ([], s\<lparr>lg_main := Lm_join 2\<rparr>)
      else if lg_main s = Lm_join 2 \<and> lg_output_done s then Some ([], s\<lparr>lg_main := Lm_returned\<rparr>)
      else None)"
| "logscan_exec env (Cg_begin now vs) s =
     (if lg_logfile s = Lf_start \<and> length vs = length (lc_log_files (le_cfg env)) then Some ([], logfile_begin env now vs s) else None)"
| "logscan_exec env Cg_push s =
     (case lg_outbox s of
        [] \<Rightarrow> None
      | e # es \<Rightarrow> Some ([e], s\<lparr>lg_outbox := es, lg_queue := bq_push (lg_queue s) e\<rparr>))"
| "logscan_exec env (Cg_check a b) s =
     (if lg_logfile s = Lf_check \<and> lg_outbox s = [] then Some ([], logfile_check env a b s) else None)"
| "logscan_exec env (Cg_scan now vs a b) s =
     (if lg_logfile s = Lf_scan \<and> lg_outbox s = [] \<and> length vs = length (lt_files (lg_task s))
      then Some ([], logfile_scan env now vs a b s) else None)"
| "logscan_exec env (Cg_systemd_begin u a b c) s =
     (if lg_systemd s = Sd_start then Some ([], systemd_begin env u a b c s) else None)"
| "logscan_exec env (Cg_systemd now junk answer) s =
     (if lg_systemd s \<in> {Sd_check, Sd_recv} then Some (systemd_turn now junk answer s) else None)"
| "logscan_exec env Cg_forward s =
     (if lg_output_done s then None else map_option (\<lambda>s. ([], s)) (forward_turn env s))"

lemma logscan_exec_step: "logscan_exec env c s = Some (es, s') \<Longrightarrow> logscan_step env s es s'"
  using Lg_joins_logfile [of s env] Lg_joins_systemd [of s env] Lg_joins_output [of s env]
  by (cases c) (auto simp: Let_def split: if_splits list.splits intro: logscan_step.intros)

fun logscan_execs :: "logscan_env \<Rightarrow> logscan_choice list \<Rightarrow> source_event list \<times> logscan_state \<Rightarrow>
    (source_event list \<times> logscan_state) option" where
  "logscan_execs env [] ts = Some ts"
| "logscan_execs env (c # cs) ts =
     (case logscan_exec env c (snd ts) of None \<Rightarrow> None | Some (es, s) \<Rightarrow> logscan_execs env cs (fst ts @ es, s))"

lemma logscan_execs_run:
  "logscan_execs env cs (tr, s) = Some (tr', s') \<Longrightarrow> logscan_run env s0 tr s \<Longrightarrow> logscan_run env s0 tr' s'"
proof (induction cs arbitrary: tr s)
  case (Cons c cs)
  then obtain es s1 where e: "logscan_exec env c s = Some (es, s1)" "logscan_execs env cs (tr @ es, s1) = Some (tr', s')"
    by (auto split: option.splits)
  from Cons.prems(2) logscan_exec_step [OF e(1)] have "logscan_run env s0 (tr @ es) s1" by (rule lg_step)
  with Cons.IH e(2) show ?case .
qed simp

text \<open>One file, which gains a line between the check of \<open>RUNNING\<close> and the scan, while the daemon is told to stop.\<close>

definition late_env :: logscan_env where
  "late_env =
     \<lparr>le_cfg = default_logscan_config\<lparr>lc_log_files := [demo_config], lc_output_kind := Output_file, lc_systemd_input := False\<rparr>,
      le_unit_test = True, le_net = ready_net, le_ser = (\<lambda>se. ''x'')\<rparr>"

definition late_start :: logscan_state where
  "late_start =
     \<lparr>lg_running = True, lg_main = Lm_start, lg_logfile = Lf_start, lg_systemd = Sd_start, lg_output_done = False,
      lg_queue = [], lg_task = \<lparr>lt_files = [], lt_interval = 0\<rparr>, lg_outbox = [], lg_file = None, lg_errors = [],
      lg_resend = resend_init, lg_sink = (File_sink [], \<lparr>ns_tick = 0, ns_wire = [], ns_closed = []\<rparr>)\<rparr>"

definition late_choices :: "logscan_choice list" where
  "late_choices =
     [Cg_begin 0 [plain_view 7 (demo_text [])], Cg_systemd_begin 0 True True True, Cg_start 0, Cg_forward,
      Cg_check True True, Cg_wake 1, Cg_stop, Cg_kill, Cg_forward, Cg_forward,
      Cg_scan 1 [plain_view 7 (demo_text (''b'' @ [newline]))] True True, Cg_push, Cg_check True True, Cg_join, Cg_join, Cg_join]"

lemma late_begins: "logscan_run late_env late_start [] late_start"
  by (rule lg_start [where opened = True and host = "[]" and saved = None and ns = "\<lparr>ns_tick = 0, ns_wire = [], ns_closed = []\<rparr>"])
    (simp add: logscan_begin_def late_start_def late_env_def create_sink_def)

lemma late_runs:
  "map_option (\<lambda>(tr, s). (lg_main s, lg_errors s, map se_message tr, map se_message (lg_queue s), sink_out (lg_sink s),
       rt_local (lg_resend s), lg_file s)) (logscan_execs late_env late_choices ([], late_start))
   = Some (Lm_returned, [], [''ctguard-logscan started'', ''ctguard-logscan shutting down...'', ''!KILL'', ''b''], [''b''],
       ['' [daemon] : ctguard-logscan started'' @ [newline], '' [daemon] : ctguard-logscan shutting down...'' @ [newline]], [],
       Some (CHR 0x22 # ''f'' @ [CHR 0x22] @ '',7,4'' @ [newline]))"
  by code_simp

text \<open>
  C26: What is found during the shutdown is lost for good (events going to a file or a datagram socket, archives never being empty). When
  the thread that follows the files has passed its check of
  \<open>RUNNING\<close> and looks at the files after the closing mark was put into the queue, then, however the run goes on until the
  daemon returned, the events of that look are left in the queue behind the mark: what was put out or waits in
  the local queue is only what was queued before the mark. Yet the state file, if it can be written at the end, holds the positions
  after that look, so that the next start goes on behind the lines.
\<close>

theorem shutdown_loses_line:
  assumes "logscan_run env s0 tr s" and "logscan_kill \<in> set tr" and "lg_logfile s = Lf_scan" and "lg_outbox s = []"
    and "length vs = length (lt_files (lg_task s))"
    and "logfile_turn (le_unit_test env) now vs a b (le_cfg env) (lg_task s, lg_file s) = (es, t, saved)"
    and "logscan_steps env (logfile_scan env now vs a b s) fs s'" and "lg_main s' = Lm_returned"
    and "datagram_net (le_net env)" and "cereal_ok (le_ser env)"
  shows "\<exists>before late ys sent. tr @ fs = before @ logscan_kill # late \<and> no_mark before
     \<and> lg_queue s' = late \<and> mset es \<subseteq># mset late
     \<and> sink_out (lg_sink s') = sink_out (lg_sink s0) @ ys \<and> list_all2 (event_carried (lc_output_kind (le_cfg env)) (le_ser env)) ys sent
     \<and> mset sent + mset (rt_local (lg_resend s')) = mset before
     \<and> (lg_file s' = saved \<or> lg_file s' = Some (concat (map state_line (lt_files t))))"
proof -
  let ?s = "logfile_scan env now vs a b s"
  from lg_step [OF assms(1) Lg_logfile_scans [OF assms(3-5)]] have r: "logscan_run env s0 tr ?s" by simp
  from lg_run_books [OF assms(1)] assms(2) have "\<not> lg_running s" by (auto simp: mark_inv_alt no_mark_def split: if_splits)
  with assms(6) have "last_look es t saved [] ?s" by (simp add: last_look_def logfile_scan_def)
  from last_look_steps [OF assms(7) r assms(2) this] have l: "last_look es t saved fs s'" .
  note r' = run_goes_on [OF assms(7) r]
  from joined_logfile [OF r'] assms(8) l have e: "mset es \<subseteq># mset fs" and f: "\<exists>a b. lg_file s' = logfile_stop a b (t, saved)"
    by (auto simp: last_look_def)
  from run_accounts [OF r' assms(8-10)] obtain before late ys sent where
    b: "tr @ fs = before @ logscan_kill # late" "no_mark before" "lg_queue s' = late"
    and c: "sink_out (lg_sink s') = sink_out (lg_sink s0) @ ys" "list_all2 (event_carried (lc_output_kind (le_cfg env)) (le_ser env)) ys sent"
      "mset sent + mset (rt_local (lg_resend s')) = mset before" by blast
  from assms(2) obtain u v where tr: "tr = u @ logscan_kill # v" "logscan_kill \<notin> set u" by (meson split_list_first)
  from b(2) have "logscan_kill \<notin> set before" by (auto simp: no_mark_def)
  with b(1) tr first_mark_unique [of u logscan_kill "v @ fs" before late] have "late = v @ fs" by simp
  with e have "mset es \<subseteq># mset late" by (simp add: subset_mset.add_increasing)
  moreover from f have "lg_file s' = saved \<or> lg_file s' = Some (concat (map state_line (lt_files t)))"
    by (auto simp: logfile_stop_def save_state_def)
  ultimately show ?thesis using b c by blast
qed

text \<open>The line "b" of the file "f".\<close>

lemma logscan_execs_steps:
  "logscan_execs env cs (tr, s) = Some (tr', s') \<Longrightarrow> \<exists>es. tr' = tr @ es \<and> logscan_steps env s es s'"
proof -
  have "logscan_steps env s0 fs s \<Longrightarrow> logscan_execs env cs (tr @ fs, s) = Some (tr', s') \<Longrightarrow> \<exists>es. tr' = tr @ es \<and> logscan_steps env s0 es s'"
    for s0 fs
  proof (induction cs arbitrary: fs s)
    case (Cons c cs)
    then obtain es s1 where e: "logscan_exec env c s = Some (es, s1)" "logscan_execs env cs (tr @ fs @ es, s1) = Some (tr', s')"
      by (auto split: option.splits)
    from Cons.IH [OF ls_step [OF Cons.prems(1) logscan_exec_step [OF e(1)]] e(2)] show ?case .
  qed auto
  from this [OF ls_refl] show "logscan_execs env cs (tr, s) = Some (tr', s') \<Longrightarrow> ?thesis" by simp
qed

definition late_view :: file_view where
  "late_view = plain_view 7 (demo_text (''b'' @ [newline]))"

lemma late_looks:
  "map_option (\<lambda>(tr, s). (lg_logfile s, lg_outbox s, length (lt_files (lg_task s)), logscan_kill \<in> set tr,
       map se_message (fst (logfile_turn True 1 [late_view] True True (le_cfg late_env) (lg_task s, lg_file s))),
       map_option (\<lambda>(tr', s'). (lg_main s', sink_out (lg_sink s'), lg_file s'))
         (logscan_execs late_env (drop 11 late_choices) (tr, logfile_scan late_env 1 [late_view] True True s))))
     (logscan_execs late_env (take 10 late_choices) ([], late_start))
   = Some (Lf_scan, [], 1, True, [''b''],
       Some (Lm_returned, ['' [daemon] : ctguard-logscan started'' @ [newline], '' [daemon] : ctguard-logscan shutting down...'' @ [newline]],
         Some (CHR 0x22 # ''f'' @ [CHR 0x22] @ '',7,4'' @ [newline])))"
  by code_simp

theorem shutdown_loses_line_witness:
  "\<exists>tr s. logscan_run late_env late_start tr s \<and> lg_main s = Lm_returned \<and> ''b'' \<in> set (map se_message (lg_queue s))
     \<and> sink_out (lg_sink s) = ['' [daemon] : ctguard-logscan started'' @ [newline], '' [daemon] : ctguard-logscan shutting down...'' @ [newline]]
     \<and> lg_file s = Some (CHR 0x22 # ''f'' @ [CHR 0x22] @ '',7,4'' @ [newline])"
proof -
  let ?s = "logfile_scan late_env 1 [late_view] True True"
  from late_looks obtain tr s where e: "logscan_execs late_env (take 10 late_choices) ([], late_start) = Some (tr, s)"
    and s: "lg_logfile s = Lf_scan" "lg_outbox s = []" "length [late_view] = length (lt_files (lg_task s))" "logscan_kill \<in> set tr"
    and m: "map se_message (fst (logfile_turn True 1 [late_view] True True (le_cfg late_env) (lg_task s, lg_file s))) = [''b'']"
    and more: "map_option (\<lambda>(tr', s'). (lg_main s', sink_out (lg_sink s'), lg_file s')) (logscan_execs late_env (drop 11 late_choices) (tr, ?s s))
       = Some (Lm_returned, ['' [daemon] : ctguard-logscan started'' @ [newline], '' [daemon] : ctguard-logscan shutting down...'' @ [newline]],
         Some (CHR 0x22 # ''f'' @ [CHR 0x22] @ '',7,4'' @ [newline]))"
    by (auto simp del: map_eq_Cons_conv)
  from more obtain tr' s' where e': "logscan_execs late_env (drop 11 late_choices) (tr, ?s s) = Some (tr', s')" "lg_main s' = Lm_returned"
    and o: "sink_out (lg_sink s') = ['' [daemon] : ctguard-logscan started'' @ [newline], '' [daemon] : ctguard-logscan shutting down...'' @ [newline]]"
      "lg_file s' = Some (CHR 0x22 # ''f'' @ [CHR 0x22] @ '',7,4'' @ [newline])"
    by auto
  note r = logscan_execs_run [OF e late_begins]
  have n: "datagram_net (le_net late_env)" "cereal_ok (le_ser late_env)" "le_unit_test late_env = True"
    by (simp_all add: late_env_def cereal_ok_def)
  obtain es t saved where l: "logfile_turn (le_unit_test late_env) 1 [late_view] True True (le_cfg late_env) (lg_task s, lg_file s) = (es, t, saved)"
    by (metis prod_cases3)
  with m n(3) have "map se_message es = [''b'']" by simp
  then have "''b'' \<in> se_message ` set es" by (metis list.set_intros(1) list.set_map)
  from logscan_execs_steps [OF e'(1)] obtain fs where f: "tr' = tr @ fs" "logscan_steps late_env (?s s) fs s'" by blast
  from shutdown_loses_line [OF r s(4,1-3) l f(2) e'(2) n(1,2)] have q: "mset es \<subseteq># mset (lg_queue s')" by blast
  from lg_step [OF r Lg_logfile_scans [OF s(1-3)]] have "logscan_run late_env late_start tr (?s s)" by simp
  from run_goes_on [OF f(2) this] have "logscan_run late_env late_start (tr @ fs) s'" .
  moreover from q have "set es \<subseteq> set (lg_queue s')" by (metis set_mset_mono set_mset_mset)
  ultimately show ?thesis using e'(2) o \<open>''b'' \<in> se_message ` set es\<close> by auto
qed

theorem logscan_returns_accounted_witness:
  "\<exists>tr s before late. logscan_run late_env late_start tr s \<and> tr = before @ logscan_kill # late \<and> length before = 2 \<and> length late = 1
     \<and> lg_queue s = late"
proof -
  from late_runs obtain tr s where e: "logscan_execs late_env late_choices ([], late_start) = Some (tr, s)"
    and m: "lg_main s = Lm_returned" and q: "map se_message (lg_queue s) = [''b'']" and l: "length tr = 4"
    by (auto simp: map_eq_Cons_conv)
  have r: "logscan_run late_env late_start tr s" by (rule logscan_execs_run [OF e late_begins])
  have "datagram_net (le_net late_env)" "cereal_ok (le_ser late_env)" by (simp_all add: late_env_def cereal_ok_def)
  from logscan_returns_accounted [OF r m this] obtain before late where b: "tr = before @ logscan_kill # late" "lg_queue s = late"
    by blast
  from q b(2) have "length late = 1" by (metis length_map list.size(3) list.size(4) One_nat_def add_0)
  with r b l show ?thesis by auto
qed

theorem logscan_can_return_witness:
  "\<exists>tr s. logscan_run late_env late_start tr s \<and> lg_main s = Lm_returned"
proof -
  have "datagram_net (le_net late_env)" "refusals_end (le_net late_env)" by (simp_all add: late_env_def)
  from logscan_can_return [OF this late_begins] show ?thesis by auto
qed

end
