(* ===== verification/Intervention_Daemon.thy ===== *)
theory Intervention_Daemon
  imports Blocked_Queue Daemon_Configs Daemon_Threads Event_Sinks
begin

text \<open>
  src/src/intervention/daemon.cpp: ctguard-intervention receives commands, admits those whose action is
  configured and whose argument the action allows, and runs each in a child process with a timeout. What
  the operating system answers is an argument of each turn. Log output is modelled where it carries what
  the child printed.
\<close>

subsection \<open>run_cmd: the child process\<close>

record child =
  ch_cwd :: string
  ch_uid :: int
  ch_gid :: int
  ch_stdout_piped :: bool
  ch_stderr_piped :: bool
  ch_exec :: "(string \<times> string list) option"

text \<open>The answers of the system calls: the databases give an error (Inl), no entry or an id.\<close>

record child_os =
  co_chdir :: "child \<Rightarrow> bool"
  co_getgrnam :: "string \<Rightarrow> (unit, int option) res"
  co_setgid :: "child \<Rightarrow> int \<Rightarrow> bool"
  co_getpwnam :: "string \<Rightarrow> (unit, int option) res"
  co_setuid :: "child \<Rightarrow> int \<Rightarrow> bool"
  co_dup_stdout :: "child \<Rightarrow> bool"
  co_dup_stderr :: "child \<Rightarrow> bool"
  co_execv :: "child \<Rightarrow> string \<Rightarrow> string list \<Rightarrow> bool"

datatype child_error =
    Can_not_chdir
  | Can_not_getgrnam string
  | No_such_group string
  | Can_not_setgid int
  | Can_not_getpwnam string
  | No_such_user string
  | Can_not_setuid int
  | Can_not_redirect_stdout
  | Can_not_redirect_stderr
  | Can_not_exec string

definition child_chdir :: "child_os \<Rightarrow> bool \<Rightarrow> child \<Rightarrow> (child_error, child) res" where
  "child_chdir os unit_test ch =
     (if unit_test then Inr ch
      else if co_chdir os ch then Inr (ch\<lparr>ch_cwd := ''/''\<rparr>)
      else Inl Can_not_chdir)"

definition child_group :: "child_os \<Rightarrow> intervention_action \<Rightarrow> child \<Rightarrow> (child_error, child) res" where
  "child_group os action ch =
     (if ia_group action = [] then Inr ch
      else (case co_getgrnam os (c_str (ia_group action)) of
          Inl _ \<Rightarrow> Inl (Can_not_getgrnam (ia_group action))
        | Inr None \<Rightarrow> Inl (No_such_group (ia_group action))
        | Inr (Some gid) \<Rightarrow> if co_setgid os ch gid then Inr (ch\<lparr>ch_gid := gid\<rparr>) else Inl (Can_not_setgid gid)))"

definition child_user :: "child_os \<Rightarrow> intervention_action \<Rightarrow> child \<Rightarrow> (child_error, child) res" where
  "child_user os action ch =
     (if ia_user action = [] then Inr ch
      else (case co_getpwnam os (c_str (ia_user action)) of
          Inl _ \<Rightarrow> Inl (Can_not_getpwnam (ia_user action))
        | Inr None \<Rightarrow> Inl (No_such_user (ia_user action))
        | Inr (Some uid) \<Rightarrow> if co_setuid os ch uid then Inr (ch\<lparr>ch_uid := uid\<rparr>) else Inl (Can_not_setuid uid)))"

definition child_redirect :: "child_os \<Rightarrow> child \<Rightarrow> (child_error, child) res" where
  "child_redirect os ch =
     (if \<not> co_dup_stdout os ch then Inl Can_not_redirect_stdout
      else let ch = ch\<lparr>ch_stdout_piped := True\<rparr> in
        if \<not> co_dup_stderr os ch then Inl Can_not_redirect_stderr
        else Inr (ch\<lparr>ch_stderr_piped := True\<rparr>))"

text \<open>\<open>execv\<close> sees the command and the argument as C strings.\<close>

definition child_exec :: "child_os \<Rightarrow> intervention_action \<Rightarrow> string \<Rightarrow> child \<Rightarrow> (child_error, child) res" where
  "child_exec os action argument ch =
     (let path = c_str (ia_command action); argv = [c_str (ia_command action), c_str argument] in
      if co_execv os ch path argv then Inr (ch\<lparr>ch_exec := Some (path, argv)\<rparr>)
      else Inl (Can_not_exec (ia_command action)))"

definition run_cmd :: "child_os \<Rightarrow> bool \<Rightarrow> intervention_action \<Rightarrow> string \<Rightarrow> child \<Rightarrow> (child_error, child) res" where
  "run_cmd os unit_test action argument ch =
     rbind (child_chdir os unit_test ch) (\<lambda>ch.
     rbind (child_group os action ch) (\<lambda>ch.
     rbind (child_user os action ch) (\<lambda>ch.
     rbind (child_redirect os ch) (child_exec os action argument))))"

subsection \<open>Which commands run\<close>

datatype verdict =
    No_action string
  | Argument_mismatch string
  | Can_not_validate string
  | Whitelisted string
  | Admitted intervention_action

fun find_action :: "string \<Rightarrow> intervention_action list \<Rightarrow> intervention_action option" where
  "find_action name [] = None"
| "find_action name (a # as) = (if ia_name a = name then Some a else find_action name as)"

definition judge :: "regex_lib \<Rightarrow> intervention_config \<Rightarrow> intervention_cmd \<Rightarrow> verdict" where
  "judge rx cfg icmd =
     (case find_action (ic_name icmd) (ic_actions cfg) of
        None \<Rightarrow> No_action (ic_name icmd)
      | Some action \<Rightarrow>
          if \<not> rx_valid rx (ia_regex action) then Can_not_validate (ic_argument icmd)
          else if rx_match rx (ia_regex action) (ic_argument icmd) = None then Argument_mismatch (ic_argument icmd)
          else if ic_argument icmd \<in> set (ia_whitelist action) then Whitelisted (ic_argument icmd)
          else Admitted action)"

subsection \<open>Waiting for the child\<close>

datatype wait_status = Exited nat | Not_exited

datatype wait_answer = Wait_failed | Still_running | Ended wait_status

datatype wait_result = Wait_error | Wait_timeout | Wait_ended wait_status

lemma unat_Suc_less:
  fixes t limit :: "32 word"
  assumes "t < limit"
  shows "unat (t + 1) = Suc (unat t)"
proof -
  have "unat limit < 2 ^ 32" using unsigned_less [of limit] by simp
  with assms show ?thesis by (simp add: unat_word_ariths word_less_nat_alt)
qed

text \<open>\<open>answers k\<close> is what the \<open>waitpid\<close> after \<open>k\<close> seconds tells. The result is the outcome and the seconds
  slept. After an error and after the timeout the child gets SIGKILL and is not waited for again.\<close>

function wait_child :: "32 word \<Rightarrow> (nat \<Rightarrow> wait_answer) \<Rightarrow> nat \<Rightarrow> 32 word \<Rightarrow> wait_result \<times> nat" where
  "wait_child limit answers k timeout =
     (case answers k of
        Wait_failed \<Rightarrow> (Wait_error, k)
      | Still_running \<Rightarrow>
          if limit \<le> timeout then (Wait_timeout, k) else wait_child limit answers (Suc k) (timeout + 1)
      | Ended status \<Rightarrow> (Wait_ended status, k))"
  by pat_completeness auto
termination
proof (relation "measure (\<lambda>(limit, answers, k, timeout). unat limit - unat timeout)")
  fix limit timeout :: "32 word" and answers :: "nat \<Rightarrow> wait_answer" and k :: nat
  assume "\<not> limit \<le> timeout"
  then have "unat (timeout + 1) = Suc (unat timeout)" "unat timeout < unat limit"
    using unat_Suc_less [of timeout limit] by (simp_all add: not_le word_less_nat_alt)
  then show "((limit, answers, Suc k, timeout + 1), limit, answers, k, timeout)
      \<in> measure (\<lambda>(limit, answers, k, timeout). unat limit - unat timeout)" by simp
qed simp

declare wait_child.simps [simp del]

definition sigkilled :: "wait_result \<Rightarrow> bool" where
  "sigkilled r = (r = Wait_error \<or> r = Wait_timeout)"

subsection \<open>What the child printed\<close>

text \<open>The lines of one chunk of at most 4096 bytes; \<open>start\<close> is the position after the last newline.\<close>

function chunk_lines :: "string \<Rightarrow> nat \<Rightarrow> string list" where
  "chunk_lines s start =
     (case str_find newline start s of
        Some end' \<Rightarrow>
          (if 0 < end' - start then [substr s start (Some (end' - start))] else []) @ chunk_lines s (end' + 1)
      | None \<Rightarrow> if 0 < length s - start then [substr s start None] else [])"
  by pat_completeness auto
termination
proof (relation "measure (\<lambda>(s, p). length s - p)")
  fix s p i
  assume "str_find newline p s = Some i"
  from str_find_bounds(1,2) [OF this]
  show "((s, i + 1), (s, p)) \<in> measure (\<lambda>(s, p). length s - p)" by simp
qed simp

declare chunk_lines.simps [simp del]

datatype read_answer = Read_interrupted | Read_failed | Read_data string

text \<open>The lines logged of a pipe, given the answers of \<open>read\<close>; None when the end of the answers is reached:
  the next \<open>read\<close> does not return.\<close>

fun read_pipe :: "read_answer list \<Rightarrow> string list option" where
  "read_pipe [] = None"
| "read_pipe (Read_interrupted # answers) = read_pipe answers"
| "read_pipe (Read_failed # answers) = Some []"
| "read_pipe (Read_data data # answers) =
     (if data = [] then Some [] else map_option ((@) (chunk_lines data 0)) (read_pipe answers))"

subsection \<open>processing_task\<close>

record intervention_env =
  ie_cfg :: intervention_config
  ie_rx :: regex_lib
  ie_unit_test :: bool
  ie_decode :: "string \<Rightarrow> intervention_cmd option"
  ie_parent :: child

datatype intervention_error =
    Can_not_create_pipes
  | Can_not_fork
  | Iw_socket_error
  | Iw_bind_too_long nat
  | Iw_chmod_error

text \<open>The answers while a child is started, and while it is attended to.\<close>

record launch_answers =
  la_pipe_stdout :: bool
  la_pipe_stderr :: bool
  la_fork :: bool
  la_child :: child_os

record attend_answers =
  aa_wait :: "nat \<Rightarrow> wait_answer"
  aa_stdout :: "read_answer list"
  aa_stderr :: "read_answer list"

datatype intervention_label =
    Got intervention_cmd
  | Judged intervention_cmd verdict
  | Launched intervention_action string "(child_error, child) res"
  | Attended wait_result nat "string list" "string list"

record intervention_state =
  iv_running :: bool
  iv_main :: main_pc
  iv_input_pc :: input_pc
  iv_processing :: thread_status
  iv_queue :: "(intervention_cmd \<times> bool) blocked_queue"
  iv_child :: "(intervention_action \<times> string) option"
  iv_errors :: "intervention_error list"

text \<open>The first half of a turn: a command is taken (None: the queue is empty), judged, and its child started.
  An exception ends the thread.\<close>

definition launch :: "intervention_env \<Rightarrow> launch_answers \<Rightarrow> intervention_action \<Rightarrow> string \<Rightarrow> intervention_state \<Rightarrow>
    intervention_label list \<times> intervention_state" where
  "launch env la action argument s =
     (if \<not> la_pipe_stdout la \<or> \<not> la_pipe_stderr la then
        ([], s\<lparr>iv_processing := Thread_dead, iv_errors := Can_not_create_pipes # iv_errors s\<rparr>)
      else if \<not> la_fork la then ([], s\<lparr>iv_processing := Thread_dead, iv_errors := Can_not_fork # iv_errors s\<rparr>)
      else ([Launched action argument (run_cmd (la_child la) (ie_unit_test env) action argument (ie_parent env))],
            s\<lparr>iv_child := Some (action, argument)\<rparr>))"

definition take_turn :: "intervention_env \<Rightarrow> launch_answers \<Rightarrow> intervention_state \<Rightarrow>
    (intervention_label list \<times> intervention_state) option" where
  "take_turn env la s =
     (case bq_take (iv_queue s) of
        None \<Rightarrow> None
      | Some ((icmd, kill), q) \<Rightarrow>
          (let s = s\<lparr>iv_queue := q\<rparr> in
           if kill then Some ([], s\<lparr>iv_processing := Thread_done\<rparr>)
           else
             (let v = judge (ie_rx env) (ie_cfg env) icmd in
              case v of
                Admitted action \<Rightarrow>
                  (let (ls, s) = launch env la action (ic_argument icmd) s in Some (Judged icmd v # ls, s))
              | _ \<Rightarrow> Some ([Judged icmd v], s))))"

text \<open>The second half: the child is waited for, then its pipes are read. None: a \<open>read\<close> never returns.\<close>

definition attend_turn :: "attend_answers \<Rightarrow> intervention_action \<Rightarrow> intervention_state \<Rightarrow>
    (intervention_label list \<times> intervention_state) option" where
  "attend_turn aa action s =
     (let (r, seconds) = wait_child (ia_command_timeout action) (aa_wait aa) 0 0 in
      Option.bind (read_pipe (aa_stdout aa)) (\<lambda>out.
      Option.bind (read_pipe (aa_stderr aa)) (\<lambda>err.
      Some ([Attended r seconds out err], s\<lparr>iv_child := None\<rparr>))))"

subsection \<open>input_task\<close>

definition iw_open :: "intervention_env \<Rightarrow> bool \<Rightarrow> bool \<Rightarrow> bool \<Rightarrow> intervention_state \<Rightarrow> intervention_state" where
  "iw_open env socket_ok bind_ok chmod_ok s =
     (let path = ic_input_path (ie_cfg env);
          failed = (\<lambda>e. s\<lparr>iv_input_pc := In_kill, iv_errors := e # iv_errors s\<rparr>) in
      if \<not> socket_ok then failed Iw_socket_error
      else if sun_path_max < length path then failed (Iw_bind_too_long (length path))
      else if \<not> bind_ok then failed Iw_socket_error
      else if \<not> chmod_ok then failed Iw_chmod_error
      else s\<lparr>iv_input_pc := In_check\<rparr>)"

definition iw_turn :: "intervention_env \<Rightarrow> recv_result \<Rightarrow> intervention_state \<Rightarrow> intervention_label list \<times> intervention_state" where
  "iw_turn env answer s =
     (case iv_input_pc s of
        In_check \<Rightarrow> ([], s\<lparr>iv_input_pc := (if iv_running s then In_recv else In_kill)\<rparr>)
      | In_recv \<Rightarrow>
          (case answer of
             Recv_error \<Rightarrow> ([], s\<lparr>iv_input_pc := In_check\<rparr>)
           | Recv_data data \<Rightarrow>
               (let s = s\<lparr>iv_input_pc := (if data = [] then In_check else In_recv)\<rparr> in
                case ie_decode env (recv_text data) of
                  None \<Rightarrow> ([], s)
                | Some icmd \<Rightarrow> ([Got icmd], s\<lparr>iv_queue := bq_push (iv_queue s) (icmd, False)\<rparr>)))
      | In_kill \<Rightarrow> ([], s\<lparr>iv_queue := bq_push (iv_queue s) (\<lparr>ic_name = [], ic_argument = []\<rparr>, True), iv_input_pc := In_done\<rparr>)
      | _ \<Rightarrow> ([], s))"

subsection \<open>daemon\<close>

definition intervention_init :: intervention_state where
  "intervention_init =
     \<lparr>iv_running = True, iv_main = Main_wait, iv_input_pc = In_start, iv_processing = Thread_running,
      iv_queue = [], iv_child = None, iv_errors = []\<rparr>"

text \<open>The main thread wakes on a signal, or on an exception of a thread; then it joins the receiving and the
  processing thread.\<close>

inductive intervention_step :: "intervention_env \<Rightarrow> intervention_state \<Rightarrow> intervention_label list \<Rightarrow> intervention_state \<Rightarrow> bool"
  for env where
  Iv_wakes: "iv_main s = Main_wait \<Longrightarrow> intervention_step env s [] (s\<lparr>iv_main := Main_join 0, iv_running := False\<rparr>)"
| Iv_joins_input: "iv_main s = Main_join 0 \<Longrightarrow> iv_input_pc s = In_done \<Longrightarrow>
    intervention_step env s [] (s\<lparr>iv_main := Main_join 1\<rparr>)"
| Iv_joins_processing: "iv_main s = Main_join 1 \<Longrightarrow> iv_processing s \<noteq> Thread_running \<Longrightarrow>
    intervention_step env s [] (s\<lparr>iv_main := Main_returned\<rparr>)"
| Iv_opens: "iv_input_pc s = In_start \<Longrightarrow> intervention_step env s [] (iw_open env socket_ok bind_ok chmod_ok s)"
| Iv_input: "iv_input_pc s \<in> {In_check, In_recv, In_kill} \<Longrightarrow> iw_turn env answer s = (ls, s') \<Longrightarrow>
    intervention_step env s ls s'"
| Iv_takes: "iv_processing s = Thread_running \<Longrightarrow> iv_child s = None \<Longrightarrow> take_turn env la s = Some (ls, s') \<Longrightarrow>
    intervention_step env s ls s'"
| Iv_attends: "iv_processing s = Thread_running \<Longrightarrow> iv_child s = Some (action, argument) \<Longrightarrow>
    attend_turn aa action s = Some (ls, s') \<Longrightarrow> intervention_step env s ls s'"

inductive intervention_run :: "intervention_env \<Rightarrow> intervention_label list \<Rightarrow> intervention_state \<Rightarrow> bool" for env where
  iv_start: "intervention_run env [] intervention_init"
| iv_step: "intervention_run env tr s \<Longrightarrow> intervention_step env s ls s' \<Longrightarrow> intervention_run env (tr @ ls) s'"

end
