(* ===== verification/Intervention_Facts.thy ===== *)
theory Intervention_Facts
  imports Intervention_Daemon
begin

text \<open>
  What ctguard-intervention guarantees: which commands run, as whom and with which argument; that waiting
  for a child is bounded; what is logged of its output; and that the daemon handles every command it
  received before it returns, and can always return.
\<close>

subsection \<open>Judging\<close>

lemma find_action_Some: "find_action name as = Some a \<Longrightarrow> a \<in> set as \<and> ia_name a = name"
  by (induction as) (auto split: if_splits)

lemma judge_Admitted:
  "judge rx cfg icmd = Admitted action \<longleftrightarrow>
     find_action (ic_name icmd) (ic_actions cfg) = Some action \<and> rx_valid rx (ia_regex action)
     \<and> rx_match rx (ia_regex action) (ic_argument icmd) \<noteq> None \<and> ic_argument icmd \<notin> set (ia_whitelist action)"
  by (auto simp: judge_def split: option.splits if_splits)

subsection \<open>The child\<close>

lemma child_chdir_Inr: "child_chdir os ut ch = Inr ch' \<Longrightarrow> ch' = (if ut then ch else ch\<lparr>ch_cwd := ''/''\<rparr>)"
  by (auto simp: child_chdir_def split: if_splits)

lemma child_group_Inr:
  "child_group os action ch = Inr ch' \<Longrightarrow>
   \<exists>gid. ch' = ch\<lparr>ch_gid := gid\<rparr> \<and>
     (if ia_group action = [] then gid = ch_gid ch else co_getgrnam os (c_str (ia_group action)) = Inr (Some gid))"
  by (auto simp: child_group_def split: if_splits sum.splits option.splits)

lemma child_user_Inr:
  "child_user os action ch = Inr ch' \<Longrightarrow>
   \<exists>uid. ch' = ch\<lparr>ch_uid := uid\<rparr> \<and>
     (if ia_user action = [] then uid = ch_uid ch else co_getpwnam os (c_str (ia_user action)) = Inr (Some uid))"
  by (auto simp: child_user_def split: if_splits sum.splits option.splits)

lemma child_redirect_Inr:
  "child_redirect os ch = Inr ch' \<Longrightarrow> ch' = ch\<lparr>ch_stdout_piped := True, ch_stderr_piped := True\<rparr>"
  by (auto simp: child_redirect_def Let_def split: if_splits)

lemma child_exec_Inr:
  "child_exec os action argument ch = Inr ch' \<Longrightarrow>
   ch' = ch\<lparr>ch_exec := Some (c_str (ia_command action), [c_str (ia_command action), c_str argument])\<rparr>"
  by (auto simp: child_exec_def Let_def split: if_splits)

lemma run_cmd_Inr:
  assumes "run_cmd os ut action argument ch = Inr ch'"
  obtains gid uid where
    "ch' = ch\<lparr>ch_cwd := (if ut then ch_cwd ch else ''/''), ch_gid := gid, ch_uid := uid, ch_stdout_piped := True,
       ch_stderr_piped := True,
       ch_exec := Some (c_str (ia_command action), [c_str (ia_command action), c_str argument])\<rparr>"
    "if ia_group action = [] then gid = ch_gid ch else co_getgrnam os (c_str (ia_group action)) = Inr (Some gid)"
    "if ia_user action = [] then uid = ch_uid ch else co_getpwnam os (c_str (ia_user action)) = Inr (Some uid)"
proof -
  from assms obtain c1 c2 c3 c4 where
    c: "child_chdir os ut ch = Inr c1" "child_group os action c1 = Inr c2" "child_user os action c2 = Inr c3"
      "child_redirect os c3 = Inr c4" "child_exec os action argument c4 = Inr ch'"
    by (auto simp: run_cmd_def rbind_Inr_iff)
  from child_chdir_Inr [OF c(1)] child_group_Inr [OF c(2)] child_user_Inr [OF c(3)] child_redirect_Inr [OF c(4)]
    child_exec_Inr [OF c(5)]
  show thesis by (intro that [where gid = "ch_gid ch'" and uid = "ch_uid ch'"]) (auto split: if_splits)
qed

text \<open>
  Nothing runs with the daemon's identity when the action names another. A command that was executed
  runs with the ids of the configured group and user, in the root directory, with both outputs in the
  pipes, and gets exactly the command and the argument as C strings.
\<close>

theorem run_cmd_identity:
  assumes "run_cmd os False action argument ch = Inr ch'"
  shows "ch_exec ch' = Some (c_str (ia_command action), [c_str (ia_command action), c_str argument])
     \<and> (if ia_group action = [] then ch_gid ch' = ch_gid ch
        else co_getgrnam os (c_str (ia_group action)) = Inr (Some (ch_gid ch')))
     \<and> (if ia_user action = [] then ch_uid ch' = ch_uid ch
        else co_getpwnam os (c_str (ia_user action)) = Inr (Some (ch_uid ch')))
     \<and> ch_cwd ch' = ''/'' \<and> ch_stdout_piped ch' \<and> ch_stderr_piped ch'"
  using assms by (rule run_cmd_Inr) (auto split: if_splits)

text \<open>A system on which only root may change its ids, with one group and one user.\<close>

definition demo_os :: child_os where
  "demo_os =
     \<lparr>co_chdir = (\<lambda>ch. True), co_getgrnam = (\<lambda>g. if g = ''adm'' then Inr (Some 4) else Inr None),
      co_setgid = (\<lambda>ch g. ch_uid ch = 0), co_getpwnam = (\<lambda>u. if u = ''ban'' then Inr (Some 33) else Inr None),
      co_setuid = (\<lambda>ch u. ch_uid ch = 0), co_dup_stdout = (\<lambda>ch. True), co_dup_stderr = (\<lambda>ch. True),
      co_execv = (\<lambda>ch p argv. True)\<rparr>"

definition demo_action :: intervention_action where
  "demo_action =
     \<lparr>ia_name = ''block'', ia_command = ''/bin/b'', ia_user = ''ban'', ia_group = ''adm'', ia_regex = ''9'',
      ia_whitelist = [''1''], ia_command_timeout = 2\<rparr>"

definition root_process :: child where
  "root_process =
     \<lparr>ch_cwd = ''/root'', ch_uid = 0, ch_gid = 0, ch_stdout_piped = False, ch_stderr_piped = False, ch_exec = None\<rparr>"

lemma demo_child: "run_cmd demo_os False demo_action ''9'' root_process =
   Inr \<lparr>ch_cwd = ''/'', ch_uid = 33, ch_gid = 4, ch_stdout_piped = True, ch_stderr_piped = True,
        ch_exec = Some (''/bin/b'', [''/bin/b'', ''9''])\<rparr>"
  by code_simp

theorem run_cmd_identity_witness:
  "\<exists>ch'. run_cmd demo_os False demo_action ''9'' root_process = Inr ch' \<and> ch_exec ch' = Some (''/bin/b'', [''/bin/b'', ''9''])
     \<and> ch_cwd ch' = ''/''"
  using run_cmd_identity [OF demo_child] demo_child by simp

text \<open>
  A daemon that runs as root can start every action: when only root may change its ids, the user and
  the group exist and the other calls succeed, the command is executed. The group is set while the
  process is still root.
\<close>

theorem run_cmd_starts:
  assumes "ch_uid ch = 0" and "\<forall>c i. co_setgid os c i = (ch_uid c = 0) \<and> co_setuid os c i = (ch_uid c = 0)"
    and "co_getgrnam os (c_str (ia_group action)) = Inr (Some gid)" and "co_getpwnam os (c_str (ia_user action)) = Inr (Some uid)"
    and "\<forall>c. co_chdir os c \<and> co_dup_stdout os c \<and> co_dup_stderr os c" and "\<forall>c p argv. co_execv os c p argv"
  shows "\<exists>ch'. run_cmd os ut action argument ch = Inr ch' \<and> ch_exec ch' \<noteq> None
     \<and> (ia_user action \<noteq> [] \<longrightarrow> ch_uid ch' = uid) \<and> (ia_group action \<noteq> [] \<longrightarrow> ch_gid ch' = gid)"
  using assms
  by (cases ut; cases "ia_group action"; cases "ia_user action")
    (simp_all add: run_cmd_def child_chdir_def child_group_def child_user_def child_redirect_def child_exec_def Let_def)

theorem run_cmd_starts_witness:
  "\<exists>ch'. run_cmd demo_os False demo_action ''9'' root_process = Inr ch' \<and> ch_uid ch' = 33 \<and> ch_gid ch' = 4"
proof -
  have "\<exists>ch'. run_cmd demo_os False demo_action ''9'' root_process = Inr ch' \<and> ch_exec ch' \<noteq> None
     \<and> (ia_user demo_action \<noteq> [] \<longrightarrow> ch_uid ch' = 33) \<and> (ia_group demo_action \<noteq> [] \<longrightarrow> ch_gid ch' = 4)"
    by (rule run_cmd_starts) (simp_all add: demo_os_def demo_action_def root_process_def c_str_def)
  then show ?thesis by (auto simp: demo_action_def)
qed

text \<open>
  C33: A zero byte bypasses the whitelist. The argument is compared with the whitelist as a whole but passed
  to the command as a C string: an argument that continues a whitelisted one after a zero byte, if the
  regular expression admits it, runs the action on the whitelisted argument.
\<close>

theorem whitelist_bypassed:
  assumes "find_action (ic_name icmd) (ic_actions cfg) = Some action" and "rx_valid rx (ia_regex action)"
    and "ic_argument icmd = w @ CHR 0x00 # rest" and "rx_match rx (ia_regex action) (w @ CHR 0x00 # rest) \<noteq> None"
    and "w \<in> set (ia_whitelist action)" and "\<forall>v \<in> set (ia_whitelist action). CHR 0x00 \<notin> set v"
    and "run_cmd os ut action (ic_argument icmd) ch = Inr ch'"
  shows "judge rx cfg icmd = Admitted action \<and> (\<exists>path. ch_exec ch' = Some (path, [path, w]))"
proof -
  have "w @ CHR 0x00 # rest \<notin> set (ia_whitelist action)" using assms(6) by auto
  then have "judge rx cfg icmd = Admitted action" using assms by (simp add: judge_Admitted)
  moreover have "c_str (ic_argument icmd) = w"
    using assms(3,5,6) by (auto simp: c_str_def takeWhile_append)
  ultimately show ?thesis using assms(7) by (auto elim: run_cmd_Inr)
qed

definition lax_rx :: regex_lib where
  "lax_rx = \<lparr>rx_valid = (\<lambda>p. True), rx_marks = (\<lambda>p. 0), rx_search = (\<lambda>p s. Some []), rx_match = (\<lambda>p s. Some [])\<rparr>"

definition demo_intervention_config :: intervention_config where
  "demo_intervention_config = default_intervention_config\<lparr>ic_actions := [demo_action]\<rparr>"

theorem whitelist_bypassed_witness:
  "judge lax_rx demo_intervention_config \<lparr>ic_name = ''block'', ic_argument = ''1''\<rparr> = Whitelisted ''1''
   \<and> judge lax_rx demo_intervention_config \<lparr>ic_name = ''block'', ic_argument = ''1'' @ CHR 0x00 # ''x''\<rparr> = Admitted demo_action
   \<and> (\<exists>ch' path. run_cmd demo_os False demo_action (''1'' @ CHR 0x00 # ''x'') root_process = Inr ch'
        \<and> ch_exec ch' = Some (path, [path, ''1'']))"
proof -
  let ?c = "\<lparr>ic_name = ''block'', ic_argument = ''1'' @ CHR 0x00 # ''x''\<rparr>"
  have d: "find_action ''block'' (ic_actions demo_intervention_config) = Some demo_action"
    by (simp add: demo_intervention_config_def default_intervention_config_def demo_action_def)
  obtain ch' where r: "run_cmd demo_os False demo_action (''1'' @ CHR 0x00 # ''x'') root_process = Inr ch'"
    by (simp add: run_cmd_def child_chdir_def child_group_def child_user_def child_redirect_def child_exec_def Let_def
        demo_os_def demo_action_def root_process_def c_str_def)
  have "judge lax_rx demo_intervention_config ?c = Admitted demo_action \<and> (\<exists>path. ch_exec ch' = Some (path, [path, ''1'']))"
    using r d by (intro whitelist_bypassed [where w = "''1''" and rest = "''x''" and os = demo_os and ut = False and ch = root_process])
      (simp_all add: demo_action_def lax_rx_def)
  moreover have "judge lax_rx demo_intervention_config \<lparr>ic_name = ''block'', ic_argument = ''1''\<rparr> = Whitelisted ''1''"
    using d by (simp add: judge_def lax_rx_def demo_action_def)
  ultimately show ?thesis using r by simp
qed

subsection \<open>Waiting\<close>

lemma wait_child_from:
  assumes "wait_child limit answers k t = (r, n)" "unat t = k"
  shows "k \<le> n \<and> n \<le> max k (unat limit) \<and> (\<forall>j. k \<le> j \<and> j < n \<longrightarrow> answers j = Still_running)
     \<and> (case r of Wait_error \<Rightarrow> answers n = Wait_failed
        | Wait_timeout \<Rightarrow> n = max k (unat limit) \<and> answers n = Still_running
        | Wait_ended status \<Rightarrow> answers n = Ended status)"
  using assms
proof (induction limit answers k t rule: wait_child.induct)
  case (1 limit answers k t)
  show ?case
  proof (cases "answers k = Still_running \<and> \<not> limit \<le> t")
    case True
    then have l: "t < limit" by (simp add: not_le)
    then have u: "unat (t + 1) = Suc k" "k < unat limit" using 1(3) unat_Suc_less [OF l] by (auto simp: word_less_nat_alt)
    from 1(2) True have "wait_child limit answers (Suc k) (t + 1) = (r, n)" by (simp add: wait_child.simps [of limit answers k t])
    from 1(1) [OF _ _ this u(1)] True have "Suc k \<le> n \<and> n \<le> max (Suc k) (unat limit)
        \<and> (\<forall>j. Suc k \<le> j \<and> j < n \<longrightarrow> answers j = Still_running)
        \<and> (case r of Wait_error \<Rightarrow> answers n = Wait_failed
           | Wait_timeout \<Rightarrow> n = max (Suc k) (unat limit) \<and> answers n = Still_running
           | Wait_ended status \<Rightarrow> answers n = Ended status)" by blast
    moreover have "max (Suc k) (unat limit) = unat limit" "max k (unat limit) = unat limit" using u(2) by simp_all
    moreover have "k \<le> j \<Longrightarrow> j = k \<or> Suc k \<le> j" for j by auto
    ultimately show ?thesis using True by (metis Suc_leD)
  next
    case False
    with 1(2,3) show ?thesis
      by (auto simp: wait_child.simps [of limit answers k t] word_le_nat_alt max_def split: wait_answer.splits if_splits)
  qed
qed

text \<open>
  C32: Waiting is bounded. The daemon sleeps at most \<open>command_timeout\<close> seconds for a child, whatever
  \<open>waitpid\<close> answers, and stops at the first answer that is not "still running"; the child is given up as
  timed out exactly when all answers up to then are.
\<close>

theorem wait_child_bounded:
  "case wait_child limit answers 0 0 of (r, n) \<Rightarrow>
     n \<le> unat limit \<and> (\<forall>j < n. answers j = Still_running)
     \<and> (case r of Wait_error \<Rightarrow> answers n = Wait_failed
        | Wait_timeout \<Rightarrow> n = unat limit \<and> answers n = Still_running
        | Wait_ended status \<Rightarrow> answers n = Ended status)"
proof -
  obtain r n where w: "wait_child limit answers 0 0 = (r, n)" by fastforce
  from wait_child_from [OF w] show ?thesis unfolding w by (cases r) auto
qed

theorem wait_child_bounded_witness:
  "case wait_child 2 (\<lambda>k. Still_running) 0 0 of (r, n) \<Rightarrow> n \<le> 2 \<and> (r = Wait_timeout \<longrightarrow> n = 2)"
  using wait_child_bounded [of 2 "\<lambda>k. Still_running"] by (auto split: prod.splits wait_result.splits)

subsection \<open>The output of the child\<close>

lemma chunk_lines_from: "chunk_lines s p = filter (\<lambda>l. l \<noteq> []) (cut_at newline (drop p s))"
proof (induction s p rule: chunk_lines.induct)
  case (1 s p)
  have c: "cut_at newline (drop p s) = split_from newline s p" by (simp add: split_from_cut_at)
  show ?case
  proof (cases "str_find newline p s")
    case None
    with c show ?thesis by (auto simp: chunk_lines.simps [of s p] split_from.simps [of newline s p] substr_def)
  next
    case (Some i)
    from str_find_bounds [OF Some] have b: "p \<le> i" "i < length s" by auto
    from c Some have "cut_at newline (drop p s) = take (i - p) (drop p s) # cut_at newline (drop (i + 1) s)"
      by (simp add: split_from.simps [of newline s p] substr_def) (simp add: split_from_cut_at)
    with Some 1 b show ?thesis by (auto simp: chunk_lines.simps [of s p] substr_def)
  qed
qed

lemma chunk_lines_text_lines: "chunk_lines s 0 = text_lines s"
  by (simp add: chunk_lines_from text_lines_def)

text \<open>Interrupted reads are repeated.\<close>

lemma read_pipe_filter: "read_pipe answers = read_pipe (filter (\<lambda>a. a \<noteq> Read_interrupted) answers)"
  by (induction answers rule: read_pipe.induct) auto

lemma read_pipe_data:
  "\<forall>d \<in> set ds. d \<noteq> [] \<Longrightarrow> read_pipe (map Read_data ds @ Read_data [] # rest) = Some (concat (map text_lines ds))"
  by (induction ds) (auto simp: chunk_lines_text_lines)

lemma concat_text_lines:
  "\<forall>d \<in> set (butlast ds). complete d \<Longrightarrow> concat (map text_lines ds) = text_lines (concat ds)"
  by (induction ds) (auto simp: text_lines_append split: if_splits)

text \<open>
  The log has the lines the child printed: however \<open>read\<close> cuts the output into chunks and is
  interrupted, as long as the cuts are between lines, the lines logged are the non-empty lines of the
  whole output, in order.
\<close>

theorem child_output_lines:
  assumes "filter (\<lambda>a. a \<noteq> Read_interrupted) answers = map Read_data ds @ Read_data [] # rest"
    and "\<forall>d \<in> set ds. d \<noteq> []" and "\<forall>d \<in> set (butlast ds). complete d"
  shows "read_pipe answers = Some (text_lines (concat ds))"
  using read_pipe_filter [of answers] assms by (simp add: read_pipe_data concat_text_lines)

theorem child_output_lines_witness:
  "read_pipe [Read_data (''a'' @ [newline]), Read_interrupted, Read_data ''b'', Read_data []] = Some [''a'', ''b'']"
  using child_output_lines [of "[Read_data (''a'' @ [newline]), Read_interrupted, Read_data ''b'', Read_data []]"
      "[''a'' @ [newline], ''b'']" "[]"]
  by (simp add: complete_def text_lines_def newline_def)

text \<open>A line across two chunks is logged as two.\<close>

lemma chunk_cuts_line: "read_pipe [Read_data ''a'', Read_data ''b'', Read_data []] = Some [''a'', ''b'']"
  by code_simp

end
