(* ===== verification/Intervention_Runs.thy ===== *)
theory Intervention_Runs
  imports Intervention_Facts
begin

text \<open>
  The runs of ctguard-intervention: what the labels of a run say about the commands received, judged and
  started, as invariants of the step relation; and that the daemon can always go on to return.
\<close>

subsection \<open>What a run did\<close>

definition got_cmds :: "intervention_label list \<Rightarrow> intervention_cmd list" where
  "got_cmds = List.map_filter (\<lambda>l. case l of Got c \<Rightarrow> Some c | _ \<Rightarrow> None)"

definition judged_cmds :: "intervention_label list \<Rightarrow> intervention_cmd list" where
  "judged_cmds = List.map_filter (\<lambda>l. case l of Judged c v \<Rightarrow> Some c | _ \<Rightarrow> None)"

definition launches :: "intervention_label list \<Rightarrow> (intervention_action \<times> string) list" where
  "launches = List.map_filter (\<lambda>l. case l of Launched a arg r \<Rightarrow> Some (a, arg) | _ \<Rightarrow> None)"

text \<open>The actions the commands ask for, in order.\<close>

definition admitted :: "intervention_env \<Rightarrow> intervention_cmd list \<Rightarrow> (intervention_action \<times> string) list" where
  "admitted env = List.map_filter (\<lambda>c. case judge (ie_rx env) (ie_cfg env) c of
       Admitted a \<Rightarrow> Some (a, ic_argument c) | _ \<Rightarrow> None)"

text \<open>The commands in the queue, without the closing mark.\<close>

definition pending :: "(intervention_cmd \<times> bool) list \<Rightarrow> intervention_cmd list" where
  "pending q = map fst (filter (\<lambda>p. \<not> snd p) q)"

lemma label_simps [simp]:
  "got_cmds [] = []" "judged_cmds [] = []" "launches [] = []" "admitted env [] = []" "pending [] = []"
  "got_cmds (xs @ ys) = got_cmds xs @ got_cmds ys" "judged_cmds (xs @ ys) = judged_cmds xs @ judged_cmds ys"
  "launches (xs @ ys) = launches xs @ launches ys" "admitted env (cs @ ds) = admitted env cs @ admitted env ds"
  "pending (q @ r) = pending q @ pending r"
  "got_cmds (l # ls) = (case l of Got c \<Rightarrow> [c] | _ \<Rightarrow> []) @ got_cmds ls"
  "judged_cmds (l # ls) = (case l of Judged c v \<Rightarrow> [c] | _ \<Rightarrow> []) @ judged_cmds ls"
  "launches (l # ls) = (case l of Launched a arg r \<Rightarrow> [(a, arg)] | _ \<Rightarrow> []) @ launches ls"
  "admitted env (c # cs) = (case judge (ie_rx env) (ie_cfg env) c of Admitted a \<Rightarrow> [(a, ic_argument c)] | _ \<Rightarrow> []) @ admitted env cs"
  "pending (p # q) = (if snd p then pending q else fst p # pending q)"
  by (auto simp: got_cmds_def judged_cmds_def launches_def admitted_def pending_def List.map_filter_def
      split: intervention_label.splits verdict.splits)

lemma got_cmds_set: "c \<in> set (got_cmds tr) \<longleftrightarrow> Got c \<in> set tr"
  by (induction tr) (auto split: intervention_label.splits)

lemma admitted_set:
  "(a, arg) \<in> set (admitted env cs) \<longleftrightarrow> (\<exists>c \<in> set cs. judge (ie_rx env) (ie_cfg env) c = Admitted a \<and> ic_argument c = arg)"
  by (induction cs) (auto split: verdict.splits)

lemma launches_set: "Launched a arg r \<in> set tr \<Longrightarrow> (a, arg) \<in> set (launches tr)"
  by (induction tr) (auto split: intervention_label.splits)

subsection \<open>The cases of a step of the processing thread\<close>

lemma take_turn_cases [consumes 1, case_names stops refuses fails launches]:
  assumes "take_turn env la s = Some (ls, s')"
  obtains (stops) c q where "iv_queue s = (c, True) # q" "ls = []" "s' = s\<lparr>iv_queue := q, iv_processing := Thread_done\<rparr>"
  | (refuses) c q v where "iv_queue s = (c, False) # q" "v = judge (ie_rx env) (ie_cfg env) c"
      "\<forall>a. v \<noteq> Admitted a" "ls = [Judged c v]" "s' = s\<lparr>iv_queue := q\<rparr>"
  | (fails) c q a e where "iv_queue s = (c, False) # q" "judge (ie_rx env) (ie_cfg env) c = Admitted a"
      "ls = [Judged c (Admitted a)]" "s' = s\<lparr>iv_queue := q, iv_processing := Thread_dead, iv_errors := e # iv_errors s\<rparr>"
  | (launches) c q a where "iv_queue s = (c, False) # q" "judge (ie_rx env) (ie_cfg env) c = Admitted a"
      "ls = [Judged c (Admitted a), Launched a (ic_argument c)
               (run_cmd (la_child la) (ie_unit_test env) a (ic_argument c) (ie_parent env))]"
      "s' = s\<lparr>iv_queue := q, iv_child := Some (a, ic_argument c)\<rparr>"
proof -
  from assms obtain c kill q where q: "iv_queue s = (c, kill) # q"
    by (auto simp: take_turn_def bq_take_def split: list.splits option.splits)
  show thesis
  proof (cases kill)
    case True
    with assms q stops show thesis by (auto simp: take_turn_def bq_take_def)
  next
    case False
    show thesis
    proof (cases "\<exists>a. judge (ie_rx env) (ie_cfg env) c = Admitted a")
      case True
      then obtain a where "judge (ie_rx env) (ie_cfg env) c = Admitted a" by blast
      with assms q False fails launches show thesis
        by (auto simp: take_turn_def launch_def bq_take_def Let_def split: if_splits)
    next
      case n: False
      with assms q False have "ls = [Judged c (judge (ie_rx env) (ie_cfg env) c)]" "s' = s\<lparr>iv_queue := q\<rparr>"
        by (auto simp: take_turn_def bq_take_def Let_def split: verdict.splits)
      with q False n show thesis by (intro refuses [OF _ refl]) auto
    qed
  qed
qed

lemma attend_turn_Some:
  "attend_turn aa a s = Some (ls, s') \<Longrightarrow> (\<exists>r n out err. ls = [Attended r n out err]) \<and> s' = s\<lparr>iv_child := None\<rparr>"
  by (auto simp: attend_turn_def Option.bind_eq_Some_conv split: prod.splits)

lemma iw_turn_cases [consumes 1, case_names quiet got kill]:
  assumes "iw_turn env answer s = (ls, s')" "iv_input_pc s \<in> {In_check, In_recv, In_kill}"
  obtains (quiet) pc where "iv_input_pc s \<noteq> In_kill" "pc \<noteq> In_done" "pc \<noteq> In_start" "ls = []" "s' = s\<lparr>iv_input_pc := pc\<rparr>"
  | (got) c pc where "iv_input_pc s = In_recv" "pc \<noteq> In_done" "pc \<noteq> In_start" "ls = [Got c]"
      "s' = s\<lparr>iv_input_pc := pc, iv_queue := iv_queue s @ [(c, False)]\<rparr>"
  | (kill) c where "iv_input_pc s = In_kill" "ls = []"
      "s' = s\<lparr>iv_queue := iv_queue s @ [(c, True)], iv_input_pc := In_done\<rparr>"
proof -
  from assms consider
      pc where "iv_input_pc s \<noteq> In_kill" "pc \<in> {In_check, In_recv, In_kill}" "ls = []" "s' = s\<lparr>iv_input_pc := pc\<rparr>"
    | c pc where "iv_input_pc s = In_recv" "pc \<in> {In_check, In_recv}" "ls = [Got c]"
        "s' = s\<lparr>iv_input_pc := pc, iv_queue := iv_queue s @ [(c, False)]\<rparr>"
    | c where "iv_input_pc s = In_kill" "ls = []" "s' = s\<lparr>iv_queue := iv_queue s @ [(c, True)], iv_input_pc := In_done\<rparr>"
    by (cases "iv_input_pc s"; cases answer)
      (auto simp: iw_turn_def bq_push_def Let_def split: option.splits if_splits)
  then show thesis using quiet got kill by cases auto
qed

lemma iw_open_frame:
  "iv_queue (iw_open env a b c s) = iv_queue s" "iv_processing (iw_open env a b c s) = iv_processing s"
  "iv_child (iw_open env a b c s) = iv_child s" "iv_main (iw_open env a b c s) = iv_main s"
  "iv_input_pc (iw_open env a b c s) \<in> {In_check, In_kill}"
  "iv_errors s \<noteq> [] \<Longrightarrow> iv_errors (iw_open env a b c s) \<noteq> []"
  by (simp_all add: iw_open_def Let_def)

subsection \<open>Invariants\<close>

text \<open>The bookkeeping of commands.\<close>

definition books :: "intervention_env \<Rightarrow> intervention_label list \<Rightarrow> intervention_state \<Rightarrow> bool" where
  "books env tr s =
     (got_cmds tr = judged_cmds tr @ pending (iv_queue s)
      \<and> (if iv_processing s = Thread_dead then launches tr = butlast (admitted env (judged_cmds tr)) \<and> iv_errors s \<noteq> []
         else launches tr = admitted env (judged_cmds tr)))"

text \<open>The closing mark: pushed last, and the processing thread stops at it.\<close>

definition mark_ok :: "intervention_state \<Rightarrow> bool" where
  "mark_ok s =
     (if iv_processing s = Thread_done then iv_input_pc s = In_done \<and> iv_queue s = [] \<and> iv_child s = None
      else if iv_input_pc s = In_done then (\<exists>q c. iv_queue s = q @ [(c, True)] \<and> (\<forall>p \<in> set q. \<not> snd p))
      else \<forall>p \<in> set (iv_queue s). \<not> snd p)"

text \<open>Every start is that of a received command.\<close>

definition start_ok :: "intervention_env \<Rightarrow> intervention_label \<Rightarrow> bool" where
  "start_ok env l =
     (case l of
        Launched a arg r \<Rightarrow> \<exists>os. r = run_cmd os (ie_unit_test env) a arg (ie_parent env)
      | _ \<Rightarrow> True)"

definition main_ok :: "intervention_state \<Rightarrow> bool" where
  "main_ok s =
     (case iv_main s of
        Main_start \<Rightarrow> False
      | Main_wait \<Rightarrow> True
      | Main_join n \<Rightarrow> \<not> iv_running s \<and> (n = 0 \<or> n = 1 \<and> iv_input_pc s = In_done)
      | Main_returned \<Rightarrow> iv_input_pc s = In_done \<and> iv_processing s \<noteq> Thread_running)"

lemma books_step:
  assumes "intervention_step env s ls s'" "books env tr s"
  shows "books env (tr @ ls) s'"
  using assms(1)
proof cases
  case (Iv_input answer)
  from Iv_input(2,1) assms(2) show ?thesis by (cases rule: iw_turn_cases) (auto simp: books_def)
next
  case (Iv_takes la)
  from Iv_takes(3) show ?thesis
    by (cases rule: take_turn_cases) (use assms(2) Iv_takes(1) in \<open>auto simp: books_def split: verdict.splits\<close>)
next
  case (Iv_attends action argument aa)
  with assms(2) attend_turn_Some [OF Iv_attends(3)] show ?thesis by (auto simp: books_def)
qed (use assms(2) in \<open>auto simp: books_def iw_open_frame\<close>)

lemma mark_step:
  assumes "intervention_step env s ls s'" "mark_ok s"
  shows "mark_ok s'"
  using assms(1)
proof cases
  case (Iv_input answer)
  from Iv_input(2,1) show ?thesis
    by (cases rule: iw_turn_cases) (use assms(2) Iv_input(1) in \<open>auto simp: mark_ok_def split: if_splits\<close>)
next
  case (Iv_takes la)
  from Iv_takes(3) show ?thesis
    by (cases rule: take_turn_cases)
      (use assms(2) Iv_takes(1,2) in \<open>auto simp: mark_ok_def Cons_eq_append_conv split: if_splits\<close>)
next
  case (Iv_attends action argument aa)
  with assms(2) attend_turn_Some [OF Iv_attends(3)] show ?thesis by (auto simp: mark_ok_def)
next
  case (Iv_opens a b c)
  with assms(2) iw_open_frame(5) [of env a b c s] show ?thesis by (auto simp: mark_ok_def iw_open_frame split: if_splits)
qed (use assms(2) in \<open>auto simp: mark_ok_def\<close>)

lemma start_step:
  assumes "intervention_step env s ls s'"
  shows "\<forall>l \<in> set ls. start_ok env l"
  using assms
proof cases
  case (Iv_input answer)
  from Iv_input(2,1) show ?thesis by (cases rule: iw_turn_cases) (auto simp: start_ok_def)
next
  case (Iv_takes la)
  from Iv_takes(3) show ?thesis by (cases rule: take_turn_cases) (auto simp: start_ok_def)
next
  case (Iv_attends action argument aa)
  with attend_turn_Some [OF Iv_attends(3)] show ?thesis by (auto simp: start_ok_def)
qed auto

lemma main_step:
  assumes "intervention_step env s ls s'" "main_ok s"
  shows "main_ok s'"
  using assms(1)
proof cases
  case (Iv_input answer)
  have m: "iv_main s \<noteq> Main_start" "iv_main s \<noteq> Main_returned" "iv_main s \<noteq> Main_join 1"
    using assms(2) Iv_input(1) by (auto simp: main_ok_def split: main_pc.splits)
  from Iv_input(2,1) show ?thesis
    by (cases rule: iw_turn_cases) (use assms(2) m in \<open>auto simp: main_ok_def split: main_pc.splits\<close>)
next
  case (Iv_takes la)
  from Iv_takes(3) show ?thesis
    by (cases rule: take_turn_cases) (use assms(2) Iv_takes(1) in \<open>auto simp: main_ok_def split: main_pc.splits\<close>)
next
  case (Iv_attends action argument aa)
  with assms(2) attend_turn_Some [OF Iv_attends(3)] show ?thesis by (auto simp: main_ok_def split: main_pc.splits)
next
  case (Iv_opens a b c)
  have "iv_running (iw_open env a b c s) = iv_running s" by (simp add: iw_open_def Let_def)
  with Iv_opens assms(2) show ?thesis by (auto simp: main_ok_def iw_open_frame split: main_pc.splits)
qed (use assms(2) in \<open>auto simp: main_ok_def\<close>)

lemma run_invariants:
  "intervention_run env tr s \<Longrightarrow> books env tr s \<and> mark_ok s \<and> main_ok s \<and> (\<forall>l \<in> set tr. start_ok env l)"
proof (induction rule: intervention_run.induct)
  case iv_start
  show ?case by (simp add: books_def mark_ok_def main_ok_def intervention_init_def)
next
  case (iv_step tr s ls s')
  with books_step mark_step main_step start_step show ?case by (metis Un_iff set_append)
qed

subsection \<open>What runs, and what has run in the end\<close>

text \<open>
  C29: Only what was asked for and allowed runs. In every run of the daemon each child is started for a
  received command, whose argument matches the regular expression of the first action of its name and is
  not whitelisted; what it executed, if anything, is that action's command with that argument.
\<close>

theorem commands_run_are_admitted:
  assumes "intervention_run env tr s" and "Launched action arg r \<in> set tr"
  shows "\<exists>c. Got c \<in> set tr \<and> ic_argument c = arg \<and> find_action (ic_name c) (ic_actions (ie_cfg env)) = Some action
     \<and> rx_match (ie_rx env) (ia_regex action) arg \<noteq> None \<and> arg \<notin> set (ia_whitelist action)
     \<and> (\<forall>ch. r = Inr ch \<longrightarrow> ch_exec ch = Some (c_str (ia_command action), [c_str (ia_command action), c_str arg]))"
proof -
  from run_invariants [OF assms(1)] have b: "books env tr s" and st: "start_ok env (Launched action arg r)"
    using assms(2) by auto
  have "(action, arg) \<in> set (launches tr)" using assms(2) by (rule launches_set)
  with b have "(action, arg) \<in> set (admitted env (judged_cmds tr))"
    by (auto simp: books_def split: if_splits dest: in_set_butlastD)
  then obtain c where c: "c \<in> set (judged_cmds tr)" "judge (ie_rx env) (ie_cfg env) c = Admitted action" "ic_argument c = arg"
    by (auto simp: admitted_set)
  from c(1) b have "Got c \<in> set tr" by (simp add: books_def flip: got_cmds_set)
  moreover have "ch_exec ch = Some (c_str (ia_command action), [c_str (ia_command action), c_str arg])" if "r = Inr ch" for ch
  proof -
    from st that obtain os where "run_cmd os (ie_unit_test env) action arg (ie_parent env) = Inr ch" by (auto simp: start_ok_def)
    then show ?thesis by (rule run_cmd_Inr) simp
  qed
  ultimately show ?thesis using c by (auto simp: judge_Admitted)
qed

lemma returned_books:
  assumes "intervention_run env tr s" and "iv_main s = Main_returned" and "iv_errors s = []"
  shows "judged_cmds tr = got_cmds tr \<and> launches tr = admitted env (got_cmds tr) \<and> iv_child s = None"
proof -
  from run_invariants [OF assms(1)] have i: "books env tr s" "mark_ok s" "main_ok s" by auto
  with assms(2,3) have "iv_processing s = Thread_done"
    by (auto simp: books_def main_ok_def intro: thread_status.exhaust)
  with i show ?thesis by (auto simp: books_def mark_ok_def)
qed

text \<open>
  C30: Nothing received is left undone. When the daemon returned and no thread failed, every command
  received was judged, in order, and a child was started for exactly the admitted ones, in order.
\<close>

theorem intervention_returns_complete:
  assumes "intervention_run env tr s" and "iv_main s = Main_returned" and "iv_errors s = []"
  shows "judged_cmds tr = got_cmds tr \<and> launches tr = admitted env (got_cmds tr) \<and> iv_child s = None"
  using assms by (rule returned_books)

subsection \<open>The daemon can always return\<close>

definition good_launch :: launch_answers where
  "good_launch = \<lparr>la_pipe_stdout = True, la_pipe_stderr = True, la_fork = True, la_child = demo_os\<rparr>"

definition good_attend :: attend_answers where
  "good_attend = \<lparr>aa_wait = (\<lambda>k. Ended (Exited 0)), aa_stdout = [Read_data []], aa_stderr = [Read_data []]\<rparr>"

lemma attend_good: "attend_turn good_attend a s = Some ([Attended (Wait_ended (Exited 0)) 0 [] []], s\<lparr>iv_child := None\<rparr>)"
  by (simp add: attend_turn_def good_attend_def wait_child.simps [of "ia_command_timeout a"])

text \<open>\<open>returns_from env tr s\<close>: the run can go on until the daemon returned.\<close>

definition returns_from :: "intervention_env \<Rightarrow> intervention_label list \<Rightarrow> bool" where
  "returns_from env tr = (\<exists>ls s'. intervention_run env (tr @ ls) s' \<and> iv_main s' = Main_returned)"

lemma returns_from_step: "returns_from env (tr @ ls) \<Longrightarrow> returns_from env tr"
  by (auto simp: returns_from_def)

lemma returns_from_now: "intervention_run env tr s \<Longrightarrow> iv_main s = Main_returned \<Longrightarrow> returns_from env tr"
  unfolding returns_from_def by (intro exI [of _ "[]"]) auto

lemma returns_stopped:
  assumes "intervention_run env tr s" "iv_main s = Main_join 1" "iv_processing s \<noteq> Thread_running"
  shows "returns_from env tr"
proof -
  from iv_step [OF assms(1) Iv_joins_processing [OF assms(2,3)]] have "intervention_run env (tr @ []) (s\<lparr>iv_main := Main_returned\<rparr>)" .
  then have "returns_from env (tr @ [])" by (rule returns_from_now) simp
  then show ?thesis by simp
qed

lemma returns_processing:
  assumes "intervention_run env tr s" "iv_main s = Main_join 1" "iv_input_pc s = In_done"
  shows "returns_from env tr"
  using assms
proof (induction "2 * length (iv_queue s) + (if iv_child s = None then 0 else 1)" arbitrary: tr s rule: less_induct)
  case less
  show ?case
  proof (cases "iv_processing s = Thread_running")
    case False
    with less.prems returns_stopped show ?thesis by blast
  next
    case run: True
    show ?thesis
    proof (cases "iv_child s")
      case (Some p)
      with run attend_good have "intervention_step env s [Attended (Wait_ended (Exited 0)) 0 [] []] (s\<lparr>iv_child := None\<rparr>)"
        by (cases p) (auto intro: Iv_attends)
      from iv_step [OF less.prems(1) this] have "returns_from env (tr @ [Attended (Wait_ended (Exited 0)) 0 [] []])"
        by (rule less.hyps [rotated]) (use less.prems Some in auto)
      then show ?thesis by (rule returns_from_step)
    next
      case None
      from run_invariants [OF less.prems(1)] run less.prems(3) have "iv_queue s \<noteq> []" by (auto simp: mark_ok_def)
      then have "take_turn env good_launch s \<noteq> None"
        by (auto simp: take_turn_def bq_take_def Let_def split: list.splits verdict.splits prod.splits)
      then obtain ls s' where t: "take_turn env good_launch s = Some (ls, s')" by auto
      from iv_step [OF less.prems(1) Iv_takes [OF run None t]] have r: "intervention_run env (tr @ ls) s'" .
      from t have "iv_main s' = iv_main s \<and> iv_input_pc s' = iv_input_pc s \<and> Suc (length (iv_queue s')) = length (iv_queue s)"
        by (cases rule: take_turn_cases) auto
      with less.hyps [OF _ r] less.prems(2,3) None have "returns_from env (tr @ ls)" by auto
      then show ?thesis by (rule returns_from_step)
    qed
  qed
qed

lemma returns_input_done:
  assumes "intervention_run env tr s" "iv_main s = Main_join 0" "iv_input_pc s = In_done"
  shows "returns_from env tr"
proof -
  from iv_step [OF assms(1) Iv_joins_input [OF assms(2,3)]] have "intervention_run env (tr @ []) (s\<lparr>iv_main := Main_join 1\<rparr>)" .
  then have "returns_from env (tr @ [])" by (rule returns_processing) (use assms in simp_all)
  then show ?thesis by simp
qed

lemma returns_input_step:
  assumes "intervention_run env tr s" "iv_main s = Main_join 0" "iv_input_pc s \<in> {In_check, In_recv, In_kill}"
    and "\<And>s' ls. intervention_run env (tr @ ls) s' \<Longrightarrow> iv_main s' = Main_join 0 \<Longrightarrow>
       iv_input_pc s' = iv_input_pc (snd (iw_turn env Recv_error s)) \<Longrightarrow> returns_from env (tr @ ls)"
  shows "returns_from env tr"
proof -
  obtain ls s' where t: "iw_turn env Recv_error s = (ls, s')" by fastforce
  from iv_step [OF assms(1) Iv_input [OF assms(3) t]] have r: "intervention_run env (tr @ ls) s'" .
  from t assms(3) have "iv_main s' = iv_main s" by (cases rule: iw_turn_cases) auto
  with assms(2,4) r t have "returns_from env (tr @ ls)" by simp
  then show ?thesis by (rule returns_from_step)
qed

lemma returns_joining:
  assumes "intervention_run env tr s" "iv_main s = Main_join 0"
  shows "returns_from env tr"
proof -
  have kill: "returns_from env tr" if "intervention_run env tr s" "iv_main s = Main_join 0" "iv_input_pc s = In_kill" for tr s
    by (rule returns_input_step [OF that(1,2)])
      (use that(3) in simp, rule returns_input_done, use that(3) in \<open>simp_all add: iw_turn_def\<close>)
  have check: "returns_from env tr" if r: "intervention_run env tr s" "iv_main s = Main_join 0" "iv_input_pc s = In_check" for tr s
  proof -
    from run_invariants [OF r(1)] r(2) have "\<not> iv_running s" by (simp add: main_ok_def)
    then show ?thesis
      by (intro returns_input_step [OF r(1,2)])
        (use r(3) in simp, rule kill, use r(3) in \<open>simp_all add: iw_turn_def\<close>)
  qed
  have recv: "returns_from env tr" if "intervention_run env tr s" "iv_main s = Main_join 0" "iv_input_pc s = In_recv" for tr s
    by (rule returns_input_step [OF that(1,2)])
      (use that(3) in simp, rule check, use that(3) in \<open>simp_all add: iw_turn_def\<close>)
  show ?thesis
  proof (cases "iv_input_pc s")
    case In_start
    from iv_step [OF assms(1) Iv_opens [OF In_start, of env True True True]]
    have r: "intervention_run env (tr @ []) (iw_open env True True True s)" .
    have m: "iv_main (iw_open env True True True s) = Main_join 0" using assms(2) by (simp add: iw_open_frame)
    from iw_open_frame(5) [of env True True True s] have "returns_from env (tr @ [])" using kill [OF r m] check [OF r m] by auto
    then show ?thesis by simp
  next
    case In_check
    with assms show ?thesis by (rule check)
  next
    case In_recv
    with assms show ?thesis by (rule recv)
  next
    case In_kill
    with assms show ?thesis by (rule kill)
  next
    case In_done
    with assms show ?thesis by (rule returns_input_done)
  qed
qed

text \<open>
  C31: The daemon never gets stuck. Every run can go on until the daemon returned, whatever went wrong
  before: a dead processing thread does not keep it from ending, and each child given the chance to end
  is waited for. (In ctguard-research an exception of the classifying thread blocks the shutdown.)
\<close>

theorem intervention_can_return:
  assumes "intervention_run env tr s"
  shows "\<exists>ls s'. intervention_run env (tr @ ls) s' \<and> iv_main s' = Main_returned"
proof -
  have "returns_from env tr"
  proof (cases "iv_main s")
    case Main_start
    with run_invariants [OF assms] show ?thesis by (simp add: main_ok_def)
  next
    case Main_wait
    from iv_step [OF assms Iv_wakes [OF this]] have "intervention_run env (tr @ []) (s\<lparr>iv_main := Main_join 0, iv_running := False\<rparr>)" .
    then have "returns_from env (tr @ [])" by (rule returns_joining) simp
    then show ?thesis by simp
  next
    case (Main_join n)
    with run_invariants [OF assms] have "n = 0 \<or> n = 1 \<and> iv_input_pc s = In_done" by (simp add: main_ok_def)
    with returns_joining [OF assms] returns_processing [OF assms] Main_join show ?thesis by auto
  next
    case Main_returned
    with assms show ?thesis by (rule returns_from_now)
  qed
  then show ?thesis by (simp add: returns_from_def)
qed

subsection \<open>Executing a run\<close>

datatype intervention_choice =
    Choose_wake | Choose_join | Choose_open bool bool bool | Choose_input recv_result
  | Choose_take launch_answers | Choose_attend attend_answers

fun intervention_exec :: "intervention_env \<Rightarrow> intervention_choice \<Rightarrow> intervention_state \<Rightarrow>
    (intervention_label list \<times> intervention_state) option" where
  "intervention_exec env Choose_wake s =
     (if iv_main s = Main_wait then Some ([], s\<lparr>iv_main := Main_join 0, iv_running := False\<rparr>) else None)"
| "intervention_exec env Choose_join s =
     (if iv_main s = Main_join 0 \<and> iv_input_pc s = In_done then Some ([], s\<lparr>iv_main := Main_join 1\<rparr>)
      else if iv_main s = Main_join 1 \<and> iv_processing s \<noteq> Thread_running then Some ([], s\<lparr>iv_main := Main_returned\<rparr>)
      else None)"
| "intervention_exec env (Choose_open a b c) s =
     (if iv_input_pc s = In_start then Some ([], iw_open env a b c s) else None)"
| "intervention_exec env (Choose_input answer) s =
     (if iv_input_pc s \<in> {In_check, In_recv, In_kill} then Some (iw_turn env answer s) else None)"
| "intervention_exec env (Choose_take la) s =
     (if iv_processing s = Thread_running \<and> iv_child s = None then take_turn env la s else None)"
| "intervention_exec env (Choose_attend aa) s =
     (case iv_child s of
        None \<Rightarrow> None
      | Some (action, argument) \<Rightarrow> if iv_processing s = Thread_running then attend_turn aa action s else None)"

lemma intervention_exec_step: "intervention_exec env c s = Some (ls, s') \<Longrightarrow> intervention_step env s ls s'"
  using Iv_joins_input [of s env]
  by (cases c) (auto split: if_splits option.splits intro: intervention_step.intros)

fun intervention_execs :: "intervention_env \<Rightarrow> intervention_choice list \<Rightarrow> intervention_label list \<times> intervention_state \<Rightarrow>
    (intervention_label list \<times> intervention_state) option" where
  "intervention_execs env [] ts = Some ts"
| "intervention_execs env (c # cs) ts =
     (case intervention_exec env c (snd ts) of None \<Rightarrow> None | Some (ls, s) \<Rightarrow> intervention_execs env cs (fst ts @ ls, s))"

lemma intervention_execs_run:
  "intervention_execs env cs (tr, s) = Some (tr', s') \<Longrightarrow> intervention_run env tr s \<Longrightarrow> intervention_run env tr' s'"
proof (induction cs arbitrary: tr s)
  case (Cons c cs)
  then obtain ls s1 where e: "intervention_exec env c s = Some (ls, s1)" "intervention_execs env cs (tr @ ls, s1) = Some (tr', s')"
    by (auto split: option.splits)
  from Cons.prems(2) intervention_exec_step [OF e(1)] have "intervention_run env (tr @ ls) s1" by (rule iv_step)
  with Cons.IH e(2) show ?case .
qed simp

text \<open>Two commands arrive; the first is admitted, the second does not match.\<close>

definition demo_intervention_env :: intervention_env where
  "demo_intervention_env =
     \<lparr>ie_cfg = demo_intervention_config, ie_rx = literal_rx, ie_unit_test = False,
      ie_decode = (\<lambda>d. if d = [] then None else Some \<lparr>ic_name = ''block'', ic_argument = d\<rparr>), ie_parent = root_process\<rparr>"

definition demo_choices :: "intervention_choice list" where
  "demo_choices =
     [Choose_open True True True, Choose_input Recv_error, Choose_input (Recv_data ''9''), Choose_input (Recv_data ''8''),
      Choose_take good_launch, Choose_wake, Choose_attend good_attend, Choose_input Recv_error, Choose_input Recv_error,
      Choose_input Recv_error, Choose_take good_launch, Choose_join, Choose_take good_launch, Choose_join]"

lemma demo_intervention_ends:
  "map_option (\<lambda>(tr, s). (iv_main s, iv_errors s, launches tr, length (got_cmds tr)))
     (intervention_execs demo_intervention_env demo_choices ([], intervention_init))
   = Some (Main_returned, [], [(demo_action, ''9'')], 2)"
  by code_simp

lemma demo_intervention_run:
  obtains tr s where "intervention_run demo_intervention_env tr s" "iv_main s = Main_returned" "iv_errors s = []"
    "launches tr = [(demo_action, ''9'')]" "length (got_cmds tr) = 2"
proof -
  from demo_intervention_ends obtain tr s where
    e: "intervention_execs demo_intervention_env demo_choices ([], intervention_init) = Some (tr, s)"
    "iv_main s = Main_returned" "iv_errors s = []" "launches tr = [(demo_action, ''9'')]" "length (got_cmds tr) = 2" by auto
  from that [OF intervention_execs_run [OF e(1) iv_start] e(2-5)] show thesis .
qed

lemma launches_Launched: "(a, arg) \<in> set (launches tr) \<Longrightarrow> \<exists>r. Launched a arg r \<in> set tr"
  by (induction tr) (auto split: intervention_label.splits)

theorem commands_run_are_admitted_witness:
  "\<exists>tr s r. intervention_run demo_intervention_env tr s \<and> Launched demo_action ''9'' r \<in> set tr
     \<and> (\<exists>c. Got c \<in> set tr \<and> ic_argument c = ''9'')"
proof -
  obtain tr s where r: "intervention_run demo_intervention_env tr s" "launches tr = [(demo_action, ''9'')]"
    using demo_intervention_run by blast
  then obtain q where q: "Launched demo_action ''9'' q \<in> set tr" using launches_Launched [of demo_action "''9''" tr] by auto
  from commands_run_are_admitted [OF r(1) q] r q show ?thesis by blast
qed

theorem intervention_returns_complete_witness:
  "\<exists>tr s. intervention_run demo_intervention_env tr s \<and> iv_main s = Main_returned \<and> length (judged_cmds tr) = 2
     \<and> admitted demo_intervention_env (got_cmds tr) = [(demo_action, ''9'')]"
proof -
  obtain tr s where r: "intervention_run demo_intervention_env tr s" "iv_main s = Main_returned" "iv_errors s = []"
    and l: "launches tr = [(demo_action, ''9'')]" "length (got_cmds tr) = 2"
    using demo_intervention_run by blast
  from intervention_returns_complete [OF r] l have "length (judged_cmds tr) = 2"
    "admitted demo_intervention_env (got_cmds tr) = [(demo_action, ''9'')]" by simp_all
  with r show ?thesis by blast
qed

theorem intervention_can_return_witness:
  "\<exists>ls s'. intervention_run demo_intervention_env ([] @ ls) s' \<and> iv_main s' = Main_returned"
  by (rule intervention_can_return [OF iv_start])

end
