(* ===== verification/Diskscan_Alerts.thy ===== *)
theory Diskscan_Alerts
  imports Blocked_Queue Daemon_Configs Daemon_Threads File_Data Research_Types Std_Containers
begin

text \<open>
  src/src/diskscan/daemon.cpp, the alerting thread: it compares what is found of an object with the row
  of the database and reports the differences. The database (src/src/diskscan/database.cpp) is its table
  of rows in the order of insertion; the statements are the four operations below, with the checks of
  \<open>sqlite_statement::bind\<close> and the uniqueness of the name. The columns \<open>created\<close> and \<open>updated\<close> are never
  read and left out, and so are failures of SQLite itself.
\<close>

subsection \<open>Flags\<close>

type_synonym flags = "32 word"

definition F_EMPTY :: flags where "F_EMPTY = 0x0"
definition F_REALTIME :: flags where "F_REALTIME = 0x1"
definition F_CHK_CONTENT :: flags where "F_CHK_CONTENT = 0x2"
definition F_RECURSIVE :: flags where "F_RECURSIVE = 0x4"
definition F_FORCE_UPDATE :: flags where "F_FORCE_UPDATE = 0x8"
definition F_CHK_DIFF :: flags where "F_CHK_DIFF = 0x10"
definition F_KILL :: flags where "F_KILL = 0x20"
definition F_STARTSCAN :: flags where "F_STARTSCAN = 0x40"
definition F_MIDSCAN :: flags where "F_MIDSCAN = 0x80"
definition F_ENDSCAN :: flags where "F_ENDSCAN = 0x100"
definition F_SPECIAL :: flags where "F_SPECIAL = F_KILL OR F_STARTSCAN OR F_MIDSCAN OR F_ENDSCAN"

lemmas flag_defs = F_EMPTY_def F_REALTIME_def F_CHK_CONTENT_def F_RECURSIVE_def F_FORCE_UPDATE_def F_CHK_DIFF_def
  F_KILL_def F_STARTSCAN_def F_MIDSCAN_def F_ENDSCAN_def F_SPECIAL_def

text \<open>\<open>fl & f\<close> as a truth value.\<close>

definition has_flag :: "flags \<Rightarrow> flags \<Rightarrow> bool" where
  "has_flag fl f = (fl AND f \<noteq> 0)"

subsection \<open>The database\<close>

record row =
  dr_user :: string
  dr_group :: string
  dr_size :: int
  dr_inode :: "64 word"
  dr_mode :: mode
  dr_mtime :: int
  dr_ctime :: int
  dr_type :: nat
  dr_sha256 :: string
  dr_target :: string
  dr_scanned :: bool

type_synonym table = "(string \<times> row) list"

datatype db_error = Unique_violated string | Bind_too_long nat

definition db_select :: "string \<Rightarrow> table \<Rightarrow> row list" where
  "db_select name t = map snd (filter (\<lambda>p. fst p = name) t)"

definition db_insert :: "string \<Rightarrow> row \<Rightarrow> table \<Rightarrow> (db_error, table) res" where
  "db_insert name r t = (if name \<in> fst ` set t then Inl (Unique_violated name) else Inr (t @ [(name, r)]))"

definition db_update :: "string \<Rightarrow> (row \<Rightarrow> row) \<Rightarrow> table \<Rightarrow> table" where
  "db_update name f t = map (\<lambda>(n, r). if n = name then (n, f r) else (n, r)) t"

definition db_delete :: "string \<Rightarrow> table \<Rightarrow> table" where
  "db_delete name t = filter (\<lambda>p. fst p \<noteq> name) t"

text \<open>The bounds \<open>bind\<close> puts on unsigned numbers and on the length of texts; the enumerator of the type is
  small.\<close>

definition bind_unsigned :: "32 word \<Rightarrow> (db_error, unit) res" where
  "bind_unsigned w = guard_res (2147483647 \<le> uint w) (Bind_too_long (unat w))"

definition bind_ulong :: "64 word \<Rightarrow> (db_error, unit) res" where
  "bind_ulong w = guard_res (9223372036854775807 \<le> uint w) (Bind_too_long (unat w))"

definition bind_text :: "string \<Rightarrow> (db_error, unit) res" where
  "bind_text s = guard_res (2147483647 \<le> int (length s)) (Bind_too_long (length s))"

text \<open>The row of an object; \<open>digest\<close> is what is bound for the digest. Columns are read as C strings, which matters
  for the digest only (the others are C strings from the start).\<close>

definition object_row :: "string \<Rightarrow> file_data \<Rightarrow> row" where
  "object_row digest fd =
     \<lparr>dr_user = fd_user fd, dr_group = fd_group fd, dr_size = fd_size fd, dr_inode = fd_inode fd, dr_mode = fd_mode fd,
      dr_mtime = fd_mtime fd, dr_ctime = fd_ctime fd, dr_type = type_code (fd_type fd), dr_sha256 = c_str digest,
      dr_target = fd_target fd, dr_scanned = True\<rparr>"

definition bind_object :: "string \<Rightarrow> file_data \<Rightarrow> (db_error, row) res" where
  "bind_object digest fd =
     rbind (bind_text (fd_path fd)) (\<lambda>_. rbind (bind_text (fd_user fd)) (\<lambda>_. rbind (bind_text (fd_group fd)) (\<lambda>_.
     rbind (bind_ulong (fd_inode fd)) (\<lambda>_. rbind (bind_unsigned (fd_mode fd)) (\<lambda>_.
     rbind (bind_text digest) (\<lambda>_. rbind (bind_text (fd_target fd)) (\<lambda>_. Inr (object_row digest fd))))))))"

definition insert_object :: "file_data \<Rightarrow> table \<Rightarrow> (db_error, table) res" where
  "insert_object fd t =
     rbind (bind_object (if fd_content_checked fd then fd_digest fd else ''not computed'') fd) (\<lambda>r.
     db_insert (fd_path fd) r t)"

definition mark_scanned :: "string \<Rightarrow> table \<Rightarrow> table" where
  "mark_scanned path t = db_update path (\<lambda>r. r\<lparr>dr_scanned := True\<rparr>) t"

definition mark_all_unscanned :: "table \<Rightarrow> table" where
  "mark_all_unscanned t = map (\<lambda>(n, r). (n, r\<lparr>dr_scanned := False\<rparr>)) t"

definition select_unscanned :: "table \<Rightarrow> string list" where
  "select_unscanned t = map fst (filter (\<lambda>p. \<not> dr_scanned (snd p)) t)"

subsection \<open>The alerts\<close>

text \<open>What the daemon is given: the configuration, \<open>put_time\<close>, and whether it runs as a unit test.\<close>

record diskscan_env =
  de_block_size :: "16 word"
  de_fmt_time :: "int \<Rightarrow> string"
  de_unit_test :: bool

definition disk_log_2_se :: "diskscan_env \<Rightarrow> int \<Rightarrow> string \<Rightarrow> bool \<Rightarrow> string \<Rightarrow> source_event" where
  "disk_log_2_se env now source control message =
     default_source_event\<lparr>
       se_control_message := control,
       se_message := (if de_unit_test env then map (\<lambda>c. if c = newline then CHR '' '' else c) message else message),
       se_source_domain := source, se_source_program := ''ctguard-diskscan'',
       se_time_scanned := (if de_unit_test env then 0 else now)\<rparr>"

definition new_object_text :: "diskscan_env \<Rightarrow> file_data \<Rightarrow> string" where
  "new_object_text env fd =
     ''ALERT: New object'' @ [newline]
     @ ''Path:            '' @ fd_path fd @ [newline]
     @ ''User:            '' @ fd_user fd @ [newline]
     @ ''Group:           '' @ fd_group fd @ [newline]
     @ ''Size (in bytes): '' @ int_to_string (fd_size fd) @ [newline]
     @ ''Mode:            '' @ print_mode (fd_mode fd) @ [newline]
     @ (if de_unit_test env then []
        else ''Inode:           '' @ nat_to_string (unat (fd_inode fd)) @ [newline]
           @ ''Mtime:           '' @ de_fmt_time env (fd_mtime fd) @ [newline]
           @ ''Ctime:           '' @ de_fmt_time env (fd_ctime fd) @ [newline])
     @ (if fd_type fd = Regular_file then ''SHA256 checksum: '' @ fd_digest fd @ [newline] else [])
     @ (if fd_type fd = Link then
          ''Target:          '' @ fd_target fd @ [newline] @ ''Valid:           '' @ bool_text (\<not> fd_dead_lnk fd) @ [newline]
        else [])
     @ ''Type:            '' @ type_name (type_code (fd_type fd)) @ [newline]
     @ ''ALERT END''"

definition changed_line :: "string \<Rightarrow> string \<Rightarrow> string \<Rightarrow> string \<Rightarrow> string" where
  "changed_line what old new unit = what @ '' changed from '' @ quote old @ '' to '' @ quote new @ unit @ [newline]"

text \<open>Whether the digest and the target are compared.\<close>

definition digest_differs :: "row \<Rightarrow> file_data \<Rightarrow> bool" where
  "digest_differs r fd = (fd_type fd = Regular_file \<and> fd_content_checked fd \<and> fd_digest fd \<noteq> dr_sha256 r)"

definition target_differs :: "row \<Rightarrow> file_data \<Rightarrow> bool" where
  "target_differs r fd = (fd_type fd = Link \<and> fd_content_checked fd \<and> dr_target r \<noteq> fd_target fd)"

text \<open>\<open>changed\<close>: inode and times alone are no change.\<close>

definition row_differs :: "row \<Rightarrow> file_data \<Rightarrow> bool" where
  "row_differs r fd =
     (dr_user r \<noteq> fd_user fd \<or> dr_group r \<noteq> fd_group fd \<or> dr_size r \<noteq> fd_size fd \<or> dr_mode r \<noteq> fd_mode fd
      \<or> digest_differs r fd \<or> target_differs r fd \<or> dr_type r \<noteq> type_code (fd_type fd))"

definition changed_object_text :: "diskscan_env \<Rightarrow> row \<Rightarrow> file_data \<Rightarrow> string" where
  "changed_object_text env r fd =
     ''ALERT: object changed'' @ [newline]
     @ ''Path:            '' @ fd_path fd @ [newline]
     @ ''Type:            '' @ type_name (type_code (fd_type fd)) @ [newline]
     @ (if dr_user r \<noteq> fd_user fd then changed_line ''User'' (dr_user r) (fd_user fd) [] else [])
     @ (if dr_group r \<noteq> fd_group fd then changed_line ''Group'' (dr_group r) (fd_group fd) [] else [])
     @ (if dr_size r \<noteq> fd_size fd
        then changed_line ''Size'' (int_to_string (dr_size r)) (int_to_string (fd_size fd)) '' bytes'' else [])
     @ (if dr_mode r \<noteq> fd_mode fd then changed_line ''Mode'' (print_mode (dr_mode r)) (print_mode (fd_mode fd)) [] else [])
     @ (if de_unit_test env then []
        else (if dr_inode r \<noteq> fd_inode fd
              then changed_line ''Inode'' (nat_to_string (unat (dr_inode r))) (nat_to_string (unat (fd_inode fd))) [] else [])
           @ (if dr_mtime r \<noteq> fd_mtime fd
              then changed_line ''Mtime'' (de_fmt_time env (dr_mtime r)) (de_fmt_time env (fd_mtime fd)) [] else [])
           @ (if dr_ctime r \<noteq> fd_ctime fd
              then changed_line ''Ctime'' (de_fmt_time env (dr_ctime r)) (de_fmt_time env (fd_ctime fd)) [] else []))
     @ (if digest_differs r fd then changed_line ''SHA256 checksum'' (dr_sha256 r) (fd_digest fd) [] else [])
     @ (if target_differs r fd then changed_line ''Target'' (dr_target r) (fd_target fd) [] else [])
     @ (if dr_type r \<noteq> type_code (fd_type fd)
        then changed_line ''Type'' (type_name (dr_type r)) (type_name (type_code (fd_type fd))) [] else [])
     @ (if fd_diff fd = [] then [] else ''Start Diff'' @ [newline] @ fd_diff fd @ ''End Diff'' @ [newline])
     @ ''ALERT END''"

definition deleted_object_text :: "row \<Rightarrow> file_data \<Rightarrow> string" where
  "deleted_object_text r fd =
     ''ALERT: object deleted'' @ [newline]
     @ ''Path:            '' @ fd_path fd @ [newline]
     @ ''Type:            '' @ type_name (dr_type r) @ [newline]
     @ ''ALERT END''"

subsection \<open>alert_task\<close>

text \<open>The thread's own state, and what it puts into the queues in one turn.\<close>

record alert_state =
  al_db :: table
  al_in_scan :: bool
  al_inserts :: "(string, file_data) smap"
  al_updates :: "string list"

record alert_output =
  ao_alerts :: "source_event list"
  ao_events :: "(string \<times> flags) list"
  ao_scan_done :: bool

definition no_output :: alert_output where
  "no_output = \<lparr>ao_alerts = [], ao_events = [], ao_scan_done = False\<rparr>"

text \<open>\<open>do_insert_set\<close>: the objects in the order of the set, each row followed by its alert. An exception ends the
  thread; the alerts of the rows inserted before it were raised.\<close>

fun insert_objects :: "diskscan_env \<Rightarrow> int \<Rightarrow> file_data list \<Rightarrow> table \<Rightarrow> source_event list \<times> (db_error, table) res" where
  "insert_objects env now [] t = ([], Inr t)"
| "insert_objects env now (fd # fds) t =
     (case insert_object fd t of
        Inl e \<Rightarrow> ([], Inl e)
      | Inr t \<Rightarrow>
          (case insert_objects env now fds t of
             (es, r) \<Rightarrow> (disk_log_2_se env now (fd_path fd) False (new_object_text env fd) # es, r)))"

definition do_insert_set :: "diskscan_env \<Rightarrow> int \<Rightarrow> alert_state \<Rightarrow> source_event list \<times> (db_error, alert_state) res" where
  "do_insert_set env now s =
     (case insert_objects env now (map snd (al_inserts s)) (al_db s) of
        (es, Inl e) \<Rightarrow> (es, Inl e)
      | (es, Inr t) \<Rightarrow> (es, Inr (s\<lparr>al_db := t, al_inserts := []\<rparr>)))"

definition do_update_queue :: "alert_state \<Rightarrow> alert_state" where
  "do_update_queue s = s\<lparr>al_db := fold mark_scanned (al_updates s) (al_db s), al_updates := []\<rparr>"

text \<open>An object with a row. The digest of a file that was not read is kept, the target is not.\<close>

definition update_row :: "file_data \<Rightarrow> row \<Rightarrow> (db_error, row) res" where
  "update_row fd r = bind_object (if fd_content_checked fd then fd_digest fd else dr_sha256 r) fd"

definition alert_found :: "diskscan_env \<Rightarrow> int \<Rightarrow> flags \<Rightarrow> file_data \<Rightarrow> row \<Rightarrow> alert_state \<Rightarrow>
    source_event list \<times> (db_error, alert_state) res" where
  "alert_found env now fl fd r s =
     (if fd_exists fd then
        (if row_differs r fd then
           (case update_row fd r of
              Inl e \<Rightarrow> ([], Inl e)
            | Inr r' \<Rightarrow>
                ([disk_log_2_se env now (fd_path fd) False (changed_object_text env r fd)],
                 Inr (s\<lparr>al_db := db_update (fd_path fd) (\<lambda>_. r') (al_db s)\<rparr>)))
         else if has_flag fl F_FORCE_UPDATE then
           (if \<not> al_in_scan s then ([], Inr (s\<lparr>al_db := mark_scanned (fd_path fd) (al_db s)\<rparr>))
            else let s = s\<lparr>al_updates := al_updates s @ [fd_path fd]\<rparr> in
              ([], Inr (if unat (de_block_size env) \<le> length (al_updates s) then do_update_queue s else s)))
         else ([], Inr s))
      else
        ([disk_log_2_se env now (fd_path fd) False (deleted_object_text r fd)],
         Inr (s\<lparr>al_db := db_delete (fd_path fd) (al_db s)\<rparr>)))"

text \<open>An existing object without a row.\<close>

definition alert_missing :: "diskscan_env \<Rightarrow> int \<Rightarrow> file_data \<Rightarrow> alert_state \<Rightarrow> source_event list \<times> (db_error, alert_state) res" where
  "alert_missing env now fd s =
     (if \<not> al_in_scan s then
        (case insert_object fd (al_db s) of
           Inl e \<Rightarrow> ([], Inl e)
         | Inr t \<Rightarrow> ([disk_log_2_se env now (fd_path fd) False (new_object_text env fd)], Inr (s\<lparr>al_db := t\<rparr>)))
      else
        let s = s\<lparr>al_inserts := smap_put (fd_path fd) fd (al_inserts s)\<rparr> in
        if unat (de_block_size env) \<le> length (al_inserts s) then do_insert_set env now s else ([], Inr s))"

definition alert_object :: "diskscan_env \<Rightarrow> int \<Rightarrow> flags \<Rightarrow> file_data \<Rightarrow> alert_state \<Rightarrow>
    source_event list \<times> (db_error, alert_state) res" where
  "alert_object env now fl fd s =
     (case db_select (fd_path fd) (al_db s) of
        [] \<Rightarrow> if fd_exists fd then alert_missing env now fd s else ([], Inr s)
      | r # _ \<Rightarrow> alert_found env now fl fd r s)"

text \<open>What a turn of the loop does with the element taken from the queue.\<close>

datatype alert_result = Alert_stops | Alert_throws db_error | Alert_continues alert_state

definition se_kill :: source_event where
  "se_kill = default_source_event\<lparr>se_control_message := True, se_message := ''!KILL''\<rparr>"

definition alert_turn :: "diskscan_env \<Rightarrow> int \<Rightarrow> bool \<Rightarrow> file_data option \<times> flags \<Rightarrow> alert_state \<Rightarrow> alert_output \<times> alert_result" where
  "alert_turn env now running inp s =
     (let fl = snd inp in
      if has_flag fl F_KILL \<or> \<not> running then (no_output\<lparr>ao_alerts := [se_kill]\<rparr>, Alert_stops)
      else if has_flag fl F_STARTSCAN then
        (no_output, Alert_continues (s\<lparr>al_db := mark_all_unscanned (al_db s), al_in_scan := True\<rparr>))
      else if has_flag fl F_MIDSCAN then
        (let events = map (\<lambda>name. (name, F_CHK_CONTENT OR F_FORCE_UPDATE)) (select_unscanned (al_db s)) @ [([], F_ENDSCAN)] in
         case do_insert_set env now (s\<lparr>al_in_scan := False\<rparr>) of
           (es, Inl e) \<Rightarrow> (no_output\<lparr>ao_alerts := es @ [se_kill], ao_events := events\<rparr>, Alert_throws e)
         | (es, Inr s) \<Rightarrow> (no_output\<lparr>ao_alerts := es, ao_events := events\<rparr>, Alert_continues (do_update_queue s)))
      else if has_flag fl F_ENDSCAN then (no_output\<lparr>ao_scan_done := True\<rparr>, Alert_continues s)
      else
        (case fst inp of
           None \<Rightarrow> (no_output, Alert_continues s)
         | Some fd \<Rightarrow>
             (case alert_object env now fl fd s of
                (es, Inl e) \<Rightarrow> (no_output\<lparr>ao_alerts := es @ [se_kill]\<rparr>, Alert_throws e)
              | (es, Inr s) \<Rightarrow> (no_output\<lparr>ao_alerts := es\<rparr>, Alert_continues s))))"

definition alert_start :: "table \<Rightarrow> alert_state" where
  "alert_start t = \<lparr>al_db = t, al_in_scan = False, al_inserts = [], al_updates = []\<rparr>"

end
