(* ===== verification/Diskscan_Threads.thy ===== *)
theory Diskscan_Threads
  imports Diskscan_Alerts
begin

text \<open>
  src/src/diskscan/daemon.cpp, the threads that find out what to look at: the scan of the directories, the
  inotify watches, and the two threads that look at the objects and pass them to the alerting thread. The
  file system is seen through what the system calls answer.
\<close>

subsection \<open>Directories\<close>

text \<open>A directory that can be opened has entries (name, and whether \<open>d_type\<close> is a directory); \<open>li_failed\<close>: after
  them \<open>readdir\<close> fails.\<close>

record listing =
  li_entries :: "(string \<times> bool) list"
  li_failed :: bool

type_synonym directories = "string \<Rightarrow> listing option"

text \<open>\<open>opendir\<close> answers ENAMETOOLONG for a path of PATH_MAX bytes.\<close>

definition path_max :: nat where "path_max = 4096"

definition open_dir :: "directories \<Rightarrow> string \<Rightarrow> listing option" where
  "open_dir dirs path = (if path_max \<le> length path then None else dirs path)"

definition is_dots :: "string \<Rightarrow> bool" where
  "is_dots name = (name = ''.'' \<or> name = ''..'')"

definition scan_flags :: "bool \<Rightarrow> flags" where
  "scan_flags check_diff = F_CHK_CONTENT OR F_FORCE_UPDATE OR (if check_diff then F_CHK_DIFF else F_EMPTY)"

lemma open_dir_short: "open_dir dirs path = Some li \<Longrightarrow> length path < path_max"
  by (auto simp: open_dir_def split: if_splits)

text \<open>The events \<open>scan\<close> puts into the queue; an exception ends the listing of one directory.\<close>

function scan :: "directories \<Rightarrow> bool \<Rightarrow> bool \<Rightarrow> string \<Rightarrow> (string \<times> flags) list" where
  "scan dirs recursive check_diff path =
     (case open_dir dirs path of
        None \<Rightarrow> []
      | Some li \<Rightarrow>
          concat (map (\<lambda>(name, is_dir).
            if is_dots name then []
            else (path @ ''/'' @ name, scan_flags check_diff)
              # (if recursive \<and> is_dir then scan dirs recursive check_diff (path @ ''/'' @ name) else []))
            (li_entries li)))"
  by pat_completeness auto
termination
  by (relation "measure (\<lambda>(dirs, recursive, check_diff, path). path_max - length path)")
    (auto dest: open_dir_short)

declare scan.simps [simp del]

subsection \<open>scan_task\<close>

text \<open>A turn: the events put into the queue, and whether the thread goes on. An empty path without mark is only logged.\<close>

definition scan_turn :: "directories \<Rightarrow> bool \<Rightarrow> string \<times> flags \<Rightarrow> (string \<times> flags) list \<times> bool" where
  "scan_turn dirs running inp =
     (let path = fst inp; fl = snd inp in
      if has_flag fl F_KILL \<or> \<not> running then ([([], F_KILL)], False)
      else if path = [] then ((if has_flag fl F_SPECIAL then [([], fl)] else []), True)
      else (scan dirs (has_flag fl F_RECURSIVE) (has_flag fl F_CHK_DIFF) path, True))"

subsection \<open>event_task\<close>

text \<open>What the factory of the objects answers: an exception, or an object (None: the null pointer) and the new
  diff database.\<close>

type_synonym factory = "string \<Rightarrow> bool \<Rightarrow> bool \<Rightarrow> diff_db \<Rightarrow> (int, file_data option \<times> diff_db) res"

datatype event_result = Event_stops | Event_throws int | Event_continues diff_db

definition event_turn :: "factory \<Rightarrow> bool \<Rightarrow> string \<times> flags \<Rightarrow> diff_db \<Rightarrow> (file_data option \<times> flags) list \<times> event_result" where
  "event_turn mk running inp db =
     (let path = fst inp; fl = snd inp in
      if has_flag fl F_KILL \<or> \<not> running then ([(None, fl)], Event_stops)
      else if has_flag fl F_SPECIAL then ([(None, fl)], Event_continues db)
      else
        (case mk path (has_flag fl F_CHK_CONTENT) (has_flag fl F_CHK_DIFF) db of
           Inl e \<Rightarrow> ([(None, F_KILL)], Event_throws e)
         | Inr (fd, db) \<Rightarrow> ([(fd, fl)], Event_continues db)))"

subsection \<open>rtevent_task\<close>

text \<open>The element at the front of the queue; it is taken when it has settled (times in milliseconds), otherwise
  the thread sleeps for the difference.\<close>

datatype rt_result = Rt_stops | Rt_throws int | Rt_continues diff_db | Rt_sleeps int

definition rt_turn :: "factory \<Rightarrow> 16 word \<Rightarrow> int \<Rightarrow> bool \<Rightarrow> int \<times> string \<times> flags \<Rightarrow> diff_db \<Rightarrow>
    (file_data option \<times> flags) list \<times> rt_result" where
  "rt_turn mk settle now running front db =
     (case front of (time, path, fl) \<Rightarrow>
      if has_flag fl F_KILL \<or> \<not> running then ([(None, F_KILL)], Rt_stops)
      else
        (let diff = time + int (unat settle) - now in
         if diff \<le> 0 then
           (case mk path (has_flag fl F_CHK_CONTENT) (has_flag fl F_CHK_DIFF) db of
              Inl e \<Rightarrow> ([(None, F_KILL)], Rt_throws e)
            | Inr (fd, db) \<Rightarrow> ([(fd, fl)], Rt_continues db))
         else ([], Rt_sleeps diff)))"

subsection \<open>watch_task\<close>

definition IN_MODIFY :: "32 word" where "IN_MODIFY = 0x2"
definition IN_ATTRIB :: "32 word" where "IN_ATTRIB = 0x4"
definition IN_MOVED_FROM :: "32 word" where "IN_MOVED_FROM = 0x40"
definition IN_MOVED_TO :: "32 word" where "IN_MOVED_TO = 0x80"
definition IN_CREATE :: "32 word" where "IN_CREATE = 0x100"
definition IN_DELETE :: "32 word" where "IN_DELETE = 0x200"
definition IN_DELETE_SELF :: "32 word" where "IN_DELETE_SELF = 0x400"
definition IN_MOVE_SELF :: "32 word" where "IN_MOVE_SELF = 0x800"
definition IN_Q_OVERFLOW :: "32 word" where "IN_Q_OVERFLOW = 0x4000"
definition IN_IGNORED :: "32 word" where "IN_IGNORED = 0x8000"
definition IN_ISDIR :: "32 word" where "IN_ISDIR = 0x40000000"

lemmas inotify_defs = IN_MODIFY_def IN_ATTRIB_def IN_MOVED_FROM_def IN_MOVED_TO_def IN_CREATE_def IN_DELETE_def
  IN_DELETE_SELF_def IN_MOVE_SELF_def IN_Q_OVERFLOW_def IN_IGNORED_def IN_ISDIR_def

type_synonym watches = "int \<Rightarrow> string option"

datatype watch_error = Can_not_open_directory string | No_such_watch int

text \<open>\<open>add_watch\<close>: \<open>wds path\<close> is the id the kernel answers, None when it refuses. A directory that cannot be
  listed throws.\<close>

function add_watch :: "directories \<Rightarrow> (string \<Rightarrow> int option) \<Rightarrow> bool \<Rightarrow> string \<Rightarrow> watches \<Rightarrow> (watch_error, watches) res" where
  "add_watch dirs wds recursive path ws =
     (case wds path of
        None \<Rightarrow> Inr ws
      | Some wd \<Rightarrow>
          (let ws = (if ws wd = None then ws(wd \<mapsto> path) else ws) in
           if \<not> recursive then Inr ws
           else
             (case open_dir dirs path of
                None \<Rightarrow> Inl (Can_not_open_directory path)
              | Some li \<Rightarrow>
                  rbind (fold_res (\<lambda>(name, is_dir) ws.
                    if \<not> is_dir \<or> is_dots name then Inr ws
                    else add_watch dirs wds recursive (path @ ''/'' @ name) ws) (li_entries li) ws)
                  (\<lambda>ws. if li_failed li then Inl (Can_not_open_directory path) else Inr ws))))"
  by pat_completeness auto
termination
  by (relation "measure (\<lambda>(dirs, wds, recursive, path, ws). path_max - length path)")
    (auto dest: open_dir_short)

declare add_watch.simps [simp del]

record inotify_event =
  in_wd :: int
  in_mask :: "32 word"
  in_name :: "string option"

record watch_output =
  wo_rt :: "(string \<times> flags) list"
  wo_scan :: "(string \<times> flags) list"

text \<open>One event of the buffer; the real-time events are put into their queue with the current time.\<close>

definition watch_event :: "regex_lib \<Rightarrow> string option \<Rightarrow> watch \<Rightarrow> directories \<Rightarrow> (string \<Rightarrow> int option) \<Rightarrow> inotify_event \<Rightarrow>
    watches \<Rightarrow> watch_output \<times> (watch_error, watches) res" where
  "watch_event rx ignore w dirs wds ev ws =
     (let mask = in_mask ev; nothing = \<lparr>wo_rt = [], wo_scan = []\<rparr>;
          diff = (if w_check_diff w then F_CHK_DIFF else F_EMPTY) in
      if mask = IN_IGNORED then (nothing, Inr ws)
      else
        (case ws (in_wd ev) of
           None \<Rightarrow> (nothing, Inl (No_such_watch (in_wd ev)))
         | Some dir \<Rightarrow>
             (let full_path = (case in_name ev of None \<Rightarrow> dir | Some name \<Rightarrow> dir @ ''/'' @ name);
                  queued = (\<lambda>fl. \<lparr>wo_rt = [(full_path, fl)], wo_scan = []\<rparr>) in
              if (case ignore of None \<Rightarrow> False | Some r \<Rightarrow> rx_search rx r full_path \<noteq> None) then (nothing, Inr ws)
              else if mask = IN_DELETE_SELF then (queued (F_EMPTY OR diff), Inr (ws(in_wd ev := None)))
              else if mask = IN_CREATE OR IN_ISDIR \<or> mask = IN_MOVED_TO OR IN_ISDIR then
                (\<lparr>wo_rt = [(full_path, F_CHK_CONTENT)],
                   wo_scan = [(full_path, if w_recursive w then F_RECURSIVE else F_EMPTY)]\<rparr>,
                 add_watch dirs wds (w_recursive w) full_path ws)
              else if mask = IN_CREATE \<or> mask = IN_MOVED_TO then (queued (F_CHK_CONTENT OR diff), Inr ws)
              else if mask = IN_DELETE OR IN_ISDIR then (queued F_CHK_CONTENT, Inr ws)
              else if mask = IN_DELETE \<or> mask = IN_MOVED_FROM then (queued (F_CHK_CONTENT OR diff), Inr ws)
              else if mask = IN_MODIFY then (queued (F_CHK_CONTENT OR diff), Inr ws)
              else if mask = IN_ATTRIB \<or> mask = IN_ATTRIB OR IN_ISDIR then (queued F_EMPTY, Inr ws)
              else if mask = IN_MOVE_SELF then (queued (F_CHK_CONTENT OR diff), Inr ws)
              else (queued F_CHK_CONTENT, Inr ws))))"

text \<open>The loop over the events of one \<open>read\<close>: an exception ends the thread, what was queued stays queued.\<close>

fun watch_events :: "regex_lib \<Rightarrow> string option \<Rightarrow> watch \<Rightarrow> directories \<Rightarrow> (string \<Rightarrow> int option) \<Rightarrow> inotify_event list \<Rightarrow>
    watches \<Rightarrow> watch_output \<times> (watch_error, watches) res" where
  "watch_events rx ignore w dirs wds [] ws = (\<lparr>wo_rt = [], wo_scan = []\<rparr>, Inr ws)"
| "watch_events rx ignore w dirs wds (ev # evs) ws =
     (case watch_event rx ignore w dirs wds ev ws of
        (out, Inl e) \<Rightarrow> (out, Inl e)
      | (out, Inr ws) \<Rightarrow>
          (case watch_events rx ignore w dirs wds evs ws of
             (out', r) \<Rightarrow> (\<lparr>wo_rt = wo_rt out @ wo_rt out', wo_scan = wo_scan out @ wo_scan out'\<rparr>, r)))"

subsection \<open>What daemon() asks for\<close>

text \<open>The elements a scan puts into the queue of the scanning thread.\<close>

definition watch_scan_flags :: "watch \<Rightarrow> flags" where
  "watch_scan_flags w = (if w_recursive w then F_RECURSIVE else F_EMPTY) OR (if w_check_diff w then F_CHK_DIFF else F_EMPTY)"

definition scan_requests :: "watch list \<Rightarrow> (string \<times> flags) list" where
  "scan_requests ws = ([], F_STARTSCAN) # map (\<lambda>w. (w_path w, watch_scan_flags w)) ws @ [([], F_MIDSCAN)]"

end
