(* ===== verification/Diskscan_Daemon.thy ===== *)
theory Diskscan_Daemon
  imports Diskscan_Threads Blocked_Queue Daemon_Threads Event_Sinks
begin

text \<open>
  src/src/diskscan/daemon.cpp, \<open>daemon()\<close>: the threads of ctguard-diskscan and the queues between them, as a
  step relation. A turn of a thread's loop is one step; what the system calls answer in it is free. What a
  thread logs, and the counters of the performance log, are not modelled.

  The main thread asks for a scan (scan queue), the scanning thread lists the directories (event queue), the
  event and the real-time thread look at the objects (data queue), the alerting thread compares them with the
  database and reports (output queue), and asks for the rows a scan did not see (event queue); the output thread
  sends. The watching threads feed the real-time and the scan queue.
\<close>

subsection \<open>The state\<close>

record disk_env =
  dv_cfg :: diskscan_config
  dv_singlerun :: bool
  dv_unit_test :: bool
  dv_rx :: regex_lib
  dv_digest :: digest_lib
  dv_fmt_time :: "int \<Rightarrow> string"
  dv_net :: net
  dv_ser :: "source_event \<Rightarrow> string"

definition alert_env :: "disk_env \<Rightarrow> diskscan_env" where
  "alert_env env =
     \<lparr>de_block_size = dc_block_size (dv_cfg env), de_fmt_time = dv_fmt_time env, de_unit_test = dv_unit_test env\<rparr>"

datatype disk_error =
    Object_failed int
  | Db_not_opened
  | Db_failed db_error
  | Watch_failed watch_error
  | Inotify_failed

datatype disk_thread = Scan_thread | Event_thread | Rt_thread | Alert_thread | Output_thread | Watch_threads

datatype disk_pc = Disk_start | Disk_wait_scan | Disk_monitor | Disk_join "disk_thread list" | Disk_returned

text \<open>A watching thread: its watches once the first one is set up.\<close>

record watch_worker =
  ww_status :: thread_status
  ww_watches :: "watches option"

text \<open>\<open>sd_errors\<close> is the stack of exceptions; the main thread only asks whether it is empty, then shuts down.\<close>

record disk_state =
  sd_running :: bool
  sd_scanning :: bool
  sd_main :: disk_pc
  sd_timer :: "64 word"
  sd_scan :: thread_status
  sd_event :: thread_status
  sd_rt :: thread_status
  sd_alert :: thread_status
  sd_output :: thread_status
  sd_watch :: "watch_worker list"
  sd_scanq :: "(string \<times> flags) blocked_queue"
  sd_eventq :: "(string \<times> flags) blocked_queue"
  sd_rtq :: "(int \<times> string \<times> flags) blocked_queue"
  sd_dataq :: "(file_data option \<times> flags) blocked_queue"
  sd_outq :: "source_event blocked_queue"
  sd_diffdb :: diff_db
  sd_alert_state :: "alert_state option"
  sd_local :: "source_event resend"
  sd_sink :: sink_state
  sd_errors :: "disk_error list"

text \<open>What the threads took, with what they were answered.\<close>

datatype disk_label =
    Opens "table option"
  | Scans directories "string \<times> flags"
  | Looks string object_view "string \<times> flags"
  | Rt_looks "string \<times> flags"
  | Alerts int "file_data option \<times> flags" alert_output
  | Forwards "source_event option"

type_synonym disk_turn = "(disk_label list \<times> disk_state) option"

subsection \<open>The turns of the threads\<close>

definition disk_scans :: "directories \<Rightarrow> disk_state \<Rightarrow> disk_turn" where
  "disk_scans dirs s =
     (case bq_take (sd_scanq s) of
        None \<Rightarrow> None
      | Some (inp, q) \<Rightarrow>
          (let (es, on) = scan_turn dirs (sd_running s) inp in
           Some ([Scans dirs inp],
             s\<lparr>sd_scanq := q, sd_eventq := sd_eventq s @ es, sd_scan := (if on then Thread_running else Thread_done)\<rparr>)))"

definition env_factory :: "disk_env \<Rightarrow> string \<Rightarrow> object_view \<Rightarrow> factory" where
  "env_factory env junk v = (\<lambda>path. construct (dv_digest env) (dc_max_diff_size (dv_cfg env)) junk v path)"

definition disk_looks :: "disk_env \<Rightarrow> string \<Rightarrow> object_view \<Rightarrow> disk_state \<Rightarrow> disk_turn" where
  "disk_looks env junk v s =
     (case bq_take (sd_eventq s) of
        None \<Rightarrow> None
      | Some (inp, q) \<Rightarrow>
          (let (ds, r) = event_turn (env_factory env junk v) (sd_running s) inp (sd_diffdb s);
               s = s\<lparr>sd_eventq := q, sd_dataq := sd_dataq s @ ds\<rparr>
           in Some ([Looks junk v inp],
                (case r of
                   Event_stops \<Rightarrow> s\<lparr>sd_event := Thread_done\<rparr>
                 | Event_throws e \<Rightarrow> s\<lparr>sd_event := Thread_dead, sd_errors := Object_failed e # sd_errors s\<rparr>
                 | Event_continues db \<Rightarrow> s\<lparr>sd_diffdb := db\<rparr>))))"

definition disk_rt_looks :: "disk_env \<Rightarrow> string \<Rightarrow> object_view \<Rightarrow> int \<Rightarrow> disk_state \<Rightarrow> disk_turn" where
  "disk_rt_looks env junk v now s =
     (case bq_front (sd_rtq s) of
        None \<Rightarrow> None
      | Some front \<Rightarrow>
          (let (ds, r) = rt_turn (env_factory env junk v) (dc_settle_time (dv_cfg env)) now (sd_running s) front (sd_diffdb s);
               s = s\<lparr>sd_dataq := sd_dataq s @ ds\<rparr>
           in Some (case r of
                Rt_stops \<Rightarrow> ([], s\<lparr>sd_rt := Thread_done\<rparr>)
              | Rt_throws e \<Rightarrow>
                  ([Rt_looks (snd front)],
                   s\<lparr>sd_rtq := bq_pop (sd_rtq s), sd_rt := Thread_dead, sd_errors := Object_failed e # sd_errors s\<rparr>)
              | Rt_continues db \<Rightarrow> ([Rt_looks (snd front)], s\<lparr>sd_rtq := bq_pop (sd_rtq s), sd_diffdb := db\<rparr>)
              | Rt_sleeps t \<Rightarrow> ([], s))))"

text \<open>The alerting thread opens the database first (None: that fails).\<close>

definition disk_opens_db :: "table option \<Rightarrow> disk_state \<Rightarrow> disk_state" where
  "disk_opens_db db s =
     (case db of
        None \<Rightarrow> s\<lparr>sd_alert := Thread_dead, sd_errors := Db_not_opened # sd_errors s, sd_outq := sd_outq s @ [se_kill]\<rparr>
      | Some t \<Rightarrow> s\<lparr>sd_alert_state := Some (alert_start t)\<rparr>)"

definition disk_alerts :: "disk_env \<Rightarrow> int \<Rightarrow> alert_state \<Rightarrow> disk_state \<Rightarrow> disk_turn" where
  "disk_alerts env now al s =
     (case bq_take (sd_dataq s) of
        None \<Rightarrow> None
      | Some (inp, q) \<Rightarrow>
          (let (out, r) = alert_turn (alert_env env) now (sd_running s) inp al;
               s = s\<lparr>sd_dataq := q, sd_outq := sd_outq s @ ao_alerts out, sd_eventq := sd_eventq s @ ao_events out,
                     sd_scanning := (sd_scanning s \<and> \<not> ao_scan_done out)\<rparr>
           in Some ([Alerts now inp out],
                (case r of
                   Alert_stops \<Rightarrow> s\<lparr>sd_alert := Thread_done\<rparr>
                 | Alert_throws e \<Rightarrow> s\<lparr>sd_alert := Thread_dead, sd_errors := Db_failed e # sd_errors s\<rparr>
                 | Alert_continues al \<Rightarrow> s\<lparr>sd_alert_state := Some al\<rparr>))))"

text \<open>The output thread waits a second for an event; then it goes without.\<close>

definition disk_forwards :: "disk_env \<Rightarrow> disk_state \<Rightarrow> disk_turn" where
  "disk_forwards env s =
     (let (inp, q) = bq_take_for (sd_outq s) [] in
      Option.bind (resend_step (event_send (dv_net env) (dv_ser env)) se_is_kill (\<lambda>se. se) inp (sd_local s) (sd_sink s))
        (\<lambda>(rt, sink).
           Some ([Forwards inp],
             s\<lparr>sd_outq := q, sd_local := rt, sd_sink := sink,
               sd_output := (if rt_stopped rt then Thread_done else Thread_running)\<rparr>)))"

text \<open>The watching thread number \<open>i\<close> and its watch.\<close>

definition realtime_watches :: "disk_env \<Rightarrow> watch list" where
  "realtime_watches env = (if dv_singlerun env then [] else filter w_realtime (dc_watches (dv_cfg env)))"

definition watch_fails :: "nat \<Rightarrow> disk_error \<Rightarrow> disk_state \<Rightarrow> disk_state" where
  "watch_fails i e s =
     s\<lparr>sd_watch := (sd_watch s)[i := (sd_watch s ! i)\<lparr>ww_status := Thread_dead\<rparr>], sd_errors := e # sd_errors s\<rparr>"

definition watch_sets :: "nat \<Rightarrow> watches \<Rightarrow> disk_state \<Rightarrow> disk_state" where
  "watch_sets i ws s = s\<lparr>sd_watch := (sd_watch s)[i := (sd_watch s ! i)\<lparr>ww_watches := Some ws\<rparr>]\<rparr>"

definition watch_starts :: "disk_env \<Rightarrow> nat \<Rightarrow> directories \<Rightarrow> (string \<Rightarrow> int option) \<Rightarrow> disk_state \<Rightarrow> disk_state" where
  "watch_starts env i dirs wds s =
     (let w = realtime_watches env ! i in
      case add_watch dirs wds (w_recursive w) (w_path w) (\<lambda>_. None) of
        Inl e \<Rightarrow> watch_fails i (Watch_failed e) s
      | Inr ws \<Rightarrow> watch_sets i ws s)"

text \<open>\<open>select\<close> without an event within half a second.\<close>

definition watch_idles :: "nat \<Rightarrow> disk_state \<Rightarrow> disk_state" where
  "watch_idles i s =
     (if sd_running s then s else s\<lparr>sd_watch := (sd_watch s)[i := (sd_watch s ! i)\<lparr>ww_status := Thread_done\<rparr>]\<rparr>)"

definition watch_turns :: "disk_env \<Rightarrow> nat \<Rightarrow> directories \<Rightarrow> (string \<Rightarrow> int option) \<Rightarrow> int \<Rightarrow> inotify_event list \<Rightarrow> watches \<Rightarrow>
    disk_state \<Rightarrow> disk_state" where
  "watch_turns env i dirs wds now evs ws s =
     (case watch_events (dv_rx env) (dc_realtime_ignore (dv_cfg env)) (realtime_watches env ! i) dirs wds evs ws of
        (out, r) \<Rightarrow>
          (let s = s\<lparr>sd_rtq := sd_rtq s @ map (Pair now) (wo_rt out), sd_scanq := sd_scanq s @ wo_scan out\<rparr> in
           case r of Inl e \<Rightarrow> watch_fails i (Watch_failed e) s | Inr ws \<Rightarrow> watch_sets i ws s))"

subsection \<open>The main thread\<close>

definition start_scan :: "disk_env \<Rightarrow> disk_state \<Rightarrow> disk_state" where
  "start_scan env s = s\<lparr>sd_scanning := True, sd_scanq := sd_scanq s @ scan_requests (dc_watches (dv_cfg env))\<rparr>"

definition disk_starts :: "disk_env \<Rightarrow> disk_state \<Rightarrow> disk_state" where
  "disk_starts env s =
     (start_scan env s)\<lparr>sd_main := (if dv_singlerun env then Disk_wait_scan else Disk_monitor),
       sd_watch := replicate (length (realtime_watches env)) \<lparr>ww_status = Thread_running, ww_watches = None\<rparr>\<rparr>"

text \<open>The end of a single run: the threads are stopped through the queues, \<open>RUNNING\<close> stays.\<close>

definition singlerun_stops :: "disk_state \<Rightarrow> disk_state" where
  "singlerun_stops s =
     s\<lparr>sd_scanq := bq_push (sd_scanq s) ([], F_KILL), sd_main := Disk_join [Scan_thread, Event_thread, Alert_thread, Output_thread]\<rparr>"

definition disk_shuts_down :: "disk_state \<Rightarrow> disk_state" where
  "disk_shuts_down s =
     s\<lparr>sd_running := False, sd_scanq := bq_push (sd_scanq s) ([], F_KILL), sd_rtq := bq_push (sd_rtq s) (0, [], F_KILL),
       sd_main := Disk_join [Scan_thread, Event_thread, Rt_thread, Alert_thread, Output_thread, Watch_threads]\<rparr>"

text \<open>\<open>sigtimedwait\<close> timed out after a second; \<open>scaninterval\<close> is in seconds.\<close>

definition monitor_timeout :: "disk_env \<Rightarrow> disk_state \<Rightarrow> disk_state" where
  "monitor_timeout env s =
     (if sd_errors s \<noteq> [] then disk_shuts_down s
      else
        (let s = s\<lparr>sd_timer := sd_timer s + 1\<rparr> in
         if dc_scaninterval (dv_cfg env) \<le> sd_timer s then (start_scan env s)\<lparr>sd_timer := 0\<rparr> else s))"

definition disk_joinable :: "disk_thread \<Rightarrow> disk_state \<Rightarrow> bool" where
  "disk_joinable t s =
     (case t of
        Scan_thread \<Rightarrow> sd_scan s \<noteq> Thread_running
      | Event_thread \<Rightarrow> sd_event s \<noteq> Thread_running
      | Rt_thread \<Rightarrow> sd_rt s \<noteq> Thread_running
      | Alert_thread \<Rightarrow> sd_alert s \<noteq> Thread_running
      | Output_thread \<Rightarrow> sd_output s \<noteq> Thread_running
      | Watch_threads \<Rightarrow> list_all (\<lambda>w. ww_status w \<noteq> Thread_running) (sd_watch s))"

definition join_next :: "disk_thread list \<Rightarrow> disk_pc" where
  "join_next ts = (if ts = [] then Disk_returned else Disk_join ts)"

subsection \<open>daemon\<close>

definition disk_init :: "sink_state \<Rightarrow> diff_db \<Rightarrow> disk_state" where
  "disk_init sink db =
     \<lparr>sd_running = True, sd_scanning = False, sd_main = Disk_start, sd_timer = 0, sd_scan = Thread_running,
      sd_event = Thread_running, sd_rt = Thread_running, sd_alert = Thread_running, sd_output = Thread_running,
      sd_watch = [], sd_scanq = [], sd_eventq = [], sd_rtq = [], sd_dataq = [], sd_outq = [], sd_diffdb = db,
      sd_alert_state = None, sd_local = resend_init, sd_sink = sink, sd_errors = []\<rparr>"

text \<open>Of a single run the real-time thread and the watching threads are never started.\<close>

inductive disk_step :: "disk_env \<Rightarrow> disk_state \<Rightarrow> disk_label list \<Rightarrow> disk_state \<Rightarrow> bool" for env where
  Ds_starts: "sd_main s = Disk_start \<Longrightarrow> disk_step env s [] (disk_starts env s)"
| Ds_scan_done: "sd_main s = Disk_wait_scan \<Longrightarrow> \<not> sd_scanning s \<Longrightarrow> disk_step env s [] (singlerun_stops s)"
| Ds_timeout: "sd_main s = Disk_monitor \<Longrightarrow> disk_step env s [] (monitor_timeout env s)"
| Ds_signal: "sd_main s = Disk_monitor \<Longrightarrow> disk_step env s [] (disk_shuts_down s)"
| Ds_joins: "sd_main s = Disk_join (t # ts) \<Longrightarrow> disk_joinable t s \<Longrightarrow> disk_step env s [] (s\<lparr>sd_main := join_next ts\<rparr>)"
| Ds_scans: "sd_scan s = Thread_running \<Longrightarrow> disk_scans dirs s = Some (ls, s') \<Longrightarrow> disk_step env s ls s'"
| Ds_looks: "sd_event s = Thread_running \<Longrightarrow> disk_looks env junk v s = Some (ls, s') \<Longrightarrow> disk_step env s ls s'"
| Ds_rt_looks: "\<not> dv_singlerun env \<Longrightarrow> sd_main s \<noteq> Disk_start \<Longrightarrow> sd_rt s = Thread_running \<Longrightarrow>
    disk_rt_looks env junk v now s = Some (ls, s') \<Longrightarrow> disk_step env s ls s'"
| Ds_opens_db: "sd_alert s = Thread_running \<Longrightarrow> sd_alert_state s = None \<Longrightarrow>
    disk_step env s [Opens db] (disk_opens_db db s)"
| Ds_alerts: "sd_alert s = Thread_running \<Longrightarrow> sd_alert_state s = Some al \<Longrightarrow> disk_alerts env now al s = Some (ls, s') \<Longrightarrow>
    disk_step env s ls s'"
| Ds_forwards: "sd_output s = Thread_running \<Longrightarrow> disk_forwards env s = Some (ls, s') \<Longrightarrow> disk_step env s ls s'"
| Ds_watch_starts: "i < length (sd_watch s) \<Longrightarrow> sd_watch s ! i = \<lparr>ww_status = Thread_running, ww_watches = None\<rparr> \<Longrightarrow>
    disk_step env s [] (watch_starts env i dirs wds s)"
| Ds_watch_idles: "i < length (sd_watch s) \<Longrightarrow> sd_watch s ! i = \<lparr>ww_status = Thread_running, ww_watches = Some ws\<rparr> \<Longrightarrow>
    disk_step env s [] (watch_idles i s)"
| Ds_watch_turns: "i < length (sd_watch s) \<Longrightarrow> sd_watch s ! i = \<lparr>ww_status = Thread_running, ww_watches = Some ws\<rparr> \<Longrightarrow>
    disk_step env s [] (watch_turns env i dirs wds now evs ws s)"
| Ds_watch_fails: "i < length (sd_watch s) \<Longrightarrow> ww_status (sd_watch s ! i) = Thread_running \<Longrightarrow>
    disk_step env s [] (watch_fails i Inotify_failed s)"

text \<open>The runs from a sink and a diff database.\<close>

inductive disk_run :: "disk_env \<Rightarrow> sink_state \<Rightarrow> diff_db \<Rightarrow> disk_label list \<Rightarrow> disk_state \<Rightarrow> bool" for env sink db where
  ds_start: "disk_run env sink db [] (disk_init sink db)"
| ds_step: "disk_run env sink db tr s \<Longrightarrow> disk_step env s ls s' \<Longrightarrow> disk_run env sink db (tr @ ls) s'"

end
