(* ===== verification/File_Data_Facts.thy ===== *)
theory File_Data_Facts
  imports File_Data
begin

text \<open>
  Facts about what ctguard-diskscan records: the printed mode determines the mode, a file that was read
  is described by its digest and its text, and what is shown of an object that was not read.
\<close>

subsection \<open>Reading a printed mode back\<close>

definition type_bits :: "char \<Rightarrow> mode" where
  "type_bits c =
     (if c = CHR ''-'' then S_IFREG else if c = CHR ''d'' then S_IFDIR else if c = CHR ''b'' then S_IFBLK
      else if c = CHR ''c'' then S_IFCHR else if c = CHR ''p'' then S_IFIFO else if c = CHR ''l'' then S_IFLNK
      else if c = CHR ''s'' then S_IFSOCK else 0)"

definition flag :: "bool \<Rightarrow> nat \<Rightarrow> mode" where
  "flag b i = (if b then push_bit i 1 else 0)"

definition read_mode :: "string \<Rightarrow> mode" where
  "read_mode s =
     type_bits (s ! 0)
     OR flag (s ! 1 = CHR ''r'') 8 OR flag (s ! 2 = CHR ''w'') 7
     OR flag (s ! 3 \<in> {CHR ''x'', CHR ''s''}) 6 OR flag (s ! 3 \<in> {CHR ''s'', CHR ''S''}) 11
     OR flag (s ! 4 = CHR ''r'') 5 OR flag (s ! 5 = CHR ''w'') 4
     OR flag (s ! 6 \<in> {CHR ''x'', CHR ''s''}) 3 OR flag (s ! 6 \<in> {CHR ''s'', CHR ''l''}) 10
     OR flag (s ! 7 = CHR ''r'') 2 OR flag (s ! 8 = CHR ''w'') 1
     OR flag (s ! 9 \<in> {CHR ''x'', CHR ''t''}) 0 OR flag (s ! 9 \<in> {CHR ''t'', CHR ''T''}) 9"

lemma mode_bit_bit: "mode_bit m i = bit m i"
  by (simp only: mode_bit_def bit_iff_and_push_bit_not_eq_0)

lemma flag_mode_bit: "flag (mode_bit m i) i = m AND push_bit i 1"
  unfolding mode_bit_bit by (rule bit_word_eqI) (auto simp: flag_def bit_simps)

lemma type_bits_mode: "mode_file_type m \<noteq> Unknown_type \<Longrightarrow> type_bits (mode_to_type m) = m AND S_IFMT"
  by (auto simp: mode_file_type_def mode_to_type_def type_bits_def Let_def split: if_splits)

text \<open>
  The printed mode loses nothing. From the ten characters of \<open>print_mode\<close> the mode of every object of a
  known type can be read back, with its set-id and sticky bits.
\<close>

theorem print_mode_roundtrip:
  assumes "mode_file_type m \<noteq> Unknown_type"
  shows "read_mode (print_mode m) = m AND 0xFFFF"
proof -
  let ?s = "print_mode m"
  have c: "?s ! 0 = mode_to_type m" "(?s ! 1 = CHR ''r'') = mode_bit m 8" "(?s ! 2 = CHR ''w'') = mode_bit m 7"
    "(?s ! 3 \<in> {CHR ''x'', CHR ''s''}) = mode_bit m 6" "(?s ! 3 \<in> {CHR ''s'', CHR ''S''}) = mode_bit m 11"
    "(?s ! 4 = CHR ''r'') = mode_bit m 5" "(?s ! 5 = CHR ''w'') = mode_bit m 4"
    "(?s ! 6 \<in> {CHR ''x'', CHR ''s''}) = mode_bit m 3" "(?s ! 6 \<in> {CHR ''s'', CHR ''l''}) = mode_bit m 10"
    "(?s ! 7 = CHR ''r'') = mode_bit m 2" "(?s ! 8 = CHR ''w'') = mode_bit m 1"
    "(?s ! 9 \<in> {CHR ''x'', CHR ''t''}) = mode_bit m 0" "(?s ! 9 \<in> {CHR ''t'', CHR ''T''}) = mode_bit m 9"
    by (simp_all add: print_mode_def)
  have "read_mode ?s = (m AND S_IFMT) OR (m AND push_bit 8 1) OR (m AND push_bit 7 1) OR (m AND push_bit 6 1)
      OR (m AND push_bit 11 1) OR (m AND push_bit 5 1) OR (m AND push_bit 4 1) OR (m AND push_bit 3 1)
      OR (m AND push_bit 10 1) OR (m AND push_bit 2 1) OR (m AND push_bit 1 1) OR (m AND push_bit 0 1) OR (m AND push_bit 9 1)"
    unfolding read_mode_def c flag_mode_bit type_bits_mode [OF assms] by (rule refl)
  also have "\<dots> = m AND 0xFFFF"
    unfolding bit.conj_disj_distrib [symmetric] by (simp add: S_IFMT_def)
  finally show ?thesis .
qed

theorem print_mode_roundtrip_witness:
  "print_mode 0x85F5 = ''-rwxrwlr-x'' \<and> read_mode ''-rwxrwlr-x'' = 0x85F5"
proof -
  have p: "print_mode 0x85F5 = ''-rwxrwlr-x''" by (simp add: print_mode_def mode_bit_def mode_to_type_def format_defs)
  have "mode_file_type 0x85F5 \<noteq> Unknown_type" by (simp add: mode_file_type_def format_defs)
  from print_mode_roundtrip [OF this] p show ?thesis by simp
qed

subsection \<open>Objects that were read\<close>

lemma read_chunks_False: "read_chunks cs False hashed content = (hashed @ concat cs, content, False)"
  by (induction cs arbitrary: hashed) auto

lemma read_chunks_True:
  "\<exists>kept. read_chunks cs True hashed content =
     (if CHR 0x00 \<in> set (concat cs) then (hashed @ concat cs, kept, False)
      else (hashed @ concat cs, content @ concat cs, True))"
proof (induction cs arbitrary: hashed content)
  case (Cons c cs)
  from Cons [of "hashed @ c" "content @ c"] show ?case by (auto simp: read_chunks_False)
qed simp

lemma check_file_read:
  assumes "ov_open v" "ov_read_ok v" "fd_diff fd = []"
    and content_def: "content = concat (ov_chunks v)"
    and diffed_def: "diffed = (check_diff \<and> fd_size fd < int (unat max_diff) \<and> CHR 0x00 \<notin> set content)"
  shows "check_file dg max_diff v check_diff fd db =
     (fd\<lparr>fd_sha256 := dg_sha256 dg content, fd_content_checked := True,
        fd_diff := (case db (fd_path fd) of
          Some old \<Rightarrow> if diffed \<and> old \<noteq> [] then dg_diff dg (cut_at newline old) (cut_at newline content) else []
        | None \<Rightarrow> [])\<rparr>,
      if diffed then db(fd_path fd \<mapsto> content) else db)"
proof (cases "check_diff \<and> fd_size fd < int (unat max_diff)")
  case False
  with assms show ?thesis
    by (auto simp: check_file_def Let_def read_chunks_False content_def diffed_def split: option.splits)
next
  case True
  obtain kept where r: "read_chunks (ov_chunks v) True [] [] =
      (if CHR 0x00 \<in> set content then (content, kept, False) else (content, content, True))"
    using read_chunks_True [of "ov_chunks v" "[]" "[]"] unfolding content_def append.left_neutral by blast
  from True r assms(1-3) show ?thesis
    by (cases "CHR 0x00 \<in> set content") (auto simp: check_file_def diffed_def Let_def split_string_cut_at split: option.splits)
qed

text \<open>
  A file that was read is described by its content. Its digest is that of the whole content, however it
  was read in chunks; its text is stored for the next comparison exactly when the file is watched for
  diffs, small enough and without zero bytes, and the diff compares the lines stored before with the
  new ones.
\<close>

theorem construct_reads_file:
  assumes "path \<noteq> []" and "ov_lstat v = Some s" and "mode_file_type (st_mode s) = Regular_file"
    and "ov_user v = Inr user" and "ov_group v = Inr grp" and "ov_open v" and "ov_read_ok v"
    and "diffed = (check_diff \<and> st_size s < int (unat max_diff) \<and> CHR 0x00 \<notin> set (concat (ov_chunks v)))"
  shows "\<exists>fd. construct dg max_diff junk v path True check_diff db =
         Inr (Some fd, if diffed then db(path \<mapsto> concat (ov_chunks v)) else db)
     \<and> fd_exists fd \<and> fd_content_checked fd \<and> fd_path fd = path \<and> fd_size fd = st_size s \<and> fd_mode fd = st_mode s
     \<and> fd_sha256 fd = dg_sha256 dg (concat (ov_chunks v))
     \<and> fd_diff fd = (case db path of
          Some old \<Rightarrow> if diffed \<and> old \<noteq> [] then dg_diff dg (cut_at newline old) (cut_at newline (concat (ov_chunks v))) else []
        | None \<Rightarrow> [])"
  using assms(1-7) unfolding assms(8)
  by (auto simp: construct_def Let_def check_file_read [OF _ _ _ refl refl] new_file_data_def split: option.split)

definition demo_digest :: digest_lib where
  "demo_digest = \<lparr>dg_sha256 = (\<lambda>s. s), dg_diff = (\<lambda>a b. concat (map (\<lambda>l. ''-'' @ l) a @ map (\<lambda>l. ''+'' @ l) b))\<rparr>"

definition demo_view :: "string list \<Rightarrow> object_view" where
  "demo_view cs =
     \<lparr>ov_lstat = Some \<lparr>st_size = int (length (concat cs)), st_mode = 0x81A4, st_ino = 5, st_uid = 0, st_gid = 0, st_mtime = 1, st_ctime = 1\<rparr>,
      ov_user = Inr (Some ''root''), ov_group = Inr None, ov_open = True, ov_chunks = cs, ov_read_ok = True,
      ov_target_exists = True, ov_readlink = None\<rparr>"

theorem construct_reads_file_witness:
  "\<exists>fd. construct demo_digest 100 [] (demo_view [''a'', ''b'']) ''/f'' True True [''/f'' \<mapsto> ''x''] = Inr (Some fd, [''/f'' \<mapsto> ''ab''])
     \<and> fd_sha256 fd = ''ab'' \<and> fd_diff fd = ''-x+ab''"
  using construct_reads_file [of "''/f''" "demo_view [''a'', ''b'']"
      "\<lparr>st_size = 2, st_mode = 0x81A4, st_ino = 5, st_uid = 0, st_gid = 0, st_mtime = 1, st_ctime = 1\<rparr>" "Some ''root''" None
      True True 100 demo_digest "[]" "[''/f'' \<mapsto> ''x'']"]
  by (auto simp: demo_view_def demo_digest_def mode_file_type_def format_defs newline_def)

text \<open>What \<open>sha256()\<close> shows of an object whose content was not checked is what the memory held before.\<close>

lemma construct_unchecked_digest:
  assumes "construct dg max_diff junk v path check_content check_diff db = Inr (Some fd, db')"
    and "fd_exists fd" and "\<not> fd_content_checked fd"
  shows "fd_digest fd = take 64 junk"
proof -
  from assms(1,2) obtain s where s: "ov_lstat v = Some s"
    by (cases "ov_lstat v") (auto simp: construct_def deleted_object_def new_file_data_def split: if_splits)
  have l: "fd_sha256 (check_link v f) = fd_sha256 f" for f by (simp add: check_link_def Let_def split: option.split)
  have c: "fd_sha256 (fst (check_file dg max_diff v check_diff f db)) = fd_sha256 f"
    if "\<not> fd_content_checked (fst (check_file dg max_diff v check_diff f db))" for f
    using that by (auto simp: check_file_def Let_def split: if_splits prod.splits)
  from assms(1,3) s have "fd_sha256 fd = junk"
    using c l by (auto simp: construct_def Let_def new_file_data_def rbind_Inr_iff split: if_splits prod.splits)
      (metis file_data.select_convs(8) fst_conv)+
  then show ?thesis by (simp add: fd_digest_def)
qed

end
