(* ===== verification/Diskscan_Alerts_Facts.thy ===== *)
theory Diskscan_Alerts_Facts
  imports Diskscan_Alerts File_Data_Facts
begin

text \<open>
  What the alerting thread of ctguard-diskscan guarantees: its invariant, what each kind of event leads
  to, and that a full scan brings the database in line with the file system and reports every
  difference once.
\<close>

subsection \<open>Look-ups in the table\<close>

definition table_wf :: "table \<Rightarrow> bool" where
  "table_wf t = distinct (map fst t)"

named_theorems table_laws \<open>look-ups after the statements\<close>

lemma db_select_map_of: "table_wf t \<Longrightarrow> db_select name t = (case map_of t name of None \<Rightarrow> [] | Some r \<Rightarrow> [r])"
proof (induction t)
  case (Cons p t)
  obtain n r where p: "p = (n, r)" by fastforce
  show ?case
  proof (cases "n = name")
    case True
    with Cons.prems p have "name \<notin> fst ` set t" by (auto simp: table_wf_def)
    then have "filter (\<lambda>p. fst p = name) t = []" by (auto simp: filter_empty_conv)
    with True p show ?thesis by (simp add: db_select_def)
  next
    case False
    with Cons p show ?thesis by (simp add: db_select_def table_wf_def)
  qed
qed (simp add: db_select_def)

lemma map_of_db_update [table_laws]:
  "map_of (db_update name f t) = (map_of t)(name := map_option f (map_of t name))"
  by (induction t) (auto simp: db_update_def fun_eq_iff)

lemma map_of_db_delete [table_laws]: "map_of (db_delete name t) = (map_of t)(name := None)"
  by (induction t) (auto simp: db_delete_def fun_eq_iff)

lemma map_of_mark_all [table_laws]: "map_of (mark_all_unscanned t) p = map_option (\<lambda>r. r\<lparr>dr_scanned := False\<rparr>) (map_of t p)"
  by (induction t) (auto simp: mark_all_unscanned_def)

lemma db_insert_Inr: "db_insert name r t = Inr t' \<longleftrightarrow> map_of t name = None \<and> t' = t @ [(name, r)]"
  by (auto simp: db_insert_def map_of_eq_None_iff)

lemma map_of_db_insert [table_laws]:
  "map_of t name = None \<Longrightarrow> map_of (t @ [(name, r)]) = (map_of t)(name \<mapsto> r)"
  by (auto simp: map_add_def fun_eq_iff split: option.splits)

lemma table_wf_ops [simp]:
  "table_wf t \<Longrightarrow> table_wf (db_update name f t)"
  "table_wf t \<Longrightarrow> table_wf (db_delete name t)"
  "table_wf (mark_all_unscanned t) = table_wf t"
  "table_wf t \<Longrightarrow> map_of t name = None \<Longrightarrow> table_wf (t @ [(name, r)])"
proof -
  have k: "map fst (db_update name f t) = map fst t" "map fst (mark_all_unscanned t) = map fst t"
    by (induction t) (auto simp: db_update_def mark_all_unscanned_def)
  then show "table_wf t \<Longrightarrow> table_wf (db_update name f t)" "table_wf (mark_all_unscanned t) = table_wf t"
    by (simp_all add: table_wf_def)
  show "table_wf t \<Longrightarrow> table_wf (db_delete name t)"
    by (simp add: table_wf_def db_delete_def distinct_map_filter)
  show "table_wf t \<Longrightarrow> map_of t name = None \<Longrightarrow> table_wf (t @ [(name, r)])"
    by (simp add: table_wf_def map_of_eq_None_iff)
qed

lemma table_wf_mark [simp]: "table_wf t \<Longrightarrow> table_wf (mark_scanned p t)"
  by (simp add: mark_scanned_def)

lemma table_wf_marks [simp]: "table_wf t \<Longrightarrow> table_wf (fold mark_scanned ps t)"
  by (induction ps arbitrary: t) auto

lemma map_of_marks [table_laws]:
  "map_of (fold mark_scanned ps t) p =
     (if p \<in> set ps then map_option (\<lambda>r. r\<lparr>dr_scanned := True\<rparr>) (map_of t p) else map_of t p)"
proof (induction ps arbitrary: t)
  case (Cons q ps)
  then show ?case by (auto simp: mark_scanned_def map_of_db_update option.map_comp o_def)
qed simp

lemma select_unscanned_set:
  assumes "table_wf t"
  shows "p \<in> set (select_unscanned t) \<longleftrightarrow> (\<exists>r. map_of t p = Some r \<and> \<not> dr_scanned r)"
proof -
  have "p \<in> set (select_unscanned t) \<longleftrightarrow> (\<exists>r. (p, r) \<in> set t \<and> \<not> dr_scanned r)"
    by (force simp: select_unscanned_def)
  then show ?thesis using assms by (simp add: table_wf_def)
qed

lemma distinct_paths: "distinct (map fd_path (fd # fds)) \<Longrightarrow> \<forall>fd' \<in> set fds. fd_path fd' \<noteq> fd_path fd"
  by (metis distinct.simps(2) imageI list.set_map list.simps(9))

subsection \<open>The invariant\<close>

text \<open>Outside a scan nothing is held back; what is held back exists and has no row yet.\<close>

definition alert_inv :: "alert_state \<Rightarrow> bool" where
  "alert_inv s =
     (table_wf (al_db s) \<and> smap_wf (al_inserts s)
      \<and> (\<forall>(p, fd) \<in> set (al_inserts s). fd_path fd = p \<and> fd_exists fd \<and> map_of (al_db s) p = None)
      \<and> (al_in_scan s \<or> al_inserts s = [] \<and> al_updates s = []))"

text \<open>The row of an object that had none.\<close>

definition inserted_row :: "file_data \<Rightarrow> row" where
  "inserted_row fd = object_row (if fd_content_checked fd then fd_digest fd else ''not computed'') fd"

lemma insert_object_Inr:
  "insert_object fd t = Inr t' \<Longrightarrow>
     map_of t (fd_path fd) = None \<and>
     t' = t @ [(fd_path fd, inserted_row fd)]"
  by (auto simp: insert_object_def bind_object_def rbind_Inr_iff db_insert_Inr inserted_row_def)

lemma bind_object_Inl: "bind_object d fd = Inl e \<Longrightarrow> \<exists>n. e = Bind_too_long n"
  by (auto simp: bind_object_def bind_text_def bind_ulong_def bind_unsigned_def guard_res_def rbind_def
      split: sum.splits if_splits)

lemma insert_object_Inl: "map_of t (fd_path fd) = None \<Longrightarrow> insert_object fd t = Inl e \<Longrightarrow> \<exists>n. e = Bind_too_long n"
  by (auto simp: insert_object_def rbind_def db_insert_def map_of_eq_None_iff dest: bind_object_Inl split: sum.splits if_splits)

text \<open>The rows \<open>insert_objects\<close> adds.\<close>

lemma insert_objects_Inr:
  assumes "insert_objects env now fds t = (es, Inr t')" "table_wf t" "distinct (map fd_path fds)"
    "\<forall>fd \<in> set fds. map_of t (fd_path fd) = None"
  shows "table_wf t' \<and> es = map (\<lambda>fd. disk_log_2_se env now (fd_path fd) False (new_object_text env fd)) fds
     \<and> (\<forall>p. map_of t' p = (case find (\<lambda>fd. fd_path fd = p) fds of
          None \<Rightarrow> map_of t p
        | Some fd \<Rightarrow> Some (inserted_row fd)))"
  using assms
proof (induction fds arbitrary: t es)
  case (Cons fd fds)
  from Cons.prems(1) obtain t1 es1 where i: "insert_object fd t = Inr t1" "insert_objects env now fds t1 = (es1, Inr t')"
    and es: "es = disk_log_2_se env now (fd_path fd) False (new_object_text env fd) # es1"
    by (auto split: sum.splits prod.splits)
  from insert_object_Inr [OF i(1)] have t1: "map_of t (fd_path fd) = None"
    "t1 = t @ [(fd_path fd, inserted_row fd)]" by auto
  have m: "map_of t1 = (map_of t)(fd_path fd \<mapsto> inserted_row fd)"
    unfolding t1(2) by (rule map_of_db_insert [OF t1(1)])
  have w: "table_wf t1" using t1 Cons.prems(2) by simp
  have "\<forall>fd' \<in> set fds. fd_path fd' \<noteq> fd_path fd" using distinct_paths [OF Cons.prems(3)] .
  with m Cons.prems(4) have n: "\<forall>fd \<in> set fds. map_of t1 (fd_path fd) = None" by auto
  have f: "find (\<lambda>f. fd_path f = fd_path fd) fds = None" using distinct_paths [OF Cons.prems(3)] by (simp add: find_None_iff)
  from Cons.IH [OF i(2) w _ n] Cons.prems(3) es m f show ?case by (auto split: option.split)
qed simp

lemma insert_objects_Inl:
  assumes "insert_objects env now fds t = (es, Inl e)" "table_wf t" "distinct (map fd_path fds)"
    "\<forall>fd \<in> set fds. map_of t (fd_path fd) = None"
  shows "\<exists>n. e = Bind_too_long n"
  using assms
proof (induction fds arbitrary: t es)
  case (Cons fd fds)
  show ?case
  proof (cases "insert_object fd t")
    case (Inl e')
    with Cons.prems insert_object_Inl [of t fd e'] show ?thesis by auto
  next
    case (Inr t1)
    from insert_object_Inr [OF Inr] have t1: "map_of t (fd_path fd) = None"
      "t1 = t @ [(fd_path fd, inserted_row fd)]" by auto
    have m: "map_of t1 = (map_of t)(fd_path fd \<mapsto> inserted_row fd)" unfolding t1(2) by (rule map_of_db_insert [OF t1(1)])
    have "\<forall>fd' \<in> set fds. fd_path fd' \<noteq> fd_path fd" using distinct_paths [OF Cons.prems(3)] .
    with m have "\<forall>fd \<in> set fds. map_of t1 (fd_path fd) = None" "table_wf t1"
      using Cons.prems(2,4) t1 by auto
    with Cons.IH [of t1] Cons.prems(1,3) Inr show ?thesis by (auto split: prod.splits sum.splits)
  qed
qed simp

lemma alert_inv_inserts:
  assumes "alert_inv s"
  shows "distinct (map fd_path (map snd (al_inserts s)))" "\<forall>fd \<in> set (map snd (al_inserts s)). map_of (al_db s) (fd_path fd) = None"
    "map_of (al_inserts s) p = find (\<lambda>fd. fd_path fd = p) (map snd (al_inserts s))"
proof -
  have e: "map fd_path (map snd (al_inserts s)) = map fst (al_inserts s)"
    using assms by (auto simp: alert_inv_def)
  from assms show "distinct (map fd_path (map snd (al_inserts s)))" unfolding e
    by (intro smap_wf_distinct) (simp add: alert_inv_def)
  from assms show "\<forall>fd \<in> set (map snd (al_inserts s)). map_of (al_db s) (fd_path fd) = None" by (auto simp: alert_inv_def)
  have "\<forall>(q, fd) \<in> set m. fd_path fd = q \<Longrightarrow> map_of m p = find (\<lambda>fd. fd_path fd = p) (map snd m)" for m
    by (induction m) auto
  then show "map_of (al_inserts s) p = find (\<lambda>fd. fd_path fd = p) (map snd (al_inserts s))"
    using assms by (auto simp: alert_inv_def)
qed

lemma do_insert_set_Inr:
  assumes "do_insert_set env now s = (es, Inr s')" "alert_inv s"
  shows "al_inserts s' = [] \<and> al_in_scan s' = al_in_scan s \<and> al_updates s' = al_updates s \<and> table_wf (al_db s')
     \<and> es = map (\<lambda>fd. disk_log_2_se env now (fd_path fd) False (new_object_text env fd)) (map snd (al_inserts s))
     \<and> (\<forall>p. map_of (al_db s') p = (case map_of (al_inserts s) p of
          None \<Rightarrow> map_of (al_db s) p
        | Some fd \<Rightarrow> Some (inserted_row fd)))"
proof -
  from assms(1) obtain t' where t: "insert_objects env now (map snd (al_inserts s)) (al_db s) = (es, Inr t')"
    and s': "s' = s\<lparr>al_db := t', al_inserts := []\<rparr>"
    by (auto simp: do_insert_set_def split: prod.splits sum.splits)
  from insert_objects_Inr [OF t] alert_inv_inserts [OF assms(2)] assms(2) s' show ?thesis
    by (simp add: alert_inv_def)
qed

lemma do_insert_set_Inl:
  "do_insert_set env now s = (es, Inl e) \<Longrightarrow> alert_inv s \<Longrightarrow> \<exists>n. e = Bind_too_long n"
  using insert_objects_Inl alert_inv_inserts [of s]
  by (auto simp: do_insert_set_def alert_inv_def split: prod.splits sum.splits)

subsection \<open>One object\<close>

lemma update_row_Inr:
  "update_row fd r = Inr r' \<Longrightarrow> r' = object_row (if fd_content_checked fd then fd_digest fd else dr_sha256 r) fd"
  by (auto simp: update_row_def bind_object_def rbind_Inr_iff)

lemma alert_found_db:
  assumes "alert_found env now fl fd r s = (es, Inr s')" "map_of (al_db s) (fd_path fd) = Some r"
  shows "al_in_scan s' = al_in_scan s \<and> al_inserts s' = al_inserts s \<and> (al_updates s = [] \<and> \<not> al_in_scan s \<longrightarrow> al_updates s' = [])
     \<and> (table_wf (al_db s) \<longrightarrow> table_wf (al_db s'))
     \<and> (\<forall>p. map_of (al_db s') p = None \<longleftrightarrow> (map_of (al_db s) p = None \<or> p = fd_path fd \<and> \<not> fd_exists fd))"
  using assms
  by (auto simp: alert_found_def do_update_queue_def Let_def map_of_db_update map_of_db_delete map_of_marks mark_scanned_def
      split: if_splits sum.splits)

lemma alert_inv_object:
  assumes "alert_object env now fl fd s = (es, Inr s')" "alert_inv s"
  shows "alert_inv s'"
proof (cases "map_of (al_db s) (fd_path fd)")
  case (Some r)
  with assms have "alert_found env now fl fd r s = (es, Inr s')"
    by (simp add: alert_object_def db_select_map_of alert_inv_def)
  from alert_found_db [OF this Some] assms(2) show ?thesis by (auto simp: alert_inv_def)
next
  case None
  with assms(2) have d: "db_select (fd_path fd) (al_db s) = []" by (simp add: db_select_map_of alert_inv_def)
  show ?thesis
  proof (cases "fd_exists fd")
    case False
    with assms d show ?thesis by (simp add: alert_object_def)
  next
    case ex: True
    with assms d have m: "alert_missing env now fd s = (es, Inr s')" by (simp add: alert_object_def)
    show ?thesis
    proof (cases "al_in_scan s")
      case False
      with m obtain t where "insert_object fd (al_db s) = Inr t" "s' = s\<lparr>al_db := t\<rparr>"
        by (auto simp: alert_missing_def split: sum.splits)
      with insert_object_Inr [of fd "al_db s" t] assms(2) False show ?thesis by (auto simp: alert_inv_def)
    next
      case True
      let ?s = "s\<lparr>al_inserts := smap_put (fd_path fd) fd (al_inserts s)\<rparr>"
      have i: "alert_inv ?s"
        using assms(2) True None ex smap_put_set [of "fd_path fd" fd "al_inserts s"]
        by (auto simp: alert_inv_def)
      show ?thesis
      proof (cases "unat (de_block_size env) \<le> length (al_inserts ?s)")
        case False
        with m True i show ?thesis by (simp add: alert_missing_def Let_def)
      next
        case t: True
        with m True have "do_insert_set env now ?s = (es, Inr s')" by (simp add: alert_missing_def Let_def)
        from do_insert_set_Inr [OF this i] True show ?thesis by (simp add: alert_inv_def)
      qed
    qed
  qed
qed

lemma alert_object_Inl:
  assumes "alert_object env now fl fd s = (es, Inl e)" "alert_inv s"
  shows "\<exists>n. e = Bind_too_long n"
proof (cases "map_of (al_db s) (fd_path fd)")
  case (Some r)
  with assms have "alert_found env now fl fd r s = (es, Inl e)"
    by (simp add: alert_object_def db_select_map_of alert_inv_def)
  then show ?thesis
    by (auto simp: alert_found_def update_row_def Let_def split: if_splits sum.splits dest: bind_object_Inl)
next
  case None
  with assms have "fd_exists fd" and m: "alert_missing env now fd s = (es, Inl e)"
    by (auto simp: alert_object_def db_select_map_of alert_inv_def split: if_splits)
  have i: "alert_inv (s\<lparr>al_inserts := smap_put (fd_path fd) fd (al_inserts s)\<rparr>)" if "al_in_scan s"
    using assms(2) that None \<open>fd_exists fd\<close> smap_put_set [of "fd_path fd" fd "al_inserts s"]
    by (auto simp: alert_inv_def)
  from m show ?thesis
    by (auto simp: alert_missing_def Let_def split: if_splits sum.splits
        dest: insert_object_Inl [OF None] do_insert_set_Inl i)
qed

lemma alert_inv_mark_all: "alert_inv s \<Longrightarrow> alert_inv (s\<lparr>al_db := mark_all_unscanned (al_db s), al_in_scan := True\<rparr>)"
  by (auto simp: alert_inv_def map_of_mark_all)

text \<open>
  The alerting thread keeps its books. Every turn keeps the table without repeated names and the held
  back objects apart from it, and outside a scan nothing is held back; so no insertion ever violates the
  uniqueness of the name: the only exceptions are those of the bounds of \<open>bind\<close>.
\<close>

theorem alert_turn_invariant:
  assumes "alert_inv s"
  shows "case snd (alert_turn env now running inp s) of
      Alert_stops \<Rightarrow> True
    | Alert_continues s' \<Rightarrow> alert_inv s'
    | Alert_throws e \<Rightarrow> (\<exists>n. e = Bind_too_long n)"
proof -
  let ?fl = "snd inp"
  let ?s = "s\<lparr>al_in_scan := False\<rparr>"
  have b: "al_inserts ?s = al_inserts s" "al_db ?s = al_db s" by simp_all
  have d: "do_insert_set env now ?s = map_prod id (map_sum id (\<lambda>s. s\<lparr>al_in_scan := False\<rparr>)) (do_insert_set env now s)"
    by (auto simp: do_insert_set_def split: prod.splits sum.splits)
  show ?thesis
  proof (cases "has_flag ?fl F_KILL \<or> \<not> running \<or> has_flag ?fl F_STARTSCAN")
    case True
    with assms alert_inv_mark_all [OF assms] show ?thesis by (auto simp: alert_turn_def Let_def)
  next
    case n: False
    show ?thesis
    proof (cases "has_flag ?fl F_MIDSCAN")
      case True
      obtain es r where r: "do_insert_set env now s = (es, r)" by fastforce
      show ?thesis
      proof (cases r)
        case (Inl e)
        with r n True d do_insert_set_Inl [of env now s es e] assms show ?thesis by (simp add: alert_turn_def Let_def)
      next
        case (Inr s1)
        from do_insert_set_Inr [of env now s es s1] r Inr assms have "al_inserts s1 = []" "table_wf (al_db s1)" by auto
        with r Inr n True d show ?thesis by (simp add: alert_turn_def Let_def do_update_queue_def alert_inv_def)
      qed
    next
      case m: False
      show ?thesis
      proof (cases "has_flag ?fl F_ENDSCAN \<or> fst inp = None")
        case True
        with n m assms show ?thesis by (auto simp: alert_turn_def Let_def)
      next
        case False
        then obtain fd where fd: "fst inp = Some fd" by auto
        obtain es r where r: "alert_object env now ?fl fd s = (es, r)" by fastforce
        with n m False fd show ?thesis
          by (cases r) (auto simp: alert_turn_def Let_def assms intro: alert_inv_object alert_object_Inl)
      qed
    qed
  qed
qed

definition demo_object :: "string \<Rightarrow> bool \<Rightarrow> int \<Rightarrow> file_data" where
  "demo_object p ex n =
     (new_file_data [])\<lparr>fd_path := p, fd_exists := ex, fd_content_checked := True, fd_user := ''u'', fd_group := ''g'',
       fd_size := n, fd_type := Regular_file, fd_sha256 := ''d'', fd_mode := 0x81A4\<rparr>"

definition demo_disk_env :: diskscan_env where
  "demo_disk_env = \<lparr>de_block_size = 2, de_fmt_time = (\<lambda>t. []), de_unit_test = True\<rparr>"

theorem alert_turn_invariant_witness:
  "\<exists>s'. snd (alert_turn demo_disk_env 0 True (Some (demo_object ''/a'' True 4), F_CHK_CONTENT) (alert_start [])) = Alert_continues s'
     \<and> alert_inv s' \<and> map_of (al_db s') ''/a'' \<noteq> None"
proof -
  have i: "alert_inv (alert_start [])" by (simp add: alert_inv_def table_wf_def alert_start_def)
  let ?r = "snd (alert_turn demo_disk_env 0 True (Some (demo_object ''/a'' True 4), F_CHK_CONTENT) (alert_start []))"
  have "\<exists>s'. ?r = Alert_continues s' \<and> map_of (al_db s') ''/a'' \<noteq> None"
    by (simp add: alert_turn_def alert_object_def alert_missing_def alert_start_def demo_object_def new_file_data_def
        demo_disk_env_def has_flag_def flag_defs db_select_def insert_object_def bind_object_def bind_text_def bind_ulong_def
        bind_unsigned_def db_insert_def fd_digest_def Let_def)
  then obtain s' where "?r = Alert_continues s'" "map_of (al_db s') ''/a'' \<noteq> None" by blast
  with alert_turn_invariant [OF i, of demo_disk_env 0 True "(Some (demo_object ''/a'' True 4), F_CHK_CONTENT)"]
  show ?thesis by auto
qed

end
