(* ===== verification/Diskscan_Full_Scan.thy ===== *)
theory Diskscan_Full_Scan
  imports Diskscan_Alerts_Facts
begin

text \<open>
  A full scan of ctguard-diskscan, as the alerting thread sees it: the mark of the start, the objects found,
  the mark of the middle, the objects of the rows not seen (which the thread asks for itself), and the mark
  of the end. On a file system that stays as it is during the scan, it brings every row in line and reports
  every difference exactly once.
\<close>

subsection \<open>Runs of the alerting thread\<close>

text \<open>The elements taken, each with the time of the turn.\<close>

fun alert_run :: "diskscan_env \<Rightarrow> (int \<times> file_data option \<times> flags) list \<Rightarrow> alert_state \<Rightarrow> alert_output \<times> alert_result" where
  "alert_run env [] s = (no_output, Alert_continues s)"
| "alert_run env ((now, inp) # inps) s =
     (case alert_turn env now True inp s of
        (out, Alert_continues s') \<Rightarrow>
          (case alert_run env inps s' of
             (out', r) \<Rightarrow>
               (\<lparr>ao_alerts = ao_alerts out @ ao_alerts out', ao_events = ao_events out @ ao_events out',
                 ao_scan_done = (ao_scan_done out \<or> ao_scan_done out')\<rparr>, r))
      | (out, r) \<Rightarrow> (out, r))"

text \<open>What the thread between makes of the events, when the file system is \<open>fs\<close>.\<close>

definition scan_inputs :: "(string \<Rightarrow> file_data) \<Rightarrow> (string \<times> flags) list \<Rightarrow> (file_data option \<times> flags) list" where
  "scan_inputs fs events = map (\<lambda>(p, fl). (if has_flag fl F_SPECIAL then None else Some (fs p), fl)) events"

subsection \<open>What a scan should lead to\<close>

text \<open>The row of a path after the scan and the reports on it, given whether the scan found it, the object
  and the row before.\<close>

definition synced_row :: "bool \<Rightarrow> file_data \<Rightarrow> row option \<Rightarrow> row option" where
  "synced_row found fd old =
     (case old of
        None \<Rightarrow> if found \<and> fd_exists fd then Some (inserted_row fd) else None
      | Some r \<Rightarrow>
          if \<not> fd_exists fd then None
          else if row_differs r fd then Some (object_row (if fd_content_checked fd then fd_digest fd else dr_sha256 r) fd)
          else Some (r\<lparr>dr_scanned := True\<rparr>))"

definition due_reports :: "diskscan_env \<Rightarrow> bool \<Rightarrow> file_data \<Rightarrow> row option \<Rightarrow> string list" where
  "due_reports env found fd old =
     (case old of
        None \<Rightarrow> if found \<and> fd_exists fd then [new_object_text env fd] else []
      | Some r \<Rightarrow>
          if \<not> fd_exists fd then [deleted_object_text r fd]
          else if row_differs r fd then [changed_object_text env r fd] else [])"

definition sent_text :: "diskscan_env \<Rightarrow> string \<Rightarrow> string" where
  "sent_text env m = (if de_unit_test env then map (\<lambda>c. if c = newline then CHR '' '' else c) m else m)"

definition reports :: "string \<Rightarrow> source_event list \<Rightarrow> string list" where
  "reports p es = map se_message (filter (\<lambda>e. se_source_domain e = p) es)"

lemma reports_simps [simp]:
  "reports p [] = []" "reports p (es @ fs) = reports p es @ reports p fs"
  "reports p (disk_log_2_se env now q c m # es) = (if q = p then [sent_text env m] else []) @ reports p es"
  by (simp_all add: reports_def disk_log_2_se_def sent_text_def)

text \<open>Objects that can be stored, and whose digest is a C string.\<close>

definition storable :: "file_data \<Rightarrow> bool" where
  "storable fd =
     (length (fd_path fd) < 2147483647 \<and> length (fd_user fd) < 2147483647 \<and> length (fd_group fd) < 2147483647
      \<and> length (fd_target fd) < 2147483647 \<and> uint (fd_inode fd) < 9223372036854775807 \<and> uint (fd_mode fd) < 2147483647
      \<and> c_str (fd_digest fd) = fd_digest fd)"

lemma c_str_length: "length (c_str s) \<le> length s"
  by (simp add: c_str_def length_takeWhile_le)

lemma bind_storable: "storable fd \<Longrightarrow> length d < 2147483647 \<Longrightarrow> bind_object d fd = Inr (object_row d fd)"
  by (simp add: storable_def bind_object_def bind_text_def bind_ulong_def bind_unsigned_def guard_res_def)

lemma digest_short: "length (fd_digest fd) \<le> 64"
  by (simp add: fd_digest_def)

lemma inserted_digest_short: "length (if fd_content_checked fd then fd_digest fd else ''not computed'') < 2147483647"
  using digest_short [of fd] by simp

lemma insert_storable:
  "storable fd \<Longrightarrow> map_of t (fd_path fd) = None \<Longrightarrow> insert_object fd t = Inr (t @ [(fd_path fd, inserted_row fd)])"
  using inserted_digest_short [of fd]
  by (simp add: insert_object_def bind_storable db_insert_def inserted_row_def map_of_eq_None_iff)

text \<open>A row made from an object agrees with it.\<close>

lemma object_row_agrees: "storable fd \<Longrightarrow> \<not> row_differs (object_row (if fd_content_checked fd then fd_digest fd else d) fd) fd"
  by (simp add: row_differs_def object_row_def digest_differs_def target_differs_def storable_def)

lemma checked_row_agrees: "storable fd \<Longrightarrow> fd_content_checked fd \<Longrightarrow> \<not> row_differs (object_row (fd_digest fd) fd) fd"
  using object_row_agrees [of fd d] by simp

lemma unchecked_row_agrees: "storable fd \<Longrightarrow> \<not> fd_content_checked fd \<Longrightarrow> \<not> row_differs (object_row d fd) fd"
  using object_row_agrees [of fd d] by simp

lemma inserted_row_agrees: "storable fd \<Longrightarrow> \<not> row_differs (inserted_row fd) fd"
  by (simp add: inserted_row_def object_row_agrees)

lemma row_differs_scanned [simp]: "row_differs (r\<lparr>dr_scanned := b\<rparr>) fd = row_differs r fd"
  by (simp add: row_differs_def digest_differs_def target_differs_def)

lemma texts_scanned [simp]:
  "changed_object_text env (r\<lparr>dr_scanned := b\<rparr>) fd = changed_object_text env r fd"
  "deleted_object_text (r\<lparr>dr_scanned := b\<rparr>) fd = deleted_object_text r fd"
  by (cases r; simp only: changed_object_text_def deleted_object_text_def digest_differs_def target_differs_def row.simps)+

lemma object_row_scanned [simp]: "object_row d fd\<lparr>dr_scanned := True\<rparr> = object_row d fd" "dr_scanned (object_row d fd)"
  by (simp_all add: object_row_def)

lemma inserted_row_scanned [simp]: "inserted_row fd\<lparr>dr_scanned := True\<rparr> = inserted_row fd" "dr_scanned (inserted_row fd)"
  by (simp_all add: inserted_row_def)

subsection \<open>The invariant of a scan\<close>

text \<open>Where a path is: not yet looked at (its row is the old one, marked), or done. \<open>old\<close> is the table before
  the scan, \<open>done\<close> the paths looked at, \<open>rep\<close> the reports on the path.\<close>

definition path_ok :: "diskscan_env \<Rightarrow> (string \<Rightarrow> file_data) \<Rightarrow> table \<Rightarrow> string set \<Rightarrow> alert_state \<Rightarrow> source_event list \<Rightarrow> string \<Rightarrow> bool" where
  "path_ok env fs old seen s es p =
     (if p \<notin> seen then
        map_of (al_db s) p = map_option (\<lambda>r. r\<lparr>dr_scanned := False\<rparr>) (map_of old p) \<and> map_of (al_inserts s) p = None
        \<and> reports p es = [] \<and> p \<notin> set (al_updates s)
      else if map_of old p = None \<and> fd_exists (fs p) \<and> map_of (al_inserts s) p \<noteq> None then
        map_of (al_inserts s) p = Some (fs p) \<and> map_of (al_db s) p = None \<and> reports p es = []
      else
        map_of (al_inserts s) p = None \<and> reports p es = map (sent_text env) (due_reports env True (fs p) (map_of old p))
        \<and> (map_of (al_db s) p = synced_row True (fs p) (map_of old p)
           \<or> (p \<in> set (al_updates s) \<and> map_option (\<lambda>r. r\<lparr>dr_scanned := True\<rparr>) (map_of (al_db s) p) = synced_row True (fs p) (map_of old p))))"

lemma synced_scanned: "synced_row found fd old = Some r \<Longrightarrow> dr_scanned r \<and> r\<lparr>dr_scanned := True\<rparr> = r"
  by (auto simp: synced_row_def split: option.splits if_splits)

lemma synced_agrees:
  "storable fd \<Longrightarrow> synced_row found fd old = Some r \<Longrightarrow> fd_exists fd \<and> \<not> row_differs r fd"
  by (auto simp: synced_row_def inserted_row_agrees checked_row_agrees unchecked_row_agrees split: option.splits if_splits)

lemma reports_inserted:
  "distinct (map fd_path fds) \<Longrightarrow>
   reports q (map (\<lambda>fd. disk_log_2_se env now (fd_path fd) False (new_object_text env fd)) fds) =
     (case find (\<lambda>fd. fd_path fd = q) fds of None \<Rightarrow> [] | Some fd \<Rightarrow> [sent_text env (new_object_text env fd)])"
proof (induction fds)
  case (Cons fd fds)
  have "find (\<lambda>f. fd_path f = fd_path fd) fds = None"
    using distinct_paths [OF Cons.prems] by (simp add: find_None_iff)
  with Cons show ?case by auto
qed simp

lemma path_ok_other:
  assumes "p \<noteq> q" "map_of (al_db s') q = map_of (al_db s) q" "map_of (al_inserts s') q = map_of (al_inserts s) q"
    "q \<in> set (al_updates s') \<longleftrightarrow> q \<in> set (al_updates s)" "reports q es' = []" "path_ok env fs old seen s es q"
  shows "path_ok env fs old (insert p seen) s' (es @ es') q"
proof -
  have "(q \<in> insert p seen) = (q \<in> seen)" using assms(1) by simp
  with assms(6) show ?thesis unfolding path_ok_def reports_simps assms(2-5) append_Nil2 by simp
qed

lemma insert_objects_storable:
  assumes "\<forall>fd \<in> set fds. storable fd" "\<forall>fd \<in> set fds. map_of t (fd_path fd) = None" "distinct (map fd_path fds)"
  shows "\<exists>es t'. insert_objects env now fds t = (es, Inr t')"
  using assms
proof (induction fds arbitrary: t)
  case (Cons fd fds)
  let ?t = "t @ [(fd_path fd, inserted_row fd)]"
  have i: "insert_object fd t = Inr ?t" using Cons.prems(1,2) by (simp add: insert_storable)
  have m: "map_of ?t = (map_of t)(fd_path fd \<mapsto> inserted_row fd)" using Cons.prems(2) by (simp only: map_of_db_insert list.set_intros)
  have "\<forall>fd' \<in> set fds. map_of ?t (fd_path fd') = None"
    unfolding m using Cons.prems(2) distinct_paths [OF Cons.prems(3)] by simp
  from Cons.IH [OF _ this] Cons.prems(1,3) i show ?case by auto
qed simp

lemma do_insert_set_storable:
  assumes "alert_inv s" "\<forall>q. path_ok env fs old seen s es q" "\<forall>q. fd_exists (fs q) \<longrightarrow> storable (fs q)"
  shows "\<exists>es' s'. do_insert_set env now s = (es', Inr s')"
proof -
  have "storable fd" if "fd \<in> set (map snd (al_inserts s))" for fd
  proof -
    from that obtain p where p: "(p, fd) \<in> set (al_inserts s)" by auto
    with assms(1) have "map_of (al_inserts s) p = Some fd" by (auto simp: alert_inv_def dest: smap_wf_distinct)
    with assms(2) have "fd = fs p" by (auto simp: path_ok_def dest!: spec [of _ p] split: if_splits)
    with p assms(1,3) show ?thesis by (auto simp: alert_inv_def)
  qed
  with insert_objects_storable [of "map snd (al_inserts s)" "al_db s" env now] alert_inv_inserts [OF assms(1)]
  show ?thesis by (auto simp: do_insert_set_def)
qed

lemma path_ok_flush:
  assumes "do_insert_set env now s = (es', Inr s')" "alert_inv s" "path_ok env fs old seen s es q"
  shows "path_ok env fs old seen s' (es @ es') q"
proof -
  note d = do_insert_set_Inr [OF assms(1,2)]
  have r: "reports q es' = (case map_of (al_inserts s) q of None \<Rightarrow> [] | Some fd \<Rightarrow> [sent_text env (new_object_text env fd)])"
    using d reports_inserted [OF alert_inv_inserts(1) [OF assms(2)]] alert_inv_inserts(3) [OF assms(2)] by simp
  show ?thesis
  proof (cases "map_of (al_inserts s) q")
    case None
    with r d assms(3) show ?thesis by (simp add: path_ok_def)
  next
    case (Some fd)
    with assms(3) have "q \<in> seen" "map_of old q = None" "fd_exists (fs q)" "fd = fs q" "reports q es = []"
      by (auto simp: path_ok_def split: if_splits)
    with r d Some show ?thesis by (simp add: path_ok_def due_reports_def synced_row_def)
  qed
qed

lemma path_ok_updates:
  assumes "path_ok env fs old seen s es q"
  shows "path_ok env fs old seen (do_update_queue s) es q"
proof -
  let ?mark = "map_option (\<lambda>r. r\<lparr>dr_scanned := True\<rparr>)"
  have u: "al_updates (do_update_queue s) = []" "al_inserts (do_update_queue s) = al_inserts s"
    "map_of (al_db (do_update_queue s)) q = (if q \<in> set (al_updates s) then ?mark (map_of (al_db s) q) else map_of (al_db s) q)"
    by (simp_all add: do_update_queue_def map_of_marks)
  have "?mark (map_of (al_db s) q) = synced_row True (fs q) (map_of old q)"
    if "map_of (al_db s) q = synced_row True (fs q) (map_of old q)"
    unfolding that by (cases "synced_row True (fs q) (map_of old q)") (auto dest: synced_scanned)
  with assms show ?thesis
    unfolding path_ok_def u by (cases "q \<in> seen") (auto split: if_splits)
qed

text \<open>An object without a row.\<close>

lemma scan_step_missing:
  assumes "map_of (al_db s) p = None" "alert_inv s" "\<forall>q. path_ok env fs old seen s es q"
    "\<forall>q. fd_path (fs q) = q" "fd_exists (fs p) \<Longrightarrow> storable (fs p)"
    "\<forall>q. fd_exists (fs q) \<longrightarrow> storable (fs q)"
  shows "\<exists>es' s'. alert_object env now fl (fs p) s = (es', Inr s') \<and> al_in_scan s' = al_in_scan s
     \<and> (\<forall>q. path_ok env fs old (insert p seen) s' (es @ es') q)"
proof -
  have pp: "fd_path (fs p) = p" using assms(4) by blast
  have w: "table_wf (al_db s)" "smap_wf (al_inserts s)" using assms(2) by (auto simp: alert_inv_def)
  have d: "alert_object env now fl (fs p) s = (if fd_exists (fs p) then alert_missing env now (fs p) s else ([], Inr s))"
    using assms(1) w pp by (simp add: alert_object_def db_select_map_of)
  have pk: "path_ok env fs old seen s es p" using assms(3) by blast
  have old: "map_of old p = None" if "fd_exists (fs p)"
    using pk that assms(1) by (cases "p \<in> seen") (auto simp: path_ok_def synced_row_def split: if_splits option.splits)
  show ?thesis
  proof (cases "fd_exists (fs p)")
    case False
    have "path_ok env fs old (insert p seen) s (es @ []) q" for q
    proof (cases "q = p")
      case True
      with pk assms(1) False show ?thesis
        by (cases "p \<in> seen") (auto simp: path_ok_def synced_row_def due_reports_def split: option.splits)
    next
      case n: False
      with assms(3) show ?thesis by (intro path_ok_other) auto
    qed
    with d False show ?thesis by auto
  next
    case ex: True
    note st = assms(5) [OF ex]
    show ?thesis
    proof (cases "al_in_scan s")
      case False
      then have i: "al_inserts s = []" "al_updates s = []" using assms(2) by (auto simp: alert_inv_def)
      have ns: "p \<notin> seen"
        using pk ex old [OF ex] i assms(1) by (auto simp: path_ok_def synced_row_def)
      let ?s = "s\<lparr>al_db := al_db s @ [(p, inserted_row (fs p))]\<rparr>"
      have m: "map_of (al_db ?s) = (map_of (al_db s))(p \<mapsto> inserted_row (fs p))" using map_of_db_insert [OF assms(1)] by simp
      have r: "alert_object env now fl (fs p) s = ([disk_log_2_se env now p False (new_object_text env (fs p))], Inr ?s)"
        using d ex False insert_storable [OF st, of "al_db s"] pp assms(1) by (simp add: alert_missing_def)
      have "path_ok env fs old (insert p seen) ?s (es @ [disk_log_2_se env now p False (new_object_text env (fs p))]) q" for q
      proof (cases "q = p")
        case True
        with pk ns ex old m i show ?thesis by (simp add: path_ok_def synced_row_def due_reports_def)
      next
        case n: False
        with assms(3) m show ?thesis by (intro path_ok_other) auto
      qed
      with r show ?thesis by auto
    next
      case True
      let ?s = "s\<lparr>al_inserts := smap_put p (fs p) (al_inserts s)\<rparr>"
      have m: "map_of (al_inserts ?s) = (map_of (al_inserts s))(p \<mapsto> fs p)" using w by simp
      have i: "alert_inv ?s"
        using assms(1,2) True ex pp smap_put_set [of p "fs p" "al_inserts s"] by (auto simp: alert_inv_def)
      have k: "path_ok env fs old (insert p seen) ?s (es @ []) q" for q
      proof (cases "q = p")
        case True
        with pk ex old m assms(1) show ?thesis
          by (cases "p \<in> seen") (auto simp: path_ok_def synced_row_def split: if_splits)
      next
        case n: False
        with assms(3) m show ?thesis by (intro path_ok_other) auto
      qed
      show ?thesis
      proof (cases "unat (de_block_size env) \<le> length (al_inserts ?s)")
        case False
        then have "alert_object env now fl (fs p) s = ([], Inr ?s)" using d ex True pp by (simp add: alert_missing_def Let_def)
        with k show ?thesis by auto
      next
        case b: True
        then have o: "alert_object env now fl (fs p) s = do_insert_set env now ?s"
          using d ex True pp by (simp add: alert_missing_def Let_def)
        from do_insert_set_storable [OF i, of env fs old "insert p seen" "es @ []" now] k assms(6)
        obtain es' s' where r: "do_insert_set env now ?s = (es', Inr s')" by blast
        have "path_ok env fs old (insert p seen) s' ((es @ []) @ es') q" for q by (rule path_ok_flush [OF r i k])
        with do_insert_set_Inr [OF r i] r o show ?thesis by auto
      qed
    qed
  qed
qed

lemma alert_inv_pending:
  assumes "alert_inv s" "map_of (al_inserts s) p = Some fd"
  shows "map_of (al_db s) p = None \<and> fd_path fd = p \<and> fd_exists fd"
proof -
  from map_of_SomeD [OF assms(2)] assms(1) show ?thesis unfolding alert_inv_def by blast
qed

text \<open>An object with a row: where its path is in the scan.\<close>

lemma path_ok_row [consumes 4, case_names fresh seen]:
  assumes "path_ok env fs old seen s es p" "map_of (al_db s) p = Some r" "map_of (al_inserts s) p = None"
    "fd_exists (fs p) \<longrightarrow> storable (fs p)"
  obtains (fresh) r0 where "p \<notin> seen" "map_of old p = Some r0" "r = r0\<lparr>dr_scanned := False\<rparr>" "reports p es = []"
  | (seen) "p \<in> seen" "fd_exists (fs p)" "\<not> row_differs r (fs p)"
      "synced_row True (fs p) (map_of old p) = Some (r\<lparr>dr_scanned := True\<rparr>)"
      "reports p es = map (sent_text env) (due_reports env True (fs p) (map_of old p))"
proof (cases "p \<in> seen")
  case False
  with assms(1) have o: "map_of (al_db s) p = map_option (\<lambda>r. r\<lparr>dr_scanned := False\<rparr>) (map_of old p)" "reports p es = []"
    unfolding path_ok_def by simp_all
  with assms(2) obtain r0 where "map_of old p = Some r0" "r = r0\<lparr>dr_scanned := False\<rparr>" by (cases "map_of old p") auto
  with False o(2) that(1) show thesis by blast
next
  case True
  let ?y = "synced_row True (fs p) (map_of old p)"
  from assms(1,2,3) True have rp: "reports p es = map (sent_text env) (due_reports env True (fs p) (map_of old p))"
    and y: "?y = Some r \<or> ?y = Some (r\<lparr>dr_scanned := True\<rparr>)"
    by (auto simp: path_ok_def split: if_splits)
  from y have "?y = Some (r\<lparr>dr_scanned := True\<rparr>)"
  proof
    assume "?y = Some r"
    with synced_scanned [OF this] show ?thesis by simp
  qed
  then have yr: "?y = Some (r\<lparr>dr_scanned := True\<rparr>)" .
  then have ex: "fd_exists (fs p)" by (auto simp: synced_row_def split: option.splits if_splits)
  from synced_agrees [OF assms(4) [rule_format, OF ex] yr] have "\<not> row_differs r (fs p)" by simp
  with that(2) True ex yr rp show thesis by blast
qed

lemma path_ok_seen:
  assumes "p \<in> seen" "map_of (al_inserts s) p = None"
    "reports p es = map (sent_text env) (due_reports env True (fs p) (map_of old p))"
    "map_of (al_db s) p = synced_row True (fs p) (map_of old p)
     \<or> p \<in> set (al_updates s) \<and> map_option (\<lambda>r. r\<lparr>dr_scanned := True\<rparr>) (map_of (al_db s) p) = synced_row True (fs p) (map_of old p)"
  shows "path_ok env fs old seen s es p"
proof -
  have "path_ok env fs old seen s es p \<longleftrightarrow> reports p es = map (sent_text env) (due_reports env True (fs p) (map_of old p))
      \<and> (map_of (al_db s) p = synced_row True (fs p) (map_of old p)
     \<or> p \<in> set (al_updates s) \<and> map_option (\<lambda>r. r\<lparr>dr_scanned := True\<rparr>) (map_of (al_db s) p) = synced_row True (fs p) (map_of old p))"
    by (subst path_ok_def) (simp only: assms(1,2) not_True_eq_False if_False simp_thms)
  with assms(3,4) show ?thesis by blast
qed

lemma scan_step_found:
  assumes "map_of (al_db s) p = Some r" "alert_inv s" "\<forall>q. path_ok env fs old seen s es q"
    "\<forall>q. fd_path (fs q) = q" "\<forall>q. fd_exists (fs q) \<longrightarrow> storable (fs q)" "has_flag fl F_FORCE_UPDATE"
    "\<forall>r \<in> ran (map_of old). length (dr_sha256 r) \<le> 64"
  shows "\<exists>es' s'. alert_object env now fl (fs p) s = (es', Inr s') \<and> al_in_scan s' = al_in_scan s
     \<and> (\<forall>q. path_ok env fs old (insert p seen) s' (es @ es') q)"
proof -
  let ?p = "insert p seen"
  have pp: "fd_path (fs p) = p" using assms(4) by blast
  have w: "table_wf (al_db s)" using assms(2) by (simp add: alert_inv_def)
  have pend: "map_of (al_inserts s) p = None"
    using assms(1) alert_inv_pending [OF assms(2)] by (cases "map_of (al_inserts s) p") auto
  have d: "alert_object env now fl (fs p) s = alert_found env now fl (fs p) r s"
    using assms(1) w pp by (simp add: alert_object_def db_select_map_of)
  have pk: "path_ok env fs old seen s es p" using assms(3) by blast
  have st: "fd_exists (fs p) \<longrightarrow> storable (fs p)" using assms(5) by blast
  have others: "\<forall>q. q \<noteq> p \<longrightarrow> path_ok env fs old ?p s' (es @ es') q"
    if "\<forall>q. q \<noteq> p \<longrightarrow> map_of (al_db s') q = map_of (al_db s) q \<and> (q \<in> set (al_updates s')) = (q \<in> set (al_updates s)) \<and> reports q es' = []"
      "al_inserts s' = al_inserts s" for s' es'
    by (intro allI impI path_ok_other [where p = p and s = s]) (use that assms(3) in simp_all)
  have fin: "\<exists>es' s'. alert_object env now fl (fs p) s = (es', Inr s') \<and> al_in_scan s' = al_in_scan s
      \<and> (\<forall>q. path_ok env fs old ?p s' (es @ es') q)"
    if "alert_found env now fl (fs p) r s = (es', Inr s')" "path_ok env fs old ?p s' (es @ es') p"
      "\<forall>q. q \<noteq> p \<longrightarrow> path_ok env fs old ?p s' (es @ es') q" "al_in_scan s' = al_in_scan s" for es' s'
  proof (intro exI conjI)
    show "alert_object env now fl (fs p) s = (es', Inr s')" using d that(1) by simp
    show "\<forall>q. path_ok env fs old ?p s' (es @ es') q" using that(2,3) by metis
  qed (rule that(4))
  show ?thesis
  proof (cases "fd_exists (fs p) \<and> \<not> row_differs r (fs p)")
    case False
    then have fresh: "p \<notin> seen" and rp: "reports p es = []" and r0: "\<exists>r0. map_of old p = Some r0 \<and> r = r0\<lparr>dr_scanned := False\<rparr>"
      using path_ok_row [OF pk assms(1) pend st] by metis+
    then obtain r0 where r0: "map_of old p = Some r0" "r = r0\<lparr>dr_scanned := False\<rparr>" by auto
    show ?thesis
    proof (cases "fd_exists (fs p)")
      case nex: False
      let ?s = "s\<lparr>al_db := db_delete p (al_db s)\<rparr>" and ?e = "[disk_log_2_se env now p False (deleted_object_text r (fs p))]"
      have a: "alert_found env now fl (fs p) r s = (?e, Inr ?s)" using nex pp by (simp add: alert_found_def)
      have "path_ok env fs old ?p ?s (es @ ?e) p"
        by (rule path_ok_seen) (use nex r0 rp pend in \<open>simp_all add: due_reports_def synced_row_def map_of_db_delete\<close>)
      moreover have "\<forall>q. q \<noteq> p \<longrightarrow> path_ok env fs old ?p ?s (es @ ?e) q"
        by (rule others) (simp_all add: map_of_db_delete)
      ultimately show ?thesis by (rule fin [OF a]) simp
    next
      case ex: True
      with False have df: "row_differs r (fs p)" by simp
      let ?d = "if fd_content_checked (fs p) then fd_digest (fs p) else dr_sha256 r"
      let ?s = "s\<lparr>al_db := db_update p (\<lambda>_. object_row ?d (fs p)) (al_db s)\<rparr>"
        and ?e = "[disk_log_2_se env now p False (changed_object_text env r (fs p))]"
      have "length (dr_sha256 r) \<le> 64" using assms(7) r0 by (auto simp: ran_def)
      then have "length ?d < 2147483647" using digest_short [of "fs p"] by auto
      then have "update_row (fs p) r = Inr (object_row ?d (fs p))"
        unfolding update_row_def using assms(5) ex by (intro bind_storable) auto
      then have a: "alert_found env now fl (fs p) r s = (?e, Inr ?s)" using ex df pp by (simp add: alert_found_def)
      have "path_ok env fs old ?p ?s (es @ ?e) p"
        by (rule path_ok_seen)
          (use ex df r0 rp pend assms(1) in \<open>simp_all add: due_reports_def synced_row_def map_of_db_update\<close>)
      moreover have "\<forall>q. q \<noteq> p \<longrightarrow> path_ok env fs old ?p ?s (es @ ?e) q"
        by (rule others) (simp_all add: map_of_db_update)
      ultimately show ?thesis by (rule fin [OF a]) simp
    qed
  next
    case True
    have y: "synced_row True (fs p) (map_of old p) = Some (r\<lparr>dr_scanned := True\<rparr>)
       \<and> reports p es = map (sent_text env) (due_reports env True (fs p) (map_of old p))"
      using pk assms(1) pend st
    proof (cases rule: path_ok_row)
      case (fresh r0)
      with True show ?thesis by (simp add: synced_row_def due_reports_def)
    qed auto
    show ?thesis
    proof (cases "al_in_scan s")
      case False
      let ?s = "s\<lparr>al_db := mark_scanned p (al_db s)\<rparr>"
      have a: "alert_found env now fl (fs p) r s = ([], Inr ?s)" using True False assms(6) pp by (simp add: alert_found_def)
      have "path_ok env fs old ?p ?s (es @ []) p"
        by (rule path_ok_seen) (use y pend assms(1) in \<open>simp_all add: mark_scanned_def map_of_db_update\<close>)
      moreover have "\<forall>q. q \<noteq> p \<longrightarrow> path_ok env fs old ?p ?s (es @ []) q"
        by (rule others) (simp_all add: mark_scanned_def map_of_db_update)
      ultimately show ?thesis by (rule fin [OF a]) simp
    next
      case sc: True
      let ?s = "s\<lparr>al_updates := al_updates s @ [p]\<rparr>"
      have a: "alert_found env now fl (fs p) r s =
          ([], Inr (if unat (de_block_size env) \<le> length (al_updates ?s) then do_update_queue ?s else ?s))"
        using True sc assms(6) pp by (simp add: alert_found_def Let_def)
      have "path_ok env fs old ?p ?s (es @ []) p"
        by (rule path_ok_seen) (use y pend assms(1) in simp_all)
      moreover have "\<forall>q. q \<noteq> p \<longrightarrow> path_ok env fs old ?p ?s (es @ []) q"
        by (rule others) simp_all
      ultimately have k: "\<forall>q. path_ok env fs old ?p ?s (es @ []) q" by metis
      then have "\<forall>q. path_ok env fs old ?p (do_update_queue ?s) (es @ []) q" using path_ok_updates by blast
      with k show ?thesis unfolding d a by (auto simp: do_update_queue_def)
    qed
  qed
qed

end
