(* ===== verification/Diskscan_Sync.thy ===== *)
theory Diskscan_Sync
  imports Diskscan_Full_Scan
begin

text \<open>
  The phases of a full scan put together: the database is in line with the file system afterwards, every
  difference was reported once, and a second scan reports nothing.
\<close>

subsection \<open>Elements found by the scan\<close>

definition found_flags :: "flags \<Rightarrow> bool" where
  "found_flags fl = (has_flag fl F_FORCE_UPDATE \<and> \<not> has_flag fl F_SPECIAL)"

lemma special_flags:
  "has_flag fl F_KILL \<Longrightarrow> has_flag fl F_SPECIAL" "has_flag fl F_STARTSCAN \<Longrightarrow> has_flag fl F_SPECIAL"
  "has_flag fl F_MIDSCAN \<Longrightarrow> has_flag fl F_SPECIAL" "has_flag fl F_ENDSCAN \<Longrightarrow> has_flag fl F_SPECIAL"
proof -
  have a: "fl AND F_KILL = (fl AND F_SPECIAL) AND F_KILL" "fl AND F_STARTSCAN = (fl AND F_SPECIAL) AND F_STARTSCAN"
    "fl AND F_MIDSCAN = (fl AND F_SPECIAL) AND F_MIDSCAN" "fl AND F_ENDSCAN = (fl AND F_SPECIAL) AND F_ENDSCAN"
    by (simp_all add: and.assoc flag_defs)
  show "has_flag fl F_KILL \<Longrightarrow> has_flag fl F_SPECIAL" "has_flag fl F_STARTSCAN \<Longrightarrow> has_flag fl F_SPECIAL"
    "has_flag fl F_MIDSCAN \<Longrightarrow> has_flag fl F_SPECIAL" "has_flag fl F_ENDSCAN \<Longrightarrow> has_flag fl F_SPECIAL"
    unfolding has_flag_def using a by (metis and_zero_eq word_bw_comms(1))+
qed

lemma alert_turn_found:
  assumes "found_flags fl" "alert_object env now fl fd s = (es, Inr s')"
  shows "alert_turn env now True (Some fd, fl) s = (no_output\<lparr>ao_alerts := es\<rparr>, Alert_continues s')"
proof -
  have "\<not> has_flag fl F_KILL" "\<not> has_flag fl F_STARTSCAN" "\<not> has_flag fl F_MIDSCAN" "\<not> has_flag fl F_ENDSCAN"
    using assms(1) special_flags by (auto simp: found_flags_def)
  with assms(2) show ?thesis by (simp add: alert_turn_def Let_def)
qed

text \<open>The world of a scan: paths name their objects, and what exists can be stored.\<close>

definition scan_world :: "(string \<Rightarrow> file_data) \<Rightarrow> bool" where
  "scan_world fs = (\<forall>p. fd_path (fs p) = p \<and> (fd_exists (fs p) \<longrightarrow> storable (fs p)))"

definition short_digests :: "table \<Rightarrow> bool" where
  "short_digests t = (\<forall>r \<in> ran (map_of t). length (dr_sha256 r) \<le> 64)"

lemma scan_step:
  assumes "found_flags fl" "alert_inv s" "\<forall>q. path_ok env fs old seen s es q" "scan_world fs" "short_digests old"
  shows "\<exists>es' s'. alert_turn env now True (Some (fs p), fl) s = (no_output\<lparr>ao_alerts := es'\<rparr>, Alert_continues s')
     \<and> al_in_scan s' = al_in_scan s \<and> alert_inv s' \<and> (\<forall>q. path_ok env fs old (insert p seen) s' (es @ es') q)"
proof -
  have w: "\<forall>q. fd_path (fs q) = q" "\<forall>q. fd_exists (fs q) \<longrightarrow> storable (fs q)" "has_flag fl F_FORCE_UPDATE"
    "\<forall>r \<in> ran (map_of old). length (dr_sha256 r) \<le> 64"
    using assms(1,4,5) by (auto simp: scan_world_def found_flags_def short_digests_def)
  have "\<exists>es' s'. alert_object env now fl (fs p) s = (es', Inr s') \<and> al_in_scan s' = al_in_scan s
     \<and> (\<forall>q. path_ok env fs old (insert p seen) s' (es @ es') q)"
  proof (cases "map_of (al_db s) p")
    case None
    from w(2) have st: "fd_exists (fs p) \<Longrightarrow> storable (fs p)" by blast
    show ?thesis by (rule scan_step_missing [OF None assms(2,3) w(1) st w(2)])
  next
    case (Some r)
    show ?thesis by (rule scan_step_found [OF Some assms(2,3) w])
  qed
  then obtain es' s' where o: "alert_object env now fl (fs p) s = (es', Inr s')" "al_in_scan s' = al_in_scan s"
    "\<forall>q. path_ok env fs old (insert p seen) s' (es @ es') q" by blast
  with alert_turn_found [OF assms(1) o(1)] alert_inv_object [OF o(1) assms(2)] show ?thesis by blast
qed

lemma alert_run_found:
  assumes "map snd tins = map (\<lambda>(p, fl). (Some (fs p), fl)) found" "\<forall>(p, fl) \<in> set found. found_flags fl"
    "alert_inv s" "\<forall>q. path_ok env fs old seen s es q" "scan_world fs" "short_digests old"
  shows "\<exists>es' s'. alert_run env tins s = (no_output\<lparr>ao_alerts := es'\<rparr>, Alert_continues s') \<and> al_in_scan s' = al_in_scan s
     \<and> alert_inv s' \<and> (\<forall>q. path_ok env fs old (fst ` set found \<union> seen) s' (es @ es') q)"
  using assms
proof (induction found arbitrary: tins s seen es)
  case Nil
  then show ?case by (auto simp: no_output_def)
next
  case (Cons pf found)
  obtain p fl where pf: "pf = (p, fl)" by fastforce
  with Cons.prems(1) obtain now tins' where t: "tins = (now, Some (fs p), fl) # tins'"
    "map snd tins' = map (\<lambda>(p, fl). (Some (fs p), fl)) found" by auto
  from Cons.prems(2) pf have f: "found_flags fl" "\<forall>(p, fl) \<in> set found. found_flags fl" by auto
  from scan_step [OF f(1) Cons.prems(3-6), of now p] obtain es1 s1 where
    1: "alert_turn env now True (Some (fs p), fl) s = (no_output\<lparr>ao_alerts := es1\<rparr>, Alert_continues s1)"
    "al_in_scan s1 = al_in_scan s" "alert_inv s1" "\<forall>q. path_ok env fs old (insert p seen) s1 (es @ es1) q" by blast
  from Cons.IH [OF t(2) f(2) 1(3,4) Cons.prems(5,6)] obtain es2 s2 where
    2: "alert_run env tins' s1 = (no_output\<lparr>ao_alerts := es2\<rparr>, Alert_continues s2)" "al_in_scan s2 = al_in_scan s1"
    "alert_inv s2" "\<forall>q. path_ok env fs old (fst ` set found \<union> insert p seen) s2 ((es @ es1) @ es2) q" by blast
  have "alert_run env tins s = (no_output\<lparr>ao_alerts := es1 @ es2\<rparr>, Alert_continues s2)"
    unfolding t(1) using 1(1) 2(1) by (simp add: no_output_def)
  moreover have "fst ` set (pf # found) \<union> seen = fst ` set found \<union> insert p seen" using pf by auto
  ultimately show ?case using 1(2) 2(2-4) by auto
qed

subsection \<open>The marks\<close>

lemma mark_flags:
  "has_flag F_STARTSCAN F_SPECIAL" "has_flag F_MIDSCAN F_SPECIAL" "has_flag F_ENDSCAN F_SPECIAL"
  "found_flags (F_CHK_CONTENT OR F_FORCE_UPDATE)"
  by (simp_all add: found_flags_def has_flag_def flag_defs)

lemma alert_turn_start:
  "alert_turn env now True (None, F_STARTSCAN) s =
     (no_output, Alert_continues (s\<lparr>al_db := mark_all_unscanned (al_db s), al_in_scan := True\<rparr>))"
  by (simp add: alert_turn_def has_flag_def flag_defs)

lemma alert_turn_mid:
  "alert_turn env now True (None, F_MIDSCAN) s =
     (let events = map (\<lambda>name. (name, F_CHK_CONTENT OR F_FORCE_UPDATE)) (select_unscanned (al_db s)) @ [([], F_ENDSCAN)] in
      case do_insert_set env now (s\<lparr>al_in_scan := False\<rparr>) of
        (es, Inl e) \<Rightarrow> (no_output\<lparr>ao_alerts := es @ [se_kill], ao_events := events\<rparr>, Alert_throws e)
      | (es, Inr s) \<Rightarrow> (no_output\<lparr>ao_alerts := es, ao_events := events\<rparr>, Alert_continues (do_update_queue s)))"
  by (simp add: alert_turn_def has_flag_def flag_defs)

lemma alert_turn_end: "alert_turn env now True (None, F_ENDSCAN) s = (no_output\<lparr>ao_scan_done := True\<rparr>, Alert_continues s)"
  by (simp add: alert_turn_def has_flag_def flag_defs)

lemma path_ok_in_scan: "path_ok env fs old seen (s\<lparr>al_in_scan := b\<rparr>) es q = path_ok env fs old seen s es q"
  by (cases s) (simp only: path_ok_def alert_state.simps)

lemma path_ok_start:
  assumes "alert_inv s" "\<not> al_in_scan s"
  shows "path_ok env fs (al_db s) {} (s\<lparr>al_db := mark_all_unscanned (al_db s), al_in_scan := True\<rparr>) [] q"
  using assms by (auto simp: path_ok_def map_of_mark_all alert_inv_def)

text \<open>The mark of the middle: everything held back is written, and the rows not seen are asked for.\<close>

lemma scan_middle:
  assumes "alert_inv s" "\<forall>q. path_ok env fs old seen s es q" "scan_world fs" "al_in_scan s"
  obtains es' s' where
    "alert_turn env now True (None, F_MIDSCAN) s =
       (no_output\<lparr>ao_alerts := es',
          ao_events := map (\<lambda>name. (name, F_CHK_CONTENT OR F_FORCE_UPDATE)) (select_unscanned (al_db s)) @ [([], F_ENDSCAN)]\<rparr>,
        Alert_continues s')"
    "alert_inv s'" "\<not> al_in_scan s'" "\<forall>q. path_ok env fs old seen s' (es @ es') q"
proof -
  from assms(3) have st: "\<forall>q. fd_exists (fs q) \<longrightarrow> storable (fs q)" by (simp add: scan_world_def)
  from do_insert_set_storable [OF assms(1,2) st, of now] obtain es' s1 where
    r: "do_insert_set env now s = (es', Inr s1)" by blast
  have r': "do_insert_set env now (s\<lparr>al_in_scan := False\<rparr>) = (es', Inr (s1\<lparr>al_in_scan := False\<rparr>))"
    using r by (auto simp: do_insert_set_def split: prod.splits sum.splits)
  let ?s = "do_update_queue (s1\<lparr>al_in_scan := False\<rparr>)"
  from do_insert_set_Inr [OF r assms(1)] have "alert_inv ?s" by (simp add: alert_inv_def do_update_queue_def)
  moreover have "path_ok env fs old seen ?s (es @ es') q" for q
  proof -
    have "path_ok env fs old seen s1 (es @ es') q" using path_ok_flush [OF r assms(1)] assms(2) by blast
    then have "path_ok env fs old seen (s1\<lparr>al_in_scan := False\<rparr>) (es @ es') q" by (simp add: path_ok_in_scan)
    then show ?thesis by (rule path_ok_updates)
  qed
  moreover have "\<not> al_in_scan ?s" by (simp add: do_update_queue_def)
  ultimately show thesis using that [of es' ?s] r' by (simp add: alert_turn_mid)
qed

lemma path_ok_end:
  assumes "path_ok env fs old seen s es q" "al_inserts s = []" "al_updates s = []"
  shows "if q \<in> seen then map_of (al_db s) q = synced_row True (fs q) (map_of old q)
           \<and> reports q es = map (sent_text env) (due_reports env True (fs q) (map_of old q))
         else map_of (al_db s) q = map_option (\<lambda>r. r\<lparr>dr_scanned := False\<rparr>) (map_of old q) \<and> reports q es = []"
proof -
  have "path_ok env fs old seen s es q =
      (if q \<notin> seen then map_of (al_db s) q = map_option (\<lambda>r. r\<lparr>dr_scanned := False\<rparr>) (map_of old q) \<and> reports q es = []
       else reports q es = map (sent_text env) (due_reports env True (fs q) (map_of old q))
         \<and> map_of (al_db s) q = synced_row True (fs q) (map_of old q))"
    by (simp only: path_ok_def assms(2,3) map_of.simps list.set empty_iff simp_thms if_True if_False)
  with assms(1) show ?thesis by (cases "q \<in> seen") (simp_all only: simp_thms if_True if_False not_True_eq_False not_False_eq_True)
qed

lemma synced_known: "old \<noteq> None \<Longrightarrow> synced_row a fd old = synced_row b fd old \<and> due_reports env a fd old = due_reports env b fd old"
  by (auto simp: synced_row_def due_reports_def)

lemma alert_run_append:
  "alert_run env (a @ b) s =
     (case alert_run env a s of
        (out, Alert_continues s') \<Rightarrow>
          (case alert_run env b s' of
             (out', r) \<Rightarrow>
               (\<lparr>ao_alerts = ao_alerts out @ ao_alerts out', ao_events = ao_events out @ ao_events out',
                 ao_scan_done = (ao_scan_done out \<or> ao_scan_done out')\<rparr>, r))
      | (out, r) \<Rightarrow> (out, r))"
proof (induction a arbitrary: s)
  case Nil
  show ?case by (cases "alert_run env b s") (simp add: no_output_def)
next
  case (Cons ti a)
  obtain now inp where ti: "ti = (now, inp)" by (cases ti)
  with Cons.IH show ?case by (auto split: prod.splits alert_result.splits)
qed

subsection \<open>A full scan\<close>

lemma first_phase:
  assumes "alert_inv s" and "\<not> al_in_scan s" and "short_digests (al_db s)" and "scan_world fs"
    and "\<forall>(p, fl) \<in> set found. found_flags fl"
    and "map snd tins = scan_inputs fs (([], F_STARTSCAN) # found @ [([], F_MIDSCAN)])"
    and "alert_run env tins s = (out1, r1)"
  obtains s1 names where "r1 = Alert_continues s1" "alert_inv s1" "\<not> al_in_scan s1"
    "ao_events out1 = map (\<lambda>name. (name, F_CHK_CONTENT OR F_FORCE_UPDATE)) names @ [([], F_ENDSCAN)]"
    "\<forall>q. path_ok env fs (al_db s) (fst ` set found) s1 (ao_alerts out1) q"
    "\<forall>q. q \<notin> fst ` set found \<longrightarrow> (q \<in> set names \<longleftrightarrow> map_of (al_db s) q \<noteq> None)"
proof -
  let ?old = "al_db s" and ?F = "fst ` set found"
  let ?s0 = "s\<lparr>al_db := mark_all_unscanned (al_db s), al_in_scan := True\<rparr>"
  have "map (\<lambda>(p, fl). (if has_flag fl F_SPECIAL then None else Some (fs p), fl)) found = map (\<lambda>(p, fl). (Some (fs p), fl)) found"
    using assms(5) by (auto simp: found_flags_def)
  with assms(6) have "map snd tins = (None, F_STARTSCAN) # map (\<lambda>(p, fl). (Some (fs p), fl)) found @ [(None, F_MIDSCAN)]"
    by (simp add: scan_inputs_def mark_flags)
  then obtain n0 ts where t0: "tins = (n0, None, F_STARTSCAN) # ts"
    and "map snd ts = map (\<lambda>(p, fl). (Some (fs p), fl)) found @ [(None, F_MIDSCAN)]" by auto
  then obtain tf tm where ts: "ts = tf @ tm" "map snd tf = map (\<lambda>(p, fl). (Some (fs p), fl)) found" "map snd tm = [(None, F_MIDSCAN)]"
    by (auto simp: map_eq_append_conv)
  then obtain nm where tm: "tm = [(nm, None, F_MIDSCAN)]" by auto
  have k0: "\<forall>q. path_ok env fs ?old {} ?s0 [] q" using path_ok_start [OF assms(1,2)] by blast
  from alert_run_found [OF ts(2) assms(5) alert_inv_mark_all [OF assms(1)] k0 assms(4,3)] obtain ef sf where
    f: "alert_run env tf ?s0 = (no_output\<lparr>ao_alerts := ef\<rparr>, Alert_continues sf)" "al_in_scan sf" "alert_inv sf"
      "\<forall>q. path_ok env fs ?old ?F sf ef q" by auto
  from scan_middle [OF f(3,4) assms(4) f(2), of nm] obtain em s1 where
    m: "alert_turn env nm True (None, F_MIDSCAN) sf =
       (no_output\<lparr>ao_alerts := em,
          ao_events := map (\<lambda>name. (name, F_CHK_CONTENT OR F_FORCE_UPDATE)) (select_unscanned (al_db sf)) @ [([], F_ENDSCAN)]\<rparr>,
        Alert_continues s1)" "alert_inv s1" "\<not> al_in_scan s1" "\<forall>q. path_ok env fs ?old ?F s1 (ef @ em) q" by blast
  have "ao_alerts out1 = ef @ em" "r1 = Alert_continues s1"
    "ao_events out1 = map (\<lambda>name. (name, F_CHK_CONTENT OR F_FORCE_UPDATE)) (select_unscanned (al_db sf)) @ [([], F_ENDSCAN)]"
    using assms(7) unfolding t0 ts(1) tm using f(1) m(1)
    by (auto simp: alert_turn_start alert_run_append no_output_def)
  moreover have "q \<in> set (select_unscanned (al_db sf)) \<longleftrightarrow> map_of ?old q \<noteq> None" if "q \<notin> ?F" for q
  proof -
    have "map_of (al_db sf) q = map_option (\<lambda>r. r\<lparr>dr_scanned := False\<rparr>) (map_of ?old q)"
      using f(4) that by (simp add: path_ok_def)
    then show ?thesis using f(3) by (auto simp: select_unscanned_set alert_inv_def)
  qed
  ultimately show thesis using that [of s1 "select_unscanned (al_db sf)"] m(2-4) by simp
qed

lemma full_scan:
  assumes "alert_inv s" and "\<not> al_in_scan s" and "short_digests (al_db s)" and "scan_world fs"
    and "\<forall>(p, fl) \<in> set found. found_flags fl"
    and "map snd tins = scan_inputs fs (([], F_STARTSCAN) # found @ [([], F_MIDSCAN)])"
    and "alert_run env tins s = (out1, r1)"
    and "map snd tins2 = scan_inputs fs (ao_events out1)"
  shows "\<exists>s1 out2 s2. r1 = Alert_continues s1 \<and> alert_run env tins2 s1 = (out2, Alert_continues s2) \<and> ao_scan_done out2
     \<and> alert_inv s2 \<and> \<not> al_in_scan s2
     \<and> (\<forall>p. map_of (al_db s2) p = synced_row (p \<in> fst ` set found) (fs p) (map_of (al_db s) p)
          \<and> reports p (ao_alerts out1 @ ao_alerts out2)
            = map (sent_text env) (due_reports env (p \<in> fst ` set found) (fs p) (map_of (al_db s) p)))"
proof -
  let ?old = "al_db s" and ?F = "fst ` set found" and ?fl = "F_CHK_CONTENT OR F_FORCE_UPDATE"
  from first_phase [OF assms(1-7)] obtain s1 L where
    m: "r1 = Alert_continues s1" "alert_inv s1" "\<not> al_in_scan s1"
      "ao_events out1 = map (\<lambda>name. (name, ?fl)) L @ [([], F_ENDSCAN)]"
      "\<forall>q. path_ok env fs ?old ?F s1 (ao_alerts out1) q"
    and unseen: "\<And>q. q \<notin> ?F \<Longrightarrow> q \<in> set L \<longleftrightarrow> map_of ?old q \<noteq> None" by metis
  have "scan_inputs fs (ao_events out1) = map (\<lambda>(p, fl). (Some (fs p), fl)) (map (\<lambda>name. (name, ?fl)) L) @ [(None, F_ENDSCAN)]"
    using mark_flags(4) by (simp add: m(4) scan_inputs_def mark_flags found_flags_def)
  with assms(8) obtain tl te where t2: "tins2 = tl @ te" "map snd tl = map (\<lambda>(p, fl). (Some (fs p), fl)) (map (\<lambda>name. (name, ?fl)) L)"
    "map snd te = [(None, F_ENDSCAN)]" by (auto simp: map_eq_append_conv)
  then obtain ne where te: "te = [(ne, None, F_ENDSCAN)]" by auto
  have fl: "\<forall>(p, fl) \<in> set (map (\<lambda>name. (name, ?fl)) L). found_flags fl" using mark_flags(4) by simp
  from alert_run_found [OF t2(2) fl m(2,5) assms(4,3)] obtain el s2 where
    l: "alert_run env tl s1 = (no_output\<lparr>ao_alerts := el\<rparr>, Alert_continues s2)" "al_in_scan s2 = al_in_scan s1" "alert_inv s2"
      "\<forall>q. path_ok env fs ?old (set L \<union> ?F) s2 (ao_alerts out1 @ el) q" by (auto simp: image_image)
  let ?out2 = "no_output\<lparr>ao_alerts := el, ao_scan_done := True\<rparr>"
  have o2: "alert_run env tins2 s1 = (?out2, Alert_continues s2)"
    unfolding t2(1) te using l(1) by (simp add: alert_run_append alert_turn_end no_output_def)
  have empty: "al_inserts s2 = []" "al_updates s2 = []" using l(2,3) m(3) by (auto simp: alert_inv_def)
  have "map_of (al_db s2) q = synced_row (q \<in> ?F) (fs q) (map_of ?old q)
      \<and> reports q (ao_alerts out1 @ el) = map (sent_text env) (due_reports env (q \<in> ?F) (fs q) (map_of ?old q))" for q
  proof (cases "q \<in> ?F")
    case True
    with path_ok_end [OF l(4) [rule_format, of q] empty] show ?thesis by simp
  next
    case nf: False
    show ?thesis
    proof (cases "map_of ?old q")
      case None
      with nf unseen have "q \<notin> set L \<union> ?F" by simp
      with path_ok_end [OF l(4) [rule_format, of q] empty] None nf show ?thesis by (simp add: synced_row_def due_reports_def)
    next
      case (Some r)
      with nf unseen have "q \<in> set L \<union> ?F" by simp
      with path_ok_end [OF l(4) [rule_format, of q] empty] have
        "map_of (al_db s2) q = synced_row True (fs q) (map_of ?old q)"
        "reports q (ao_alerts out1 @ el) = map (sent_text env) (due_reports env True (fs q) (map_of ?old q))" by simp_all
      with synced_known [of "map_of ?old q" True "fs q" False env] Some nf show ?thesis by simp
    qed
  qed
  with m(1,3) o2 l(2,3) show ?thesis by simp
qed

text \<open>
  A full scan brings the database in line and reports every difference once. On a file system that stays
  as it is, after the two phases of a scan the row of every path is that of its object: new objects that
  the scan found are inserted, changed ones updated, rows of deleted objects removed, and all others marked
  as scanned; and on every path exactly the one alert that is due was raised, none where nothing changed.
  This holds for every block size, order and repetition of the objects found.
\<close>

theorem full_scan_syncs:
  assumes "alert_inv s" and "\<not> al_in_scan s" and "short_digests (al_db s)" and "scan_world fs"
    and "\<forall>(p, fl) \<in> set found. found_flags fl"
    and "map snd tins = scan_inputs fs (([], F_STARTSCAN) # found @ [([], F_MIDSCAN)])"
    and "alert_run env tins s = (out1, r1)"
    and "map snd tins2 = scan_inputs fs (ao_events out1)"
  shows "\<exists>s1 out2 s2. r1 = Alert_continues s1 \<and> alert_run env tins2 s1 = (out2, Alert_continues s2) \<and> ao_scan_done out2
     \<and> alert_inv s2 \<and> \<not> al_in_scan s2
     \<and> (\<forall>p. map_of (al_db s2) p = synced_row (p \<in> fst ` set found) (fs p) (map_of (al_db s) p)
          \<and> reports p (ao_alerts out1 @ ao_alerts out2)
            = map (sent_text env) (due_reports env (p \<in> fst ` set found) (fs p) (map_of (al_db s) p)))"
  using assms by (rule full_scan)

text \<open>A disk with one file that changed, one that is new, and a row of one that is gone.\<close>

definition demo_disk :: "string \<Rightarrow> file_data" where
  "demo_disk p = demo_object p (p = ''/a'' \<or> p = ''/n'') 5"

definition demo_table :: table where
  "demo_table = [(''/a'', inserted_row (demo_object ''/a'' True 4)), (''/g'', inserted_row (demo_object ''/g'' True 1))]"

definition demo_found :: "(string \<times> flags) list" where
  "demo_found = [(''/a'', F_CHK_CONTENT OR F_FORCE_UPDATE), (''/n'', F_CHK_CONTENT OR F_FORCE_UPDATE)]"

definition demo_scan :: "(int \<times> file_data option \<times> flags) list" where
  "demo_scan = map (Pair 0) (scan_inputs demo_disk (([], F_STARTSCAN) # demo_found @ [([], F_MIDSCAN)]))"

lemma demo_disk_world: "scan_world demo_disk"
  by (auto simp: scan_world_def storable_def demo_disk_def demo_object_def new_file_data_def fd_digest_def c_str_def)

lemma demo_scan_start: "alert_inv (alert_start demo_table)" "short_digests (al_db (alert_start demo_table))"
  "\<forall>(p, fl) \<in> set demo_found. found_flags fl" "\<not> al_in_scan (alert_start demo_table)"
  using mark_flags(4)
  by (auto simp: alert_inv_def table_wf_def alert_start_def demo_table_def demo_found_def short_digests_def ran_def
      inserted_row_def object_row_def demo_object_def new_file_data_def fd_digest_def c_str_def split: if_splits)

theorem full_scan_syncs_witness:
  "\<exists>out1 s1 out2 s2. alert_run demo_disk_env demo_scan (alert_start demo_table) = (out1, Alert_continues s1)
     \<and> alert_run demo_disk_env (map (Pair 1) (scan_inputs demo_disk (ao_events out1))) s1 = (out2, Alert_continues s2)
     \<and> map_of (al_db s2) ''/g'' = None \<and> map_of (al_db s2) ''/n'' = Some (inserted_row (demo_disk ''/n''))"
proof -
  let ?s = "alert_start demo_table"
  obtain out1 r1 where r: "alert_run demo_disk_env demo_scan ?s = (out1, r1)" by fastforce
  have t: "map snd demo_scan = scan_inputs demo_disk (([], F_STARTSCAN) # demo_found @ [([], F_MIDSCAN)])"
    by (simp add: demo_scan_def o_def)
  have t2: "map snd (map (Pair (1 :: int)) (scan_inputs demo_disk (ao_events out1))) = scan_inputs demo_disk (ao_events out1)"
    by (simp add: o_def)
  from full_scan_syncs [OF demo_scan_start(1,4,2) demo_disk_world demo_scan_start(3) t r t2] obtain s1 out2 s2 where
    k: "r1 = Alert_continues s1"
    "alert_run demo_disk_env (map (Pair 1) (scan_inputs demo_disk (ao_events out1))) s1 = (out2, Alert_continues s2)"
    "\<forall>p. map_of (al_db s2) p = synced_row (p \<in> fst ` set demo_found) (demo_disk p) (map_of (al_db ?s) p)" by blast
  have "map_of (al_db s2) ''/g'' = None" "map_of (al_db s2) ''/n'' = Some (inserted_row (demo_disk ''/n''))"
    unfolding k(3) [rule_format]
    by (simp_all add: alert_start_def demo_table_def synced_row_def demo_disk_def demo_object_def new_file_data_def demo_found_def)
  with r k show ?thesis by blast
qed

lemma due_again:
  assumes "fd_exists fd \<longrightarrow> storable fd" "found2 \<longrightarrow> found"
  shows "due_reports env found2 fd (synced_row found fd old) = []"
proof (cases "synced_row found fd old")
  case None
  with assms(2) show ?thesis by (auto simp: due_reports_def synced_row_def split: option.splits if_splits)
next
  case (Some r)
  then have "fd_exists fd" by (auto simp: synced_row_def split: option.splits if_splits)
  with Some synced_agrees [of fd found old r] assms(1) show ?thesis by (simp add: due_reports_def)
qed

lemma synced_short:
  assumes "synced_row found fd old = Some r" "\<And>r0. old = Some r0 \<Longrightarrow> length (dr_sha256 r0) \<le> 64"
  shows "length (dr_sha256 r) \<le> 64"
  using assms digest_short [of fd] c_str_length [of "fd_digest fd"] c_str_length [of "''not computed''"]
    c_str_length [of "dr_sha256 (the old)"]
  by (auto simp: synced_row_def inserted_row_def object_row_def split: option.splits if_splits intro: order_trans)

text \<open>
  A scan of an unchanged disk is quiet. After a full scan, a second one that finds no path the first did
  not find raises no alert at all on any path.
\<close>

theorem second_scan_quiet:
  assumes "alert_inv s" and "\<not> al_in_scan s" and "short_digests (al_db s)" and "scan_world fs"
    and "\<forall>(p, fl) \<in> set (found @ found'). found_flags fl" and "fst ` set found' \<subseteq> fst ` set found"
    and "map snd tins = scan_inputs fs (([], F_STARTSCAN) # found @ [([], F_MIDSCAN)])"
    and "alert_run env tins s = (out1, Alert_continues s1)"
    and "map snd tins2 = scan_inputs fs (ao_events out1)" and "alert_run env tins2 s1 = (out2, Alert_continues s2)"
    and "map snd tins3 = scan_inputs fs (([], F_STARTSCAN) # found' @ [([], F_MIDSCAN)])"
    and "alert_run env tins3 s2 = (out3, Alert_continues s3)"
    and "map snd tins4 = scan_inputs fs (ao_events out3)" and "alert_run env tins4 s3 = (out4, Alert_continues s4)"
  shows "reports p (ao_alerts out3 @ ao_alerts out4) = []"
proof -
  have fl: "\<forall>(p, fl) \<in> set found. found_flags fl" "\<forall>(p, fl) \<in> set found'. found_flags fl" using assms(5) by auto
  from full_scan [OF assms(1-4) fl(1) assms(7-9)] assms(10) have
    1: "alert_inv s2" "\<not> al_in_scan s2"
    "\<forall>p. map_of (al_db s2) p = synced_row (p \<in> fst ` set found) (fs p) (map_of (al_db s) p)" by auto
  have sh: "short_digests (al_db s2)"
    unfolding short_digests_def
  proof
    fix r
    assume "r \<in> ran (map_of (al_db s2))"
    then obtain q where "synced_row (q \<in> fst ` set found) (fs q) (map_of (al_db s) q) = Some r" using 1(3) by (auto simp: ran_def)
    then show "length (dr_sha256 r) \<le> 64"
      by (rule synced_short) (use assms(3) in \<open>auto simp: short_digests_def ran_def\<close>)
  qed
  from full_scan [OF 1(1,2) sh assms(4) fl(2) assms(11-13)] assms(14) have
    "reports p (ao_alerts out3 @ ao_alerts out4)
       = map (sent_text env) (due_reports env (p \<in> fst ` set found') (fs p) (map_of (al_db s2) p))" by auto
  also have "due_reports env (p \<in> fst ` set found') (fs p) (map_of (al_db s2) p) = []"
    unfolding 1(3) [rule_format] using assms(4,6) by (intro due_again) (auto simp: scan_world_def)
  finally show ?thesis by simp
qed

theorem second_scan_quiet_witness:
  "\<exists>out1 s1 out2 s2 out3 s3 out4 s4. alert_run demo_disk_env demo_scan (alert_start demo_table) = (out1, Alert_continues s1)
     \<and> alert_run demo_disk_env (map (Pair 1) (scan_inputs demo_disk (ao_events out1))) s1 = (out2, Alert_continues s2)
     \<and> alert_run demo_disk_env demo_scan s2 = (out3, Alert_continues s3)
     \<and> alert_run demo_disk_env (map (Pair 3) (scan_inputs demo_disk (ao_events out3))) s3 = (out4, Alert_continues s4)
     \<and> reports ''/n'' (ao_alerts out3 @ ao_alerts out4) = []"
proof -
  let ?s = "alert_start demo_table"
  let ?in = "\<lambda>n out. map (Pair (n :: int)) (scan_inputs demo_disk (ao_events out))"
  have t: "map snd demo_scan = scan_inputs demo_disk (([], F_STARTSCAN) # demo_found @ [([], F_MIDSCAN)])"
    by (simp add: demo_scan_def o_def)
  have t2: "map snd (?in n out) = scan_inputs demo_disk (ao_events out)" for n out by (simp add: o_def)
  obtain out1 r1 where r1: "alert_run demo_disk_env demo_scan ?s = (out1, r1)" by fastforce
  from full_scan [OF demo_scan_start(1,4,2) demo_disk_world demo_scan_start(3) t r1 t2 [of 1]] obtain s1 out2 s2 where
    1: "r1 = Alert_continues s1" "alert_run demo_disk_env (?in 1 out1) s1 = (out2, Alert_continues s2)"
      "alert_inv s2" "\<not> al_in_scan s2"
      "\<forall>p. map_of (al_db s2) p = synced_row (p \<in> fst ` set demo_found) (demo_disk p) (map_of (al_db ?s) p)" by blast
  have "short_digests (al_db s2)"
    using demo_scan_start(2) 1(5) unfolding short_digests_def ran_def by (auto intro: synced_short)
  obtain out3 r3 where r3: "alert_run demo_disk_env demo_scan s2 = (out3, r3)" by fastforce
  from full_scan [OF 1(3,4) \<open>short_digests (al_db s2)\<close> demo_disk_world demo_scan_start(3) t r3 t2 [of 3]]
  obtain s3 out4 s4 where 3: "r3 = Alert_continues s3" "alert_run demo_disk_env (?in 3 out3) s3 = (out4, Alert_continues s4)"
    by blast
  have "reports ''/n'' (ao_alerts out3 @ ao_alerts out4) = []"
    by (rule second_scan_quiet [where found = demo_found and found' = demo_found, OF demo_scan_start(1,4,2) demo_disk_world _ _ t
          r1 [unfolded 1(1)] t2 1(2) t r3 [unfolded 3(1)] t2 3(2)])
      (use demo_scan_start(3) in auto)
  with r1 r3 1(1,2) 3 show ?thesis by blast
qed

subsection \<open>What a real-time event loses\<close>

text \<open>
  A change of the owner of a symbolic link makes its target lost. An event without content check (as
  \<open>watch_task\<close> makes of a change of attributes) that finds the link changed writes the empty target into
  its row; the next look at the content then raises an alert that the target changed, although it is what
  it always was.
\<close>

theorem link_target_lost:
  assumes "alert_inv s" and "map_of (al_db s) p = Some r" and "fd_path fd = p" and "fd_exists fd" and "storable fd"
    and "fd_type fd = Link" and "\<not> fd_content_checked fd" and "fd_target fd = []" and "dr_user r \<noteq> fd_user fd"
    and "length (dr_sha256 r) \<le> 64" and "dr_target r = target" and "target \<noteq> []"
    and "checked = fd\<lparr>fd_content_checked := True, fd_target := target\<rparr>" and "storable checked"
  shows "\<exists>es s'. alert_object env now F_EMPTY fd s = (es, Inr s')
     \<and> (\<exists>es' s''. alert_object env later F_EMPTY checked s' = (es', Inr s'') \<and> reports p es' \<noteq> [])"
proof -
  have w: "table_wf (al_db s)" using assms(1) by (simp add: alert_inv_def)
  let ?r = "object_row (dr_sha256 r) fd"
  let ?s = "s\<lparr>al_db := db_update p (\<lambda>_. ?r) (al_db s)\<rparr>"
  have d: "row_differs r fd" using assms(9) by (simp add: row_differs_def)
  have u: "update_row fd r = Inr ?r" using bind_storable [OF assms(5), of "dr_sha256 r"] assms(7,10) by (simp add: update_row_def)
  have a: "alert_object env now F_EMPTY fd s = ([disk_log_2_se env now p False (changed_object_text env r fd)], Inr ?s)"
    using w assms(2,3,4) d u by (simp add: alert_object_def db_select_map_of alert_found_def)
  have d': "row_differs ?r checked"
    using assms(6,8,11,12,13) by (simp add: row_differs_def target_differs_def object_row_def)
  have u': "\<exists>r'. update_row checked ?r = Inr r'"
    using bind_storable [OF assms(14), of "fd_digest checked"] digest_short [of checked] assms(13) by (simp add: update_row_def)
  have m: "map_of (al_db ?s) p = Some ?r" using assms(2) by (simp add: map_of_db_update)
  have c: "fd_path checked = p" "fd_exists checked" using assms(3,4,13) by simp_all
  from u' obtain r' where "update_row checked ?r = Inr r'" by blast
  with w m c d' have "alert_object env later F_EMPTY checked ?s =
      ([disk_log_2_se env later p False (changed_object_text env ?r checked)],
       Inr (?s\<lparr>al_db := db_update p (\<lambda>_. r') (al_db ?s)\<rparr>))"
    by (simp add: alert_object_def db_select_map_of alert_found_def)
  with a show ?thesis by auto
qed

definition demo_link :: "string \<Rightarrow> string \<Rightarrow> bool \<Rightarrow> file_data" where
  "demo_link user target checked =
     (new_file_data [])\<lparr>fd_path := ''/l'', fd_exists := True, fd_content_checked := checked, fd_user := user,
       fd_type := Link, fd_target := target, fd_mode := 0xA1FF\<rparr>"

theorem link_target_lost_witness:
  "\<exists>es s'. alert_object demo_disk_env 1 F_EMPTY (demo_link ''v'' [] False) (alert_start [(''/l'', inserted_row (demo_link ''u'' ''/t'' True))]) = (es, Inr s')
     \<and> (\<exists>es' s''. alert_object demo_disk_env 2 F_EMPTY (demo_link ''v'' ''/t'' True) s' = (es', Inr s'') \<and> reports ''/l'' es' \<noteq> [])"
  by (rule link_target_lost [where r = "inserted_row (demo_link ''u'' ''/t'' True)" and target = "''/t''"])
    (simp_all add: alert_inv_def alert_start_def table_wf_def demo_link_def new_file_data_def storable_def fd_digest_def
      inserted_row_def object_row_def c_str_def)

end
