(* ===== verification/Diskscan_Threads_Facts.thy ===== *)
theory Diskscan_Threads_Facts
  imports Diskscan_Threads Diskscan_Sync
begin

text \<open>
  What ctguard-diskscan looks at: the scan finds exactly the objects below a directory, the events reach the
  alerting thread in order, so that a full scan of the configured directories brings the database in line
  with them; and what ends the watching threads.
\<close>

subsection \<open>What a scan finds\<close>

text \<open>The paths below a directory, as far as the directories can be opened.\<close>

inductive below :: "directories \<Rightarrow> bool \<Rightarrow> string \<Rightarrow> string \<Rightarrow> bool" for dirs recursive where
  child: "open_dir dirs path = Some li \<Longrightarrow> (name, is_dir) \<in> set (li_entries li) \<Longrightarrow> \<not> is_dots name \<Longrightarrow>
    below dirs recursive path (path @ CHR ''/'' # name)"
| deeper: "recursive \<Longrightarrow> open_dir dirs path = Some li \<Longrightarrow> (name, True) \<in> set (li_entries li) \<Longrightarrow> \<not> is_dots name \<Longrightarrow>
    below dirs recursive (path @ CHR ''/'' # name) p \<Longrightarrow> below dirs recursive path p"

inductive_cases below_cases: "below dirs recursive path p"

lemma scan_below: "(p, fl) \<in> set (scan dirs recursive cd path) \<Longrightarrow> fl = scan_flags cd \<and> below dirs recursive path p"
proof (induction dirs recursive cd path rule: scan.induct)
  case (1 dirs recursive cd path)
  from 1(2) obtain li where li: "open_dir dirs path = Some li"
    by (cases "open_dir dirs path") (simp_all add: scan.simps [of dirs recursive cd path])
  with 1(2) obtain name is_dir where e: "(name, is_dir) \<in> set (li_entries li)" "\<not> is_dots name"
    and m: "(p, fl) = (path @ CHR ''/'' # name, scan_flags cd)
       \<or> (recursive \<and> is_dir \<and> (p, fl) \<in> set (scan dirs recursive cd (path @ CHR ''/'' # name)))"
    by (fastforce simp: scan.simps [of dirs recursive cd path] split: if_splits)
  from m show ?case
  proof
    assume "(p, fl) = (path @ CHR ''/'' # name, scan_flags cd)"
    with li e show ?thesis by (auto intro: child)
  next
    assume r: "recursive \<and> is_dir \<and> (p, fl) \<in> set (scan dirs recursive cd (path @ CHR ''/'' # name))"
    then have rec: "recursive = True" by simp
    with 1(1) [OF li e(1) refl e(2)] r have "fl = scan_flags cd \<and> below dirs recursive (path @ CHR ''/'' # name) p"
      unfolding rec by simp
    with r li e show ?thesis by (auto intro: deeper)
  qed
qed

lemma below_scan: "below dirs recursive path p \<Longrightarrow> (p, scan_flags cd) \<in> set (scan dirs recursive cd path)"
proof (induction rule: below.induct)
  case (child path li name is_dir)
  then show ?case
    by (auto simp: scan.simps [of dirs recursive cd path] intro!: bexI [of _ "(name, is_dir)"])
next
  case (deeper path li name p)
  then show ?case
    by (simp add: scan.simps [of dirs True cd path]) (auto intro!: bexI [of _ "(name, True)"])
qed

text \<open>
  A scan finds exactly what is below the directory: an event is queued for a path if and only if the path
  is an entry of the directory or, when the scan is recursive, lies below one of its directories, as far as
  these can be opened. It always ends.
\<close>

theorem scan_finds_exactly:
  "(p, fl) \<in> set (scan dirs recursive cd path) \<longleftrightarrow> fl = scan_flags cd \<and> below dirs recursive path p"
  using scan_below below_scan by blast

theorem scan_finds_exactly_witness:
  "(''/d/f'', scan_flags False) \<in> set (scan [''/d'' \<mapsto> \<lparr>li_entries = [(''.'', True), (''f'', False)], li_failed = False\<rparr>] True False ''/d'')"
proof -
  let ?dirs = "[''/d'' \<mapsto> \<lparr>li_entries = [(''.'', True), (''f'', False)], li_failed = False\<rparr>]"
  have "below ?dirs True ''/d'' (''/d'' @ CHR ''/'' # ''f'')"
    by (rule child [where is_dir = False]) (auto simp: open_dir_def path_max_def is_dots_def)
  then show ?thesis using scan_finds_exactly [of "''/d/f''" "scan_flags False" ?dirs True False "''/d''"] by simp
qed

subsection \<open>The way of the events\<close>

text \<open>The threads on all elements of their queue.\<close>

fun scan_run :: "directories \<Rightarrow> (string \<times> flags) list \<Rightarrow> (string \<times> flags) list" where
  "scan_run dirs [] = []"
| "scan_run dirs (inp # inps) =
     (case scan_turn dirs True inp of (es, True) \<Rightarrow> es @ scan_run dirs inps | (es, False) \<Rightarrow> es)"

fun event_run :: "factory \<Rightarrow> (string \<times> flags) list \<Rightarrow> diff_db \<Rightarrow> (file_data option \<times> flags) list" where
  "event_run mk [] db = []"
| "event_run mk (inp # inps) db =
     (case event_turn mk True inp db of
        (es, Event_continues db) \<Rightarrow> es @ event_run mk inps db
      | (es, r) \<Rightarrow> es)"

lemma scan_flags_found: "found_flags (scan_flags False)" "has_flag (scan_flags False) F_CHK_CONTENT" "\<not> has_flag (scan_flags False) F_CHK_DIFF"
  by (simp_all add: found_flags_def scan_flags_def has_flag_def flag_defs)

lemma watch_flags:
  "\<not> has_flag (watch_scan_flags w) F_KILL" "\<not> has_flag (watch_scan_flags w) F_SPECIAL"
  "has_flag (watch_scan_flags w) F_RECURSIVE = w_recursive w" "has_flag (watch_scan_flags w) F_CHK_DIFF = w_check_diff w"
  by (simp_all add: watch_scan_flags_def has_flag_def flag_defs)

lemma scan_run_watches:
  "\<forall>w \<in> set ws. w_path w \<noteq> [] \<Longrightarrow>
   scan_run dirs (map (\<lambda>w. (w_path w, watch_scan_flags w)) ws @ rest)
     = concat (map (\<lambda>w. scan dirs (w_recursive w) (w_check_diff w) (w_path w)) ws) @ scan_run dirs rest"
  by (induction ws) (auto simp: scan_turn_def Let_def watch_flags)

lemma scan_run_requests:
  assumes "\<forall>w \<in> set ws. w_path w \<noteq> []"
  shows "scan_run dirs (scan_requests ws) =
     ([], F_STARTSCAN) # concat (map (\<lambda>w. scan dirs (w_recursive w) (w_check_diff w) (w_path w)) ws) @ [([], F_MIDSCAN)]"
  using scan_run_watches [OF assms, of dirs "[([], F_MIDSCAN)]"]
  by (simp add: scan_requests_def scan_turn_def Let_def has_flag_def flag_defs)

text \<open>A factory that shows a world: every object as it is, whatever is in the diff database.\<close>

definition shows_world :: "factory \<Rightarrow> (string \<Rightarrow> file_data) \<Rightarrow> bool" where
  "shows_world mk fs = (\<forall>p db. p \<noteq> [] \<longrightarrow> mk p True False db = Inr (Some (fs p), db))"

lemma event_run_inputs:
  assumes "shows_world mk fs"
    and "\<forall>(p, fl) \<in> set events. \<not> has_flag fl F_KILL
       \<and> (has_flag fl F_SPECIAL \<or> p \<noteq> [] \<and> has_flag fl F_CHK_CONTENT \<and> \<not> has_flag fl F_CHK_DIFF)"
  shows "event_run mk events db = scan_inputs fs events"
  using assms(2)
proof (induction events arbitrary: db)
  case (Cons ev events)
  obtain p fl where "ev = (p, fl)" by fastforce
  with Cons assms(1) show ?case by (auto simp: event_turn_def Let_def scan_inputs_def shows_world_def)
qed (simp add: scan_inputs_def)

lemma below_nonempty: "below dirs recursive path p \<Longrightarrow> p \<noteq> []"
  by (induction rule: below.induct) auto

text \<open>What a scan of the configured directories asks for.\<close>

lemma requests_found:
  assumes "\<forall>w \<in> set ws. w_path w \<noteq> [] \<and> \<not> w_check_diff w"
  obtains found where "scan_run dirs (scan_requests ws) = ([], F_STARTSCAN) # found @ [([], F_MIDSCAN)]"
    "\<forall>(p, fl) \<in> set found. fl = scan_flags False \<and> p \<noteq> []"
    "\<forall>p. p \<in> fst ` set found \<longleftrightarrow> (\<exists>w \<in> set ws. below dirs (w_recursive w) (w_path w) p)"
proof -
  let ?found = "concat (map (\<lambda>w. scan dirs (w_recursive w) (w_check_diff w) (w_path w)) ws)"
  have mem: "(p, fl) \<in> set ?found \<longleftrightarrow> fl = scan_flags False \<and> (\<exists>w \<in> set ws. below dirs (w_recursive w) (w_path w) p)" for p fl
  proof -
    have "(p, fl) \<in> set ?found \<longleftrightarrow> (\<exists>w \<in> set ws. (p, fl) \<in> set (scan dirs (w_recursive w) (w_check_diff w) (w_path w)))" by simp
    also have "\<dots> \<longleftrightarrow> (\<exists>w \<in> set ws. fl = scan_flags False \<and> below dirs (w_recursive w) (w_path w) p)"
      by (rule bex_cong [OF refl]) (use assms scan_below below_scan in metis)
    finally show ?thesis by simp
  qed
  have "p \<in> fst ` set ?found \<longleftrightarrow> (\<exists>w \<in> set ws. below dirs (w_recursive w) (w_path w) p)" for p
  proof
    assume "p \<in> fst ` set ?found"
    then obtain y where "p = fst y" "y \<in> set ?found" by (rule imageE)
    then have "(p, snd y) \<in> set ?found" by (simp only: prod.collapse)
    then show "\<exists>w \<in> set ws. below dirs (w_recursive w) (w_path w) p" unfolding mem by blast
  next
    assume "\<exists>w \<in> set ws. below dirs (w_recursive w) (w_path w) p"
    then have "(p, scan_flags False) \<in> set ?found" unfolding mem by blast
    then show "p \<in> fst ` set ?found" by (rule image_eqI [rotated]) simp
  qed
  moreover have "\<forall>(p, fl) \<in> set ?found. fl = scan_flags False \<and> p \<noteq> []"
  proof clarify
    fix p fl
    assume "(p, fl) \<in> set ?found"
    then have "fl = scan_flags False" "\<exists>w \<in> set ws. below dirs (w_recursive w) (w_path w) p" unfolding mem by blast+
    then show "fl = scan_flags False \<and> p \<noteq> []" using below_nonempty by blast
  qed
  moreover have "scan_run dirs (scan_requests ws) = ([], F_STARTSCAN) # ?found @ [([], F_MIDSCAN)]"
    using assms by (intro scan_run_requests) simp
  ultimately show thesis using that by blast
qed

text \<open>Events that are looked at without a diff, and marks other than the last one.\<close>

definition plain_event :: "string \<times> flags \<Rightarrow> bool" where
  "plain_event e =
     (\<not> has_flag (snd e) F_KILL
      \<and> (has_flag (snd e) F_SPECIAL \<or> fst e \<noteq> [] \<and> has_flag (snd e) F_CHK_CONTENT \<and> \<not> has_flag (snd e) F_CHK_DIFF))"

lemma plain_events [simp]:
  "plain_event ([], F_STARTSCAN)" "plain_event ([], F_MIDSCAN)" "plain_event ([], F_ENDSCAN)"
  "p \<noteq> [] \<Longrightarrow> plain_event (p, scan_flags False)" "p \<noteq> [] \<Longrightarrow> plain_event (p, F_CHK_CONTENT OR F_FORCE_UPDATE)"
  by (simp_all add: plain_event_def has_flag_def flag_defs scan_flags_def)

lemma event_run_plain: "shows_world mk fs \<Longrightarrow> \<forall>e \<in> set events. plain_event e \<Longrightarrow> event_run mk events db = scan_inputs fs events"
  by (rule event_run_inputs) (auto simp: plain_event_def)

text \<open>What the alerting thread asks for in the middle of the scan.\<close>

lemma second_phase_events:
  assumes "\<forall>w \<in> set ws. w_path w \<noteq> [] \<and> \<not> w_check_diff w" and "scan_world fs"
    and "alert_inv s" and "\<not> al_in_scan s" and "short_digests (al_db s)" and "map_of (al_db s) [] = None"
    and "map snd tins = scan_inputs fs (scan_run dirs (scan_requests ws))" and "alert_run env tins s = (out1, r1)"
  obtains names where "ao_events out1 = map (\<lambda>name. (name, F_CHK_CONTENT OR F_FORCE_UPDATE)) names @ [([], F_ENDSCAN)]"
    "[] \<notin> set names"
proof -
  obtain found where f: "scan_run dirs (scan_requests ws) = ([], F_STARTSCAN) # found @ [([], F_MIDSCAN)]"
    "\<forall>(p, fl) \<in> set found. fl = scan_flags False \<and> p \<noteq> []"
    by (rule requests_found [OF assms(1)])
  have ff: "\<forall>(p, fl) \<in> set found. found_flags fl" using f(2) scan_flags_found(1) by auto
  show thesis
  proof (rule first_phase [OF assms(3,4,5,2) ff assms(7) [unfolded f(1)] assms(8)])
    fix names
    assume n: "ao_events out1 = map (\<lambda>name. (name, F_CHK_CONTENT OR F_FORCE_UPDATE)) names @ [([], F_ENDSCAN)]"
      "\<forall>q. q \<notin> fst ` set found \<longrightarrow> (q \<in> set names \<longleftrightarrow> map_of (al_db s) q \<noteq> None)"
    have "[] \<notin> fst ` set found" using f(2) by auto
    with n(2) assms(6) have "[] \<notin> set names" by blast
    with n(1) show thesis by (rule that)
  qed
qed

lemma directories_scan:
  assumes "\<forall>w \<in> set ws. w_path w \<noteq> [] \<and> \<not> w_check_diff w" and "shows_world mk fs" and "scan_world fs"
    and "alert_inv s" and "\<not> al_in_scan s" and "short_digests (al_db s)" and "map_of (al_db s) [] = None"
    and "map snd tins = event_run mk (scan_run dirs (scan_requests ws)) db1"
    and "alert_run env tins s = (out1, r1)"
    and "map snd tins2 = event_run mk (ao_events out1) db2"
  shows "\<exists>s1 out2 s2. r1 = Alert_continues s1 \<and> alert_run env tins2 s1 = (out2, Alert_continues s2) \<and> ao_scan_done out2
     \<and> (\<forall>p. let found = (\<exists>w \<in> set ws. below dirs (w_recursive w) (w_path w) p) in
          map_of (al_db s2) p = synced_row found (fs p) (map_of (al_db s) p)
          \<and> reports p (ao_alerts out1 @ ao_alerts out2) = map (sent_text env) (due_reports env found (fs p) (map_of (al_db s) p)))"
proof -
  obtain found where f: "scan_run dirs (scan_requests ws) = ([], F_STARTSCAN) # found @ [([], F_MIDSCAN)]"
    "\<forall>(p, fl) \<in> set found. fl = scan_flags False \<and> p \<noteq> []"
    "\<forall>p. p \<in> fst ` set found \<longleftrightarrow> (\<exists>w \<in> set ws. below dirs (w_recursive w) (w_path w) p)"
    by (rule requests_found [OF assms(1)])
  have ff: "\<forall>(p, fl) \<in> set found. found_flags fl" using f(2) scan_flags_found(1) by auto
  have "\<forall>e \<in> set (scan_run dirs (scan_requests ws)). plain_event e" using f(2) unfolding f(1) by auto
  then have t1: "map snd tins = scan_inputs fs (scan_run dirs (scan_requests ws))"
    unfolding assms(8) by (rule event_run_plain [OF assms(2)])
  obtain names where
    ev: "ao_events out1 = map (\<lambda>name. (name, F_CHK_CONTENT OR F_FORCE_UPDATE)) names @ [([], F_ENDSCAN)]" "[] \<notin> set names"
    by (rule second_phase_events [OF assms(1,3,4,5,6,7) t1 assms(9)])
  then have "\<forall>e \<in> set (ao_events out1). plain_event e" by (auto intro!: plain_events(5))
  then have t2: "map snd tins2 = scan_inputs fs (ao_events out1)"
    unfolding assms(10) by (rule event_run_plain [OF assms(2)])
  from full_scan [OF assms(4,5,6,3) ff t1 [unfolded f(1)] assms(9) t2] show ?thesis unfolding Let_def f(3) [rule_format] by blast
qed

text \<open>The factory on a file system whose objects answer as \<open>view\<close> says, and the objects it shows.\<close>

definition disk_factory :: "digest_lib \<Rightarrow> 32 word \<Rightarrow> string \<Rightarrow> (string \<Rightarrow> object_view) \<Rightarrow> factory" where
  "disk_factory dg max_diff junk view = (\<lambda>p content diff db. construct dg max_diff junk (view p) p content diff db)"

definition disk_object :: "digest_lib \<Rightarrow> 32 word \<Rightarrow> string \<Rightarrow> (string \<Rightarrow> object_view) \<Rightarrow> string \<Rightarrow> file_data" where
  "disk_object dg max_diff junk view p =
     (case construct dg max_diff junk (view p) p True False (\<lambda>_. None) of
        Inr (Some fd, db) \<Rightarrow> fd
      | _ \<Rightarrow> new_file_data junk)"

definition names_known :: "(string \<Rightarrow> object_view) \<Rightarrow> bool" where
  "names_known view = (\<forall>p. (\<exists>u. ov_user (view p) = Inr u) \<and> (\<exists>g. ov_group (view p) = Inr g))"

lemma check_file_no_diff:
  "check_file dg max_diff v False fd db = (fst (check_file dg max_diff v False fd (\<lambda>_. None)), db)"
  by (simp add: check_file_def Let_def read_chunks_False)

lemma construct_world:
  assumes "names_known view"
  shows "shows_world (disk_factory dg max_diff junk view) (disk_object dg max_diff junk view)"
proof -
  have "construct dg max_diff junk (view p) p True False db = Inr (Some (disk_object dg max_diff junk view p), db)" if "p \<noteq> []" for p db
  proof -
    from assms obtain u g where n: "ov_user (view p) = Inr u" "ov_group (view p) = Inr g" unfolding names_known_def by blast
    show ?thesis
    proof (cases "ov_lstat (view p)")
      case None
      then show ?thesis using that by (simp add: disk_object_def construct_def)
    next
      case (Some st)
      then show ?thesis using that n
        by (simp add: disk_object_def construct_def Let_def split_beta rbind_def check_file_no_diff [of dg max_diff _ _ db])
    qed
  qed
  then show ?thesis by (simp add: shows_world_def disk_factory_def)
qed

text \<open>
  A full scan of the configured directories, from the requests of the main thread through the scanning,
  the looking and the alerting thread: afterwards the database has exactly the rows of the objects below the
  directories that exist, and of the others it had before and that still exist, each in line with its object;
  and every difference to the database before was reported once. (No diffs; a file system that stays as it
  is; the watched paths are not empty; the names of users and groups can be looked up.)
\<close>

theorem directories_synced:
  fixes dg max_diff junk view
  defines "mk \<equiv> disk_factory dg max_diff junk view" and "fs \<equiv> disk_object dg max_diff junk view"
  assumes "\<forall>w \<in> set ws. w_path w \<noteq> [] \<and> \<not> w_check_diff w" and "names_known view" and "scan_world fs"
    and "alert_inv s" and "\<not> al_in_scan s" and "short_digests (al_db s)" and "map_of (al_db s) [] = None"
    and "map snd tins = event_run mk (scan_run dirs (scan_requests ws)) db1"
    and "alert_run env tins s = (out1, r1)"
    and "map snd tins2 = event_run mk (ao_events out1) db2"
  shows "\<exists>s1 out2 s2. r1 = Alert_continues s1 \<and> alert_run env tins2 s1 = (out2, Alert_continues s2) \<and> ao_scan_done out2
     \<and> (\<forall>p. let found = (\<exists>w \<in> set ws. below dirs (w_recursive w) (w_path w) p) in
          map_of (al_db s2) p = synced_row found (fs p) (map_of (al_db s) p)
          \<and> reports p (ao_alerts out1 @ ao_alerts out2) = map (sent_text env) (due_reports env found (fs p) (map_of (al_db s) p)))"
  using assms(3) construct_world [OF assms(4), of dg max_diff junk, folded mk_def fs_def] assms(5-12)
  by (rule directories_scan)

definition missing_view :: object_view where
  "missing_view =
     \<lparr>ov_lstat = None, ov_user = Inr None, ov_group = Inr None, ov_open = False, ov_chunks = [], ov_read_ok = False,
      ov_target_exists = False, ov_readlink = None\<rparr>"

definition demo_views :: "string \<Rightarrow> object_view" where
  "demo_views p = (if p = ''/d/f'' then demo_view [''x''] else missing_view)"

definition demo_watch :: watch where
  "demo_watch = \<lparr>w_path = ''/d'', w_option = Scan_full, w_recursive = True, w_realtime = False, w_check_diff = False\<rparr>"

definition demo_dirs :: directories where
  "demo_dirs = [''/d'' \<mapsto> \<lparr>li_entries = [(''.'', True), (''f'', False)], li_failed = False\<rparr>]"

lemma demo_views_world: "names_known demo_views" "scan_world (disk_object demo_digest 0 (replicate 65 CHR ''j'') demo_views)"
proof -
  show "names_known demo_views" by (simp add: names_known_def demo_views_def demo_view_def missing_view_def)
  have "fd_path (disk_object demo_digest 0 (replicate 65 CHR ''j'') demo_views p) = p
      \<and> (fd_exists (disk_object demo_digest 0 (replicate 65 CHR ''j'') demo_views p) \<longrightarrow>
         storable (disk_object demo_digest 0 (replicate 65 CHR ''j'') demo_views p))" for p
    by (simp add: disk_object_def construct_def demo_views_def missing_view_def demo_view_def deleted_object_def new_file_data_def
        mode_file_type_def format_defs check_file_def demo_digest_def storable_def fd_digest_def c_str_def Let_def name_or_unknown_def)
  then show "scan_world (disk_object demo_digest 0 (replicate 65 CHR ''j'') demo_views)" by (simp add: scan_world_def)
qed

theorem directories_synced_witness:
  "\<exists>tins out1 s1 tins2 out2 s2. map snd tins = event_run (disk_factory demo_digest 0 (replicate 65 CHR ''j'') demo_views)
         (scan_run demo_dirs (scan_requests [demo_watch])) (\<lambda>_. None)
     \<and> alert_run demo_disk_env tins (alert_start demo_table) = (out1, Alert_continues s1)
     \<and> alert_run demo_disk_env tins2 s1 = (out2, Alert_continues s2)
     \<and> map_of (al_db s2) ''/d/f'' \<noteq> None \<and> map_of (al_db s2) ''/a'' = None"
proof -
  let ?junk = "replicate 65 CHR ''j''"
  let ?mk = "disk_factory demo_digest 0 ?junk demo_views" and ?fs = "disk_object demo_digest 0 ?junk demo_views"
  let ?s = "alert_start demo_table"
  let ?t = "map (Pair (0 :: int)) (event_run ?mk (scan_run demo_dirs (scan_requests [demo_watch])) (\<lambda>_. None))"
  obtain out1 r1 where r: "alert_run demo_disk_env ?t ?s = (out1, r1)" by fastforce
  let ?t2 = "map (Pair (1 :: int)) (event_run ?mk (ao_events out1) (\<lambda>_. None))"
  have p: "map snd (map (Pair (n :: int)) xs) = xs" for n and xs :: "(file_data option \<times> flags) list" by (simp add: o_def)
  have w: "\<forall>w \<in> set [demo_watch]. w_path w \<noteq> [] \<and> \<not> w_check_diff w" by (simp add: demo_watch_def)
  have n: "map_of (al_db ?s) [] = None" by (simp add: alert_start_def demo_table_def)
  from directories_synced [OF w demo_views_world demo_scan_start(1,4,2) n p r p [where n = 1 and xs = "event_run ?mk (ao_events out1) (\<lambda>_. None)"]]
  obtain s1 out2 s2 where
    k: "r1 = Alert_continues s1" "alert_run demo_disk_env ?t2 s1 = (out2, Alert_continues s2)"
    and d: "\<forall>q. let found = (\<exists>w \<in> set [demo_watch]. below demo_dirs (w_recursive w) (w_path w) q) in
          map_of (al_db s2) q = synced_row found (?fs q) (map_of (al_db ?s) q)
          \<and> reports q (ao_alerts out1 @ ao_alerts out2) = map (sent_text demo_disk_env) (due_reports demo_disk_env found (?fs q) (map_of (al_db ?s) q))"
    by (elim exE conjE)
  have m: "map_of (al_db s2) q = synced_row (\<exists>w \<in> set [demo_watch]. below demo_dirs (w_recursive w) (w_path w) q) (?fs q)
      (map_of (al_db ?s) q)" for q
    using d [rule_format, of q, unfolded Let_def] by (rule conjunct1)
  have "below demo_dirs True ''/d'' (''/d'' @ CHR ''/'' # ''f'')"
    by (rule child [where is_dir = False]) (auto simp: open_dir_def path_max_def is_dots_def demo_dirs_def)
  then have b: "\<exists>w \<in> set [demo_watch]. below demo_dirs (w_recursive w) (w_path w) ''/d/f''" by (simp add: demo_watch_def)
  have e: "fd_exists (?fs ''/d/f'')" "\<not> fd_exists (?fs ''/a'')"
    by (simp_all add: disk_object_def construct_def demo_views_def missing_view_def demo_view_def deleted_object_def
        new_file_data_def mode_file_type_def format_defs check_file_def Let_def)
  have "map_of (al_db ?s) ''/d/f'' = None" "map_of (al_db ?s) ''/a'' \<noteq> None" by (simp_all add: alert_start_def demo_table_def)
  with b e have "map_of (al_db s2) ''/d/f'' \<noteq> None" "map_of (al_db s2) ''/a'' = None"
    unfolding m by (auto simp: synced_row_def)
  moreover have "map snd ?t = event_run ?mk (scan_run demo_dirs (scan_requests [demo_watch])) (\<lambda>_. None)" by (rule p)
  ultimately show ?thesis using r k by blast
qed

subsection \<open>The watching thread\<close>

text \<open>
  Every event is passed on. An event on a watched directory that is not on the ignore list is queued exactly
  once, with the path of the object, and with a content check unless only attributes changed or the
  directory itself went away.
\<close>

theorem watch_event_queued:
  assumes "ws (in_wd ev) = Some dir" and "in_mask ev \<noteq> IN_IGNORED"
    and "path = (case in_name ev of None \<Rightarrow> dir | Some name \<Rightarrow> dir @ ''/'' @ name)"
    and "\<forall>r. ignore = Some r \<longrightarrow> rx_search rx r path = None"
  shows "\<exists>fl. wo_rt (fst (watch_event rx ignore w dirs wds ev ws)) = [(path, fl)]
     \<and> has_flag fl F_CHK_CONTENT = (in_mask ev \<notin> {IN_ATTRIB, IN_ATTRIB OR IN_ISDIR, IN_DELETE_SELF})
     \<and> \<not> has_flag fl F_SPECIAL"
proof -
  have i: "(case ignore of None \<Rightarrow> False
      | Some r \<Rightarrow> rx_search rx r (case in_name ev of None \<Rightarrow> dir | Some name \<Rightarrow> dir @ ''/'' @ name) \<noteq> None) = False"
    using assms(4) unfolding assms(3) by (auto split: option.split)
  note f = has_flag_def flag_defs inotify_defs
  show ?thesis
    unfolding watch_event_def Let_def assms(1) option.case i assms(3) if_False if_not_P [OF assms(2)]
    by (cases "w_check_diff w"; cases "w_recursive w") (simp_all add: f del: append_Cons append_Nil)
qed

theorem watch_event_queued_witness:
  "\<exists>fl. wo_rt (fst (watch_event literal_rx None demo_watch demo_dirs (\<lambda>p. None) \<lparr>in_wd = 1, in_mask = IN_MODIFY, in_name = Some ''f''\<rparr> [1 \<mapsto> ''/d'']))
     = [(''/d/f'', fl)] \<and> has_flag fl F_CHK_CONTENT \<and> \<not> has_flag fl F_SPECIAL"
  using watch_event_queued [of "[1 \<mapsto> ''/d'']" "\<lparr>in_wd = 1, in_mask = IN_MODIFY, in_name = Some ''f''\<rparr>" "''/d''" "''/d/f''" None
      literal_rx demo_watch demo_dirs "\<lambda>p. None"]
  by (simp add: inotify_defs)

text \<open>
  The watching thread ends by two ordinary events, and with it the daemon: an overflow of the queue of the
  kernel, which comes with the watch id -1, and the creation of a directory that is gone again before it is
  listed.
\<close>

theorem watch_ends:
  assumes "ws (- 1) = None" and "ws wd = Some dir" and "wds (dir @ ''/'' @ name) = Some new" and "dirs (dir @ ''/'' @ name) = None"
    and "w_recursive w" and "ignore = None"
  shows "snd (watch_event rx ignore w dirs wds \<lparr>in_wd = - 1, in_mask = IN_Q_OVERFLOW, in_name = None\<rparr> ws) = Inl (No_such_watch (- 1))
     \<and> snd (watch_event rx ignore w dirs wds \<lparr>in_wd = wd, in_mask = IN_CREATE OR IN_ISDIR, in_name = Some name\<rparr> ws)
        = Inl (Can_not_open_directory (dir @ ''/'' @ name))"
  using assms by (simp add: watch_event_def Let_def inotify_defs add_watch.simps [of dirs wds] open_dir_def)

theorem watch_ends_witness:
  "snd (watch_event literal_rx None demo_watch demo_dirs (\<lambda>p. Some 2) \<lparr>in_wd = 1, in_mask = IN_CREATE OR IN_ISDIR, in_name = Some ''n''\<rparr> [1 \<mapsto> ''/d''])
     = Inl (Can_not_open_directory ''/d/n'')"
  using watch_ends [of "[1 \<mapsto> ''/d'']" 1 "''/d''" "\<lambda>p. Some 2" "''n''" 2 demo_dirs demo_watch None literal_rx]
  by (simp add: demo_dirs_def demo_watch_def)

end
