(* ===== verification/Diskscan_Runs.thy ===== *)
theory Diskscan_Runs
  imports Diskscan_Daemon Diskscan_Threads_Facts
begin

text \<open>
  The runs of ctguard-diskscan, in every interleaving of its threads: no alert is lost between the alerting
  and the output thread; the daemon can always go on to return; a single run waits forever when the alerting
  thread has ended before the scan.
\<close>

subsection \<open>What a run did\<close>

definition raised :: "disk_label list \<Rightarrow> source_event list" where
  "raised tr = concat (List.map_filter (\<lambda>l. case l of Alerts now inp out \<Rightarrow> Some (ao_alerts out) | _ \<Rightarrow> None) tr)"

definition out_inputs :: "disk_label list \<Rightarrow> source_event option list" where
  "out_inputs = List.map_filter (\<lambda>l. case l of Forwards inp \<Rightarrow> Some inp | _ \<Rightarrow> None)"

definition forwarded :: "disk_label list \<Rightarrow> source_event list" where
  "forwarded tr = List.map_filter id (out_inputs tr)"

lemma disk_label_simps [simp]:
  "raised [] = []" "out_inputs [] = []" "forwarded [] = []"
  "raised (xs @ ys) = raised xs @ raised ys" "out_inputs (xs @ ys) = out_inputs xs @ out_inputs ys"
  "forwarded (xs @ ys) = forwarded xs @ forwarded ys"
  "raised (l # ls) = (case l of Alerts now inp out \<Rightarrow> ao_alerts out | _ \<Rightarrow> []) @ raised ls"
  "out_inputs (l # ls) = (case l of Forwards inp \<Rightarrow> [inp] | _ \<Rightarrow> []) @ out_inputs ls"
  "forwarded (l # ls) = (case l of Forwards (Some e) \<Rightarrow> [e] | _ \<Rightarrow> []) @ forwarded ls"
  by (auto simp: raised_def out_inputs_def forwarded_def List.map_filter_def split: disk_label.splits option.splits)

subsection \<open>The cases of a turn\<close>

lemma disk_scans_Some:
  "disk_scans dirs s = Some (ls, s') \<longleftrightarrow>
     (\<exists>inp q es on. sd_scanq s = inp # q \<and> scan_turn dirs (sd_running s) inp = (es, on) \<and> ls = [Scans dirs inp]
        \<and> s' = s\<lparr>sd_scanq := q, sd_eventq := sd_eventq s @ es, sd_scan := (if on then Thread_running else Thread_done)\<rparr>)"
  by (auto simp: disk_scans_def bq_take_def split: list.splits prod.splits)

lemma disk_looks_cases [consumes 1, case_names stops throws looks]:
  assumes "disk_looks env junk v s = Some (ls, s')"
  obtains (stops) inp q ds where "sd_eventq s = inp # q" "ls = [Looks junk v inp]"
      "event_turn (env_factory env junk v) (sd_running s) inp (sd_diffdb s) = (ds, Event_stops)"
      "s' = s\<lparr>sd_eventq := q, sd_dataq := sd_dataq s @ ds, sd_event := Thread_done\<rparr>"
  | (throws) inp q ds e where "sd_eventq s = inp # q" "ls = [Looks junk v inp]"
      "event_turn (env_factory env junk v) (sd_running s) inp (sd_diffdb s) = (ds, Event_throws e)"
      "s' = s\<lparr>sd_eventq := q, sd_dataq := sd_dataq s @ ds, sd_event := Thread_dead, sd_errors := Object_failed e # sd_errors s\<rparr>"
  | (looks) inp q ds db where "sd_eventq s = inp # q" "ls = [Looks junk v inp]"
      "event_turn (env_factory env junk v) (sd_running s) inp (sd_diffdb s) = (ds, Event_continues db)"
      "s' = s\<lparr>sd_eventq := q, sd_dataq := sd_dataq s @ ds, sd_diffdb := db\<rparr>"
proof -
  from assms obtain inp q where q: "sd_eventq s = inp # q"
    by (auto simp: disk_looks_def bq_take_def split: list.splits)
  obtain ds r where t: "event_turn (env_factory env junk v) (sd_running s) inp (sd_diffdb s) = (ds, r)" by fastforce
  show thesis
    using assms stops [OF q] throws [OF q] looks [OF q]
    by (cases r) (auto simp: disk_looks_def bq_take_def q t)
qed

lemma disk_rt_looks_cases [consumes 1, case_names stops throws looks sleeps]:
  assumes "disk_rt_looks env junk v now s = Some (ls, s')"
  obtains (stops) front q ds where "sd_rtq s = front # q" "ls = []"
      "rt_turn (env_factory env junk v) (dc_settle_time (dv_cfg env)) now (sd_running s) front (sd_diffdb s) = (ds, Rt_stops)"
      "s' = s\<lparr>sd_dataq := sd_dataq s @ ds, sd_rt := Thread_done\<rparr>"
  | (throws) front q ds e where "sd_rtq s = front # q" "ls = [Rt_looks (snd front)]"
      "s' = s\<lparr>sd_dataq := sd_dataq s @ ds, sd_rtq := q, sd_rt := Thread_dead, sd_errors := Object_failed e # sd_errors s\<rparr>"
  | (looks) front q ds db where "sd_rtq s = front # q" "ls = [Rt_looks (snd front)]" "sd_running s"
      "s' = s\<lparr>sd_dataq := sd_dataq s @ ds, sd_rtq := q, sd_diffdb := db\<rparr>"
  | (sleeps) front q ds where "sd_rtq s = front # q" "ls = []" "sd_running s" "s' = s\<lparr>sd_dataq := sd_dataq s @ ds\<rparr>"
proof -
  from assms obtain front q where q: "sd_rtq s = front # q"
    by (auto simp: disk_rt_looks_def bq_front_def split: list.splits)
  obtain ds r where t: "rt_turn (env_factory env junk v) (dc_settle_time (dv_cfg env)) now (sd_running s) front (sd_diffdb s) = (ds, r)"
    by fastforce
  have run: "sd_running s" if "r \<noteq> Rt_stops"
    using t that by (auto simp: rt_turn_def split: prod.splits if_splits)
  note e = assms [symmetric, unfolded disk_rt_looks_def bq_front_def bq_pop_def q t list.case option.case prod.case Let_def option.inject]
  show thesis
  proof (cases r)
    case Rt_stops
    with e t show thesis by (intro stops [OF q]) simp_all
  next
    case (Rt_throws e')
    with e show thesis by (intro throws [OF q, where ds = ds and e = e']) (simp_all add: q)
  next
    case (Rt_continues db)
    with e run show thesis by (intro looks [OF q, where ds = ds and db = db]) (simp_all add: q)
  next
    case (Rt_sleeps n)
    with e run show thesis by (intro sleeps [OF q, where ds = ds]) simp_all
  qed
qed

lemma disk_alerts_cases [consumes 1, case_names stops throws alerts]:
  assumes "disk_alerts env now al s = Some (ls, s')"
  obtains (stops) inp q out where "sd_dataq s = inp # q" "ls = [Alerts now inp out]"
      "alert_turn (alert_env env) now (sd_running s) inp al = (out, Alert_stops)"
      "s' = s\<lparr>sd_dataq := q, sd_outq := sd_outq s @ ao_alerts out, sd_eventq := sd_eventq s @ ao_events out,
              sd_scanning := (sd_scanning s \<and> \<not> ao_scan_done out), sd_alert := Thread_done\<rparr>"
  | (throws) inp q out e where "sd_dataq s = inp # q" "ls = [Alerts now inp out]"
      "alert_turn (alert_env env) now (sd_running s) inp al = (out, Alert_throws e)"
      "s' = s\<lparr>sd_dataq := q, sd_outq := sd_outq s @ ao_alerts out, sd_eventq := sd_eventq s @ ao_events out,
              sd_scanning := (sd_scanning s \<and> \<not> ao_scan_done out), sd_alert := Thread_dead, sd_errors := Db_failed e # sd_errors s\<rparr>"
  | (alerts) inp q out al' where "sd_dataq s = inp # q" "ls = [Alerts now inp out]"
      "alert_turn (alert_env env) now (sd_running s) inp al = (out, Alert_continues al')"
      "s' = s\<lparr>sd_dataq := q, sd_outq := sd_outq s @ ao_alerts out, sd_eventq := sd_eventq s @ ao_events out,
              sd_scanning := (sd_scanning s \<and> \<not> ao_scan_done out), sd_alert_state := Some al'\<rparr>"
proof -
  from assms obtain inp q where q: "sd_dataq s = inp # q"
    by (auto simp: disk_alerts_def bq_take_def split: list.splits)
  obtain out r where t: "alert_turn (alert_env env) now (sd_running s) inp al = (out, r)" by fastforce
  note e = assms [symmetric, unfolded disk_alerts_def bq_take_def q t list.case option.case prod.case Let_def option.inject prod.inject]
  show thesis
  proof (cases r)
    case Alert_stops
    with e t show thesis by (intro stops [OF q]) simp_all
  next
    case (Alert_throws e')
    with e t show thesis by (intro throws [OF q]) simp_all
  next
    case (Alert_continues al')
    with e t show thesis by (intro alerts [OF q]) simp_all
  qed
qed

lemma disk_forwards_cases [consumes 1, case_names forwards]:
  assumes "disk_forwards env s = Some (ls, s')"
  obtains (forwards) inp q rt sink where "(inp, q) = (case sd_outq s of [] \<Rightarrow> (None, []) | e # q \<Rightarrow> (Some e, q))"
    "ls = [Forwards inp]"
    "s' = s\<lparr>sd_outq := q, sd_local := rt, sd_sink := sink, sd_output := (if rt_stopped rt then Thread_done else Thread_running)\<rparr>"
    "resend_step (event_send (dv_net env) (dv_ser env)) se_is_kill (\<lambda>se. se) inp (sd_local s) (sd_sink s) = Some (rt, sink)"
proof -
  obtain inp q where p: "bq_take_for (sd_outq s) [] = (inp, q)" by fastforce
  then have i: "(inp, q) = (case sd_outq s of [] \<Rightarrow> (None, []) | e # q \<Rightarrow> (Some e, q))"
    by (cases "sd_outq s") (simp_all add: bq_take_for_def)
  from assms obtain r where
    r: "resend_step (event_send (dv_net env) (dv_ser env)) se_is_kill (\<lambda>se. se) inp (sd_local s) (sd_sink s) = Some r"
    unfolding disk_forwards_def p Let_def prod.case bind_eq_Some_conv by blast
  obtain rt sink where rs: "r = (rt, sink)" by (cases r)
  from assms show thesis
    unfolding disk_forwards_def p r rs Let_def prod.case Option.bind.bind_lunit option.inject prod.inject
    by (intro forwards [OF i _ _ r [unfolded rs]]) simp_all
qed

text \<open>What the steps of the main and the watching threads leave alone: the alerting and the output thread.\<close>

definition alert_side ::
    "disk_state \<Rightarrow> source_event list \<times> thread_status \<times> alert_state option \<times> thread_status \<times> source_event resend \<times> sink_state" where
  "alert_side s = (sd_outq s, sd_alert s, sd_alert_state s, sd_output s, sd_local s, sd_sink s)"

lemma alert_side_update [simp]:
  "alert_side (s\<lparr>sd_main := m\<rparr>) = alert_side s" "alert_side (s\<lparr>sd_scanq := q1\<rparr>) = alert_side s"
  "alert_side (s\<lparr>sd_eventq := q1\<rparr>) = alert_side s" "alert_side (s\<lparr>sd_dataq := q2\<rparr>) = alert_side s"
  "alert_side (s\<lparr>sd_rtq := q3\<rparr>) = alert_side s" "alert_side (s\<lparr>sd_diffdb := db\<rparr>) = alert_side s"
  "alert_side (s\<lparr>sd_errors := es\<rparr>) = alert_side s" "alert_side (s\<lparr>sd_scan := st\<rparr>) = alert_side s"
  "alert_side (s\<lparr>sd_event := st\<rparr>) = alert_side s" "alert_side (s\<lparr>sd_rt := st\<rparr>) = alert_side s"
  by (simp_all add: alert_side_def)

lemma alert_side_main [simp]:
  "alert_side (start_scan env s) = alert_side s" "alert_side (disk_starts env s) = alert_side s"
  "alert_side (singlerun_stops s) = alert_side s" "alert_side (disk_shuts_down s) = alert_side s"
  by (simp_all add: alert_side_def start_scan_def disk_starts_def singlerun_stops_def disk_shuts_down_def)

lemma alert_side_timeout [simp]: "alert_side (monitor_timeout env s) = alert_side s"
proof (cases "sd_errors s = []")
  case True
  then show ?thesis by (simp add: monitor_timeout_def Let_def) (simp add: alert_side_def start_scan_def)
qed (simp add: monitor_timeout_def)

lemma alert_side_watch [simp]:
  "alert_side (watch_fails i e s) = alert_side s" "alert_side (watch_sets i ws s) = alert_side s" "alert_side (watch_idles i s) = alert_side s"
  by (simp_all add: alert_side_def watch_fails_def watch_sets_def watch_idles_def)

lemma alert_side_watch_starts [simp]: "alert_side (watch_starts env i dirs wds s) = alert_side s"
  by (simp add: watch_starts_def Let_def split: sum.split)

lemma alert_side_watch_turns [simp]: "alert_side (watch_turns env i dirs wds now evs ws s) = alert_side s"
proof -
  obtain out r where e: "watch_events (dv_rx env) (dc_realtime_ignore (dv_cfg env)) (realtime_watches env ! i) dirs wds evs ws = (out, r)"
    by fastforce
  have "alert_side (s\<lparr>sd_rtq := q1, sd_scanq := q2\<rparr>) = alert_side s" for q1 q2 by (simp add: alert_side_def)
  then show ?thesis by (cases r) (simp_all add: watch_turns_def e Let_def)
qed

subsection \<open>Alerts and the closing mark\<close>

lemma report_no_kill [simp]: "\<not> se_is_kill (disk_log_2_se env now p False m)"
  by (simp add: se_is_kill_def disk_log_2_se_def default_source_event_def)

lemma se_kill_kill [simp]: "se_is_kill se_kill"
  by (simp add: se_is_kill_def se_kill_def)

lemma insert_objects_no_kill: "insert_objects env now fds t = (es, r) \<Longrightarrow> e \<in> set es \<Longrightarrow> \<not> se_is_kill e"
  by (induction fds arbitrary: t es) (auto split: sum.splits prod.splits)

lemma do_insert_set_no_kill: "do_insert_set env now s = (es, r) \<Longrightarrow> e \<in> set es \<Longrightarrow> \<not> se_is_kill e"
  by (auto simp: do_insert_set_def dest: insert_objects_no_kill split: prod.splits sum.splits)

lemma alert_object_no_kill: "alert_object env now fl fd s = (es, r) \<Longrightarrow> e \<in> set es \<Longrightarrow> \<not> se_is_kill e"
  by (auto simp: alert_object_def alert_missing_def alert_found_def Let_def split: list.splits if_splits sum.splits
      dest: do_insert_set_no_kill)

text \<open>A turn of the alerting thread raises its reports, and the closing mark when it is the last one.\<close>

lemma alert_turn_kill:
  assumes "alert_turn env now running inp s = (out, r)"
  obtains es where "ao_alerts out = es @ (case r of Alert_continues s' \<Rightarrow> [] | _ \<Rightarrow> [se_kill])" "\<forall>e \<in> set es. \<not> se_is_kill e"
proof -
  have "\<exists>es. ao_alerts out = es @ (case r of Alert_continues s' \<Rightarrow> [] | _ \<Rightarrow> [se_kill]) \<and> (\<forall>e \<in> set es. \<not> se_is_kill e)"
    using assms unfolding alert_turn_def Let_def no_output_def
    by (auto split: if_splits prod.splits sum.splits option.splits dest: do_insert_set_no_kill alert_object_no_kill)
  with that show thesis by blast
qed

text \<open>The books of the output queue. \<open>closing\<close>: the mark of a database that could not be opened.\<close>

definition closing :: "disk_state \<Rightarrow> source_event list" where
  "closing s = (if sd_alert s = Thread_dead \<and> sd_alert_state s = None then [se_kill] else [])"

definition out_books :: "disk_label list \<Rightarrow> disk_state \<Rightarrow> bool" where
  "out_books tr s =
     (forwarded tr @ sd_outq s = raised tr @ closing s
      \<and> (\<exists>es. raised tr @ closing s = es @ (if sd_alert s = Thread_running then [] else [se_kill]) \<and> (\<forall>e \<in> set es. \<not> se_is_kill e))
      \<and> (sd_alert_state s = None \<longrightarrow> raised tr = [])
      \<and> (sd_output s = Thread_running \<longleftrightarrow> (\<forall>e \<in> set (forwarded tr). \<not> se_is_kill e)) \<and> (rt_stopped (sd_local s) \<longleftrightarrow> sd_output s \<noteq> Thread_running))"

lemma out_books_side: "alert_side s' = alert_side s \<Longrightarrow> out_books tr s \<Longrightarrow> out_books tr s'"
  by (simp add: out_books_def closing_def alert_side_def)

lemma out_books_step:
  assumes "disk_step env s ls s'" "out_books tr s"
  shows "out_books (tr @ ls) s'"
  using assms(1)
proof cases
  case (Ds_scans dirs)
  then obtain inp where "ls = [Scans dirs inp]" "alert_side s' = alert_side s" by (auto simp: disk_scans_Some)
  with out_books_side [of s' s tr] assms(2) show ?thesis by (simp add: out_books_def)
next
  case (Ds_looks junk v)
  then obtain inp where "ls = [Looks junk v inp]" "alert_side s' = alert_side s" by (auto elim: disk_looks_cases)
  with out_books_side [of s' s tr] assms(2) show ?thesis by (simp add: out_books_def)
next
  case (Ds_rt_looks junk v now)
  from Ds_rt_looks(4) have "raised ls = []" "forwarded ls = []" "alert_side s' = alert_side s"
    by (cases rule: disk_rt_looks_cases; simp)+
  with out_books_side [of s' s tr] assms(2) show ?thesis by (simp add: out_books_def)
next
  case (Ds_opens_db db)
  with assms(2) show ?thesis by (cases db) (auto simp: disk_opens_db_def out_books_def closing_def)
next
  case (Ds_alerts al now)
  have c: "closing s = []" using Ds_alerts by (simp add: closing_def)
  from assms(2) Ds_alerts(1) c have r: "\<forall>e \<in> set (raised tr). \<not> se_is_kill e" by (auto simp: out_books_def)
  from Ds_alerts(3) show ?thesis
  proof (cases rule: disk_alerts_cases)
    case (stops inp q out)
    from stops(3) show ?thesis
      by (rule alert_turn_kill) (use stops(2,4) assms(2) c r Ds_alerts(1,2) in \<open>auto simp: out_books_def closing_def\<close>)
  next
    case (throws inp q out e)
    from throws(3) show ?thesis
      by (rule alert_turn_kill) (use throws(2,4) assms(2) c r Ds_alerts(1,2) in \<open>auto simp: out_books_def closing_def\<close>)
  next
    case (alerts inp q out al')
    from alerts(3) show ?thesis
      by (rule alert_turn_kill) (use alerts(2,4) assms(2) c r Ds_alerts(1,2) in \<open>auto simp: out_books_def closing_def\<close>)
  qed
next
  case Ds_forwards
  have k: "rt_stopped rt \<longleftrightarrow> rt_stopped (sd_local s) \<or> (\<exists>x. inp = Some x \<and> se_is_kill x)"
    if "resend_step (event_send (dv_net env) (dv_ser env)) se_is_kill (\<lambda>se. se) inp (sd_local s) (sd_sink s) = Some (rt, sink)" for inp rt sink
    using that by (auto simp: resend_step_def bind_eq_Some_conv split: option.splits if_splits sum.splits)
      (metis old.unit.exhaust sum.exhaust)+
  from Ds_forwards(2) obtain inp q rt sink where
    f: "(inp, q) = (case sd_outq s of [] \<Rightarrow> (None, []) | e # q \<Rightarrow> (Some e, q))" "ls = [Forwards inp]"
      "s' = s\<lparr>sd_outq := q, sd_local := rt, sd_sink := sink, sd_output := (if rt_stopped rt then Thread_done else Thread_running)\<rparr>"
    and r: "resend_step (event_send (dv_net env) (dv_ser env)) se_is_kill (\<lambda>se. se) inp (sd_local s) (sd_sink s) = Some (rt, sink)"
    by (rule disk_forwards_cases)
  note b = assms(2) [unfolded out_books_def closing_def]
  show ?thesis
  proof (cases "sd_outq s")
    case Nil
    with f(1) have "inp = None" "q = []" by simp_all
    with f(2,3) k [OF r] b Nil Ds_forwards(1) show ?thesis by (simp add: out_books_def closing_def)
  next
    case (Cons e es)
    with f(1) have "inp = Some e" "q = es" by simp_all
    with f(2,3) k [OF r] b Cons Ds_forwards(1) show ?thesis by (simp add: out_books_def closing_def)
  qed
qed (use assms(2) in \<open>auto intro: out_books_side\<close>)

text \<open>What the output thread did is a run of its loop.\<close>

definition sink_books :: "disk_env \<Rightarrow> sink_state \<Rightarrow> disk_label list \<Rightarrow> disk_state \<Rightarrow> bool" where
  "sink_books env sink tr s =
     (resend_run (event_send (dv_net env) (dv_ser env)) se_is_kill (\<lambda>se. se) (out_inputs tr) resend_init sink
       = Some (sd_local s, sd_sink s))"

lemma sink_books_side: "alert_side s' = alert_side s \<Longrightarrow> sink_books env sink tr s \<Longrightarrow> sink_books env sink tr s'"
  by (simp add: sink_books_def alert_side_def)

lemma sink_books_step:
  assumes "disk_step env s ls s'" "sink_books env sink tr s" "out_books tr s"
  shows "sink_books env sink (tr @ ls) s'"
  using assms(1)
proof cases
  case Ds_forwards
  from Ds_forwards(2) show ?thesis
  proof (cases rule: disk_forwards_cases)
    case (forwards inp q rt sink)
    from assms(3) Ds_forwards(1) have "\<not> rt_stopped (sd_local s)" by (simp add: out_books_def)
    from resend_run_snoc [OF assms(2) [unfolded sink_books_def] this, of inp] forwards
    show ?thesis by (simp add: sink_books_def)
  qed
next
  case (Ds_scans dirs)
  with assms(2) show ?thesis by (auto simp: disk_scans_Some sink_books_def)
next
  case (Ds_looks junk v)
  from Ds_looks(2) show ?thesis by (cases rule: disk_looks_cases) (use assms(2) in \<open>simp_all add: sink_books_def\<close>)
next
  case (Ds_rt_looks junk v now)
  from Ds_rt_looks(4) show ?thesis by (cases rule: disk_rt_looks_cases) (use assms(2) in \<open>simp_all add: sink_books_def\<close>)
next
  case (Ds_opens_db db)
  with assms(2) show ?thesis by (cases db) (simp_all add: disk_opens_db_def sink_books_def)
next
  case (Ds_alerts al now)
  from Ds_alerts(3) show ?thesis by (cases rule: disk_alerts_cases) (use assms(2) in \<open>simp_all add: sink_books_def\<close>)
qed (use assms(2) in \<open>auto intro: sink_books_side\<close>)

lemma run_out_books:
  "disk_run env sink db tr s \<Longrightarrow> out_books tr s \<and> sink_books env sink tr s"
proof (induction rule: disk_run.induct)
  case ds_start
  show ?case by (simp add: out_books_def sink_books_def closing_def disk_init_def resend_init_def)
next
  case (ds_step tr s ls s')
  with out_books_step sink_books_step show ?case by blast
qed

subsection \<open>Joining the threads\<close>

definition disk_threads :: "disk_env \<Rightarrow> disk_thread list" where
  "disk_threads env =
     (if dv_singlerun env then [Scan_thread, Event_thread, Alert_thread, Output_thread]
      else [Scan_thread, Event_thread, Rt_thread, Alert_thread, Output_thread, Watch_threads])"

text \<open>A thread that has ended stays so.\<close>

definition main_ok :: "disk_env \<Rightarrow> disk_state \<Rightarrow> bool" where
  "main_ok env s =
     (case sd_main s of
        Disk_start \<Rightarrow> sd_watch s = []
      | Disk_wait_scan \<Rightarrow> dv_singlerun env
      | Disk_monitor \<Rightarrow> \<not> dv_singlerun env
      | Disk_join ts \<Rightarrow> \<exists>us. disk_threads env = us @ ts \<and> (\<forall>t \<in> set us. disk_joinable t s)
      | Disk_returned \<Rightarrow> \<forall>t \<in> set (disk_threads env). disk_joinable t s)"

lemma join_next_ok:
  assumes "main_ok env s" "sd_main s = Disk_join (t # ts)" "disk_joinable t s"
  shows "main_ok env (s\<lparr>sd_main := join_next ts\<rparr>)"
proof -
  have j: "disk_joinable u (s\<lparr>sd_main := m\<rparr>) = disk_joinable u s" for u m
    by (cases u) (simp_all add: disk_joinable_def)
  from assms(1,2) obtain us where u: "disk_threads env = us @ t # ts" "\<forall>t \<in> set us. disk_joinable t s"
    by (auto simp: main_ok_def)
  then have "disk_threads env = (us @ [t]) @ ts" "\<forall>t \<in> set (us @ [t]). disk_joinable t s" using assms(3) by auto
  then show ?thesis by (auto simp: main_ok_def join_next_def j)
qed

lemma joinable_cong:
  "sd_scan s' = sd_scan s \<Longrightarrow> sd_event s' = sd_event s \<Longrightarrow> sd_rt s' = sd_rt s \<Longrightarrow> sd_alert s' = sd_alert s \<Longrightarrow>
   sd_output s' = sd_output s \<Longrightarrow> sd_watch s' = sd_watch s \<Longrightarrow> disk_joinable t s' = disk_joinable t s"
  by (cases t) (simp_all add: disk_joinable_def)

lemma main_ok_side:
  "main_ok env s \<Longrightarrow> sd_main s' = sd_main s \<Longrightarrow> (\<And>t. disk_joinable t s \<Longrightarrow> disk_joinable t s') \<Longrightarrow>
   (sd_watch s = [] \<longrightarrow> sd_watch s' = []) \<Longrightarrow> main_ok env s'"
  by (auto simp: main_ok_def split: disk_pc.splits)

text \<open>A step of a running watching thread.\<close>

lemma watch_step_ok:
  assumes "main_ok env s" "sd_main s' = sd_main s" "i < length (sd_watch s)" "ww_status (sd_watch s ! i) = Thread_running"
    "sd_scan s' = sd_scan s" "sd_event s' = sd_event s" "sd_rt s' = sd_rt s" "sd_alert s' = sd_alert s" "sd_output s' = sd_output s"
  shows "main_ok env s'"
proof (rule main_ok_side [OF assms(1,2)])
  fix t
  assume "disk_joinable t s"
  moreover have "t \<noteq> Watch_threads"
    using calculation assms(3,4) by (auto simp: disk_joinable_def list_all_length)
  ultimately show "disk_joinable t s'" using assms(5-9) by (cases t) (simp_all add: disk_joinable_def)
qed (use assms(3) in auto)

lemma watch_other [simp]:
  "sd_main (watch_fails i e s) = sd_main s" "sd_scan (watch_fails i e s) = sd_scan s" "sd_event (watch_fails i e s) = sd_event s"
  "sd_rt (watch_fails i e s) = sd_rt s" "sd_alert (watch_fails i e s) = sd_alert s" "sd_output (watch_fails i e s) = sd_output s"
  "sd_main (watch_sets i ws s) = sd_main s" "sd_scan (watch_sets i ws s) = sd_scan s" "sd_event (watch_sets i ws s) = sd_event s"
  "sd_rt (watch_sets i ws s) = sd_rt s" "sd_alert (watch_sets i ws s) = sd_alert s" "sd_output (watch_sets i ws s) = sd_output s"
  "sd_main (watch_idles i s) = sd_main s" "sd_scan (watch_idles i s) = sd_scan s" "sd_event (watch_idles i s) = sd_event s"
  "sd_rt (watch_idles i s) = sd_rt s" "sd_alert (watch_idles i s) = sd_alert s" "sd_output (watch_idles i s) = sd_output s"
  "sd_running (watch_fails i e s) = sd_running s" "sd_running (watch_sets i ws s) = sd_running s" "sd_running (watch_idles i s) = sd_running s"
  "sd_scanning (watch_fails i e s) = sd_scanning s" "sd_scanning (watch_sets i ws s) = sd_scanning s"
  "sd_scanning (watch_idles i s) = sd_scanning s"
  by (simp_all add: watch_fails_def watch_sets_def watch_idles_def)

lemma watch_starts_other [simp]:
  "sd_main (watch_starts env i dirs wds s) = sd_main s" "sd_scan (watch_starts env i dirs wds s) = sd_scan s"
  "sd_event (watch_starts env i dirs wds s) = sd_event s" "sd_rt (watch_starts env i dirs wds s) = sd_rt s"
  "sd_alert (watch_starts env i dirs wds s) = sd_alert s" "sd_output (watch_starts env i dirs wds s) = sd_output s"
  "sd_running (watch_starts env i dirs wds s) = sd_running s" "sd_scanning (watch_starts env i dirs wds s) = sd_scanning s"
  by (simp_all add: watch_starts_def Let_def split: sum.split)

lemma watch_turns_other [simp]:
  "sd_main (watch_turns env i dirs wds now evs ws s) = sd_main s" "sd_scan (watch_turns env i dirs wds now evs ws s) = sd_scan s"
  "sd_event (watch_turns env i dirs wds now evs ws s) = sd_event s" "sd_rt (watch_turns env i dirs wds now evs ws s) = sd_rt s"
  "sd_alert (watch_turns env i dirs wds now evs ws s) = sd_alert s" "sd_output (watch_turns env i dirs wds now evs ws s) = sd_output s"
  "sd_running (watch_turns env i dirs wds now evs ws s) = sd_running s"
  "sd_scanning (watch_turns env i dirs wds now evs ws s) = sd_scanning s"
proof -
  obtain out r where e: "watch_events (dv_rx env) (dc_realtime_ignore (dv_cfg env)) (realtime_watches env ! i) dirs wds evs ws = (out, r)"
    by fastforce
  show
    "sd_main (watch_turns env i dirs wds now evs ws s) = sd_main s" "sd_scan (watch_turns env i dirs wds now evs ws s) = sd_scan s"
    "sd_event (watch_turns env i dirs wds now evs ws s) = sd_event s" "sd_rt (watch_turns env i dirs wds now evs ws s) = sd_rt s"
    "sd_alert (watch_turns env i dirs wds now evs ws s) = sd_alert s" "sd_output (watch_turns env i dirs wds now evs ws s) = sd_output s"
    "sd_running (watch_turns env i dirs wds now evs ws s) = sd_running s"
    "sd_scanning (watch_turns env i dirs wds now evs ws s) = sd_scanning s"
    by (cases r; simp add: watch_turns_def e Let_def)+
qed

lemma main_ok_step:
  assumes "disk_step env s ls s'" "main_ok env s"
  shows "main_ok env s'"
  using assms(1)
proof cases
  case Ds_starts
  then show ?thesis by (simp add: main_ok_def disk_starts_def)
next
  case Ds_scan_done
  with assms(2) show ?thesis
    by (auto simp: main_ok_def singlerun_stops_def disk_threads_def)
next
  case Ds_timeout
  with assms(2) show ?thesis
    by (simp add: main_ok_def monitor_timeout_def disk_shuts_down_def start_scan_def disk_threads_def Let_def)
next
  case Ds_signal
  with assms(2) show ?thesis by (simp add: main_ok_def disk_shuts_down_def disk_threads_def)
next
  case (Ds_joins t ts)
  with assms(2) join_next_ok show ?thesis by simp
next
  case (Ds_scans dirs)
  show ?thesis
    by (rule main_ok_side [OF assms(2)]) (use Ds_scans in \<open>auto simp: disk_scans_Some disk_joinable_def split: disk_thread.splits\<close>)
next
  case (Ds_looks junk v)
  from Ds_looks(2) show ?thesis
    by (cases rule: disk_looks_cases; intro main_ok_side [OF assms(2)])
      (use Ds_looks(1) in \<open>simp_all add: disk_joinable_def split: disk_thread.splits\<close>)
next
  case (Ds_rt_looks junk v now)
  from Ds_rt_looks(4) show ?thesis
    by (cases rule: disk_rt_looks_cases; intro main_ok_side [OF assms(2)])
      (use Ds_rt_looks(3) in \<open>simp_all add: disk_joinable_def split: disk_thread.splits\<close>)
next
  case (Ds_opens_db db)
  then show ?thesis
    by (cases db; intro main_ok_side [OF assms(2)])
      (simp_all add: disk_opens_db_def disk_joinable_def split: disk_thread.splits)
next
  case (Ds_alerts al now)
  from Ds_alerts(3) show ?thesis
    by (cases rule: disk_alerts_cases; intro main_ok_side [OF assms(2)])
      (use Ds_alerts(1) in \<open>simp_all add: disk_joinable_def split: disk_thread.splits\<close>)
next
  case Ds_forwards
  from Ds_forwards(2) show ?thesis
    by (cases rule: disk_forwards_cases; intro main_ok_side [OF assms(2)])
      (use Ds_forwards(1) in \<open>simp_all add: disk_joinable_def split: disk_thread.splits\<close>)
qed (use assms(2) in \<open>auto intro: watch_step_ok\<close>)

lemma run_main_ok: "disk_run env sink db tr s \<Longrightarrow> main_ok env s"
proof (induction rule: disk_run.induct)
  case ds_start
  show ?case by (simp add: main_ok_def disk_init_def)
next
  case (ds_step tr s ls s')
  with main_ok_step show ?case by blast
qed

subsection \<open>Every alert is handed on\<close>

lemma accepted_forwarded:
  "accepted se_is_kill (\<lambda>se. se) (out_inputs tr) = takeWhile (\<lambda>e. \<not> se_is_kill e) (forwarded tr)"
proof -
  have "accepted se_is_kill (\<lambda>se. se) inps = takeWhile (\<lambda>e. \<not> se_is_kill e) (List.map_filter id inps)" for inps
  proof (induction inps)
    case (Cons inp inps)
    then show ?case by (cases inp) (simp_all add: List.map_filter_simps)
  qed (simp add: List.map_filter_simps)
  then show ?thesis by (simp add: forwarded_def)
qed

lemma returned_forwarded:
  assumes "out_books tr s" "sd_alert s \<noteq> Thread_running" "sd_output s \<noteq> Thread_running"
  obtains es where "forwarded tr = es @ [se_kill]" "sd_outq s = []" "\<forall>e \<in> set es. \<not> se_is_kill e"
    "filter (\<lambda>e. \<not> se_is_kill e) (raised tr) = es"
proof -
  from assms obtain es where e: "forwarded tr @ sd_outq s = es @ [se_kill]" "raised tr @ closing s = es @ [se_kill]"
    "\<forall>e \<in> set es. \<not> se_is_kill e" and k: "\<exists>e \<in> set (forwarded tr). se_is_kill e"
    by (auto simp: out_books_def)
  have q: "sd_outq s = []"
  proof (cases "sd_outq s" rule: rev_cases)
    case (snoc ys y)
    with e(1) have "forwarded tr @ ys = es" by simp
    with e(3) k show ?thesis by auto
  qed
  have "filter (\<lambda>e. \<not> se_is_kill e) (raised tr @ closing s) = es" unfolding e(2) using e(3) by (simp add: filter_id_conv)
  then have "filter (\<lambda>e. \<not> se_is_kill e) (raised tr) = es" by (simp add: closing_def split: if_splits)
  with that e q show thesis by simp
qed

subsection \<open>A single run that hangs\<close>

text \<open>
  C20: A single run hangs. Once the alerting thread has ended before the scan did, be it that the database could
  not be opened, be it by an exception, the main thread waits for the end of the scan forever: the daemon never
  returns, and the exception is never reported.
\<close>

theorem singlerun_hangs:
  assumes "sd_main s = Disk_wait_scan" and "sd_scanning s" and "sd_alert s \<noteq> Thread_running"
    and "(\<lambda>s s'. \<exists>ls. disk_step env s ls s')\<^sup>*\<^sup>* s s'"
  shows "sd_main s' = Disk_wait_scan"
proof -
  from assms(4) have "sd_main s' = Disk_wait_scan \<and> sd_scanning s' \<and> sd_alert s' \<noteq> Thread_running"
  proof (induction rule: rtranclp_induct)
    case base
    from assms show ?case by simp
  next
    case (step s1 s2)
    then obtain ls where "disk_step env s1 ls s2" by blast
    then show ?case
    proof cases
      case (Ds_looks junk v)
      from Ds_looks(2) show ?thesis by (cases rule: disk_looks_cases) (use step.IH in simp_all)
    next
      case (Ds_rt_looks junk v now)
      from Ds_rt_looks(4) show ?thesis by (cases rule: disk_rt_looks_cases) (use step.IH in simp_all)
    next
      case Ds_forwards
      from Ds_forwards(2) show ?thesis by (cases rule: disk_forwards_cases) (use step.IH in simp_all)
    next
      case (Ds_scans dirs)
      with step.IH show ?thesis by (auto simp: disk_scans_Some)
    qed (use step.IH in simp_all)
  qed
  then show ?thesis by simp
qed

definition demo_single_env :: disk_env where
  "demo_single_env =
     \<lparr>dv_cfg = default_diskscan_config, dv_singlerun = True, dv_unit_test = True, dv_rx = literal_rx, dv_digest = demo_digest,
      dv_fmt_time = (\<lambda>t. []), dv_net = flaky_net, dv_ser = (\<lambda>se. ''x'')\<rparr>"

definition demo_sink :: sink_state where
  "demo_sink = (File_sink [], \<lparr>ns_tick = 0, ns_wire = [], ns_closed = []\<rparr>)"

theorem singlerun_hangs_witness:
  "\<exists>s. disk_run demo_single_env demo_sink (\<lambda>_. None) [Opens None] s \<and> sd_errors s = [Db_not_opened] \<and> sd_main s = Disk_wait_scan"
proof -
  let ?s0 = "disk_init demo_sink (\<lambda>_. None)"
  let ?s1 = "disk_starts demo_single_env ?s0" and ?s2 = "disk_opens_db None (disk_starts demo_single_env ?s0)"
  have r1: "disk_run demo_single_env demo_sink (\<lambda>_. None) ([] @ []) ?s1"
    by (intro ds_step [OF ds_start] Ds_starts) (simp add: disk_init_def)
  have r2: "disk_run demo_single_env demo_sink (\<lambda>_. None) (([] @ []) @ [Opens None]) ?s2"
    by (intro ds_step [OF r1] Ds_opens_db) (simp_all add: disk_starts_def start_scan_def disk_init_def)
  have s2: "sd_main ?s2 = Disk_wait_scan" "sd_scanning ?s2" "sd_alert ?s2 \<noteq> Thread_running" "sd_errors ?s2 = [Db_not_opened]"
    by (simp_all add: disk_opens_db_def disk_starts_def start_scan_def disk_init_def demo_single_env_def)
  from singlerun_hangs [OF s2(1-3) rtranclp.rtrancl_refl] r2 s2(4) show ?thesis by auto
qed

end
