(* ===== verification/Diskscan_Liveness.thy ===== *)
theory Diskscan_Liveness
  imports Diskscan_Runs
begin

text \<open>
  ctguard-diskscan can always come to its end: from every state of every run of the daemon, a signal and
  answers of the system calls lead to the return of \<open>daemon()\<close>. The invariants say who stops whom.
\<close>

subsection \<open>Who stops whom\<close>

definition stop_request :: "(string \<times> flags) list \<Rightarrow> bool" where
  "stop_request q = (\<exists>p fl. (p, fl) \<in> set q \<and> has_flag fl F_KILL)"

text \<open>A thread that has ended has left the mark for the next one in its queue.\<close>

definition stops_ok :: "disk_state \<Rightarrow> bool" where
  "stops_ok s =
     ((\<not> sd_running s \<and> sd_scan s = Thread_running \<longrightarrow> sd_scanq s \<noteq> [])
      \<and> (\<not> sd_running s \<and> sd_rt s = Thread_running \<longrightarrow> sd_rtq s \<noteq> [])
      \<and> (sd_scan s \<noteq> Thread_running \<and> sd_event s = Thread_running \<longrightarrow> stop_request (sd_eventq s))
      \<and> (sd_event s \<noteq> Thread_running \<and> sd_alert s = Thread_running \<longrightarrow>
           (\<exists>d \<in> set (sd_dataq s). has_flag (snd d) F_KILL \<or> \<not> sd_running s)))"

lemma stop_request_simps [simp]:
  "\<not> stop_request []" "stop_request (q @ r) = (stop_request q \<or> stop_request r)"
  "stop_request (p # q) = (has_flag (snd p) F_KILL \<or> stop_request q)"
  by (auto simp: stop_request_def; cases p; auto)+

lemma kill_flag [simp]: "has_flag F_KILL F_KILL"
  by (simp add: has_flag_def flag_defs)

lemma scan_turn_stops: "scan_turn dirs running inp = (es, False) \<Longrightarrow> stop_request es"
  by (auto simp: scan_turn_def Let_def split: if_splits)

lemma scan_turn_running: "scan_turn dirs running inp = (es, True) \<Longrightarrow> running"
  by (auto simp: scan_turn_def Let_def split: if_splits)

lemma event_turn_stops:
  "event_turn mk running inp db = (ds, Event_stops) \<Longrightarrow> \<exists>d \<in> set ds. has_flag (snd d) F_KILL \<or> \<not> running"
  "event_turn mk running inp db = (ds, Event_throws e) \<Longrightarrow> \<exists>d \<in> set ds. has_flag (snd d) F_KILL \<or> \<not> running"
  by (auto simp: event_turn_def Let_def split: if_splits sum.splits prod.splits)

lemma event_turn_goes_on:
  "event_turn mk running inp db = (ds, Event_continues db') \<Longrightarrow> running \<and> \<not> has_flag (snd inp) F_KILL"
  by (auto simp: event_turn_def Let_def split: if_splits sum.splits prod.splits)

lemma alert_turn_goes_on:
  "alert_turn env now running inp al = (out, Alert_continues al') \<Longrightarrow> running \<and> \<not> has_flag (snd inp) F_KILL"
  by (auto simp: alert_turn_def Let_def split: if_splits sum.splits prod.splits option.splits)

definition stop_side where
  "stop_side s = (sd_running s, sd_scan s, sd_scanq s \<noteq> [], sd_rt s, sd_rtq s \<noteq> [], sd_event s, sd_eventq s, sd_alert s, sd_dataq s)"

lemma stops_ok_side: "stop_side s' = stop_side s \<Longrightarrow> stops_ok s \<Longrightarrow> stops_ok s'"
  by (simp add: stops_ok_def stop_side_def)

text \<open>More in the queues of the scanning and the real-time thread does not matter.\<close>

lemma stops_ok_more:
  "stops_ok s \<Longrightarrow> sd_running s' = sd_running s \<Longrightarrow> sd_scan s' = sd_scan s \<Longrightarrow> sd_rt s' = sd_rt s \<Longrightarrow> sd_event s' = sd_event s \<Longrightarrow>
   sd_alert s' = sd_alert s \<Longrightarrow> sd_eventq s' = sd_eventq s \<Longrightarrow> sd_dataq s' = sd_dataq s \<Longrightarrow>
   (sd_scanq s' = [] \<longrightarrow> sd_scanq s = []) \<Longrightarrow> (sd_rtq s' = [] \<longrightarrow> sd_rtq s = []) \<Longrightarrow> stops_ok s'"
  by (auto simp: stops_ok_def)

lemma watch_queues [simp]:
  "sd_eventq (watch_fails i e s) = sd_eventq s" "sd_dataq (watch_fails i e s) = sd_dataq s" "sd_scanq (watch_fails i e s) = sd_scanq s"
  "sd_rtq (watch_fails i e s) = sd_rtq s" "sd_eventq (watch_sets i ws s) = sd_eventq s" "sd_dataq (watch_sets i ws s) = sd_dataq s"
  "sd_scanq (watch_sets i ws s) = sd_scanq s" "sd_rtq (watch_sets i ws s) = sd_rtq s" "sd_eventq (watch_idles i s) = sd_eventq s"
  "sd_dataq (watch_idles i s) = sd_dataq s" "sd_scanq (watch_idles i s) = sd_scanq s" "sd_rtq (watch_idles i s) = sd_rtq s"
  by (simp_all add: watch_fails_def watch_sets_def watch_idles_def)

lemma watch_starts_queues [simp]:
  "sd_eventq (watch_starts env i dirs wds s) = sd_eventq s" "sd_dataq (watch_starts env i dirs wds s) = sd_dataq s"
  "sd_scanq (watch_starts env i dirs wds s) = sd_scanq s" "sd_rtq (watch_starts env i dirs wds s) = sd_rtq s"
  by (simp_all add: watch_starts_def Let_def split: sum.split)

lemma watch_turns_queues:
  "\<exists>q r. sd_scanq (watch_turns env i dirs wds now evs ws s) = sd_scanq s @ q \<and> sd_rtq (watch_turns env i dirs wds now evs ws s) = sd_rtq s @ r
     \<and> sd_eventq (watch_turns env i dirs wds now evs ws s) = sd_eventq s \<and> sd_dataq (watch_turns env i dirs wds now evs ws s) = sd_dataq s"
proof -
  obtain out r where e: "watch_events (dv_rx env) (dc_realtime_ignore (dv_cfg env)) (realtime_watches env ! i) dirs wds evs ws = (out, r)"
    by fastforce
  show ?thesis by (cases r) (simp_all add: watch_turns_def e Let_def)
qed

lemma stops_step:
  assumes "disk_step env s ls s'" "stops_ok s"
  shows "stops_ok s'"
  using assms(1)
proof cases
  case Ds_starts
  with assms(2) show ?thesis by (intro stops_ok_more [OF assms(2)]) (simp_all add: disk_starts_def start_scan_def)
next
  case Ds_scan_done
  with assms(2) show ?thesis by (intro stops_ok_more [OF assms(2)]) (simp_all add: singlerun_stops_def bq_push_def)
next
  case Ds_timeout
  with assms(2) show ?thesis
    by (auto simp: stops_ok_def monitor_timeout_def disk_shuts_down_def start_scan_def bq_push_def Let_def)
next
  case Ds_signal
  with assms(2) show ?thesis by (auto simp: stops_ok_def disk_shuts_down_def bq_push_def)
next
  case (Ds_scans dirs)
  then obtain inp q es on where c: "sd_scanq s = inp # q" "scan_turn dirs (sd_running s) inp = (es, on)"
    "s' = s\<lparr>sd_scanq := q, sd_eventq := sd_eventq s @ es, sd_scan := (if on then Thread_running else Thread_done)\<rparr>"
    by (auto simp: disk_scans_Some)
  with assms(2) Ds_scans(1) scan_turn_stops [of dirs "sd_running s" inp es] scan_turn_running [of dirs "sd_running s" inp es]
  show ?thesis by (cases on) (auto simp: stops_ok_def)
next
  case (Ds_looks junk v)
  from Ds_looks(2) show ?thesis
  proof (cases rule: disk_looks_cases)
    case (stops inp q ds)
    with assms(2) event_turn_stops(1) [OF stops(3)] show ?thesis by (auto simp: stops_ok_def)
  next
    case (throws inp q ds e)
    with assms(2) event_turn_stops(2) [OF throws(3)] show ?thesis by (auto simp: stops_ok_def)
  next
    case (looks inp q ds db)
    with assms(2) Ds_looks(1) event_turn_goes_on [OF looks(3)] show ?thesis by (auto simp: stops_ok_def)
  qed
next
  case (Ds_rt_looks junk v now)
  from Ds_rt_looks(4) show ?thesis
    by (cases rule: disk_rt_looks_cases) (use assms(2) in \<open>auto simp: stops_ok_def\<close>)
next
  case (Ds_opens_db db)
  with assms(2) show ?thesis by (cases db) (auto simp: disk_opens_db_def stops_ok_def)
next
  case (Ds_alerts al now)
  from Ds_alerts(3) show ?thesis
  proof (cases rule: disk_alerts_cases)
    case (alerts inp q out al')
    with assms(2) Ds_alerts(1) alert_turn_goes_on [OF alerts(3)] show ?thesis by (auto simp: stops_ok_def)
  qed (use assms(2) in \<open>auto simp: stops_ok_def\<close>)
next
  case Ds_forwards
  from Ds_forwards(2) show ?thesis
    by (cases rule: disk_forwards_cases) (use assms(2) in \<open>auto intro: stops_ok_side simp: stop_side_def\<close>)
next
  case (Ds_watch_turns i ws dirs wds now evs)
  with watch_turns_queues [of env i dirs wds now evs ws s] show ?thesis
    by (intro stops_ok_more [OF assms(2)]) auto
qed (use assms(2) in \<open>auto intro: stops_ok_side simp: stop_side_def\<close>)

lemma run_stops: "disk_run env sink db tr s \<Longrightarrow> stops_ok s"
proof (induction rule: disk_run.induct)
  case ds_start
  show ?case by (simp add: stops_ok_def disk_init_def)
next
  case (ds_step tr s ls s')
  with stops_step show ?case by blast
qed

text \<open>While the main thread of the daemon joins, \<open>RUNNING\<close> is false.\<close>

definition joins_ok :: "disk_env \<Rightarrow> disk_state \<Rightarrow> bool" where
  "joins_ok env s = (\<forall>ts. sd_main s = Disk_join ts \<longrightarrow> ts \<noteq> [] \<and> (dv_singlerun env \<or> \<not> sd_running s))"

lemma joins_step:
  assumes "disk_step env s ls s'" "joins_ok env s" "main_ok env s"
  shows "joins_ok env s'"
  using assms(1)
proof cases
  case Ds_starts
  then show ?thesis by (simp add: joins_ok_def disk_starts_def)
next
  case Ds_scan_done
  with assms(3) show ?thesis by (simp add: joins_ok_def singlerun_stops_def main_ok_def)
next
  case Ds_timeout
  then show ?thesis by (auto simp: joins_ok_def monitor_timeout_def disk_shuts_down_def start_scan_def Let_def)
next
  case Ds_signal
  then show ?thesis by (simp add: joins_ok_def disk_shuts_down_def)
next
  case (Ds_joins t ts)
  with assms(2) show ?thesis by (auto simp: joins_ok_def join_next_def)
next
  case (Ds_scans dirs)
  with assms(2) show ?thesis by (auto simp: joins_ok_def disk_scans_Some)
next
  case (Ds_looks junk v)
  from Ds_looks(2) show ?thesis by (cases rule: disk_looks_cases) (use assms(2) in \<open>simp_all add: joins_ok_def\<close>)
next
  case (Ds_rt_looks junk v now)
  from Ds_rt_looks(4) show ?thesis by (cases rule: disk_rt_looks_cases) (use assms(2) in \<open>simp_all add: joins_ok_def\<close>)
next
  case (Ds_opens_db db)
  with assms(2) show ?thesis by (cases db) (auto simp: disk_opens_db_def joins_ok_def)
next
  case (Ds_alerts al now)
  from Ds_alerts(3) show ?thesis by (cases rule: disk_alerts_cases) (use assms(2) in \<open>simp_all add: joins_ok_def\<close>)
next
  case Ds_forwards
  from Ds_forwards(2) show ?thesis by (cases rule: disk_forwards_cases) (use assms(2) in \<open>simp_all add: joins_ok_def\<close>)
qed (use assms(2) in \<open>simp_all add: joins_ok_def\<close>)

lemma run_joins: "disk_run env sink db tr s \<Longrightarrow> joins_ok env s"
proof (induction rule: disk_run.induct)
  case ds_start
  show ?case by (simp add: joins_ok_def disk_init_def)
next
  case (ds_step tr s ls s')
  with joins_step run_main_ok show ?case by blast
qed

subsection \<open>What a run can come to\<close>

text \<open>\<open>L\<close>: what the answers on the way may be.\<close>

definition can_reach :: "disk_env \<Rightarrow> sink_state \<Rightarrow> diff_db \<Rightarrow> (disk_label \<Rightarrow> bool) \<Rightarrow> disk_label list \<Rightarrow> (disk_state \<Rightarrow> bool) \<Rightarrow> bool" where
  "can_reach env sink db L tr P = (\<exists>ls s'. disk_run env sink db (tr @ ls) s' \<and> list_all L ls \<and> P s')"

lemma can_reach_now: "disk_run env sink db tr s \<Longrightarrow> P s \<Longrightarrow> can_reach env sink db L tr P"
  unfolding can_reach_def by (intro exI [of _ "[]"]) auto

lemma can_reach_step:
  "disk_run env sink db tr s \<Longrightarrow> disk_step env s ls s' \<Longrightarrow> list_all L ls \<Longrightarrow> can_reach env sink db L (tr @ ls) P \<Longrightarrow>
   can_reach env sink db L tr P"
  unfolding can_reach_def by (metis append.assoc list_all_append)

lemma can_reach_one:
  "disk_run env sink db tr s \<Longrightarrow> disk_step env s ls s' \<Longrightarrow> list_all L ls \<Longrightarrow> P s' \<Longrightarrow> can_reach env sink db L tr P"
  by (rule can_reach_step) (auto intro: can_reach_now ds_step)

lemma can_reach_trans:
  assumes "can_reach env sink db L tr Q" "\<And>tr' s. disk_run env sink db tr' s \<Longrightarrow> Q s \<Longrightarrow> can_reach env sink db L tr' P"
  shows "can_reach env sink db L tr P"
proof -
  from assms(1) obtain ls s where r: "disk_run env sink db (tr @ ls) s" "list_all L ls" "Q s" by (auto simp: can_reach_def)
  from assms(2) [OF r(1,3)] obtain ls' s' where "disk_run env sink db ((tr @ ls) @ ls') s'" "list_all L ls'" "P s'"
    by (auto simp: can_reach_def)
  with r(2) show ?thesis unfolding can_reach_def by (intro exI [of _ "ls @ ls'"]) auto
qed

abbreviation free :: "disk_label \<Rightarrow> bool" where "free \<equiv> \<lambda>_. True"

lemma list_all_free [simp]: "list_all free ls"
  by (simp add: list_all_iff)

text \<open>A thread whose turn has come to be joined can end.\<close>

definition ends :: "disk_thread \<Rightarrow> disk_pc \<Rightarrow> disk_state \<Rightarrow> bool" where
  "ends t pc s = (sd_main s = pc \<and> disk_joinable t s)"

lemma scan_can_end:
  assumes "disk_run env sink db tr s" "sd_main s = pc" "\<not> sd_running s"
  shows "can_reach env sink db free tr (ends Scan_thread pc)"
proof (cases "sd_scan s = Thread_running")
  case True
  with run_stops [OF assms(1)] assms(3) obtain inp q where q: "sd_scanq s = inp # q"
    by (auto simp: stops_ok_def neq_Nil_conv)
  have t: "scan_turn (\<lambda>_. None) (sd_running s) inp = ([([], F_KILL)], False)" using assms(3) by (simp add: scan_turn_def Let_def)
  have "\<exists>ls s'. disk_scans (\<lambda>_. None) s = Some (ls, s') \<and> ends Scan_thread pc s'"
    using q t assms(2) by (simp add: disk_scans_def bq_take_def ends_def disk_joinable_def)
  then show ?thesis using can_reach_one [OF assms(1) Ds_scans [OF True] list_all_free] by blast
qed (use assms can_reach_now in \<open>auto simp: ends_def disk_joinable_def\<close>)

lemma event_can_end:
  assumes "disk_run env sink db tr s" "sd_main s = pc" "\<not> sd_running s" "disk_joinable Scan_thread s"
  shows "can_reach env sink db free tr (ends Event_thread pc)"
proof (cases "sd_event s = Thread_running")
  case True
  with run_stops [OF assms(1)] assms(4) have "stop_request (sd_eventq s)" by (simp add: stops_ok_def disk_joinable_def)
  then obtain inp q where q: "sd_eventq s = inp # q" by (cases "sd_eventq s") auto
  have t: "event_turn mk (sd_running s) inp d = ([(None, snd inp)], Event_stops)" for mk d
    using assms(3) by (simp add: event_turn_def Let_def)
  have "\<exists>ls s'. disk_looks env [] v s = Some (ls, s') \<and> ends Event_thread pc s'" for v
    using q t assms(2) by (simp add: disk_looks_def bq_take_def ends_def disk_joinable_def)
  then show ?thesis using can_reach_one [OF assms(1) Ds_looks [OF True] list_all_free] by blast
qed (use assms can_reach_now in \<open>auto simp: ends_def disk_joinable_def\<close>)

lemma rt_can_end:
  assumes "disk_run env sink db tr s" "sd_main s = pc" "\<not> sd_running s" "\<not> dv_singlerun env" "pc \<noteq> Disk_start"
  shows "can_reach env sink db free tr (ends Rt_thread pc)"
proof (cases "sd_rt s = Thread_running")
  case True
  with run_stops [OF assms(1)] assms(3) obtain front q where q: "sd_rtq s = front # q"
    by (auto simp: stops_ok_def neq_Nil_conv)
  have t: "rt_turn mk settle now (sd_running s) front d = ([(None, F_KILL)], Rt_stops)" for mk settle now d
    using assms(3) by (simp add: rt_turn_def split: prod.split)
  have "\<exists>ls s'. disk_rt_looks env [] v 0 s = Some (ls, s') \<and> ends Rt_thread pc s'" for v
    using q t assms(2) by (simp add: disk_rt_looks_def bq_front_def ends_def disk_joinable_def)
  then show ?thesis using can_reach_one [OF assms(1) Ds_rt_looks [OF assms(4) _ True] list_all_free] assms(2,5) by blast
qed (use assms can_reach_now in \<open>auto simp: ends_def disk_joinable_def\<close>)

lemma alert_can_end:
  assumes "disk_run env sink db tr s" "sd_main s = pc" "\<not> sd_running s" "disk_joinable Event_thread s"
  shows "can_reach env sink db free tr (ends Alert_thread pc)"
proof -
  have opened: "can_reach env sink db free tr (ends Alert_thread pc)"
    if r: "disk_run env sink db tr s" "sd_main s = pc" "\<not> sd_running s" "disk_joinable Event_thread s" "sd_alert_state s = Some al" for tr s al
  proof (cases "sd_alert s = Thread_running")
    case True
    with run_stops [OF r(1)] r(4) obtain inp q where q: "sd_dataq s = inp # q"
      by (cases "sd_dataq s") (auto simp: stops_ok_def disk_joinable_def)
    have t: "alert_turn e now (sd_running s) inp al = (no_output\<lparr>ao_alerts := [se_kill]\<rparr>, Alert_stops)" for e now
      using r(3) by (simp add: alert_turn_def Let_def)
    have "\<exists>ls s'. disk_alerts env 0 al s = Some (ls, s') \<and> ends Alert_thread pc s'"
      using q t r(2) by (simp add: disk_alerts_def bq_take_def ends_def disk_joinable_def)
    then show ?thesis using can_reach_one [OF r(1) Ds_alerts [OF True r(5)] list_all_free] by blast
  qed (use r can_reach_now in \<open>auto simp: ends_def disk_joinable_def\<close>)
  show ?thesis
  proof (cases "sd_alert s = Thread_running \<and> sd_alert_state s = None")
    case True
    then have st: "disk_step env s [Opens (Some [])] (disk_opens_db (Some []) s)" by (intro Ds_opens_db) auto
    have "can_reach env sink db free (tr @ [Opens (Some [])]) (ends Alert_thread pc)"
      by (rule opened [OF ds_step [OF assms(1) st], where al = "alert_start []"])
        (use assms in \<open>simp_all add: disk_opens_db_def disk_joinable_def\<close>)
    then show ?thesis by (rule can_reach_step [OF assms(1) st list_all_free])
  next
    case False
    then consider "sd_alert s \<noteq> Thread_running" | al where "sd_alert_state s = Some al" by auto
    then show ?thesis
    proof cases
      case 1
      with assms can_reach_now show ?thesis by (auto simp: ends_def disk_joinable_def)
    next
      case 2
      with assms opened show ?thesis by blast
    qed
  qed
qed

lemma output_can_end:
  assumes "\<forall>x st. event_send (dv_net env) (dv_ser env) x st \<noteq> None" "\<forall>e. L (Forwards e)"
  shows "disk_run env sink db tr s \<Longrightarrow> sd_main s = pc \<Longrightarrow> disk_joinable Alert_thread s \<Longrightarrow> can_reach env sink db L tr (ends Output_thread pc)"
proof (induction "length (sd_outq s)" arbitrary: tr s rule: less_induct)
  case less
  show ?case
  proof (cases "sd_output s = Thread_running")
    case True
    from run_out_books [OF less.prems(1)] True less.prems(3) obtain es where
      "forwarded tr @ sd_outq s = es @ [se_kill]" "\<forall>e \<in> set (forwarded tr). \<not> se_is_kill e"
      by (auto simp: out_books_def disk_joinable_def)
    then obtain e q where q: "sd_outq s = e # q" by (cases "sd_outq s") auto
    from resend_step_total [OF assms(1), of se_is_kill "\<lambda>se. se" "Some e" "sd_local s" "sd_sink s"] obtain rt st where
      st: "resend_step (event_send (dv_net env) (dv_ser env)) se_is_kill (\<lambda>se. se) (Some e) (sd_local s) (sd_sink s) = Some (rt, st)"
      by auto
    let ?s = "s\<lparr>sd_outq := q, sd_local := rt, sd_sink := st, sd_output := (if rt_stopped rt then Thread_done else Thread_running)\<rparr>"
    have "disk_forwards env s = Some ([Forwards (Some e)], ?s)"
      using q st by (simp add: disk_forwards_def bq_take_for_def)
    then have step: "disk_step env s [Forwards (Some e)] ?s" by (rule Ds_forwards [OF True])
    have "can_reach env sink db L (tr @ [Forwards (Some e)]) (ends Output_thread pc)"
      by (rule less.hyps [OF _ ds_step [OF less.prems(1) step]])
        (use q less.prems in \<open>simp_all add: disk_joinable_def\<close>)
    with assms(2) show ?thesis by (intro can_reach_step [OF less.prems(1) step]) simp_all
  qed (use less.prems can_reach_now in \<open>auto simp: ends_def disk_joinable_def\<close>)
qed

definition watch_rest :: "watch_worker list \<Rightarrow> nat" where
  "watch_rest ws = sum_list (map (\<lambda>w. if ww_status w = Thread_running then (if ww_watches w = None then 2 else 1) else 0) ws)"

lemma watch_rest_update:
  "i < length ws \<Longrightarrow> (if ww_status w = Thread_running then (if ww_watches w = None then 2 else 1) else (0 :: nat))
     < (if ww_status (ws ! i) = Thread_running then (if ww_watches (ws ! i) = None then 2 else 1) else 0)
   \<Longrightarrow> watch_rest (ws[i := w]) < watch_rest ws"
  unfolding watch_rest_def map_update
  by (subst sum_list_update) (use elem_le_sum_list [of i "map (\<lambda>w. if ww_status w = Thread_running then (if ww_watches w = None then 2 else 1) else (0 :: nat)) ws"] in auto)

lemma watches_can_end:
  "disk_run env sink db tr s \<Longrightarrow> sd_main s = pc \<Longrightarrow> \<not> sd_running s \<Longrightarrow> can_reach env sink db free tr (ends Watch_threads pc)"
proof (induction "watch_rest (sd_watch s)" arbitrary: tr s rule: less_induct)
  case less
  show ?case
  proof (cases "disk_joinable Watch_threads s")
    case True
    with less.prems show ?thesis by (intro can_reach_now [where s = s]) (simp_all add: ends_def)
  next
    case False
    then obtain i where i: "i < length (sd_watch s)" "ww_status (sd_watch s ! i) = Thread_running"
      by (auto simp: disk_joinable_def list_all_length)
    obtain st wopt where w: "sd_watch s ! i = \<lparr>ww_status = st, ww_watches = wopt\<rparr>" by (cases "sd_watch s ! i")
    have "\<exists>s'. disk_step env s [] s' \<and> sd_main s' = pc \<and> \<not> sd_running s' \<and> watch_rest (sd_watch s') < watch_rest (sd_watch s)"
    proof (cases wopt)
      case None
      have a: "add_watch dirs (\<lambda>_. None) rec p (\<lambda>_. None) = Inr (\<lambda>_. None)" for dirs rec p
        by (simp add: add_watch.simps [of dirs "\<lambda>_. None"])
      have e: "watch_starts env i (\<lambda>_. None) (\<lambda>_. None) s = watch_sets i (\<lambda>_. None) s" by (simp add: watch_starts_def a Let_def)
      have "disk_step env s [] (watch_starts env i (\<lambda>_. None) (\<lambda>_. None) s)"
        using i w None by (intro Ds_watch_starts) simp_all
      moreover have "watch_rest (sd_watch (watch_sets i (\<lambda>_. None) s)) < watch_rest (sd_watch s)"
        using i w None by (auto simp: watch_sets_def intro!: watch_rest_update)
      ultimately show ?thesis using less.prems unfolding e by auto
    next
      case (Some ws)
      have "disk_step env s [] (watch_idles i s)" using i w Some by (intro Ds_watch_idles) simp_all
      moreover have "watch_rest (sd_watch (watch_idles i s)) < watch_rest (sd_watch s)"
        using i w Some less.prems(3) by (auto simp: watch_idles_def intro!: watch_rest_update)
      ultimately show ?thesis using less.prems by auto
    qed
    then obtain s' where s': "disk_step env s [] s'" "sd_main s' = pc" "\<not> sd_running s'" "watch_rest (sd_watch s') < watch_rest (sd_watch s)"
      by blast
    from less.hyps [OF s'(4) ds_step [OF less.prems(1) s'(1)] s'(2,3)] show ?thesis by (rule can_reach_step [OF less.prems(1) s'(1) list_all_free])
  qed
qed

subsection \<open>The daemon can return\<close>

lemma joined_before:
  assumes "disk_run env sink db tr s" "sd_main s = Disk_join (t # ts)" "\<not> dv_singlerun env"
  shows "t = Event_thread \<Longrightarrow> disk_joinable Scan_thread s" "t = Alert_thread \<Longrightarrow> disk_joinable Event_thread s"
    "t = Output_thread \<Longrightarrow> disk_joinable Alert_thread s" "\<not> sd_running s"
proof -
  from run_main_ok [OF assms(1)] assms(2,3) obtain us where
    u: "[Scan_thread, Event_thread, Rt_thread, Alert_thread, Output_thread, Watch_threads] = us @ t # ts"
      "\<forall>t \<in> set us. disk_joinable t s"
    by (auto simp: main_ok_def disk_threads_def)
  from u show "t = Event_thread \<Longrightarrow> disk_joinable Scan_thread s" "t = Alert_thread \<Longrightarrow> disk_joinable Event_thread s"
    "t = Output_thread \<Longrightarrow> disk_joinable Alert_thread s"
    by (auto simp: Cons_eq_append_conv)
  from run_joins [OF assms(1)] assms(2,3) show "\<not> sd_running s" by (simp add: joins_ok_def)
qed

lemma joins_can_return:
  assumes "\<not> dv_singlerun env" "\<forall>x st. event_send (dv_net env) (dv_ser env) x st \<noteq> None"
  shows "disk_run env sink db tr s \<Longrightarrow> sd_main s = Disk_join ts \<Longrightarrow> can_reach env sink db free tr (\<lambda>s. sd_main s = Disk_returned)"
proof (induction ts arbitrary: tr s)
  case Nil
  with run_joins [OF Nil(1)] show ?case by (simp add: joins_ok_def)
next
  case (Cons t ts)
  note b = joined_before [OF Cons.prems assms(1)]
  have "can_reach env sink db free tr (ends t (Disk_join (t # ts)))"
  proof (cases t)
    case Scan_thread
    with scan_can_end [OF Cons.prems b(4)] show ?thesis by simp
  next
    case Event_thread
    with event_can_end [OF Cons.prems b(4) b(1)] show ?thesis by simp
  next
    case Rt_thread
    with rt_can_end [OF Cons.prems b(4) assms(1)] show ?thesis by simp
  next
    case Alert_thread
    with alert_can_end [OF Cons.prems b(4) b(2)] show ?thesis by simp
  next
    case Output_thread
    with output_can_end [OF assms(2) _ Cons.prems b(3)] show ?thesis by simp
  next
    case Watch_threads
    with watches_can_end [OF Cons.prems b(4)] show ?thesis by simp
  qed
  then show ?case
  proof (rule can_reach_trans)
    fix tr' s'
    assume r: "disk_run env sink db tr' s'" and "ends t (Disk_join (t # ts)) s'"
    then have st: "disk_step env s' [] (s'\<lparr>sd_main := join_next ts\<rparr>)"
      by (intro Ds_joins [where t = t]) (simp_all add: ends_def)
    show "can_reach env sink db free tr' (\<lambda>s. sd_main s = Disk_returned)"
    proof (cases ts)
      case Nil
      then show ?thesis by (intro can_reach_one [OF r st list_all_free]) (simp add: join_next_def)
    next
      case (Cons t' ts')
      then show ?thesis
        by (intro can_reach_step [OF r st list_all_free] Cons.IH [OF ds_step [OF r st]]) (simp add: join_next_def)
    qed
  qed
qed

lemma daemon_can_return:
  assumes "\<not> dv_singlerun env" "\<forall>x st. event_send (dv_net env) (dv_ser env) x st \<noteq> None" "disk_run env sink db tr s"
  shows "can_reach env sink db free tr (\<lambda>s. sd_main s = Disk_returned)"
proof -
  have monitor: "can_reach env sink db free tr (\<lambda>s. sd_main s = Disk_returned)"
    if r: "disk_run env sink db tr s" "sd_main s = Disk_monitor" for tr s
  proof -
    note st = Ds_signal [OF r(2), of env]
    show ?thesis
      by (rule can_reach_step [OF r(1) st list_all_free], rule joins_can_return [OF assms(1,2) ds_step [OF r(1) st]])
        (simp add: disk_shuts_down_def)
  qed
  show ?thesis
  proof (cases "sd_main s")
    case Disk_start
    note st = Ds_starts [OF Disk_start, of env]
    show ?thesis
      by (rule can_reach_step [OF assms(3) st list_all_free], rule monitor [OF ds_step [OF assms(3) st]])
        (use assms(1) in \<open>simp add: disk_starts_def\<close>)
  next
    case Disk_wait_scan
    with run_main_ok [OF assms(3)] assms(1) show ?thesis by (simp add: main_ok_def)
  next
    case Disk_monitor
    with assms(3) show ?thesis by (rule monitor)
  next
    case (Disk_join ts)
    with assms show ?thesis by (blast intro: joins_can_return)
  next
    case Disk_returned
    with assms(3) show ?thesis by (rule can_reach_now)
  qed
qed

text \<open>
  C18: The daemon can always return. Whatever has happened in a run that is not a single run, dead threads
  included, it can go on until \<open>daemon()\<close> returned, provided that the system does not go on forever refusing the datagrams of a
  socket whose connections it accepts: then the retry loop of \<open>unix_socket_client::send\<close> ends.
\<close>

theorem diskscan_can_return:
  assumes "\<not> dv_singlerun env" and "datagram_net (dv_net env)" and "refusals_end (dv_net env)"
    and "disk_run env sink db tr s"
  shows "\<exists>ls s'. disk_run env sink db (tr @ ls) s' \<and> sd_main s' = Disk_returned"
  using daemon_can_return [OF assms(1) _ assms(4)] event_send_returns [OF assms(2,3)] unfolding can_reach_def by blast

definition demo_daemon_env :: disk_env where
  "demo_daemon_env =
     \<lparr>dv_cfg = default_diskscan_config, dv_singlerun = False, dv_unit_test = True, dv_rx = literal_rx, dv_digest = demo_digest,
      dv_fmt_time = (\<lambda>t. []), dv_net = ready_net, dv_ser = (\<lambda>se. ''x'')\<rparr>"

theorem diskscan_can_return_witness:
  "\<exists>tr s. disk_run demo_daemon_env demo_sink (\<lambda>_. None) tr s \<and> sd_main s = Disk_returned"
proof -
  have "\<not> dv_singlerun demo_daemon_env" "datagram_net (dv_net demo_daemon_env)" "refusals_end (dv_net demo_daemon_env)"
    by (simp_all add: demo_daemon_env_def)
  from diskscan_can_return [OF this ds_start] show ?thesis by auto
qed

end
