(* ===== verification/Diskscan_Single.thy ===== *)
theory Diskscan_Single
  imports Diskscan_Liveness
begin

text \<open>
  A single run of ctguard-diskscan on a file system that stays as it is: in every interleaving of its threads
  it does the same. The streams of the threads are prefixes of fixed sequences; the invariant says at which
  positions the threads are.
\<close>

subsection \<open>Runs of the alerting thread do not depend on the time\<close>

definition same_turn :: "alert_output \<times> 'r \<Rightarrow> alert_output \<times> 'r \<Rightarrow> bool" where
  "same_turn x y =
     (snd x = snd y \<and> ao_events (fst x) = ao_events (fst y) \<and> ao_scan_done (fst x) = ao_scan_done (fst y))"

lemma insert_objects_time: "snd (insert_objects env now fds t) = snd (insert_objects env now' fds t)"
  by (induction fds arbitrary: t) (auto simp: split_beta split: sum.split)

lemma do_insert_set_time: "snd (do_insert_set env now s) = snd (do_insert_set env now' s)"
  using insert_objects_time [of env now "map snd (al_inserts s)" "al_db s" now']
  by (auto simp: do_insert_set_def split_beta split: sum.split)

lemma alert_object_time: "snd (alert_object env now fl fd s) = snd (alert_object env now' fl fd s)"
  using do_insert_set_time [of env now _ now']
  by (auto simp: alert_object_def alert_found_def alert_missing_def Let_def split: list.split sum.split)

lemma alert_turn_time: "same_turn (alert_turn env now running inp s) (alert_turn env now' running inp s)"
  unfolding same_turn_def alert_turn_def Let_def no_output_def
  by (simp add: split_beta do_insert_set_time [of env now _ now'] alert_object_time [of env now _ _ _ now']
      split: sum.split option.split)

lemma alert_run_time:
  "map snd ins = map snd ins' \<Longrightarrow> same_turn (alert_run env ins s) (alert_run env ins' s)"
proof (induction ins arbitrary: ins' s)
  case Nil
  then show ?case by (simp add: same_turn_def)
next
  case (Cons i ins)
  obtain now inp where i: "i = (now, inp)" by (cases i)
  with Cons.prems obtain now' ins1 where i': "ins' = (now', inp) # ins1" "map snd ins = map snd ins1"
    by (auto simp: map_eq_Cons_conv)
  obtain o1 r1 o2 r2 where t: "alert_turn env now True inp s = (o1, r1)" "alert_turn env now' True inp s = (o2, r2)"
    by fastforce
  with alert_turn_time [of env now True inp s now'] have "r2 = r1" "ao_events o1 = ao_events o2" "ao_scan_done o1 = ao_scan_done o2"
    by (simp_all add: same_turn_def)
  show ?case
  proof (cases r1)
    case (Alert_continues s1)
    obtain p1 q1 p2 q2 where r: "alert_run env ins s1 = (p1, q1)" "alert_run env ins1 s1 = (p2, q2)" by fastforce
    with Cons.IH [OF i'(2), of s1] have "q1 = q2" "ao_events p1 = ao_events p2" "ao_scan_done p1 = ao_scan_done p2"
      by (simp_all add: same_turn_def)
    with t i i'(1) r Alert_continues \<open>r2 = r1\<close> \<open>ao_events o1 = ao_events o2\<close> \<open>ao_scan_done o1 = ao_scan_done o2\<close>
    show ?thesis by (simp add: same_turn_def)
  qed (use t i i'(1) \<open>r2 = r1\<close> \<open>ao_events o1 = ao_events o2\<close> \<open>ao_scan_done o1 = ao_scan_done o2\<close> in \<open>simp_all add: same_turn_def\<close>)
qed

text \<open>Only the marks of the middle and the end of a scan make it ask for more, or end the scan.\<close>

lemma alert_turn_quiet:
  "alert_turn env now running inp s = (out, r) \<Longrightarrow>
     (\<not> has_flag (snd inp) F_MIDSCAN \<longrightarrow> ao_events out = []) \<and> (\<not> has_flag (snd inp) F_ENDSCAN \<longrightarrow> \<not> ao_scan_done out)"
  by (auto simp: alert_turn_def Let_def no_output_def split: if_splits prod.splits sum.splits option.splits)

lemma alert_run_quiet:
  "alert_run env ins s = (out, r) \<Longrightarrow>
     ((\<forall>i \<in> set ins. \<not> has_flag (snd (snd i)) F_MIDSCAN) \<longrightarrow> ao_events out = [])
     \<and> ((\<forall>i \<in> set ins. \<not> has_flag (snd (snd i)) F_ENDSCAN) \<longrightarrow> \<not> ao_scan_done out)"
proof (induction ins arbitrary: s out r)
  case Nil
  then show ?case by (auto simp: no_output_def)
next
  case (Cons i ins)
  obtain now inp where i: "i = (now, inp)" by (cases i)
  obtain o1 r1 where t: "alert_turn env now True inp s = (o1, r1)" by fastforce
  note q = alert_turn_quiet [OF t]
  show ?case
  proof (cases r1)
    case (Alert_continues s1)
    obtain o2 r2 where r: "alert_run env ins s1 = (o2, r2)" by fastforce
    with Cons.prems i t Alert_continues have "ao_events out = ao_events o1 @ ao_events o2" "ao_scan_done out = (ao_scan_done o1 \<or> ao_scan_done o2)"
      by auto
    with q Cons.IH [OF r] i show ?thesis by auto
  qed (use Cons.prems i t q in auto)
qed

lemma alert_run_prefix:
  assumes "alert_run env (a @ b) s = (out, Alert_continues s')"
  obtains o1 s1 o2 where "alert_run env a s = (o1, Alert_continues s1)" "alert_run env b s1 = (o2, Alert_continues s')"
    "ao_events out = ao_events o1 @ ao_events o2" "ao_alerts out = ao_alerts o1 @ ao_alerts o2"
    "ao_scan_done out = (ao_scan_done o1 \<or> ao_scan_done o2)"
proof -
  obtain o1 r1 where 1: "alert_run env a s = (o1, r1)" by fastforce
  with assms obtain s1 where s1: "r1 = Alert_continues s1" by (cases r1) (auto simp: alert_run_append)
  obtain o2 r2 where 2: "alert_run env b s1 = (o2, r2)" by fastforce
  from assms 1 s1 2 have "r2 = Alert_continues s'" "out = \<lparr>ao_alerts = ao_alerts o1 @ ao_alerts o2, ao_events = ao_events o1 @ ao_events o2,
      ao_scan_done = (ao_scan_done o1 \<or> ao_scan_done o2)\<rparr>"
    by (auto simp: alert_run_append)
  with that 1 s1 2 show thesis by simp
qed

subsection \<open>The sequences of a single run\<close>

text \<open>What the system calls answer: the directories, the objects, what the memory holds in which the record of each object
  is built (its digest is not initialised, and stays so unless the object is a readable regular file), and the
  table the database has when it is opened.\<close>

record disk_world =
  wd_dirs :: directories
  wd_view :: "string \<Rightarrow> object_view"
  wd_junk :: "string \<Rightarrow> string"
  wd_table :: table

definition world_objects :: "disk_env \<Rightarrow> disk_world \<Rightarrow> string \<Rightarrow> file_data" where
  "world_objects env w p = disk_object (dv_digest env) (dc_max_diff_size (dv_cfg env)) (wd_junk w p) (wd_view w) p"

text \<open>No watch asks for diffs or has an empty path; no lookup of an owner or group fails (it may find no name); the objects can be
  stored: their texts and numbers are within the bounds of \<open>bind\<close> and their digest, were it never initialised, holds no
  zero byte before its end; the table is one without repeated names, an empty name or digests that are too long.\<close>

definition quiet_world :: "disk_env \<Rightarrow> disk_world \<Rightarrow> bool" where
  "quiet_world env w =
     ((\<forall>x \<in> set (dc_watches (dv_cfg env)). w_path x \<noteq> [] \<and> \<not> w_check_diff x) \<and> names_known (wd_view w)
      \<and> scan_world (world_objects env w) \<and> alert_inv (alert_start (wd_table w)) \<and> short_digests (wd_table w)
      \<and> map_of (wd_table w) [] = None)"

definition first_events :: "disk_env \<Rightarrow> disk_world \<Rightarrow> (string \<times> flags) list" where
  "first_events env w = scan_run (wd_dirs w) (scan_requests (dc_watches (dv_cfg env)))"

definition second_events :: "disk_env \<Rightarrow> disk_world \<Rightarrow> (string \<times> flags) list" where
  "second_events env w =
     ao_events (fst (alert_run (alert_env env) (map (Pair 0) (scan_inputs (world_objects env w) (first_events env w)))
       (alert_start (wd_table w))))"

text \<open>An event without the mark of the middle or the end.\<close>

definition unmarked :: "string \<times> flags \<Rightarrow> bool" where
  "unmarked e = (\<not> has_flag (snd e) F_MIDSCAN \<and> \<not> has_flag (snd e) F_ENDSCAN)"

lemma unmarked_simps [simp]:
  "unmarked ([], F_STARTSCAN)" "unmarked (p, scan_flags False)" "unmarked (p, F_CHK_CONTENT OR F_FORCE_UPDATE)"
  "\<not> has_flag F_MIDSCAN F_ENDSCAN" "\<not> has_flag F_ENDSCAN F_MIDSCAN"
  by (simp_all add: unmarked_def has_flag_def flag_defs scan_flags_def)

lemma alert_start_simps [simp]: "al_db (alert_start t) = t" "\<not> al_in_scan (alert_start t)"
  by (simp_all add: alert_start_def)

lemma first_events_form:
  assumes "quiet_world env w"
  obtains xs where "first_events env w = xs @ [([], F_MIDSCAN)]" "\<forall>e \<in> set xs. unmarked e \<and> plain_event e"
proof -
  have w: "\<forall>x \<in> set (dc_watches (dv_cfg env)). w_path x \<noteq> [] \<and> \<not> w_check_diff x" using assms by (simp add: quiet_world_def)
  obtain found where f: "first_events env w = ([], F_STARTSCAN) # found @ [([], F_MIDSCAN)]"
    "\<forall>(p, fl) \<in> set found. fl = scan_flags False \<and> p \<noteq> []"
    using requests_found [OF w, of "wd_dirs w"] unfolding first_events_def by metis
  show thesis by (rule that [of "([], F_STARTSCAN) # found"]) (use f in auto)
qed

lemma second_events_form:
  assumes "quiet_world env w"
  obtains ys where "second_events env w = ys @ [([], F_ENDSCAN)]" "\<forall>e \<in> set ys. unmarked e \<and> plain_event e"
proof -
  obtain out r where r: "alert_run (alert_env env) (map (Pair 0) (scan_inputs (world_objects env w) (first_events env w)))
      (alert_start (wd_table w)) = (out, r)" by fastforce
  obtain names where n: "ao_events out = map (\<lambda>name. (name, F_CHK_CONTENT OR F_FORCE_UPDATE)) names @ [([], F_ENDSCAN)]"
    "[] \<notin> set names"
    by (rule second_phase_events [OF _ _ _ _ _ _ _ r [unfolded first_events_def], where ws = "dc_watches (dv_cfg env)"])
      (use assms in \<open>auto simp: quiet_world_def o_def\<close>)
  show thesis
    by (rule that [of "map (\<lambda>name. (name, F_CHK_CONTENT OR F_FORCE_UPDATE)) names"])
      (use n r in \<open>auto simp: second_events_def intro!: plain_events(5)\<close>)
qed

text \<open>What the alerting thread has done after so many elements.\<close>

definition synced :: "disk_env \<Rightarrow> disk_world \<Rightarrow> alert_state \<Rightarrow> source_event list \<Rightarrow> bool" where
  "synced env w al es =
     (\<forall>p. let found = (\<exists>x \<in> set (dc_watches (dv_cfg env)). below (wd_dirs w) (w_recursive x) (w_path x) p) in
        map_of (al_db al) p = synced_row found (world_objects env w p) (map_of (wd_table w) p)
        \<and> reports p es = map (sent_text (alert_env env))
            (due_reports (alert_env env) found (world_objects env w p) (map_of (wd_table w) p)))"

lemma scan_inputs_simps [simp]:
  "scan_inputs fs [] = []" "length (scan_inputs fs es) = length es" "scan_inputs fs (es @ ds) = scan_inputs fs es @ scan_inputs fs ds"
  "take n (scan_inputs fs es) = scan_inputs fs (take n es)" "drop n (scan_inputs fs es) = scan_inputs fs (drop n es)"
  by (simp_all add: scan_inputs_def take_map drop_map)

lemma scan_inputs_flag:
  assumes "map snd is = scan_inputs fs es" "set es \<subseteq> E" "\<forall>e \<in> E. \<not> has_flag (snd e) f"
  shows "\<forall>i \<in> set is. \<not> has_flag (snd (snd i)) f"
proof
  fix i
  assume "i \<in> set is"
  then have "snd i \<in> set (map snd is)" by simp
  then obtain e where "e \<in> set es" "snd (snd i) = snd e" unfolding assms(1) by (auto simp: scan_inputs_def)
  with assms(2,3) show "\<not> has_flag (snd (snd i)) f" by auto
qed

lemma world_full_run:
  assumes "quiet_world env w" "map snd ins = scan_inputs (world_objects env w) (first_events env w @ second_events env w)"
  obtains out al where "alert_run (alert_env env) ins (alert_start (wd_table w)) = (out, Alert_continues al)"
    "ao_events out = second_events env w" "ao_scan_done out" "synced env w al (ao_alerts out)"
proof -
  let ?n = "length (first_events env w)" and ?s = "alert_start (wd_table w)" and ?fs = "world_objects env w"
  let ?tins = "take ?n ins" and ?tins2 = "drop ?n ins" and ?ws = "dc_watches (dv_cfg env)"
  note q = assms(1) [unfolded quiet_world_def]
  from assms(2) have t1: "map snd ?tins = scan_inputs ?fs (first_events env w)" and t2: "map snd ?tins2 = scan_inputs ?fs (second_events env w)"
    by (simp_all add: take_map [symmetric] drop_map [symmetric])
  obtain out1 r1 where r1: "alert_run (alert_env env) ?tins ?s = (out1, r1)" by fastforce
  have ev: "ao_events out1 = second_events env w"
    using alert_run_time [of ?tins "map (Pair 0) (scan_inputs ?fs (first_events env w))" "alert_env env" ?s] t1 r1
    by (simp add: same_turn_def second_events_def o_def)
  from q have ws: "\<forall>x \<in> set ?ws. w_path x \<noteq> [] \<and> \<not> w_check_diff x" by simp
  obtain found where f: "first_events env w = ([], F_STARTSCAN) # found @ [([], F_MIDSCAN)]"
    "\<forall>(p, fl) \<in> set found. fl = scan_flags False \<and> p \<noteq> []"
    "\<forall>p. p \<in> fst ` set found \<longleftrightarrow> (\<exists>x \<in> set ?ws. below (wd_dirs w) (w_recursive x) (w_path x) p)"
    unfolding first_events_def by (rule requests_found [OF ws])
  have ff: "\<forall>(p, fl) \<in> set found. found_flags fl" using f(2) scan_flags_found(1) by auto
  from q have w: "alert_inv ?s" "short_digests (al_db ?s)" "scan_world ?fs" by simp_all
  have t1': "map snd ?tins = scan_inputs ?fs (([], F_STARTSCAN) # found @ [([], F_MIDSCAN)])"
    by (subst f(1) [symmetric]) (rule t1)
  from full_scan [OF w(1) alert_start_simps(2) w(2,3) ff t1' r1 t2 [folded ev]] obtain s1 out2 s2 where
    k: "r1 = Alert_continues s1" "alert_run (alert_env env) ?tins2 s1 = (out2, Alert_continues s2)" "ao_scan_done out2"
    "\<forall>p. map_of (al_db s2) p = synced_row (p \<in> fst ` set found) (?fs p) (map_of (wd_table w) p)
       \<and> reports p (ao_alerts out1 @ ao_alerts out2)
         = map (sent_text (alert_env env)) (due_reports (alert_env env) (p \<in> fst ` set found) (?fs p) (map_of (wd_table w) p))"
    by auto
  obtain ys where ys: "second_events env w = ys @ [([], F_ENDSCAN)]" "\<forall>e \<in> set ys. unmarked e \<and> plain_event e"
    by (rule second_events_form [OF assms(1)])
  have "\<forall>e \<in> set (second_events env w). \<not> has_flag (snd e) F_MIDSCAN" using ys by (auto simp: unmarked_def)
  then have "\<forall>i \<in> set ?tins2. \<not> has_flag (snd (snd i)) F_MIDSCAN" by (rule scan_inputs_flag [OF t2 subset_refl])
  with alert_run_quiet [OF k(2)] have e2: "ao_events out2 = []" by blast
  have "alert_run (alert_env env) (?tins @ ?tins2) ?s =
      (\<lparr>ao_alerts = ao_alerts out1 @ ao_alerts out2, ao_events = second_events env w, ao_scan_done = True\<rparr>, Alert_continues s2)"
    unfolding alert_run_append using r1 k(1-3) ev e2 by simp
  moreover have "synced env w s2 (ao_alerts out1 @ ao_alerts out2)"
    using k(4) unfolding synced_def Let_def f(3) [rule_format] .
  ultimately show thesis using that by simp
qed

lemma world_run:
  assumes "quiet_world env w"
    and "map snd ins = scan_inputs (world_objects env w) (take a (first_events env w @ second_events env w))"
  obtains out al where "alert_run (alert_env env) ins (alert_start (wd_table w)) = (out, Alert_continues al)"
    "ao_events out = (if a < length (first_events env w) then [] else second_events env w)"
    "ao_scan_done out \<longleftrightarrow> length (first_events env w @ second_events env w) \<le> a"
    "length (first_events env w @ second_events env w) \<le> a \<Longrightarrow> synced env w al (ao_alerts out)"
proof -
  let ?e = "first_events env w @ second_events env w" and ?s = "alert_start (wd_table w)" and ?fs = "world_objects env w"
  let ?rest = "map (Pair (0 :: int)) (scan_inputs ?fs (drop a ?e))"
  have m: "map snd ?rest = scan_inputs ?fs (drop a ?e)" by (simp add: o_def)
  have "map snd (ins @ ?rest) = scan_inputs ?fs (take a ?e @ drop a ?e)" unfolding map_append m assms(2) by (simp del: append_take_drop_id)
  then have "map snd (ins @ ?rest) = scan_inputs ?fs ?e" by (simp only: append_take_drop_id)
  from assms(1) this obtain out al where f: "alert_run (alert_env env) (ins @ ?rest) ?s = (out, Alert_continues al)"
    "ao_events out = second_events env w" "ao_scan_done out" "synced env w al (ao_alerts out)" by (rule world_full_run)
  from f(1) obtain o1 s1 o2 where p: "alert_run (alert_env env) ins ?s = (o1, Alert_continues s1)"
    "alert_run (alert_env env) ?rest s1 = (o2, Alert_continues al)" "ao_events out = ao_events o1 @ ao_events o2"
    "ao_scan_done out = (ao_scan_done o1 \<or> ao_scan_done o2)" by (rule alert_run_prefix)
  obtain xs where xs: "first_events env w = xs @ [([], F_MIDSCAN)]" "\<forall>e \<in> set xs. unmarked e \<and> plain_event e"
    by (rule first_events_form [OF assms(1)])
  obtain ys where ys: "second_events env w = ys @ [([], F_ENDSCAN)]" "\<forall>e \<in> set ys. unmarked e \<and> plain_event e"
    by (rule second_events_form [OF assms(1)])
  have ev: "ao_events o1 = (if a < length (first_events env w) then [] else second_events env w)"
  proof (cases "a < length (first_events env w)")
    case True
    then have "take a ?e = take a xs" using xs(1) by simp
    then have "set (take a ?e) \<subseteq> set xs" by (simp only: set_take_subset)
    moreover have "\<forall>e \<in> set xs. \<not> has_flag (snd e) F_MIDSCAN" using xs by (auto simp: unmarked_def)
    ultimately have "\<forall>i \<in> set ins. \<not> has_flag (snd (snd i)) F_MIDSCAN" by (rule scan_inputs_flag [OF assms(2)])
    with alert_run_quiet [OF p(1)] True show ?thesis by auto
  next
    case False
    then have "drop a ?e = drop (a - length (first_events env w)) (second_events env w)" by simp
    then have "set (drop a ?e) \<subseteq> set (second_events env w)" by (simp only: set_drop_subset)
    moreover have "\<forall>e \<in> set (second_events env w). \<not> has_flag (snd e) F_MIDSCAN" using ys by (auto simp: unmarked_def)
    ultimately have "\<forall>i \<in> set ?rest. \<not> has_flag (snd (snd i)) F_MIDSCAN" by (rule scan_inputs_flag [OF m])
    with alert_run_quiet [OF p(2)] have "ao_events o2 = []" by blast
    with False p(3) f(2) show ?thesis by simp
  qed
  have dn: "ao_scan_done o1 \<longleftrightarrow> length ?e \<le> a"
  proof (cases "length ?e \<le> a")
    case True
    then have "?rest = []" by simp
    with p(2) have "\<not> ao_scan_done o2" by (auto simp: no_output_def)
    with p(4) f(3) True show ?thesis by simp
  next
    case False
    then have "take a ?e = take a (first_events env w @ ys)" using ys(1) by simp
    then have "set (take a ?e) \<subseteq> set (first_events env w @ ys)" by (simp only: set_take_subset)
    moreover have "\<forall>e \<in> set (first_events env w @ ys). \<not> has_flag (snd e) F_ENDSCAN" using xs ys(2) by (auto simp: unmarked_def)
    ultimately have "\<forall>i \<in> set ins. \<not> has_flag (snd (snd i)) F_ENDSCAN" by (rule scan_inputs_flag [OF assms(2)])
    with alert_run_quiet [OF p(1)] False show ?thesis by auto
  qed
  have "synced env w s1 (ao_alerts o1)" if "length ?e \<le> a"
  proof -
    from that have "?rest = []" by simp
    with p f(1) have "al = s1" "out = o1" by (auto simp: no_output_def)
    with f(4) show ?thesis by simp
  qed
  with p(1) ev dn that show thesis by blast
qed

subsection \<open>The streams of a run\<close>

definition scan_ins :: "disk_label list \<Rightarrow> (string \<times> flags) list" where
  "scan_ins = List.map_filter (\<lambda>l. case l of Scans d inp \<Rightarrow> Some inp | _ \<Rightarrow> None)"

definition look_ins :: "disk_label list \<Rightarrow> (string \<times> flags) list" where
  "look_ins = List.map_filter (\<lambda>l. case l of Looks j v inp \<Rightarrow> Some inp | _ \<Rightarrow> None)"

definition alert_ins :: "disk_label list \<Rightarrow> (int \<times> file_data option \<times> flags) list" where
  "alert_ins = List.map_filter (\<lambda>l. case l of Alerts now inp out \<Rightarrow> Some (now, inp) | _ \<Rightarrow> None)"

lemma ins_simps [simp]:
  "scan_ins [] = []" "look_ins [] = []" "alert_ins [] = []"
  "scan_ins (xs @ ys) = scan_ins xs @ scan_ins ys" "look_ins (xs @ ys) = look_ins xs @ look_ins ys"
  "alert_ins (xs @ ys) = alert_ins xs @ alert_ins ys"
  "scan_ins (l # ls) = (case l of Scans d inp \<Rightarrow> [inp] | _ \<Rightarrow> []) @ scan_ins ls"
  "look_ins (l # ls) = (case l of Looks j v inp \<Rightarrow> [inp] | _ \<Rightarrow> []) @ look_ins ls"
  "alert_ins (l # ls) = (case l of Alerts now inp out \<Rightarrow> [(now, inp)] | _ \<Rightarrow> []) @ alert_ins ls"
  by (auto simp: scan_ins_def look_ins_def alert_ins_def List.map_filter_def split: disk_label.splits)

text \<open>The answers are those of the world.\<close>

definition world_label :: "disk_world \<Rightarrow> disk_label \<Rightarrow> bool" where
  "world_label w l =
     (case l of
        Opens db \<Rightarrow> db = Some (wd_table w)
      | Scans d inp \<Rightarrow> d = wd_dirs w
      | Looks j v inp \<Rightarrow> j = wd_junk w (fst inp) \<and> v = wd_view w (fst inp)
      | _ \<Rightarrow> True)"

definition requests :: "disk_env \<Rightarrow> (string \<times> flags) list" where
  "requests env = scan_requests (dc_watches (dv_cfg env))"

definition all_events :: "disk_env \<Rightarrow> disk_world \<Rightarrow> (string \<times> flags) list" where
  "all_events env w = first_events env w @ second_events env w"

text \<open>The events asked for after the scanning thread took \<open>k\<close> and the alerting thread \<open>a\<close> elements.\<close>

definition asked :: "disk_env \<Rightarrow> disk_world \<Rightarrow> nat \<Rightarrow> nat \<Rightarrow> (string \<times> flags) list" where
  "asked env w k a =
     (if k < length (requests env) then scan_run (wd_dirs w) (take k (requests env))
      else first_events env w @ (if a < length (first_events env w) then [] else second_events env w)
        @ (if k \<le> length (requests env) then [] else [([], F_KILL)]))"

lemma requests_plain: "e \<in> set (requests env) \<Longrightarrow> \<not> has_flag (snd e) F_KILL"
  using watch_flags by (auto simp: requests_def scan_requests_def) (auto simp: has_flag_def flag_defs)

lemma scan_turn_request:
  assumes "e \<in> set (requests env)"
  obtains es where "scan_turn dirs True e = (es, True)"
proof -
  have "\<exists>es. scan_turn dirs True e = (es, True)" using requests_plain [OF assms] by (simp add: scan_turn_def Let_def)
  with that show thesis by blast
qed

lemma scan_run_append:
  "\<forall>e \<in> set xs. \<not> has_flag (snd e) F_KILL \<Longrightarrow> scan_run dirs (xs @ ys) = scan_run dirs xs @ scan_run dirs ys"
  by (induction xs) (auto simp: scan_turn_def Let_def split: prod.splits)

lemma scan_run_take:
  assumes "k \<le> length (requests env)"
  shows "first_events env w = scan_run (wd_dirs w) (take k (requests env)) @ scan_run (wd_dirs w) (drop k (requests env))"
proof -
  have "scan_run (wd_dirs w) (take k (requests env) @ drop k (requests env))
      = scan_run (wd_dirs w) (take k (requests env)) @ scan_run (wd_dirs w) (drop k (requests env))"
    by (rule scan_run_append) (use requests_plain in \<open>auto dest: in_set_takeD\<close>)
  then show ?thesis by (simp add: first_events_def requests_def)
qed

lemma last_request: "requests env \<noteq> []" "last (requests env) = ([], F_MIDSCAN)"
  by (simp_all add: requests_def scan_requests_def)

lemma asked_early:
  assumes "k < length (requests env)"
  shows "length (asked env w k a) < length (first_events env w)"
proof -
  have "scan_run (wd_dirs w) (drop k (requests env)) \<noteq> []"
  proof -
    let ?d = "drop k (requests env)"
    have "?d \<noteq> []" "last ?d = ([], F_MIDSCAN)" using assms last_request [of env] by (simp_all add: last_drop)
    then have d: "?d = butlast ?d @ [([], F_MIDSCAN)]" by (metis append_butlast_last_id)
    have "\<forall>e \<in> set (butlast ?d). \<not> has_flag (snd e) F_KILL"
      using requests_plain by (auto dest!: in_set_butlastD in_set_dropD)
    then have "scan_run (wd_dirs w) (butlast ?d @ [([], F_MIDSCAN)]) = scan_run (wd_dirs w) (butlast ?d) @ [([], F_MIDSCAN)]"
      by (simp add: scan_run_append scan_turn_def Let_def) (simp add: has_flag_def flag_defs)
    then show ?thesis by (subst d) simp
  qed
  with scan_run_take [of k env w] assms show ?thesis by (simp add: asked_def)
qed

text \<open>They are a prefix of the whole sequence.\<close>

lemma asked_prefix: "\<exists>m. asked env w k a = take m (all_events env w @ [([], F_KILL)])" if "length (requests env) < k \<longrightarrow> length (first_events env w) \<le> a"
proof (cases "k < length (requests env)")
  case True
  with scan_run_take [of k env w] show ?thesis
    by (intro exI [of _ "length (asked env w k a)"]) (simp add: asked_def all_events_def)
next
  case False
  with that show ?thesis
    by (intro exI [of _ "length (asked env w k a)"]) (auto simp: asked_def all_events_def)
qed

subsection \<open>The invariant of a single run\<close>

definition past_wait :: "disk_pc \<Rightarrow> bool" where
  "past_wait pc = (pc = Disk_returned \<or> (\<exists>ts. pc = Disk_join ts))"

definition single_queues :: "disk_env \<Rightarrow> disk_world \<Rightarrow> disk_label list \<Rightarrow> disk_state \<Rightarrow> bool" where
  "single_queues env w tr s =
     (let k = length (scan_ins tr); l = length (look_ins tr); a = length (alert_ins tr); n = length (all_events env w) in
      scan_ins tr @ sd_scanq s = (if sd_main s = Disk_start then [] else requests env) @ (if past_wait (sd_main s) then [([], F_KILL)] else [])
      \<and> look_ins tr @ sd_eventq s = asked env w k a
      \<and> map snd (alert_ins tr) @ sd_dataq s = scan_inputs (world_objects env w) (look_ins tr)
      \<and> sd_scan s = (if k \<le> length (requests env) then Thread_running else Thread_done)
      \<and> sd_event s = (if l \<le> n then Thread_running else Thread_done)
      \<and> sd_alert s = (if a \<le> n then Thread_running else Thread_done)
      \<and> sd_scanning s = (sd_main s \<noteq> Disk_start \<and> a < n)
      \<and> (past_wait (sd_main s) \<longrightarrow> n \<le> a))"

definition single_alert :: "disk_env \<Rightarrow> disk_world \<Rightarrow> disk_label list \<Rightarrow> disk_state \<Rightarrow> bool" where
  "single_alert env w tr s =
     (let n = length (all_events env w) in
      case sd_alert_state s of
        None \<Rightarrow> alert_ins tr = [] \<and> raised tr = []
      | Some al \<Rightarrow> \<exists>out. alert_run (alert_env env) (take n (alert_ins tr)) (alert_start (wd_table w)) = (out, Alert_continues al)
          \<and> raised tr = ao_alerts out @ (if length (alert_ins tr) \<le> n then [] else [se_kill]))"

definition single_inv :: "disk_env \<Rightarrow> disk_world \<Rightarrow> disk_label list \<Rightarrow> disk_state \<Rightarrow> bool" where
  "single_inv env w tr s =
     (sd_running s \<and> sd_errors s = [] \<and> sd_watch s = [] \<and> sd_main s \<noteq> Disk_monitor \<and> single_queues env w tr s \<and> single_alert env w tr s)"

text \<open>What the invariant says of the positions in the sequences.\<close>

lemma single_positions:
  assumes "single_queues env w tr s"
  defines "k \<equiv> length (scan_ins tr)" and "l \<equiv> length (look_ins tr)" and "a \<equiv> length (alert_ins tr)"
    and "es \<equiv> all_events env w @ [([], F_KILL)]"
  shows "k \<le> Suc (length (requests env))" "a \<le> l" "l \<le> Suc (length (all_events env w))"
    "look_ins tr = take l es" "sd_eventq s \<noteq> [] \<Longrightarrow> hd (sd_eventq s) = es ! l \<and> l < length es"
    "map snd (alert_ins tr) = scan_inputs (world_objects env w) (take a es)"
    "sd_dataq s \<noteq> [] \<Longrightarrow> hd (sd_dataq s) = scan_inputs (world_objects env w) es ! a \<and> a < l"
    "k < length (requests env) \<Longrightarrow> l < length (first_events env w)"
    "length (requests env) < k \<Longrightarrow> length (all_events env w) \<le> a"
    "sd_scanq s \<noteq> [] \<Longrightarrow> k < length (requests env) \<Longrightarrow> hd (sd_scanq s) = requests env ! k"
    "sd_scanq s \<noteq> [] \<Longrightarrow> length (requests env) \<le> k \<Longrightarrow> hd (sd_scanq s) = ([], F_KILL) \<and> past_wait (sd_main s)"
proof -
  let ?fs = "world_objects env w"
  note q = assms(1) [unfolded single_queues_def Let_def, folded k_def l_def a_def]
  from q have s: "scan_ins tr @ sd_scanq s = (if sd_main s = Disk_start then [] else requests env) @ (if past_wait (sd_main s) then [([], F_KILL)] else [])"
    and v: "look_ins tr @ sd_eventq s = asked env w k a"
    and d: "map snd (alert_ins tr) @ sd_dataq s = scan_inputs ?fs (look_ins tr)"
    and p: "past_wait (sd_main s) \<Longrightarrow> length (all_events env w) \<le> a" by auto
  have np: "\<not> past_wait Disk_start" by (simp add: past_wait_def)
  have len: "k + length (sd_scanq s) = (if sd_main s = Disk_start then 0 else length (requests env)) + (if past_wait (sd_main s) then 1 else 0)"
    using arg_cong [OF s, of length] by (simp add: k_def split: if_splits)
  then show "k \<le> Suc (length (requests env))" by (auto split: if_splits)
  have kp: "past_wait (sd_main s)" if "length (requests env) < k" using len that by (auto split: if_splits)
  then show ka: "length (requests env) < k \<Longrightarrow> length (all_events env w) \<le> a" using p by blast
  then have "length (requests env) < k \<longrightarrow> length (first_events env w) \<le> a" by (auto simp: all_events_def)
  from asked_prefix [OF this] obtain m where m: "look_ins tr @ sd_eventq s = take m es" unfolding v es_def by blast
  show le: "look_ins tr = take l es"
    using arg_cong [OF m, of "take l"] by (simp add: l_def min_def split: if_splits)
  from le show "l \<le> Suc (length (all_events env w))" unfolding l_def es_def by (metis length_append_singleton length_take min.cobounded1)
  show al: "a \<le> l" using arg_cong [OF d, of length] by (simp add: a_def l_def)
  show "hd (sd_eventq s) = es ! l \<and> l < length es" if ne: "sd_eventq s \<noteq> []"
  proof -
    obtain e q' where e: "sd_eventq s = e # q'" using ne by (cases "sd_eventq s") auto
    have "l < length (take m es)" using m e by (metis l_def length_append length_Cons less_add_Suc1 add_Suc_right)
    moreover have "e = take m es ! l" using m e by (metis l_def nth_append_length)
    ultimately show ?thesis using e by simp
  qed
  show "map snd (alert_ins tr) = scan_inputs ?fs (take a es)"
  proof -
    have "map snd (alert_ins tr) = take a (scan_inputs ?fs (look_ins tr))" unfolding d [symmetric] by (simp add: a_def)
    also have "\<dots> = scan_inputs ?fs (take a (take l es))" using le by simp
    finally show ?thesis using al by (simp add: min_def)
  qed
  show "hd (sd_dataq s) = scan_inputs ?fs es ! a \<and> a < l" if ne: "sd_dataq s \<noteq> []"
  proof -
    obtain x q' where x: "sd_dataq s = x # q'" using ne by (cases "sd_dataq s") auto
    have "a < l" using arg_cong [OF d, of length] x by (simp add: a_def l_def)
    moreover have "x = scan_inputs ?fs (look_ins tr) ! a" using d x by (metis a_def length_map nth_append_length)
    then have "x = take l (scan_inputs ?fs es) ! a" using le by simp
    ultimately show ?thesis using x by (simp del: scan_inputs_simps)
  qed
  show "l < length (first_events env w)" if "k < length (requests env)"
    using asked_early [OF that, of w a] arg_cong [OF v, of length] by (simp add: l_def)
  show "hd (sd_scanq s) = requests env ! k" if ne: "sd_scanq s \<noteq> []" "k < length (requests env)"
  proof -
    obtain x q' where x: "sd_scanq s = x # q'" using ne by (cases "sd_scanq s") auto
    have "sd_main s \<noteq> Disk_start" using len x np by auto
    with s have "scan_ins tr @ x # q' = requests env @ (if past_wait (sd_main s) then [([], F_KILL)] else [])" using x by simp
    then have "x = (requests env @ (if past_wait (sd_main s) then [([], F_KILL)] else [])) ! k" by (metis k_def nth_append_length)
    with ne(2) x show ?thesis by (simp add: nth_append)
  qed
  show "hd (sd_scanq s) = ([], F_KILL) \<and> past_wait (sd_main s)" if ne: "sd_scanq s \<noteq> []" "length (requests env) \<le> k"
  proof -
    obtain x q' where x: "sd_scanq s = x # q'" using ne by (cases "sd_scanq s") auto
    have pw: "past_wait (sd_main s)" "k = length (requests env)" using len x ne(2) by (auto split: if_splits)
    with s x np have "scan_ins tr @ x # q' = requests env @ [([], F_KILL)]" by (auto split: if_splits)
    with pw x show ?thesis by (auto simp: k_def)
  qed
qed

subsection \<open>The steps of the threads\<close>

lemma single_alert_same:
  "single_alert env w tr s \<Longrightarrow> sd_alert_state s' = sd_alert_state s \<Longrightarrow> alert_ins ls = [] \<Longrightarrow> raised ls = [] \<Longrightarrow>
   single_alert env w (tr @ ls) s'"
  unfolding single_alert_def Let_def by (auto split: option.splits if_splits)

lemma single_scans:
  assumes "single_inv env w tr s" "sd_scan s = Thread_running" "disk_scans dirs s = Some (ls, s')" "list_all (world_label w) ls"
  shows "single_inv env w (tr @ ls) s'"
proof -
  let ?k = "length (scan_ins tr)" and ?a = "length (alert_ins tr)" and ?R = "requests env"
  from assms(1) have q: "single_queues env w tr s" and al: "single_alert env w tr s" and run: "sd_running s"
    by (simp_all add: single_inv_def)
  note p = single_positions [OF q] and u = q [unfolded single_queues_def Let_def]
  from assms(3) obtain inp r es on where c: "sd_scanq s = inp # r" "scan_turn dirs (sd_running s) inp = (es, on)" "ls = [Scans dirs inp]"
    "s' = s\<lparr>sd_scanq := r, sd_eventq := sd_eventq s @ es, sd_scan := (if on then Thread_running else Thread_done)\<rparr>"
    by (auto simp: disk_scans_Some)
  have d: "dirs = wd_dirs w" using assms(4) c(3) by (simp add: world_label_def)
  have k: "?k \<le> length ?R" using u assms(2) by (auto split: if_splits)
  have "asked env w (Suc ?k) ?a = asked env w ?k ?a @ es \<and> on = (Suc ?k \<le> length ?R)"
  proof (cases "?k < length ?R")
    case True
    then have i: "inp = ?R ! ?k" using p(10) c(1) by simp
    then obtain es' where "scan_turn dirs True inp = (es', True)" using True scan_turn_request [of "?R ! ?k" env] by (metis nth_mem)
    with c(2) run have t: "scan_turn dirs True inp = (es, True)" "on" by auto
    have "take (Suc ?k) ?R = take ?k ?R @ [inp]" using True i by (simp add: take_Suc_conv_app_nth)
    then have r: "scan_run (wd_dirs w) (take (Suc ?k) ?R) = scan_run (wd_dirs w) (take ?k ?R) @ es"
      using scan_run_append [of "take ?k ?R" "wd_dirs w" "[inp]"] requests_plain [of _ env] in_set_takeD [of _ ?k ?R] t(1) d
      by simp
    have "?a < length (first_events env w)" using p(2,8) True by simp
    then show ?thesis using r True t(2) by (cases "Suc ?k = length ?R") (auto simp: asked_def first_events_def requests_def)
  next
    case False
    then have "inp = ([], F_KILL)" "past_wait (sd_main s)" using p(11) c(1) by auto
    moreover from this(1) have "es = [([], F_KILL)]" "\<not> on" using c(2) by (auto simp: scan_turn_def)
    ultimately show ?thesis using False k u by (auto simp: asked_def all_events_def)
  qed
  moreover have "single_alert env w (tr @ ls) s'" by (rule single_alert_same [OF al]) (use c in simp_all)
  ultimately show ?thesis using assms(1) c u k by (simp add: single_inv_def single_queues_def Let_def)
qed

lemma event_turn_object:
  assumes "names_known view" "plain_event e"
  shows "event_turn (env_factory env junk (view (fst e))) True e db
       = (scan_inputs (disk_object (dv_digest env) (dc_max_diff_size (dv_cfg env)) junk view) [e], Event_continues db)"
proof (cases "has_flag (snd e) F_SPECIAL")
  case True
  with assms(2) show ?thesis by (simp add: event_turn_def Let_def scan_inputs_def plain_event_def split_beta)
next
  case False
  let ?dg = "dv_digest env" and ?m = "dc_max_diff_size (dv_cfg env)"
  from False assms(2) have e: "\<not> has_flag (snd e) F_KILL" "fst e \<noteq> []" "has_flag (snd e) F_CHK_CONTENT" "\<not> has_flag (snd e) F_CHK_DIFF"
    by (simp_all add: plain_event_def)
  from construct_world [OF assms(1), of ?dg ?m junk] e(2)
  have "construct ?dg ?m junk (view (fst e)) (fst e) True False db = Inr (Some (disk_object ?dg ?m junk view (fst e)), db)"
    by (simp add: shows_world_def disk_factory_def)
  with False e show ?thesis by (simp add: event_turn_def Let_def env_factory_def scan_inputs_def split_beta)
qed

lemma all_events_plain:
  assumes "quiet_world env w" "e \<in> set (all_events env w)"
  shows "plain_event e"
proof -
  obtain xs where "first_events env w = xs @ [([], F_MIDSCAN)]" "\<forall>e \<in> set xs. unmarked e \<and> plain_event e"
    by (rule first_events_form [OF assms(1)])
  moreover obtain ys where "second_events env w = ys @ [([], F_ENDSCAN)]" "\<forall>e \<in> set ys. unmarked e \<and> plain_event e"
    by (rule second_events_form [OF assms(1)])
  ultimately show ?thesis using assms(2) by (auto simp: all_events_def)
qed

lemma single_looks:
  assumes "single_inv env w tr s" "quiet_world env w" "sd_event s = Thread_running" "disk_looks env junk v s = Some (ls, s')"
    "list_all (world_label w) ls"
  shows "single_inv env w (tr @ ls) s'"
proof -
  let ?l = "length (look_ins tr)" and ?n = "length (all_events env w)" and ?fs = "world_objects env w"
  from assms(1) have q: "single_queues env w tr s" and al: "single_alert env w tr s" and run: "sd_running s"
    by (simp_all add: single_inv_def)
  note p = single_positions [OF q] and u = q [unfolded single_queues_def Let_def]
  have l: "?l \<le> ?n" using u assms(3) by (auto split: if_splits)
  from assms(4) obtain inp r where c: "sd_eventq s = inp # r" by (auto simp: disk_looks_def bq_take_def split: list.splits)
  have i: "inp = (all_events env w @ [([], F_KILL)]) ! ?l" using p(5) c by simp
  have wl: "ls = [Looks junk v inp]" using assms(4) c by (cases rule: disk_looks_cases) auto
  have vj: "v = wd_view w (fst inp)" "junk = wd_junk w (fst inp)" using assms(5) wl by (simp_all add: world_label_def)
  show ?thesis
  proof (cases "?l < ?n")
    case True
    then have "inp \<in> set (all_events env w)" using i by (simp add: nth_append)
    then have t: "event_turn (env_factory env junk v) (sd_running s) inp (sd_diffdb s) = (scan_inputs ?fs [inp], Event_continues (sd_diffdb s))"
      using event_turn_object [OF _ all_events_plain [OF assms(2)]] assms(2) run
      by (simp add: vj world_objects_def quiet_world_def scan_inputs_def split_beta)
    then have "s' = s\<lparr>sd_eventq := r, sd_dataq := sd_dataq s @ scan_inputs ?fs [inp]\<rparr>"
      using assms(4) c by (simp add: disk_looks_def bq_take_def)
    moreover from this wl have "single_alert env w (tr @ ls) s'" by (intro single_alert_same [OF al]) simp_all
    ultimately show ?thesis using assms(1) c wl u True by (simp add: single_inv_def single_queues_def Let_def)
  next
    case False
    with l have n: "?l = ?n" by simp
    with i have "inp = ([], F_KILL)" by (simp add: nth_append)
    moreover have "scan_inputs ?fs [([], F_KILL)] = [(None, F_KILL)]" by (simp add: scan_inputs_def has_flag_def flag_defs)
    ultimately have "s' = s\<lparr>sd_eventq := r, sd_dataq := sd_dataq s @ scan_inputs ?fs [inp], sd_event := Thread_done\<rparr>"
      using assms(4) c by (simp add: disk_looks_def bq_take_def event_turn_def Let_def)
    moreover from this wl have "single_alert env w (tr @ ls) s'" by (intro single_alert_same [OF al]) simp_all
    ultimately show ?thesis using assms(1) c wl u n by (simp add: single_inv_def single_queues_def Let_def)
  qed
qed

lemma single_alerts:
  assumes "single_inv env w tr s" "quiet_world env w" "sd_alert s = Thread_running" "sd_alert_state s = Some al"
    "disk_alerts env now al s = Some (ls, s')"
  shows "single_inv env w (tr @ ls) s'"
proof -
  let ?k = "length (scan_ins tr)" and ?l = "length (look_ins tr)" and ?a = "length (alert_ins tr)" and ?n = "length (all_events env w)"
  let ?fs = "world_objects env w" and ?e = "all_events env w @ [([], F_KILL)]" and ?ae = "alert_env env" and ?st = "alert_start (wd_table w)"
  from assms(1) have q: "single_queues env w tr s" and run: "sd_running s"
    and sa: "\<exists>out. alert_run ?ae (take ?n (alert_ins tr)) ?st = (out, Alert_continues al)
      \<and> raised tr = ao_alerts out @ (if ?a \<le> ?n then [] else [se_kill])"
    using assms(4) by (simp_all add: single_inv_def single_alert_def Let_def)
  note p = single_positions [OF q] and u = q [unfolded single_queues_def Let_def]
  have a: "?a \<le> ?n" using u assms(3) by (auto split: if_splits)
  with sa obtain out where r: "alert_run ?ae (alert_ins tr) ?st = (out, Alert_continues al)" "raised tr = ao_alerts out" by auto
  from assms(5) obtain inp q' where c: "sd_dataq s = inp # q'" by (auto simp: disk_alerts_def bq_take_def split: list.splits)
  have i: "inp = scan_inputs ?fs ?e ! ?a" and al: "?a < ?l" using p(7) c by auto
  show ?thesis
  proof (cases "?a < ?n")
    case True
    have m: "map snd (alert_ins tr) = scan_inputs ?fs (take ?a (first_events env w @ second_events env w))"
      using p(6) True by (simp add: all_events_def)
    have "map snd (alert_ins tr @ [(now, inp)]) = take (Suc ?a) (scan_inputs ?fs ?e)"
      using p(6) i True by (simp add: take_Suc_conv_app_nth nth_append del: scan_inputs_simps(4)) (simp add: scan_inputs_simps(4))
    then have m': "map snd (alert_ins tr @ [(now, inp)]) = scan_inputs ?fs (take (Suc ?a) (first_events env w @ second_events env w))"
      using True by (simp add: all_events_def)
    obtain o1 al1 where r1: "alert_run ?ae (alert_ins tr @ [(now, inp)]) ?st = (o1, Alert_continues al1)"
      "ao_events o1 = (if Suc ?a < length (first_events env w) then [] else second_events env w)"
      "ao_scan_done o1 \<longleftrightarrow> length (first_events env w @ second_events env w) \<le> Suc ?a"
      by (rule world_run [OF assms(2) m'])
    obtain o0 al0 where r0: "alert_run ?ae (alert_ins tr) ?st = (o0, Alert_continues al0)"
      "ao_events o0 = (if ?a < length (first_events env w) then [] else second_events env w)"
      "ao_scan_done o0 \<longleftrightarrow> length (first_events env w @ second_events env w) \<le> ?a"
      by (rule world_run [OF assms(2) m])
    obtain ot rt where t: "alert_turn ?ae now True inp al = (ot, rt)" by fastforce
    with r(1) r1(1) have rt: "rt = Alert_continues al1" and o1: "ao_alerts o1 = ao_alerts out @ ao_alerts ot"
      "ao_events o1 = ao_events out @ ao_events ot" "ao_scan_done o1 = (ao_scan_done out \<or> ao_scan_done ot)"
      by (auto simp: alert_run_append no_output_def split: alert_result.splits)
    from r(1) r0(1) have "o0 = out" by simp
    then have dn: "ao_scan_done ot = (?n \<le> Suc ?a)" using r0(3) r1(3) o1(3) True by (simp add: all_events_def)
    have ev: "asked env w ?k (Suc ?a) = asked env w ?k ?a @ ao_events ot"
    proof (cases "?k < length (requests env)")
      case True
      then have "Suc ?a < length (first_events env w)" using p(8) al by simp
      with r0(2) r1(2) o1(2) \<open>o0 = out\<close> True show ?thesis by (simp add: asked_def)
    next
      case False
      have "?k \<le> length (requests env)" using p(9) \<open>?a < ?n\<close> by (meson leD not_le_imp_less)
      with False r0(2) r1(2) o1(2) \<open>o0 = out\<close> show ?thesis by (auto simp: asked_def split: if_splits)
    qed
    have s': "ls = [Alerts now inp ot]" "s' = s\<lparr>sd_dataq := q', sd_outq := sd_outq s @ ao_alerts ot, sd_eventq := sd_eventq s @ ao_events ot,
        sd_scanning := (sd_scanning s \<and> \<not> ao_scan_done ot), sd_alert_state := Some al1\<rparr>"
      using assms(5) c t rt run by (simp_all add: disk_alerts_def bq_take_def)
    have "single_alert env w (tr @ ls) s'"
      using s' r1(1) o1(1) r(2) True by (simp add: single_alert_def)
    moreover have "single_queues env w (tr @ ls) s'"
      using s' u c ev dn True by (auto simp: single_queues_def)
    ultimately show ?thesis using assms(1) s' by (simp add: single_inv_def)
  next
    case False
    with a have n: "?a = ?n" by simp
    have "scan_inputs ?fs ?e ! ?n = (None, F_KILL)"
      by (simp add: nth_append) (simp add: scan_inputs_def has_flag_def flag_defs)
    then have t: "alert_turn ?ae now (sd_running s) inp al = (no_output\<lparr>ao_alerts := [se_kill]\<rparr>, Alert_stops)"
      using i n by (simp add: alert_turn_def Let_def)
    then have s': "ls = [Alerts now inp (no_output\<lparr>ao_alerts := [se_kill]\<rparr>)]"
      "s' = s\<lparr>sd_dataq := q', sd_outq := sd_outq s @ [se_kill], sd_alert := Thread_done\<rparr>"
      using assms(5) c by (simp_all add: disk_alerts_def bq_take_def no_output_def)
    have "single_alert env w (tr @ ls) s'"
      using s' r n assms(4) by (simp add: single_alert_def)
    moreover have "asked env w ?k (Suc ?a) = asked env w ?k ?a" using n by (auto simp: asked_def all_events_def)
    then have "single_queues env w (tr @ ls) s'" using s' u c n by (auto simp: single_queues_def)
    ultimately show ?thesis using assms(1) s' by (simp add: single_inv_def)
  qed
qed

lemma past_wait_simps [simp]:
  "\<not> past_wait Disk_start" "\<not> past_wait Disk_wait_scan" "past_wait (Disk_join ts)" "past_wait (join_next ts)" "past_wait Disk_returned"
  "join_next ts \<noteq> Disk_start" "join_next ts \<noteq> Disk_monitor"
  by (simp_all add: past_wait_def join_next_def)

lemma all_events_nonempty: "quiet_world env w \<Longrightarrow> 0 < length (all_events env w)"
  by (rule first_events_form) (auto simp: all_events_def)

lemma single_step:
  assumes "disk_step env s ls s'" "dv_singlerun env" "quiet_world env w" "list_all (world_label w) ls" "single_inv env w tr s"
  shows "single_inv env w (tr @ ls) s'"
proof -
  from assms(5) have q: "single_queues env w tr s" and al: "single_alert env w tr s" by (simp_all add: single_inv_def)
  note u = q [unfolded single_queues_def Let_def] and p = single_positions [OF q]
  from assms(1) show ?thesis
  proof cases
    case Ds_starts
    have "scan_ins tr = []" "sd_scanq s = []" using u Ds_starts by simp_all
    moreover have "look_ins tr = []" "sd_eventq s = []" using u calculation(1) last_request(1) [of env] by (auto simp: asked_def)
    moreover have "alert_ins tr = []" using p(2) calculation(3) by simp
    moreover have "single_alert env w (tr @ ls) s'" by (rule single_alert_same [OF al]) (use Ds_starts in \<open>simp_all add: disk_starts_def start_scan_def\<close>)
    ultimately show ?thesis
      using assms(2,5) u Ds_starts all_events_nonempty [OF assms(3)]
      by (auto simp: single_inv_def single_queues_def disk_starts_def start_scan_def realtime_watches_def requests_def)
  next
    case Ds_scan_done
    moreover from this have "single_alert env w (tr @ ls) s'"
      by (intro single_alert_same [OF al]) (simp_all add: singlerun_stops_def)
    ultimately show ?thesis using assms(5) u by (auto simp: single_inv_def single_queues_def singlerun_stops_def bq_push_def Let_def)
  next
    case (Ds_joins t ts)
    moreover from this have "single_alert env w (tr @ ls) s'" by (intro single_alert_same [OF al]) simp_all
    ultimately show ?thesis using assms(5) u by (simp add: single_inv_def single_queues_def Let_def)
  next
    case (Ds_scans dirs)
    with assms(4,5) single_scans show ?thesis by blast
  next
    case (Ds_looks junk v)
    with assms(3-5) single_looks show ?thesis by blast
  next
    case (Ds_opens_db db)
    then have "db = Some (wd_table w)" using assms(4) by (simp add: world_label_def)
    moreover have "alert_ins tr = []" "raised tr = []" using al Ds_opens_db by (simp_all add: single_alert_def)
    ultimately show ?thesis using assms(5) u Ds_opens_db
      by (simp add: single_inv_def single_queues_def single_alert_def disk_opens_db_def no_output_def Let_def)
  next
    case (Ds_alerts al now)
    with assms(3-5) single_alerts show ?thesis by blast
  next
    case Ds_forwards
    from Ds_forwards(2) show ?thesis
    proof (cases rule: disk_forwards_cases)
      case (forwards inp q rt sink)
      moreover from this have "single_alert env w (tr @ ls) s'" by (intro single_alert_same [OF al]) simp_all
      ultimately show ?thesis using assms(5) u by (simp add: single_inv_def single_queues_def Let_def)
    qed
  qed (use assms(2,5) in \<open>simp_all add: single_inv_def\<close>)
qed

lemma single_run_inv:
  "disk_run env sink db tr s \<Longrightarrow> dv_singlerun env \<Longrightarrow> quiet_world env w \<Longrightarrow> list_all (world_label w) tr \<Longrightarrow> single_inv env w tr s"
proof (induction rule: disk_run.induct)
  case ds_start
  then show ?case
    using last_request(1) [of env]
    by (auto simp: single_inv_def single_queues_def single_alert_def disk_init_def asked_def)
next
  case (ds_step tr s ls s')
  with single_step show ?case by (metis list_all_append)
qed

end
