(* ===== verification/Diskscan_Single_Return.thy ===== *)
theory Diskscan_Single_Return
  imports Diskscan_Single
begin

text \<open>
  The end of a single run of ctguard-diskscan on a file system that stays as it is: from everywhere it can come
  to its return, and when it returns the database is in line with the file system and every difference was
  handed to the output thread, once.
\<close>

subsection \<open>A single run can come to its end\<close>

definition single_rest :: "disk_env \<Rightarrow> disk_world \<Rightarrow> disk_label list \<Rightarrow> disk_state \<Rightarrow> nat" where
  "single_rest env w tr s =
     (if sd_main s = Disk_start then 2 else if sd_main s = Disk_wait_scan then 1 else 0)
     + (if sd_alert_state s = None then 1 else 0) + (Suc (length (requests env)) - length (scan_ins tr))
     + (Suc (length (all_events env w)) - length (look_ins tr)) + (Suc (length (all_events env w)) - length (alert_ins tr))"

lemma single_rest_less:
  assumes "sd_main s' = sd_main s" "sd_alert_state s' = None \<Longrightarrow> sd_alert_state s = None"
    "length (scan_ins ls) + length (look_ins ls) + length (alert_ins ls) = 1"
    "scan_ins ls \<noteq> [] \<Longrightarrow> length (scan_ins tr) \<le> length (requests env)"
    "look_ins ls \<noteq> [] \<Longrightarrow> length (look_ins tr) \<le> length (all_events env w)"
    "alert_ins ls \<noteq> [] \<Longrightarrow> length (alert_ins tr) \<le> length (all_events env w)"
  shows "single_rest env w (tr @ ls) s' < single_rest env w tr s"
proof -
  have less: "(Suc r - (x + i)) + (Suc n - (y + j)) + (Suc n - (z + k)) < (Suc r - x) + (Suc n - y) + (Suc n - z)"
    if "i + j + k = 1" "0 < i \<Longrightarrow> x \<le> r" "0 < j \<Longrightarrow> y \<le> n" "0 < k \<Longrightarrow> z \<le> n" for i j k x y z r n :: nat
  proof -
    from that(1) consider "i = 1" "j = 0" "k = 0" | "i = 0" "j = 1" "k = 0" | "i = 0" "j = 0" "k = 1" by (auto simp: add_is_1)
    moreover have "m \<le> N \<Longrightarrow> Suc N - (m + 1) < Suc N - m" for m N :: nat by arith
    ultimately show ?thesis using that(2-4)
      by cases (simp_all only: add_0_right add_less_cancel_right add_less_cancel_left zero_less_one)
  qed
  have "(if sd_alert_state s' = None then 1 else 0) \<le> (if sd_alert_state s = None then 1 else (0 :: nat))" using assms(2) by simp
  then show ?thesis
    using less [OF assms(3), of "length (scan_ins tr)" "length (requests env)" "length (look_ins tr)" "length (all_events env w)"
        "length (alert_ins tr)"] assms(4-6)
    unfolding single_rest_def assms(1) ins_simps length_append length_greater_0_conv by linarith
qed

definition single_done :: "disk_state \<Rightarrow> bool" where
  "single_done s = (past_wait (sd_main s) \<and> (\<forall>t \<in> {Scan_thread, Event_thread, Alert_thread}. disk_joinable t s))"

lemma can_reach_weaken: "can_reach env sink db L tr P \<Longrightarrow> (\<And>l. L l \<Longrightarrow> M l) \<Longrightarrow> can_reach env sink db M tr P"
  unfolding can_reach_def by (auto simp: list_all_iff)

text \<open>While it is not done, one of the threads has something to do.\<close>

lemma single_progress:
  assumes "single_inv env w tr s" "dv_singlerun env" "quiet_world env w" "\<not> single_done s"
  obtains ls s' where "disk_step env s ls s'" "list_all (world_label w) ls" "single_rest env w (tr @ ls) s' < single_rest env w tr s"
proof -
  let ?k = "length (scan_ins tr)" and ?l = "length (look_ins tr)" and ?a = "length (alert_ins tr)"
  let ?R = "requests env" and ?n = "length (all_events env w)"
  from assms(1) have q: "single_queues env w tr s" and al: "single_alert env w tr s" and m: "sd_main s \<noteq> Disk_monitor"
    by (simp_all add: single_inv_def)
  note u = q [unfolded single_queues_def Let_def] and p = single_positions [OF q]
  consider "sd_main s = Disk_start" | "sd_alert_state s = None" | inp r where "sd_scanq s = inp # r" "sd_main s \<noteq> Disk_start"
    | inp r where "sd_eventq s = inp # r" | inp r b where "sd_dataq s = inp # r" "sd_alert_state s = Some b"
    | "sd_scanq s = []" "sd_eventq s = []" "sd_dataq s = []" "sd_main s \<noteq> Disk_start"
    by (cases "sd_scanq s"; cases "sd_eventq s"; cases "sd_dataq s") auto
  then show thesis
  proof cases
    case 1
    show thesis
      by (rule that [OF Ds_starts [OF 1]]) (use 1 assms(2) in \<open>simp_all add: single_rest_def disk_starts_def start_scan_def\<close>)
  next
    case 2
    then have "alert_ins tr = []" using al by (simp add: single_alert_def)
    with u have "sd_alert s = Thread_running" by simp
    from Ds_opens_db [OF this 2, of env "Some (wd_table w)"] show thesis
      by (rule that) (use 2 in \<open>simp_all add: single_rest_def disk_opens_db_def world_label_def\<close>)
  next
    case (3 inp r)
    have len: "?k + length (sd_scanq s) = length ?R + (if past_wait (sd_main s) then 1 else 0)"
      using arg_cong [OF conjunct1 [OF u], of length] 3(2) by (simp split: if_splits)
    with 3(1) have k: "?k \<le> length ?R" by (auto split: if_splits)
    obtain es on where t: "scan_turn (wd_dirs w) (sd_running s) inp = (es, on)" by fastforce
    from k u have "sd_scan s = Thread_running" by simp
    then have "disk_step env s [Scans (wd_dirs w) inp]
        (s\<lparr>sd_scanq := r, sd_eventq := sd_eventq s @ es, sd_scan := (if on then Thread_running else Thread_done)\<rparr>)"
      by (rule Ds_scans [where dirs = "wd_dirs w"]) (simp add: disk_scans_def bq_take_def 3(1) t)
    then show thesis by (rule that) (use k in \<open>auto simp: world_label_def intro!: single_rest_less\<close>)
  next
    case (4 inp r)
    then have l: "?l \<le> ?n" using p(5) by simp
    have "\<exists>s'. disk_looks env (wd_junk w (fst inp)) (wd_view w (fst inp)) s = Some ([Looks (wd_junk w (fst inp)) (wd_view w (fst inp)) inp], s')
        \<and> sd_main s' = sd_main s \<and> sd_alert_state s' = sd_alert_state s"
      using 4 by (auto simp: disk_looks_def bq_take_def Let_def split: prod.split event_result.split)
    then obtain s' where s': "disk_looks env (wd_junk w (fst inp)) (wd_view w (fst inp)) s = Some ([Looks (wd_junk w (fst inp)) (wd_view w (fst inp)) inp], s')"
      "sd_main s' = sd_main s" "sd_alert_state s' = sd_alert_state s" by blast
    from l u have "sd_event s = Thread_running" by simp
    from Ds_looks [OF this s'(1)] show thesis
      by (rule that) (use l s'(2,3) in \<open>auto simp: world_label_def intro!: single_rest_less\<close>)
  next
    case (5 inp r b)
    then have a: "?a \<le> ?n" using p(3,7) by simp
    have "\<exists>ls s'. disk_alerts env 0 b s = Some (ls, s') \<and> (\<exists>out. ls = [Alerts 0 inp out])
        \<and> sd_main s' = sd_main s \<and> sd_alert_state s' \<noteq> None"
      using 5 by (auto simp: disk_alerts_def bq_take_def Let_def split: prod.split alert_result.split)
    then obtain out s' where s': "disk_alerts env 0 b s = Some ([Alerts 0 inp out], s')"
      "sd_main s' = sd_main s" "sd_alert_state s' \<noteq> None" by blast
    from a u have "sd_alert s = Thread_running" by simp
    from Ds_alerts [OF this 5(2) s'(1)] show thesis
      by (rule that) (use a 5(2) s'(2,3) in \<open>auto simp: world_label_def intro!: single_rest_less\<close>)
  next
    case 6
    then have e: "look_ins tr = asked env w ?k ?a" "?a = ?l" "?k = length ?R + (if past_wait (sd_main s) then 1 else 0)"
      using u by (auto dest!: arg_cong [of _ _ length])
    then have l: "?l = length (asked env w ?k ?a)" by simp
    have "length (first_events env w) \<le> ?a" using l e(2,3) by (auto simp: asked_def)
    with l e(2,3) have n: "?a = ?n + (if past_wait (sd_main s) then 1 else 0)" by (auto simp: asked_def all_events_def)
    show thesis
    proof (cases "past_wait (sd_main s)")
      case True
      with u n e(2,3) have "sd_scan s = Thread_done" "sd_event s = Thread_done" "sd_alert s = Thread_done" by simp_all
      with True have "single_done s" by (simp add: single_done_def disk_joinable_def)
      with assms(4) show thesis by simp
    next
      case False
      then have w: "sd_main s = Disk_wait_scan" using m 6(4) by (cases "sd_main s") auto
      moreover have "\<not> sd_scanning s" using u n by simp
      ultimately show thesis by (intro that [OF Ds_scan_done]) (simp_all add: single_rest_def singlerun_stops_def)
    qed
  qed
qed

lemma single_reaches_done:
  assumes "dv_singlerun env" "quiet_world env w"
  shows "disk_run env sink db tr s \<Longrightarrow> list_all (world_label w) tr \<Longrightarrow> can_reach env sink db (world_label w) tr single_done"
proof (induction "single_rest env w tr s" arbitrary: tr s rule: less_induct)
  case less
  show ?case
  proof (cases "single_done s")
    case True
    with less.prems(1) show ?thesis by (rule can_reach_now)
  next
    case False
    from single_run_inv [OF less.prems(1) assms less.prems(2)] assms False obtain ls s' where
      s': "disk_step env s ls s'" "list_all (world_label w) ls" "single_rest env w (tr @ ls) s' < single_rest env w tr s"
      by (rule single_progress)
    have "can_reach env sink db (world_label w) (tr @ ls) single_done"
      by (rule less.hyps [OF s'(3) ds_step [OF less.prems(1) s'(1)]]) (use s'(2) less.prems(2) in simp)
    then show ?thesis by (rule can_reach_step [OF less.prems(1) s'(1,2)])
  qed
qed

text \<open>The output thread then drains its queue, and the main thread joins.\<close>

definition is_forward :: "disk_label \<Rightarrow> bool" where
  "is_forward l = (case l of Forwards e \<Rightarrow> True | _ \<Rightarrow> False)"

lemma forwards_ins: "list_all is_forward ls \<Longrightarrow> scan_ins ls = [] \<and> look_ins ls = [] \<and> alert_ins ls = [] \<and> list_all (world_label w) ls"
  by (induction ls) (auto simp: is_forward_def world_label_def split: disk_label.splits)

lemma joined_returns:
  assumes "dv_singlerun env" "\<forall>t \<in> set (disk_threads env). disk_joinable t s" "set ts \<subseteq> set (disk_threads env)"
  shows "disk_run env sink db tr (s\<lparr>sd_main := join_next ts\<rparr>) \<Longrightarrow> can_reach env sink db L tr (\<lambda>s. sd_main s = Disk_returned)"
  using assms(3)
proof (induction ts)
  case Nil
  show ?case by (rule can_reach_now [OF Nil(1)]) (simp add: join_next_def)
next
  case (Cons t ts)
  let ?s = "s\<lparr>sd_main := join_next (t # ts)\<rparr>"
  have "disk_joinable t s" using assms(2) Cons.prems(2) by simp
  then have "disk_joinable t ?s" using joinable_cong [of ?s s t] by simp
  from Ds_joins [OF _ this, where ts = ts and env = env] have st: "disk_step env ?s [] (s\<lparr>sd_main := join_next ts\<rparr>)"
    by (simp add: join_next_def)
  have "can_reach env sink db L tr (\<lambda>s. sd_main s = Disk_returned)"
    using Cons.IH ds_step [OF Cons.prems(1) st] Cons.prems(2) by simp
  then show ?case by (intro can_reach_step [OF Cons.prems(1) st]) simp_all
qed

lemma done_can_return:
  assumes "dv_singlerun env" "quiet_world env w" "\<forall>x st. event_send (dv_net env) (dv_ser env) x st \<noteq> None"
    and "disk_run env sink db tr s" "list_all (world_label w) tr" "single_done s"
  shows "can_reach env sink db (world_label w) tr (\<lambda>s. sd_main s = Disk_returned)"
proof (cases "sd_main s = Disk_returned")
  case True
  with assms(4) show ?thesis by (rule can_reach_now)
next
  case False
  with assms(6) obtain ts where ts: "sd_main s = Disk_join ts" by (auto simp: single_done_def past_wait_def)
  have "can_reach env sink db is_forward tr (ends Output_thread (Disk_join ts))"
    by (rule output_can_end [OF assms(3) _ assms(4) ts]) (use assms(6) in \<open>simp_all add: is_forward_def single_done_def\<close>)
  then obtain ls s' where r: "disk_run env sink db (tr @ ls) s'" "list_all is_forward ls" "ends Output_thread (Disk_join ts) s'"
    by (auto simp: can_reach_def)
  have l: "list_all (world_label w) (tr @ ls)" using forwards_ins [OF r(2)] assms(5) by simp
  from single_run_inv [OF assms(4,1,2,5)] single_run_inv [OF r(1) assms(1,2) l] forwards_ins [OF r(2)]
  have "sd_scan s' = sd_scan s" "sd_event s' = sd_event s" "sd_alert s' = sd_alert s"
    by (simp_all add: single_inv_def single_queues_def Let_def)
  with assms(6) r(3) have j: "\<forall>t \<in> set (disk_threads env). disk_joinable t s'"
    using assms(1) by (simp add: ends_def single_done_def disk_threads_def disk_joinable_def)
  have m: "sd_main s' = Disk_join ts" using r(3) by (simp add: ends_def)
  with run_joins [OF r(1)] have "ts \<noteq> []" by (simp add: joins_ok_def)
  then have e: "s'\<lparr>sd_main := join_next ts\<rparr> = s'" using m by (cases s') (simp add: join_next_def)
  from run_main_ok [OF r(1)] m have "set ts \<subseteq> set (disk_threads env)" by (auto simp: main_ok_def)
  moreover have "disk_run env sink db (tr @ ls) (s'\<lparr>sd_main := join_next ts\<rparr>)" unfolding e by (rule r(1))
  ultimately have "can_reach env sink db (world_label w) (tr @ ls) (\<lambda>s. sd_main s = Disk_returned)"
    by (rule joined_returns [OF assms(1) j])
  then obtain ls' s'' where "disk_run env sink db ((tr @ ls) @ ls') s''" "list_all (world_label w) ls'" "sd_main s'' = Disk_returned"
    by (auto simp: can_reach_def)
  with l show ?thesis unfolding can_reach_def by (intro exI [of _ "ls @ ls'"]) auto
qed

lemma single_can_return:
  assumes "dv_singlerun env" "quiet_world env w" "datagram_net (dv_net env)" "refusals_end (dv_net env)"
    and "disk_run env sink db tr s" "list_all (world_label w) tr"
  obtains ls s' where "disk_run env sink db (tr @ ls) s'" "list_all (world_label w) (tr @ ls)" "sd_main s' = Disk_returned"
proof -
  obtain ls1 s1 where 1: "disk_run env sink db (tr @ ls1) s1" "list_all (world_label w) (tr @ ls1)" "single_done s1"
    using single_reaches_done [OF assms(1,2,5,6)] assms(6) by (auto simp: can_reach_def)
  obtain ls2 s2 where "disk_run env sink db ((tr @ ls1) @ ls2) s2" "list_all (world_label w) ls2" "sd_main s2 = Disk_returned"
    using done_can_return [OF assms(1,2) _ 1] event_send_returns [OF assms(3,4)] by (auto simp: can_reach_def)
  with 1(2) show thesis by (intro that [of "ls1 @ ls2" s2]) simp_all
qed

text \<open>
  C19: A single run in a quiet world can return. The world is quiet: the file system and what the memory of each object holds stay
  as they are, the database opens, no watch asks for diffs, the lookups of owners do not fail, and the objects can
  be stored (\<open>quiet_world\<close>, \<open>world_label\<close>). Then, whatever the threads have done so far, the
  run can go on, with answers of the same world, until \<open>daemon()\<close> returned, provided that the system does not go on
  forever refusing the datagrams of a socket whose connections it accepts.
\<close>

theorem singlerun_can_return:
  assumes "dv_singlerun env" and "quiet_world env w" and "datagram_net (dv_net env)" and "refusals_end (dv_net env)"
    and "disk_run env sink db tr s" and "list_all (world_label w) tr"
  shows "\<exists>ls s'. disk_run env sink db (tr @ ls) s' \<and> list_all (world_label w) (tr @ ls) \<and> sd_main s' = Disk_returned"
  by (rule single_can_return [OF assms]) blast

text \<open>A watched directory with a new file in it, and an entry of the database for a file that is gone.\<close>

definition tree_env :: disk_env where
  "tree_env =
     demo_daemon_env\<lparr>dv_singlerun := True,
       dv_cfg := default_diskscan_config\<lparr>dc_watches := [demo_watch], dc_max_diff_size := 0\<rparr>\<rparr>"

definition tree_world :: disk_world where
  "tree_world = \<lparr>wd_dirs = demo_dirs, wd_view = demo_views, wd_junk = (\<lambda>p. replicate 65 CHR ''j''), wd_table = demo_table\<rparr>"

lemma tree_objects:
  "world_objects tree_env tree_world = disk_object demo_digest 0 (replicate 65 CHR ''j'') demo_views"
  by (rule ext) (simp add: world_objects_def tree_env_def tree_world_def demo_daemon_env_def)

lemma tree_quiet: "dv_singlerun tree_env" "quiet_world tree_env tree_world"
    "datagram_net (dv_net tree_env)" "refusals_end (dv_net tree_env)"
proof -
  show "quiet_world tree_env tree_world"
    using demo_views_world demo_scan_start(1,2)
    unfolding quiet_world_def tree_objects by (simp add: tree_env_def tree_world_def demo_watch_def demo_table_def)
qed (simp_all add: tree_env_def demo_daemon_env_def)

theorem singlerun_can_return_witness:
  "\<exists>tr s. disk_run tree_env demo_sink (\<lambda>_. None) tr s \<and> sd_main s = Disk_returned"
  using singlerun_can_return [OF tree_quiet ds_start [of tree_env demo_sink "\<lambda>_. None"]] by auto

subsection \<open>What it has done when it returns\<close>

text \<open>
  C9: A single run brings the database in line. In every interleaving of the threads, in a quiet world (\<open>quiet_world\<close>,
  \<open>world_label\<close>): the file system and what the memory of each object holds stay as they are, the database opens, no watch asks
  for diffs or has an empty path, the lookups of owners and groups do not fail, the objects can be stored, a digest that was
  never initialised being without zero bytes. When the daemon returns,
  nothing failed, the database has exactly the rows of the objects below the watched directories and of the
  others it had before that still exist, in line with the objects, and the output thread was handed one
  report for every difference to the database before, and none else.
\<close>

theorem singlerun_syncs:
  assumes "disk_run env sink db tr s" and "dv_singlerun env" and "quiet_world env w" and "list_all (world_label w) tr"
    and "sd_main s = Disk_returned"
  shows "sd_errors s = [] \<and> (\<exists>al es. sd_alert_state s = Some al \<and> forwarded tr = es @ [se_kill]
     \<and> (\<forall>p. let found = (\<exists>x \<in> set (dc_watches (dv_cfg env)). below (wd_dirs w) (w_recursive x) (w_path x) p) in
          map_of (al_db al) p = synced_row found (world_objects env w p) (map_of (wd_table w) p)
          \<and> reports p es = map (sent_text (alert_env env))
              (due_reports (alert_env env) found (world_objects env w p) (map_of (wd_table w) p))))"
proof -
  let ?n = "length (all_events env w)" and ?a = "length (alert_ins tr)"
  have i: "single_inv env w tr s" by (rule single_run_inv [OF assms(1-4)])
  then have q: "single_queues env w tr s" and al: "single_alert env w tr s" and ok: "sd_errors s = []" by (simp_all add: single_inv_def)
  from run_main_ok [OF assms(1)] assms(2,5) have j: "sd_alert s \<noteq> Thread_running" "sd_output s \<noteq> Thread_running"
    by (simp_all add: main_ok_def disk_threads_def disk_joinable_def)
  have a: "?n < ?a" using q j(1) by (auto simp: single_queues_def Let_def split: if_splits)
  with al have ne: "alert_ins tr \<noteq> []" by auto
  with al obtain st out where st: "sd_alert_state s = Some st"
    "alert_run (alert_env env) (take ?n (alert_ins tr)) (alert_start (wd_table w)) = (out, Alert_continues st)"
    "raised tr = ao_alerts out @ [se_kill]"
    using a by (auto simp: single_alert_def split: option.splits)
  from run_out_books [OF assms(1)] have b: "out_books tr s" by simp
  from b j obtain es where es: "forwarded tr = es @ [se_kill]" "filter (\<lambda>e. \<not> se_is_kill e) (raised tr) = es" "\<forall>e \<in> set es. \<not> se_is_kill e"
    by (rule returned_forwarded)
  have e: "es = ao_alerts out"
  proof -
    from b st(1) j(1) obtain ds where "ao_alerts out @ [se_kill] = ds @ [se_kill]" "\<forall>e \<in> set ds. \<not> se_is_kill e"
      unfolding out_books_def closing_def st(3) by auto
    then show ?thesis using es(2) st(3) by (simp add: filter_id_conv)
  qed
  have m: "map snd (take ?n (alert_ins tr)) = scan_inputs (world_objects env w) (take ?n (first_events env w @ second_events env w))"
    unfolding take_map [symmetric] single_positions(6) [OF q] using a by (simp add: all_events_def min_def)
  obtain out' al' where "alert_run (alert_env env) (take ?n (alert_ins tr)) (alert_start (wd_table w)) = (out', Alert_continues al')"
    "length (first_events env w @ second_events env w) \<le> ?n \<Longrightarrow> synced env w al' (ao_alerts out')"
    by (rule world_run [OF assms(3) m]) blast
  then have "synced env w st es" using st(2) e by (simp add: all_events_def)
  with ok st(1) es(1) show ?thesis unfolding synced_def by blast
qed

theorem singlerun_syncs_witness:
  "\<exists>tr s al. disk_run tree_env demo_sink (\<lambda>_. None) tr s \<and> sd_main s = Disk_returned \<and> sd_alert_state s = Some al
     \<and> map_of (wd_table tree_world) ''/d/f'' = None \<and> map_of (al_db al) ''/d/f'' \<noteq> None
     \<and> map_of (wd_table tree_world) ''/a'' \<noteq> None \<and> map_of (al_db al) ''/a'' = None"
proof -
  have n: "list_all (world_label tree_world) []" by simp
  obtain tr s where r: "disk_run tree_env demo_sink (\<lambda>_. None) ([] @ tr) s" "list_all (world_label tree_world) ([] @ tr)"
    "sd_main s = Disk_returned"
    by (rule single_can_return [OF tree_quiet ds_start n])
  from singlerun_syncs [OF r(1) tree_quiet(1,2) r(2,3)] obtain al where al: "sd_alert_state s = Some al"
    and m: "\<forall>p. map_of (al_db al) p = synced_row (\<exists>x \<in> set (dc_watches (dv_cfg tree_env)). below (wd_dirs tree_world) (w_recursive x) (w_path x) p)
        (world_objects tree_env tree_world p) (map_of (wd_table tree_world) p)"
    unfolding Let_def by blast
  have t: "dc_watches (dv_cfg tree_env) = [demo_watch]" "wd_dirs tree_world = demo_dirs" by (simp_all add: tree_env_def tree_world_def)
  have "below demo_dirs True ''/d'' (''/d'' @ CHR ''/'' # ''f'')"
    by (rule child [where is_dir = False]) (auto simp: open_dir_def path_max_def is_dots_def demo_dirs_def)
  then have b: "\<exists>x \<in> set (dc_watches (dv_cfg tree_env)). below (wd_dirs tree_world) (w_recursive x) (w_path x) ''/d/f''"
    by (simp add: t demo_watch_def)
  have e: "fd_exists (world_objects tree_env tree_world ''/d/f'')" "\<not> fd_exists (world_objects tree_env tree_world ''/a'')"
    unfolding tree_objects
    by (simp_all add: disk_object_def construct_def demo_views_def missing_view_def demo_view_def deleted_object_def
        new_file_data_def mode_file_type_def format_defs check_file_def Let_def)
  have o: "map_of (wd_table tree_world) ''/d/f'' = None" "map_of (wd_table tree_world) ''/a'' \<noteq> None"
    by (simp_all add: tree_world_def demo_table_def)
  from o b e m have "map_of (al_db al) ''/d/f'' \<noteq> None" "map_of (al_db al) ''/a'' = None" by (auto simp: synced_row_def)
  with r al o show ?thesis by auto
qed

subsection \<open>What was raised is put out\<close>

text \<open>
  C16: No alert is lost on its way out. When the daemon has returned, whatever the interleaving and whatever failed,
  every alert the alerting thread raised was put out by the sink, once, or waits in the output thread's local
  queue because the sink refused it.
\<close>

theorem disk_alerts_delivered:
  assumes "datagram_net (dv_net env)" and "cereal_ok (dv_ser env)"
    and "disk_run env sink db tr s" and "sd_main s = Disk_returned"
  shows "\<exists>sent ys. sink_out (sd_sink s) = sink_out sink @ ys \<and> list_all2 (carries_event (dv_ser env)) ys sent
     \<and> mset sent + mset (rt_local (sd_local s)) = mset (filter (\<lambda>e. \<not> se_is_kill e) (raised tr))"
proof -
  note rel = event_send_reliable [OF assms(1,2)]
  from run_out_books [OF assms(3)] have b: "out_books tr s" "sink_books env sink tr s" by auto
  from run_main_ok [OF assms(3)] assms(4) have "sd_alert s \<noteq> Thread_running" "sd_output s \<noteq> Thread_running"
    by (auto simp: main_ok_def disk_threads_def disk_joinable_def split: if_splits)
  from b(1) this obtain es where e: "forwarded tr = es @ [se_kill]" "\<forall>e \<in> set es. \<not> se_is_kill e"
    "filter (\<lambda>e. \<not> se_is_kill e) (raised tr) = es" by (rule returned_forwarded)
  have "accepted se_is_kill (\<lambda>se. se) (out_inputs tr) = es" using e by (simp add: accepted_forwarded)
  with reliable_sink.resend_run_accounts [OF rel b(2) [unfolded sink_books_def]] e(3) show ?thesis
    by (auto simp: resend_init_def reliable_sink.put_out_def [OF rel])
qed

theorem disk_alerts_delivered_witness:
  "\<exists>tr s sent ys. disk_run tree_env demo_sink (\<lambda>_. None) tr s \<and> sd_main s = Disk_returned
     \<and> sink_out (sd_sink s) = sink_out demo_sink @ ys \<and> list_all2 (carries_event (dv_ser tree_env)) ys sent
     \<and> mset sent + mset (rt_local (sd_local s)) = mset (filter (\<lambda>e. \<not> se_is_kill e) (raised tr))"
proof -
  have n: "list_all (world_label tree_world) []" by simp
  obtain tr s where r: "disk_run tree_env demo_sink (\<lambda>_. None) ([] @ tr) s" "sd_main s = Disk_returned"
    by (rule single_can_return [OF tree_quiet ds_start n])
  have "datagram_net (dv_net tree_env)" "cereal_ok (dv_ser tree_env)"
    using ready_datagram by (simp_all add: tree_env_def demo_daemon_env_def cereal_ok_def)
  from disk_alerts_delivered [OF this r] r show ?thesis by auto
qed

end
