(* ===== verification/Diskscan_Types.thy ===== *)
theory Diskscan_Types
  imports Diskscan_Single_Return
begin

text \<open>
  The types of the columns of the database of ctguard-diskscan: the integers it stores for modes, inodes and
  file types are read back with casts, which no check of the C++ types covers. In every run of the daemon the
  rows hold values of these types, when the table it opened did.
\<close>

definition row_typed :: "row \<Rightarrow> bool" where
  "row_typed r =
     ((\<exists>t. dr_type r = type_code t) \<and> uint (dr_mode r) < 2147483647 \<and> uint (dr_inode r) < 9223372036854775807
      \<and> length (dr_sha256 r) \<le> 64 \<and> CHR 0x00 \<notin> set (dr_sha256 r)
      \<and> length (dr_user r) < 2147483647 \<and> length (dr_group r) < 2147483647 \<and> length (dr_target r) < 2147483647)"

definition table_typed :: "table \<Rightarrow> bool" where
  "table_typed t = (\<forall>x \<in> set t. row_typed (snd x))"

lemma table_typed_simps [simp]:
  "table_typed []" "table_typed (x # t) = (row_typed (snd x) \<and> table_typed t)" "table_typed (t @ u) = (table_typed t \<and> table_typed u)"
  by (auto simp: table_typed_def)

lemma row_typed_scanned [simp]: "row_typed (r\<lparr>dr_scanned := b\<rparr>) = row_typed r"
  by (simp add: row_typed_def)

lemma table_typed_update:
  "table_typed t \<Longrightarrow> (\<And>r. row_typed r \<Longrightarrow> row_typed (f r)) \<Longrightarrow> table_typed (db_update name f t)"
  by (auto simp: table_typed_def db_update_def split: if_splits)

lemma table_typed_ops [simp]:
  "table_typed t \<Longrightarrow> table_typed (db_delete name t)" "table_typed t \<Longrightarrow> table_typed (mark_scanned name t)"
  "table_typed t \<Longrightarrow> table_typed (mark_all_unscanned t)" "table_typed t \<Longrightarrow> table_typed (fold mark_scanned ps t)"
proof -
  show m: "table_typed t \<Longrightarrow> table_typed (mark_scanned name t)" for t name
    unfolding mark_scanned_def by (rule table_typed_update) auto
  then show "table_typed t \<Longrightarrow> table_typed (fold mark_scanned ps t)" by (induction ps arbitrary: t) auto
qed (auto simp: table_typed_def db_delete_def mark_all_unscanned_def)













end
