(* ===== verification/Sha256.thy ===== *)
theory Sha256
  imports Ctguard_Prelude "HOL-Library.Word"
begin

unbundle bit_operations_syntax

text \<open>
  src/src/external/sha2/sha2.c: the SHA-256 functions, which ctguard-diskscan uses for the digests of the files
  (\<open>SHA256_Init\<close>, \<open>SHA256_Update\<close>, \<open>SHA256_Final\<close>, \<open>SHA256_End\<close>, \<open>SHA256_Data\<close>), as they are compiled on a
  little-endian machine without \<open>SHA2_UNROLL_TRANSFORM\<close>. The buffer of the context is kept as bytes; the casts to
  \<open>sha2_word32 *\<close> and \<open>sha2_word64 *\<close> are \<open>load_words\<close> and \<open>store_word\<close>. The null pointers the functions check
  for, and the clean-up of dead local variables, are left out.
\<close>

type_synonym sha2_byte = "8 word"
type_synonym sha2_word32 = "32 word"
type_synonym sha2_word64 = "64 word"

definition SHA256_BLOCK_LENGTH :: nat where "SHA256_BLOCK_LENGTH = 64"
definition SHA256_SHORT_BLOCK_LENGTH :: nat where "SHA256_SHORT_BLOCK_LENGTH = 56"

subsection \<open>Words in memory\<close>

text \<open>The least significant byte is stored first.\<close>

fun load_word :: "sha2_byte list \<Rightarrow> 'w::len word" where
  "load_word [] = 0"
| "load_word (b # bs) = ucast b OR push_bit 8 (load_word bs)"

definition store_word :: "nat \<Rightarrow> 'w::len word \<Rightarrow> sha2_byte list" where
  "store_word n w = map (\<lambda>i. ucast (drop_bit (8 * i) w)) [0..<n]"

definition load_words :: "nat \<Rightarrow> sha2_byte list \<Rightarrow> sha2_word32 list" where
  "load_words n bs = map (\<lambda>i. load_word (take 4 (drop (4 * i) bs))) [0..<n]"

definition REVERSE32 :: "sha2_word32 \<Rightarrow> sha2_word32" where
  "REVERSE32 w =
     (let tmp = drop_bit 16 w OR push_bit 16 w in
      drop_bit 8 (tmp AND 0xff00ff00) OR push_bit 8 (tmp AND 0x00ff00ff))"

definition REVERSE64 :: "sha2_word64 \<Rightarrow> sha2_word64" where
  "REVERSE64 w =
     (let tmp = drop_bit 32 w OR push_bit 32 w;
          tmp = drop_bit 8 (tmp AND 0xff00ff00ff00ff00) OR push_bit 8 (tmp AND 0x00ff00ff00ff00ff)
      in drop_bit 16 (tmp AND 0xffff0000ffff0000) OR push_bit 16 (tmp AND 0x0000ffff0000ffff))"

text \<open>\<open>memcpy\<close> of \<open>xs\<close> and \<open>memset\<close> of zeros to the buffer from index \<open>i\<close> on.\<close>

definition put_bytes :: "nat \<Rightarrow> sha2_byte list \<Rightarrow> sha2_byte list \<Rightarrow> sha2_byte list" where
  "put_bytes i xs buf = take i buf @ xs @ drop (i + length xs) buf"

definition zero_bytes :: "nat \<Rightarrow> nat \<Rightarrow> sha2_byte list \<Rightarrow> sha2_byte list" where
  "zero_bytes i n buf = put_bytes i (replicate n 0) buf"

subsection \<open>The compression function\<close>

definition S32 :: "nat \<Rightarrow> sha2_word32 \<Rightarrow> sha2_word32" where
  "S32 b x = drop_bit b x OR push_bit (32 - b) x"

definition Ch :: "sha2_word32 \<Rightarrow> sha2_word32 \<Rightarrow> sha2_word32 \<Rightarrow> sha2_word32" where
  "Ch x y z = (x AND y) XOR (NOT x AND z)"

definition Maj :: "sha2_word32 \<Rightarrow> sha2_word32 \<Rightarrow> sha2_word32 \<Rightarrow> sha2_word32" where
  "Maj x y z = (x AND y) XOR (x AND z) XOR (y AND z)"

definition Sigma0_256 :: "sha2_word32 \<Rightarrow> sha2_word32" where
  "Sigma0_256 x = S32 2 x XOR S32 13 x XOR S32 22 x"

definition Sigma1_256 :: "sha2_word32 \<Rightarrow> sha2_word32" where
  "Sigma1_256 x = S32 6 x XOR S32 11 x XOR S32 25 x"

definition sigma0_256 :: "sha2_word32 \<Rightarrow> sha2_word32" where
  "sigma0_256 x = S32 7 x XOR S32 18 x XOR drop_bit 3 x"

definition sigma1_256 :: "sha2_word32 \<Rightarrow> sha2_word32" where
  "sigma1_256 x = S32 17 x XOR S32 19 x XOR drop_bit 10 x"

text \<open>In rows of four, as in the source.\<close>

definition K256 :: "sha2_word32 list" where
  "K256 = concat
    [[0x428a2f98, 0x71374491, 0xb5c0fbcf, 0xe9b5dba5], [0x3956c25b, 0x59f111f1, 0x923f82a4, 0xab1c5ed5],
     [0xd807aa98, 0x12835b01, 0x243185be, 0x550c7dc3], [0x72be5d74, 0x80deb1fe, 0x9bdc06a7, 0xc19bf174],
     [0xe49b69c1, 0xefbe4786, 0x0fc19dc6, 0x240ca1cc], [0x2de92c6f, 0x4a7484aa, 0x5cb0a9dc, 0x76f988da],
     [0x983e5152, 0xa831c66d, 0xb00327c8, 0xbf597fc7], [0xc6e00bf3, 0xd5a79147, 0x06ca6351, 0x14292967],
     [0x27b70a85, 0x2e1b2138, 0x4d2c6dfc, 0x53380d13], [0x650a7354, 0x766a0abb, 0x81c2c92e, 0x92722c85],
     [0xa2bfe8a1, 0xa81a664b, 0xc24b8b70, 0xc76c51a3], [0xd192e819, 0xd6990624, 0xf40e3585, 0x106aa070],
     [0x19a4c116, 0x1e376c08, 0x2748774c, 0x34b0bcb5], [0x391c0cb3, 0x4ed8aa4a, 0x5b9cca4f, 0x682e6ff3],
     [0x748f82ee, 0x78a5636f, 0x84c87814, 0x8cc70208], [0x90befffa, 0xa4506ceb, 0xbef9a3f7, 0xc67178f2]]"

definition sha256_initial_hash_value :: "sha2_word32 list" where
  "sha256_initial_hash_value =
    [0x6a09e667, 0xbb67ae85, 0x3c6ef372, 0xa54ff53a,
     0x510e527f, 0x9b05688c, 0x1f83d9ab, 0x5be0cd19]"

record sha256_ctx =
  sc_state :: "sha2_word32 list"
  sc_bitcount :: sha2_word64
  sc_buffer :: "sha2_byte list"

text \<open>The variables \<open>a\<close> to \<open>h\<close>.\<close>

record registers =
  reg_a :: sha2_word32
  reg_b :: sha2_word32
  reg_c :: sha2_word32
  reg_d :: sha2_word32
  reg_e :: sha2_word32
  reg_f :: sha2_word32
  reg_g :: sha2_word32
  reg_h :: sha2_word32

definition load_registers :: "sha2_word32 list \<Rightarrow> registers" where
  "load_registers st =
     \<lparr>reg_a = st ! 0, reg_b = st ! 1, reg_c = st ! 2, reg_d = st ! 3, reg_e = st ! 4, reg_f = st ! 5, reg_g = st ! 6, reg_h = st ! 7\<rparr>"

definition add_registers :: "sha2_word32 list \<Rightarrow> registers \<Rightarrow> sha2_word32 list" where
  "add_registers st r =
     [st ! 0 + reg_a r, st ! 1 + reg_b r, st ! 2 + reg_c r, st ! 3 + reg_d r,
      st ! 4 + reg_e r, st ! 5 + reg_f r, st ! 6 + reg_g r, st ! 7 + reg_h r]"

definition apply_round :: "sha2_word32 \<Rightarrow> sha2_word32 \<Rightarrow> registers \<Rightarrow> registers" where
  "apply_round k w r =
     (let T1 = reg_h r + Sigma1_256 (reg_e r) + Ch (reg_e r) (reg_f r) (reg_g r) + k + w;
          T2 = Sigma0_256 (reg_a r) + Maj (reg_a r) (reg_b r) (reg_c r)
      in \<lparr>reg_a = T1 + T2, reg_b = reg_a r, reg_c = reg_b r, reg_d = reg_c r,
          reg_e = reg_d r + T1, reg_f = reg_e r, reg_g = reg_f r, reg_h = reg_g r\<rparr>)"

text \<open>
  The first loop. The words are read from \<open>data\<close>, or, when the function is called with the buffer itself (None), from the
  words \<open>W256\<close> the loop is overwriting.
\<close>

definition load_round :: "sha2_word32 list option \<Rightarrow> nat \<Rightarrow> sha2_word32 list \<times> registers \<Rightarrow> sha2_word32 list \<times> registers" where
  "load_round data j s =
     (case s of (W256, r) \<Rightarrow>
       (let x = REVERSE32 (case data of None \<Rightarrow> W256 ! j | Some d \<Rightarrow> d ! j);
            W256 = W256[j := x]
        in (W256, apply_round (K256 ! j) (W256 ! j) r)))"

text \<open>The second loop, on the 16 words as a ring.\<close>

definition mix_round :: "nat \<Rightarrow> sha2_word32 list \<times> registers \<Rightarrow> sha2_word32 list \<times> registers" where
  "mix_round j s =
     (case s of (W256, r) \<Rightarrow>
       (let s0 = sigma0_256 (W256 ! ((j + 1) mod 16));
            s1 = sigma1_256 (W256 ! ((j + 14) mod 16));
            x = W256 ! (j mod 16) + (s1 + W256 ! ((j + 9) mod 16) + s0)
        in (W256[j mod 16 := x], apply_round (K256 ! j) x r)))"

definition SHA256_Transform :: "sha2_word32 list option \<Rightarrow> sha256_ctx \<Rightarrow> sha256_ctx" where
  "SHA256_Transform data context =
     (let s = (load_words 16 (sc_buffer context), load_registers (sc_state context));
          s = fold (load_round data) [0..<16] s;
          (W256, r) = fold mix_round [16..<64] s
      in context\<lparr>sc_state := add_registers (sc_state context) r, sc_buffer := concat (map (store_word 4) W256)\<rparr>)"

subsection \<open>The interface\<close>

definition SHA256_Init :: sha256_ctx where
  "SHA256_Init = \<lparr>sc_state = sha256_initial_hash_value, sc_bitcount = 0, sc_buffer = replicate SHA256_BLOCK_LENGTH 0\<rparr>"

definition used_space :: "sha256_ctx \<Rightarrow> nat" where
  "used_space context = unat (drop_bit 3 (sc_bitcount context)) mod SHA256_BLOCK_LENGTH"

text \<open>The loop over the complete blocks and the left-overs.\<close>

function update_blocks :: "sha2_byte list \<Rightarrow> sha256_ctx \<Rightarrow> sha256_ctx" where
  "update_blocks data context =
     (if SHA256_BLOCK_LENGTH \<le> length data then
        (let context = SHA256_Transform (Some (load_words 16 data)) context in
         update_blocks (drop SHA256_BLOCK_LENGTH data)
           (context\<lparr>sc_bitcount := sc_bitcount context + push_bit 3 (of_nat SHA256_BLOCK_LENGTH)\<rparr>))
      else if data \<noteq> [] then
        context\<lparr>sc_buffer := put_bytes 0 data (sc_buffer context), sc_bitcount := sc_bitcount context + push_bit 3 (of_nat (length data))\<rparr>
      else context)"
  by pat_completeness auto
termination by (relation "measure (\<lambda>(data, _). length data)") (auto simp: SHA256_BLOCK_LENGTH_def)

definition SHA256_Update :: "sha2_byte list \<Rightarrow> sha256_ctx \<Rightarrow> sha256_ctx" where
  "SHA256_Update data context =
     (if data = [] then context
      else
        (let usedspace = used_space context in
         if 0 < usedspace then
           (let freespace = SHA256_BLOCK_LENGTH - usedspace in
            if freespace \<le> length data then
              (let context = context\<lparr>sc_buffer := put_bytes usedspace (take freespace data) (sc_buffer context),
                     sc_bitcount := sc_bitcount context + push_bit 3 (of_nat freespace)\<rparr>
               in update_blocks (drop freespace data) (SHA256_Transform None context))
            else
              context\<lparr>sc_buffer := put_bytes usedspace data (sc_buffer context),
                sc_bitcount := sc_bitcount context + push_bit 3 (of_nat (length data))\<rparr>)
         else update_blocks data context))"

text \<open>The padding, before the bit count is appended: a 1 bit, and zeros up to the last 8 bytes of a block.\<close>

definition pad_buffer :: "nat \<Rightarrow> sha256_ctx \<Rightarrow> sha256_ctx" where
  "pad_buffer usedspace context =
     (if 0 < usedspace then
        (let context = context\<lparr>sc_buffer := (sc_buffer context)[usedspace := 0x80]\<rparr>;
             usedspace = usedspace + 1
         in
         if usedspace \<le> SHA256_SHORT_BLOCK_LENGTH then
           context\<lparr>sc_buffer := zero_bytes usedspace (SHA256_SHORT_BLOCK_LENGTH - usedspace) (sc_buffer context)\<rparr>
         else
           (let context = (if usedspace < SHA256_BLOCK_LENGTH
                  then context\<lparr>sc_buffer := zero_bytes usedspace (SHA256_BLOCK_LENGTH - usedspace) (sc_buffer context)\<rparr>
                  else context);
                context = SHA256_Transform None context
            in context\<lparr>sc_buffer := zero_bytes 0 SHA256_SHORT_BLOCK_LENGTH (sc_buffer context)\<rparr>))
      else
        (let context = context\<lparr>sc_buffer := zero_bytes 0 SHA256_SHORT_BLOCK_LENGTH (sc_buffer context)\<rparr>
         in context\<lparr>sc_buffer := (sc_buffer context)[0 := 0x80]\<rparr>))"

definition zero_ctx :: sha256_ctx where
  "zero_ctx = \<lparr>sc_state = replicate 8 0, sc_bitcount = 0, sc_buffer = replicate SHA256_BLOCK_LENGTH 0\<rparr>"

text \<open>The digest of 32 bytes, and the context set to zero.\<close>

definition SHA256_Final :: "sha256_ctx \<Rightarrow> sha2_byte list \<times> sha256_ctx" where
  "SHA256_Final context =
     (let usedspace = used_space context;
          context = context\<lparr>sc_bitcount := REVERSE64 (sc_bitcount context)\<rparr>;
          context = pad_buffer usedspace context;
          context = context\<lparr>sc_buffer :=
            put_bytes SHA256_SHORT_BLOCK_LENGTH (store_word 8 (sc_bitcount context)) (sc_buffer context)\<rparr>;
          context = SHA256_Transform None context
      in (concat (map (\<lambda>w. store_word 4 (REVERSE32 w)) (sc_state context)), zero_ctx))"

definition sha2_hex_digits :: string where "sha2_hex_digits = ''0123456789abcdef''"

text \<open>The text of 64 digits and a zero.\<close>

definition SHA256_End :: "sha256_ctx \<Rightarrow> string \<times> sha256_ctx" where
  "SHA256_End context =
     (case SHA256_Final context of
        (digest, context) \<Rightarrow>
          (concat (map (\<lambda>d. [sha2_hex_digits ! unat (drop_bit 4 (d AND 0xf0)), sha2_hex_digits ! unat (d AND 0x0f)]) digest)
             @ [CHR 0x00], context))"

definition SHA256_Data :: "sha2_byte list \<Rightarrow> string" where
  "SHA256_Data data = fst (SHA256_End (SHA256_Update data SHA256_Init))"

end
