(* ===== verification/Sha256_Facts.thy ===== *)
theory Sha256_Facts
  imports Sha256
begin

unbundle bit_operations_syntax

text \<open>
  The SHA-256 functions against the standard. The specification (padding, blocks, message schedule, compression) follows
  FIPS 180-4 on the bytes of the whole message; the code keeps a context to which the message is given in pieces
  of any length, and the ring of 16 words in place of the schedule of 64. Both use the six logical functions, the
  constants and the round of \<open>Sha256\<close>.
\<close>

section \<open>The standard\<close>

text \<open>The most significant byte comes first.\<close>

definition be_word :: "sha2_byte list \<Rightarrow> sha2_word32" where
  "be_word bs = load_word (rev bs)"

definition be_bytes :: "nat \<Rightarrow> 'w::len word \<Rightarrow> sha2_byte list" where
  "be_bytes n w = rev (store_word n w)"

definition padded :: "sha2_byte list \<Rightarrow> sha2_byte list" where
  "padded m = m @ [0x80] @ replicate ((119 - length m mod 64) mod 64) 0 @ be_bytes 8 (of_nat (8 * length m) :: sha2_word64)"

definition sha_blocks :: "sha2_byte list \<Rightarrow> sha2_byte list list" where
  "sha_blocks m = map (\<lambda>i. take 64 (drop (64 * i) m)) [0..<length m div 64]"

fun schedule :: "sha2_byte list \<Rightarrow> nat \<Rightarrow> sha2_word32" where
  "schedule b t =
     (if t < 16 then be_word (take 4 (drop (4 * t) b))
      else sigma1_256 (schedule b (t - 2)) + schedule b (t - 7) + sigma0_256 (schedule b (t - 15)) + schedule b (t - 16))"

declare schedule.simps [simp del]

definition compress :: "sha2_word32 list \<Rightarrow> sha2_byte list \<Rightarrow> sha2_word32 list" where
  "compress st b = add_registers st (fold (\<lambda>t. apply_round (K256 ! t) (schedule b t)) [0..<64] (load_registers st))"

definition hash_state :: "sha2_byte list \<Rightarrow> sha2_word32 list" where
  "hash_state m = foldl compress sha256_initial_hash_value (sha_blocks m)"

definition sha256 :: "sha2_byte list \<Rightarrow> sha2_byte list" where
  "sha256 m = concat (map (be_bytes 4) (hash_state (padded m)))"

definition hex_text :: "sha2_byte list \<Rightarrow> string" where
  "hex_text bs = concat (map (\<lambda>b. [sha2_hex_digits ! (unat b div 16), sha2_hex_digits ! (unat b mod 16)]) bs)"

section \<open>Bytes and words\<close>

lemma length_store_word [simp]: "length (store_word n w) = n"
  by (simp add: store_word_def)

lemma length_load_words [simp]: "length (load_words n bs) = n"
  by (simp add: load_words_def)

lemma length_put_bytes [simp]: "i + length xs \<le> length buf \<Longrightarrow> length (put_bytes i xs buf) = length buf"
  by (simp add: put_bytes_def)

lemma bit_load_word:
  "bit (load_word bs :: 'w::len word) n \<longleftrightarrow> n < LENGTH('w) \<and> n div 8 < length bs \<and> bit (bs ! (n div 8)) (n mod 8)"
proof (induction bs arbitrary: n)
  case (Cons b bs)
  show ?case
  proof (cases "n < 8")
    case True
    then show ?thesis by (auto simp: bit_or_iff bit_push_bit_iff bit_ucast_iff)
  next
    case False
    then have "n div 8 = Suc ((n - 8) div 8)" "n mod 8 = (n - 8) mod 8"
      by (simp_all add: le_div_geq le_mod_geq)
    moreover have "\<not> bit b n" using False bit_imp_le_length [of b n] by auto
    ultimately show ?thesis using False Cons.IH [of "n - 8"] by (auto simp: bit_or_iff bit_push_bit_iff bit_ucast_iff)
  qed
qed simp

text \<open>The macros swap neighbouring groups of \<open>g\<close> bits.\<close>

lemma bit_swap:
  assumes "0 < g" "n < LENGTH('w::len)" "LENGTH('w) = 2 * (g * k)"
    and "\<And>i. bit lo i \<longleftrightarrow> i < LENGTH('w) \<and> even (i div g)" "\<And>i. bit hi i \<longleftrightarrow> i < LENGTH('w) \<and> odd (i div g)"
  shows "bit (drop_bit g (x AND hi) OR push_bit g (x AND lo) :: 'w word) n \<longleftrightarrow>
    (if even (n div g) then bit x (n + g) else bit x (n - g))"
proof -
  have e: "bit (drop_bit g (x AND hi) OR push_bit g (x AND lo)) n \<longleftrightarrow>
      bit x (g + n) \<and> bit hi (g + n) \<or> g \<le> n \<and> bit x (n - g) \<and> bit lo (n - g)"
    using assms(2) by (auto simp: bit_or_iff bit_drop_bit_eq bit_push_bit_iff bit_and_iff)
  have up: "(g + n) div g = Suc (n div g)" using assms(1) div_add_self1 [of g n] by simp
  show ?thesis
  proof (cases "even (n div g)")
    case True
    have "n div g < 2 * k" using assms(1-3) by (simp add: div_less_iff_less_mult ac_simps)
    with True obtain d where "n div g = 2 * d" "d < k" by (auto elim: evenE)
    then have "(g + n) div g < 2 * k" using up by simp
    then have "g + n < LENGTH('w)" using assms(1,3) by (simp add: div_less_iff_less_mult ac_simps)
    moreover have "odd ((n - g) div g)" if "g \<le> n" using True assms(1) that by (simp add: le_div_geq)
    ultimately show ?thesis unfolding e assms(4) assms(5) up using True by (auto simp: add.commute)
  next
    case False
    then have "g \<le> n" using assms(1) by (cases "n < g") auto
    moreover from this have "even ((n - g) div g)" using False assms(1) by (simp add: le_div_geq)
    ultimately show ?thesis unfolding e assms(4) assms(5) up using False assms(2) by auto
  qed
qed

lemma no_bit_32: "32 \<le> n \<Longrightarrow> \<not> bit (w :: 32 word) n"
  using bit_imp_le_length by fastforce

lemma no_bit_64: "64 \<le> n \<Longrightarrow> \<not> bit (w :: 64 word) n"
  using bit_imp_le_length by fastforce

lemma all_below_Suc: "(\<forall>i < Suc n. P i) \<longleftrightarrow> P n \<and> (\<forall>i < n. P i)"
  using less_Suc_eq by auto

lemma mask_bits_32:
  "bit (0x00ff00ff :: 32 word) n \<longleftrightarrow> n < 32 \<and> even (n div 8)" "bit (0xff00ff00 :: 32 word) n \<longleftrightarrow> n < 32 \<and> odd (n div 8)"
proof -
  have "\<forall>i < 32. bit (0x00ff00ff :: 32 word) i = even (i div 8) \<and> bit (0xff00ff00 :: 32 word) i = odd (i div 8)" by code_simp
  then show "bit (0x00ff00ff :: 32 word) n \<longleftrightarrow> n < 32 \<and> even (n div 8)" "bit (0xff00ff00 :: 32 word) n \<longleftrightarrow> n < 32 \<and> odd (n div 8)"
    using no_bit_32 [of n] by (auto simp: not_less dest: leI)
qed

lemma lengths: "LENGTH(32) = 32" "LENGTH(64) = 64"
  by simp_all

lemma mask_bits_64:
  "bit (0x00ff00ff00ff00ff :: 64 word) n \<longleftrightarrow> n < 64 \<and> even (n div 8)" "bit (0xff00ff00ff00ff00 :: 64 word) n \<longleftrightarrow> n < 64 \<and> odd (n div 8)"
  "bit (0x0000ffff0000ffff :: 64 word) n \<longleftrightarrow> n < 64 \<and> even (n div 16)" "bit (0xffff0000ffff0000 :: 64 word) n \<longleftrightarrow> n < 64 \<and> odd (n div 16)"
proof -
  have 8: "\<forall>i < 64. bit (0x00ff00ff00ff00ff :: 64 word) i = even (i div 8) \<and> bit (0xff00ff00ff00ff00 :: 64 word) i = odd (i div 8)" by code_simp
  have 16: "\<forall>i < 64. bit (0x0000ffff0000ffff :: 64 word) i = even (i div 16) \<and> bit (0xffff0000ffff0000 :: 64 word) i = odd (i div 16)" by code_simp
  from 8 16 no_bit_64 [of n] show
    "bit (0x00ff00ff00ff00ff :: 64 word) n \<longleftrightarrow> n < 64 \<and> even (n div 8)" "bit (0xff00ff00ff00ff00 :: 64 word) n \<longleftrightarrow> n < 64 \<and> odd (n div 8)"
    "bit (0x0000ffff0000ffff :: 64 word) n \<longleftrightarrow> n < 64 \<and> even (n div 16)" "bit (0xffff0000ffff0000 :: 64 word) n \<longleftrightarrow> n < 64 \<and> odd (n div 16)"
    by (auto simp: not_less dest: leI)
qed

lemma byte_index: "r < 8 \<Longrightarrow> (8 * q + r) div 8 = q" "r < (8::nat) \<Longrightarrow> (8 * q + r) div 16 = q div 2"
  using div_mult2_eq [of "8 * q + r" 8 2] by simp_all

text \<open>The bit \<open>r\<close> of the byte \<open>q\<close>.\<close>

lemma swap_bytes:
  assumes "r < 8"
  shows "q < 4 \<Longrightarrow> bit (drop_bit 8 (x AND 0xff00ff00) OR push_bit 8 (x AND 0x00ff00ff) :: 32 word) (8 * q + r)
      \<longleftrightarrow> bit x (8 * (if even q then q + 1 else q - 1) + r)"
    and "q < 8 \<Longrightarrow> bit (drop_bit 8 (y AND 0xff00ff00ff00ff00) OR push_bit 8 (y AND 0x00ff00ff00ff00ff) :: 64 word) (8 * q + r)
      \<longleftrightarrow> bit y (8 * (if even q then q + 1 else q - 1) + r)"
    and "q < 8 \<Longrightarrow> bit (drop_bit 16 (y AND 0xffff0000ffff0000) OR push_bit 16 (y AND 0x0000ffff0000ffff) :: 64 word) (8 * q + r)
      \<longleftrightarrow> bit y (8 * (if even (q div 2) then q + 2 else q - 2) + r)"
    and "q < 4 \<Longrightarrow> bit (drop_bit 16 x OR push_bit 16 x :: 32 word) (8 * q + r) \<longleftrightarrow> bit x (8 * (if q < 2 then q + 2 else q - 2) + r)"
    and "q < 8 \<Longrightarrow> bit (drop_bit 32 y OR push_bit 32 y :: 64 word) (8 * q + r) \<longleftrightarrow> bit y (8 * (if q < 4 then q + 4 else q - 4) + r)"
proof -
  have m: "8 * q + r - 8 = 8 * (q - 1) + r" if "odd q" using that by (cases q) auto
  have n: "8 * q + r - 16 = 8 * (q - 2) + r" if "2 \<le> q" using that by auto
  have o: "2 \<le> q" if "odd (q div 2)" using that by (cases "q < 2") auto
  have index: "(r + q * 8) div 8 = q" "(r + q * 8) div 16 = q div 2" using byte_index [OF assms, of q] by (simp_all add: ac_simps)
  have m32: "\<And>i. bit (0x00ff00ff :: 32 word) i \<longleftrightarrow> i < LENGTH(32) \<and> even (i div 8)" "\<And>i. bit (0xff00ff00 :: 32 word) i \<longleftrightarrow> i < LENGTH(32) \<and> odd (i div 8)"
    unfolding lengths by (rule mask_bits_32)+
  have m64: "\<And>i. bit (0x00ff00ff00ff00ff :: 64 word) i \<longleftrightarrow> i < LENGTH(64) \<and> even (i div 8)"
    "\<And>i. bit (0xff00ff00ff00ff00 :: 64 word) i \<longleftrightarrow> i < LENGTH(64) \<and> odd (i div 8)"
    "\<And>i. bit (0x0000ffff0000ffff :: 64 word) i \<longleftrightarrow> i < LENGTH(64) \<and> even (i div 16)"
    "\<And>i. bit (0xffff0000ffff0000 :: 64 word) i \<longleftrightarrow> i < LENGTH(64) \<and> odd (i div 16)"
    unfolding lengths by (rule mask_bits_64)+
  show "q < 4 \<Longrightarrow> bit (drop_bit 8 (x AND 0xff00ff00) OR push_bit 8 (x AND 0x00ff00ff) :: 32 word) (8 * q + r)
      \<longleftrightarrow> bit x (8 * (if even q then q + 1 else q - 1) + r)"
    using assms m by (subst bit_swap [OF _ _ _ m32, where k = 2]) (auto simp: index ac_simps)
  show "q < 8 \<Longrightarrow> bit (drop_bit 8 (y AND 0xff00ff00ff00ff00) OR push_bit 8 (y AND 0x00ff00ff00ff00ff) :: 64 word) (8 * q + r)
      \<longleftrightarrow> bit y (8 * (if even q then q + 1 else q - 1) + r)"
    using assms m by (subst bit_swap [OF _ _ _ m64(1,2), where k = 4]) (auto simp: index ac_simps)
  show "q < 8 \<Longrightarrow> bit (drop_bit 16 (y AND 0xffff0000ffff0000) OR push_bit 16 (y AND 0x0000ffff0000ffff) :: 64 word) (8 * q + r)
      \<longleftrightarrow> bit y (8 * (if even (q div 2) then q + 2 else q - 2) + r)"
    using assms n o by (subst bit_swap [OF _ _ _ m64(3,4), where k = 2]) (auto simp: index ac_simps)
  show "q < 4 \<Longrightarrow> bit (drop_bit 16 x OR push_bit 16 x :: 32 word) (8 * q + r) \<longleftrightarrow> bit x (8 * (if q < 2 then q + 2 else q - 2) + r)"
    using assms n no_bit_32 [of "16 + (8 * q + r)" x] by (auto simp: bit_simps ac_simps)
  have "8 * q + r - 32 = 8 * (q - 4) + r" if "4 \<le> q" using that by auto
  then show "q < 8 \<Longrightarrow> bit (drop_bit 32 y OR push_bit 32 y :: 64 word) (8 * q + r) \<longleftrightarrow> bit y (8 * (if q < 4 then q + 4 else q - 4) + r)"
    using assms no_bit_64 [of "32 + (8 * q + r)" y] by (auto simp: bit_simps ac_simps)
qed

lemma REVERSE32_bits:
  assumes "r < 8" "q < 4"
  shows "bit (REVERSE32 w) (8 * q + r) \<longleftrightarrow> bit w (8 * (3 - q) + r)"
proof -
  have "(if even q then q + 1 else q - 1) < 4" using assms(2) by presburger
  moreover have "q = 0 \<or> q = 1 \<or> q = 2 \<or> q = 3" using assms(2) by auto
  ultimately show ?thesis unfolding REVERSE32_def Let_def swap_bytes(1) [OF assms]
    by (subst swap_bytes(4) [OF assms(1)]) auto
qed

lemma REVERSE64_bits:
  assumes "r < 8" "q < 8"
  shows "bit (REVERSE64 w) (8 * q + r) \<longleftrightarrow> bit w (8 * (7 - q) + r)"
proof -
  define q1 q2 where "q1 = (if even (q div 2) then q + 2 else q - 2)" and "q2 = (if even q1 then q1 + 1 else q1 - 1)"
  have b: "q1 < 8" using assms(2) unfolding q1_def by presburger
  then have "q2 < 8" unfolding q2_def by presburger
  then have "bit (REVERSE64 w) (8 * q + r) \<longleftrightarrow> bit w (8 * (if q2 < 4 then q2 + 4 else q2 - 4) + r)"
    unfolding REVERSE64_def Let_def swap_bytes(3) [OF assms] q1_def [symmetric] swap_bytes(2) [OF assms(1) b] q2_def [symmetric]
    by (rule swap_bytes(5) [OF assms(1)])
  moreover have "q = 0 \<or> q = 1 \<or> q = 2 \<or> q = 3 \<or> q = 4 \<or> q = 5 \<or> q = 6 \<or> q = 7" using assms(2) by auto
  then have "(if q2 < 4 then q2 + 4 else q2 - 4) = 7 - q" unfolding q2_def q1_def by (elim disjE) simp_all
  ultimately show ?thesis by simp
qed

lemma bit_store_word:
  "i < n \<Longrightarrow> bit (store_word n w ! i) k \<longleftrightarrow> k < 8 \<and> bit (w :: 'w::len word) (8 * i + k)"
  by (auto simp: store_word_def bit_ucast_iff bit_drop_bit_eq dest: bit_imp_le_length)

lemma REVERSE32_load: "length bs = 4 \<Longrightarrow> REVERSE32 (load_word bs) = be_word bs"
proof (rule bit_word_eqI)
  fix n
  assume l: "length bs = 4" and n: "n < LENGTH(32)"
  then have q: "n div 8 < 4" by auto
  from n REVERSE32_bits [OF _ q, of "n mod 8" "load_word bs"] have "bit (REVERSE32 (load_word bs)) n = bit (load_word bs :: 32 word) (8 * (3 - n div 8) + n mod 8)"
    by simp
  also have "\<dots> = bit (bs ! (3 - n div 8)) (n mod 8)" using l q by (auto simp: bit_load_word)
  finally show "bit (REVERSE32 (load_word bs)) n = bit (be_word bs) n"
    using l n q by (simp add: be_word_def bit_load_word rev_nth)
qed

lemma store_REVERSE32: "store_word 4 (REVERSE32 w) = be_bytes 4 w"
proof (intro nth_equalityI bit_word_eqI)
  fix i n
  assume "i < length (store_word 4 (REVERSE32 w))" "n < LENGTH(8)"
  then show "bit (store_word 4 (REVERSE32 w) ! i) n = bit (be_bytes 4 w ! i) n"
    by (simp add: be_bytes_def rev_nth bit_store_word REVERSE32_bits)
qed (simp add: be_bytes_def)

lemma store_REVERSE64: "store_word 8 (REVERSE64 w) = be_bytes 8 w"
proof (intro nth_equalityI bit_word_eqI)
  fix i n
  assume "i < length (store_word 8 (REVERSE64 w))" "n < LENGTH(8)"
  then show "bit (store_word 8 (REVERSE64 w) ! i) n = bit (be_bytes 8 w ! i) n"
    by (simp add: be_bytes_def rev_nth bit_store_word REVERSE64_bits)
qed (simp add: be_bytes_def)

section \<open>The two loops\<close>

abbreviation rounds :: "sha2_byte list \<Rightarrow> nat list \<Rightarrow> registers \<Rightarrow> registers" where
  "rounds b \<equiv> fold (\<lambda>t. apply_round (K256 ! t) (schedule b t))"

lemma load_rounds:
  assumes "length W = 16" "n \<le> 16"
    and "\<And>j. j < 16 \<Longrightarrow> REVERSE32 (case data of None \<Rightarrow> W ! j | Some d \<Rightarrow> d ! j) = schedule b j"
  shows "fold (load_round data) [0..<n] (W, r) = (map (schedule b) [0..<n] @ drop n W, rounds b [0..<n] r)"
  using assms(2)
proof (induction n)
  case (Suc n)
  have e: "(map (schedule b) [0..<n] @ drop n W) ! n = W ! n" using assms(1) Suc.prems by (simp add: nth_append)
  then have "REVERSE32 (case data of None \<Rightarrow> (map (schedule b) [0..<n] @ drop n W) ! n | Some d \<Rightarrow> d ! n) = schedule b n"
    using assms(3) [of n] Suc.prems unfolding e by simp
  moreover have "(map (schedule b) [0..<n] @ drop n W)[n := schedule b n] = map (schedule b) [0..<Suc n] @ drop (Suc n) W"
    using assms(1) Suc.prems by (simp add: list_update_append flip: Cons_nth_drop_Suc)
  ultimately show ?case using Suc by (simp add: load_round_def Let_def nth_append)
qed simp

definition ring :: "sha2_byte list \<Rightarrow> nat \<Rightarrow> sha2_word32 list \<Rightarrow> bool" where
  "ring b j W = (length W = 16 \<and> (\<forall>t. j \<le> t + 16 \<and> t < j \<longrightarrow> W ! (t mod 16) = schedule b t))"

lemma ring_at: "ring b j W \<Longrightarrow> t < j \<Longrightarrow> j \<le> t + 16 \<Longrightarrow> i mod 16 = t mod 16 \<Longrightarrow> W ! (i mod 16) = schedule b t"
  by (simp add: ring_def)

lemma ring_step:
  assumes "ring b j W" "16 \<le> j"
  shows "\<exists>W'. mix_round j (W, r) = (W', apply_round (K256 ! j) (schedule b j) r) \<and> ring b (Suc j) W'"
proof -
  have e: "(j + 1) mod 16 = (j - 15) mod 16" "(j + 14) mod 16 = (j - 2) mod 16" "(j + 9) mod 16 = (j - 7) mod 16" "j mod 16 = (j - 16) mod 16"
    using assms(2) le_mod_geq [of 16 "j + 1"] le_mod_geq [of 16 "j + 14"] le_mod_geq [of 16 "j + 9"] le_mod_geq [of 16 j] by auto
  let ?x = "W ! (j mod 16) + (sigma1_256 (W ! ((j + 14) mod 16)) + W ! ((j + 9) mod 16) + sigma0_256 (W ! ((j + 1) mod 16)))"
  have x: "?x = schedule b j"
    using assms(2) ring_at [OF assms(1) _ _ e(1)] ring_at [OF assms(1) _ _ e(2)] ring_at [OF assms(1) _ _ e(3)] ring_at [OF assms(1) _ _ e(4)]
    by (simp add: schedule.simps [of b j] ac_simps)
  have "W[j mod 16 := schedule b j] ! (t mod 16) = schedule b t" if "Suc j \<le> t + 16" "t < Suc j" for t
  proof (cases "t = j")
    case True
    then show ?thesis using assms(1) by (simp add: ring_def)
  next
    case False
    with that have "t < j" "j - t < 16" by auto
    then have "t mod 16 \<noteq> j mod 16" using mod_eq_dvd_iff_nat [of t j 16] dvd_imp_le [of 16 "j - t"] by auto
    with False show ?thesis using assms(1) that by (simp add: ring_def)
  qed
  then have "ring b (Suc j) (W[j mod 16 := schedule b j])" using assms(1) by (simp add: ring_def)
  moreover have "mix_round j (W, r) = (W[j mod 16 := schedule b j], apply_round (K256 ! j) (schedule b j) r)"
    using x by (simp add: mix_round_def Let_def)
  ultimately show ?thesis by blast
qed

lemma mix_rounds:
  assumes "ring b 16 W" "16 \<le> j"
  shows "\<exists>W'. fold mix_round [16..<j] (W, r) = (W', rounds b [16..<j] r) \<and> ring b j W'"
  using assms(2)
proof (induction j rule: dec_induct)
  case base
  then show ?case using assms(1) by simp
next
  case (step j)
  then obtain W' where "fold mix_round [16..<j] (W, r) = (W', rounds b [16..<j] r)" "ring b j W'" by blast
  with ring_step [OF this(2) step(1)] step(1) show ?case by auto
qed

lemma both_loops:
  assumes "length W = 16" and "\<And>j. j < 16 \<Longrightarrow> REVERSE32 (case data of None \<Rightarrow> W ! j | Some d \<Rightarrow> d ! j) = schedule b j"
  shows "\<exists>W'. fold mix_round [16..<64] (fold (load_round data) [0..<16] (W, r)) = (W', rounds b [0..<64] r) \<and> length W' = 16"
proof -
  have 1: "fold (load_round data) [0..<16] (W, r) = (map (schedule b) [0..<16], rounds b [0..<16] r)"
    using load_rounds [OF assms(1) _ assms(2), where n = 16] assms(1) by simp
  have "ring b 16 (map (schedule b) [0..<16])" by (simp add: ring_def)
  from mix_rounds [OF this, of 64] obtain W' where
    2: "fold mix_round [16..<64] (map (schedule b) [0..<16], rounds b [0..<16] r) = (W', rounds b [16..<64] (rounds b [0..<16] r))" "ring b 64 W'"
    by fastforce
  have "rounds b [16..<64] (rounds b [0..<16] r) = rounds b [0..<64] r"
    using upt_add_eq_append [of 0 16 48] by (simp add: fold_append)
  with 1 2 show ?thesis by (simp add: ring_def)
qed

lemma load_word_schedule: "j < 16 \<Longrightarrow> 64 \<le> length b \<Longrightarrow> REVERSE32 (load_words 16 b ! j) = schedule b j"
  by (simp add: load_words_def schedule.simps REVERSE32_load)

text \<open>A call of the transformation: \<open>b\<close> is the block, which is the buffer or 64 bytes of the caller.\<close>

lemma transform:
  assumes "length (sc_buffer c) = 64" "64 \<le> length b" "words = None \<and> b = sc_buffer c \<or> words = Some (load_words 16 b)"
  shows "\<exists>buf. SHA256_Transform words c = c\<lparr>sc_state := compress (sc_state c) b, sc_buffer := buf\<rparr> \<and> length buf = 64"
proof -
  have "REVERSE32 (case words of None \<Rightarrow> load_words 16 (sc_buffer c) ! j | Some d \<Rightarrow> d ! j) = schedule b j" if "j < 16" for j
    using assms(3) load_word_schedule [OF that assms(2)] by auto
  from both_loops [OF _ this] obtain W where
    W: "fold mix_round [16..<64] (fold (load_round words) [0..<16] (load_words 16 (sc_buffer c), load_registers (sc_state c)))
      = (W, rounds b [0..<64] (load_registers (sc_state c)))" "length W = 16" by auto
  then have "SHA256_Transform words c = c\<lparr>sc_state := compress (sc_state c) b, sc_buffer := concat (map (store_word 4) W)\<rparr>"
    by (simp add: SHA256_Transform_def compress_def Let_def)
  moreover have "length (concat (map (store_word 4) W)) = 64"
    using W(2) by (simp add: length_concat comp_def sum_list_triv)
  ultimately show ?thesis by blast
qed

section \<open>Hashing in pieces\<close>

text \<open>What the reading loop relies on: \<open>took m c\<close> says that the context \<open>c\<close> has taken the message \<open>m\<close>.\<close>

locale digest_stream =
  fixes init :: 'c
    and update :: "'d list \<Rightarrow> 'c \<Rightarrow> 'c"
    and finish :: "'c \<Rightarrow> 'r"
    and digest :: "'d list \<Rightarrow> 'r"
    and took :: "'d list \<Rightarrow> 'c \<Rightarrow> bool"
  assumes init_took: "took [] init"
    and update_took: "took m c \<Longrightarrow> took (m @ d) (update d c)"
    and finish_took: "took m c \<Longrightarrow> finish c = digest m"
begin

lemma updates_took: "took m c \<Longrightarrow> took (m @ concat ds) (fold update ds c)"
proof (induction ds arbitrary: m c)
  case (Cons d ds)
  from Cons.IH [OF update_took [OF Cons.prems, of d]] show ?case by simp
qed simp

lemma in_pieces: "finish (fold update ds init) = digest (concat ds)"
  using finish_took [OF updates_took [OF init_took]] by simp

lemma at_once: "finish (update m init) = digest m"
  using in_pieces [of "[m]"] by simp

end

section \<open>The context\<close>

lemma sha_blocks_append: "64 dvd length a \<Longrightarrow> sha_blocks (a @ b) = sha_blocks a @ sha_blocks b"
proof -
  assume "64 dvd length a"
  then obtain k where k: "length a = 64 * k" by (auto simp: dvd_def)
  have "map (\<lambda>i. take 64 (drop (64 * i) (a @ b))) [0..<k] = sha_blocks a"
    unfolding sha_blocks_def using k by (auto simp: take_append drop_append)
  moreover have "map (\<lambda>i. take 64 (drop (64 * i) (a @ b))) [k..<k + length b div 64] = sha_blocks b"
    unfolding sha_blocks_def using k map_add_upt [of k "length b div 64"]
    by (intro nth_equalityI) (auto simp: drop_append right_diff_distrib')
  moreover have "length (a @ b) div 64 = k + length b div 64" using k by simp
  ultimately show ?thesis unfolding sha_blocks_def [of "a @ b"] using upt_add_eq_append [of 0 k "length b div 64"] by simp
qed

lemma sha_blocks_short [simp]: "length b < 64 \<Longrightarrow> sha_blocks b = []"
  by (simp add: sha_blocks_def)

lemma sha_blocks_one [simp]: "length b = 64 \<Longrightarrow> sha_blocks b = [b]"
  by (simp add: sha_blocks_def)

lemma hash_state_short: "64 dvd length a \<Longrightarrow> length b < 64 \<Longrightarrow> hash_state (a @ b) = hash_state a"
  by (simp add: hash_state_def sha_blocks_append)

lemma hash_state_one: "64 dvd length a \<Longrightarrow> length b = 64 \<Longrightarrow> hash_state (a @ b) = compress (hash_state a) b"
  by (simp add: hash_state_def sha_blocks_append)

text \<open>The context after the message \<open>m\<close>: \<open>full\<close>, of complete blocks, is hashed, and the rest is in the buffer.\<close>

definition absorbed :: "sha2_byte list \<Rightarrow> sha256_ctx \<Rightarrow> bool" where
  "absorbed m c = (length (sc_buffer c) = 64 \<and> sc_bitcount c = of_nat (8 * length m) \<and>
     (\<exists>full rest. m = full @ rest \<and> 64 dvd length full \<and> length rest < 64 \<and> sc_state c = hash_state full \<and> take (length rest) (sc_buffer c) = rest))"

lemma absorbedI:
  assumes "length (sc_buffer c) = 64" "sc_bitcount c = of_nat (8 * length m)" "m = full @ rest" "64 dvd length full" "length rest < 64"
    "sc_state c = hash_state full" "take (length rest) (sc_buffer c) = rest"
  shows "absorbed m c"
  unfolding absorbed_def using assms by blast

lemma init_absorbed: "absorbed [] SHA256_Init"
  by (simp add: absorbed_def SHA256_Init_def SHA256_BLOCK_LENGTH_def hash_state_def)

lemma bits_of_bytes: "push_bit 3 (of_nat n :: 64 word) = of_nat (8 * n)"
  by (simp add: push_bit_eq_mult)

lemma unat_bytes: "unat (drop_bit 3 (of_nat (8 * n) :: 64 word)) mod 64 = n mod 64"
proof -
  have "unat (drop_bit 3 (of_nat (8 * n) :: 64 word)) = (8 * n mod 2 ^ 64) div 2 ^ 3"
    unfolding unat_drop_bit_eq unfolding unat_of_nat drop_bit_eq_div lengths by (rule refl)
  also have "\<dots> = n mod 2 ^ 61" using mod_mult_mult1 [of 8 n "2 ^ 61"] by simp
  finally show ?thesis by (simp add: mod_mod_cancel)
qed

lemma used_space_absorbed: "absorbed m c \<Longrightarrow> used_space c = length m mod 64"
  by (simp only: used_space_def absorbed_def SHA256_BLOCK_LENGTH_def unat_bytes)

declare update_blocks.simps [simp del]

lemma update_blocks_absorbed:
  assumes "64 dvd length m" "absorbed m c"
  shows "absorbed (m @ d) (update_blocks d c)"
  using assms
proof (induction d c arbitrary: m rule: update_blocks.induct)
  case (1 d c)
  from "1.prems" have st: "sc_state c = hash_state m" and len: "length (sc_buffer c) = 64" and bc: "sc_bitcount c = of_nat (8 * length m)"
    using hash_state_short by (auto simp: absorbed_def)
  show ?case
  proof (cases "64 \<le> length d")
    case True
    have eq: "load_words 16 d = load_words 16 (take 64 d)"
      unfolding load_words_def by (intro map_cong refl arg_cong [where f = load_word]) (simp add: drop_take min_def)
    from transform [OF len, of "take 64 d" "Some (load_words 16 d)"] True eq obtain buf where
      t: "SHA256_Transform (Some (load_words 16 d)) c = c\<lparr>sc_state := compress (sc_state c) (take 64 d), sc_buffer := buf\<rparr>" "length buf = 64"
      by auto
    have "absorbed (m @ take 64 d) (c\<lparr>sc_state := compress (sc_state c) (take 64 d), sc_buffer := buf, sc_bitcount := sc_bitcount c + of_nat (8 * 64)\<rparr>)"
      using True t(2) "1.prems"(1) st bc
      by (intro absorbedI [where full = "m @ take 64 d" and rest = "[]"]) (simp_all add: hash_state_one)
    then show ?thesis
      using "1.IH" [of _ "m @ take 64 d"] True "1.prems"(1)
      by (subst update_blocks.simps) (simp add: SHA256_BLOCK_LENGTH_def t(1) bits_of_bytes del: of_nat_mult)
  next
    case False
    then have "absorbed (m @ d) (c\<lparr>sc_buffer := put_bytes 0 d (sc_buffer c), sc_bitcount := sc_bitcount c + of_nat (8 * length d)\<rparr>)"
      using "1.prems"(1) st len bc
      by (intro absorbedI [where full = m and rest = d]) (simp_all add: put_bytes_def)
    with False "1.prems"(2) show ?thesis
      by (subst update_blocks.simps) (auto simp: SHA256_BLOCK_LENGTH_def bits_of_bytes simp del: of_nat_mult)
  qed
qed

lemma update_absorbed:
  assumes "absorbed m c"
  shows "absorbed (m @ d) (SHA256_Update d c)"
proof (cases "d = []")
  case True
  with assms show ?thesis by (simp add: SHA256_Update_def)
next
  case False
  from assms obtain full rest where m: "m = full @ rest" "64 dvd length full" "length rest < 64" "sc_state c = hash_state full"
    "take (length rest) (sc_buffer c) = rest" and c: "length (sc_buffer c) = 64" "sc_bitcount c = of_nat (8 * length m)"
    by (auto simp: absorbed_def)
  have u: "used_space c = length rest" using used_space_absorbed [OF assms] m(1-3) by auto
  let ?free = "64 - length rest"
  consider "rest = []" | "rest \<noteq> []" "?free \<le> length d" | "rest \<noteq> []" "length d < ?free" by linarith
  then show ?thesis
  proof cases
    case 1
    with update_blocks_absorbed [OF _ assms, of d] m False show ?thesis by (simp add: SHA256_Update_def u)
  next
    case 2
    let ?d = "take ?free d"
    let ?c = "c\<lparr>sc_buffer := put_bytes (length rest) ?d (sc_buffer c), sc_bitcount := sc_bitcount c + of_nat (8 * ?free)\<rparr>"
    have b: "rest @ ?d = sc_buffer ?c" using 2 m(3,5) c(1) by (simp add: put_bytes_def)
    have len: "length (rest @ ?d) = 64" using 2 m(3) by simp
    then have "length (sc_buffer ?c) = 64" "64 \<le> length (rest @ ?d)" unfolding b by simp_all
    from transform [OF this, of None] b obtain buf where
      t: "SHA256_Transform None ?c = ?c\<lparr>sc_state := compress (sc_state ?c) (rest @ ?d), sc_buffer := buf\<rparr>" "length buf = 64" by blast
    have l: "64 dvd length (m @ ?d)" using 2 m(1-3) by simp
    have "absorbed (m @ ?d) (SHA256_Transform None ?c)"
      unfolding t(1) using 2 t(2) c(2) m(1-4) hash_state_one [OF m(2) len] l
      by (intro absorbedI [where full = "m @ ?d" and rest = "[]"]) simp_all
    from update_blocks_absorbed [OF l this, of "drop ?free d"] 2 False show ?thesis
      by (simp add: SHA256_Update_def u SHA256_BLOCK_LENGTH_def bits_of_bytes Let_def del: of_nat_mult)
  next
    case 3
    then have "absorbed (m @ d) (c\<lparr>sc_buffer := put_bytes (length rest) d (sc_buffer c), sc_bitcount := sc_bitcount c + of_nat (8 * length d)\<rparr>)"
      using m c by (intro absorbedI [where full = full and rest = "rest @ d"]) (simp_all add: put_bytes_def)
    with 3 False show ?thesis
      by (simp add: SHA256_Update_def u SHA256_BLOCK_LENGTH_def bits_of_bytes Let_def del: of_nat_mult)
  qed
qed

section \<open>The digest\<close>

text \<open>After the padding the last block lacks only the bit count.\<close>

lemma pad_buffer:
  assumes "length (sc_buffer c) = 64" "64 dvd length full" "sc_state c = hash_state full" "take (length rest) (sc_buffer c) = rest"
    and "length rest < 64"
  shows "\<exists>full' tail. sc_state (pad_buffer (length rest) c) = hash_state full' \<and> 64 dvd length full' \<and> length tail = 56
     \<and> length (sc_buffer (pad_buffer (length rest) c)) = 64 \<and> take 56 (sc_buffer (pad_buffer (length rest) c)) = tail
     \<and> sc_bitcount (pad_buffer (length rest) c) = sc_bitcount c
     \<and> full @ rest @ [0x80] @ replicate ((119 - length rest) mod 64) 0 = full' @ tail"
proof -
  note lengths = SHA256_BLOCK_LENGTH_def SHA256_SHORT_BLOCK_LENGTH_def
  let ?u = "length rest"
  have set: "take (Suc ?u) ((sc_buffer c)[?u := 0x80]) = rest @ [0x80]"
    using assms(1,4,5) by (simp add: take_Suc_conv_app_nth)
  consider "rest = []" | "rest \<noteq> []" "?u < 56" | "56 \<le> ?u" by linarith
  then show ?thesis
  proof cases
    case 1
    have "replicate 56 (0 :: 8 word) = 0 # replicate 55 0" by (simp add: numeral_eq_Suc)
    with 1 assms show ?thesis
      by (rule_tac exI [of _ full], rule_tac exI [of _ "0x80 # replicate 55 0"]) (simp add: pad_buffer_def lengths zero_bytes_def put_bytes_def Let_def)
  next
    case 2
    have "(119 - ?u) mod 64 = 55 - ?u" using 2(2) le_mod_geq [of 64 "119 - ?u"] by simp
    with 2 assms set show ?thesis
      by (rule_tac exI [of _ full], rule_tac exI [of _ "rest @ [0x80] @ replicate (55 - ?u) 0"])
        (simp add: pad_buffer_def lengths zero_bytes_def put_bytes_def Let_def take_Cons')
  next
    case 3
    let ?c = "c\<lparr>sc_buffer := rest @ [0x80] @ replicate (63 - ?u) 0\<rparr>"
    have "put_bytes (Suc ?u) (replicate (64 - Suc ?u) 0) ((sc_buffer c)[?u := 0x80]) = rest @ [0x80] @ replicate (63 - ?u) 0"
      unfolding put_bytes_def set using assms(1,5) by simp
    moreover have "(sc_buffer c)[?u := 0x80] = rest @ [0x80]" if "?u = 63" using set that assms(1) by simp
    ultimately have p: "pad_buffer ?u c =
        (let c = SHA256_Transform None ?c in c\<lparr>sc_buffer := zero_bytes 0 56 (sc_buffer c)\<rparr>)"
      using 3 assms(5) by (cases "?u = 63") (auto simp: pad_buffer_def lengths zero_bytes_def Let_def)
    have l: "length (rest @ [0x80] @ replicate (63 - ?u) 0) = 64" using assms(5) by simp
    from transform [of ?c "sc_buffer ?c" None] l obtain buf where
      t: "SHA256_Transform None ?c = ?c\<lparr>sc_state := compress (hash_state full) (sc_buffer ?c), sc_buffer := buf\<rparr>" "length buf = 64"
      using assms(3) by auto
    have "(119 - ?u) mod 64 = (63 - ?u) + 56" using 3 assms(5) by simp
    then have "full @ rest @ [0x80] @ replicate ((119 - ?u) mod 64) 0
        = (full @ rest @ [0x80] @ replicate (63 - ?u) 0) @ replicate 56 0" by (simp only: replicate_add append_assoc)
    moreover have "hash_state (full @ rest @ [0x80] @ replicate (63 - ?u) 0) = compress (hash_state full) (sc_buffer ?c)"
      using hash_state_one [OF assms(2) l] by simp
    ultimately show ?thesis
      using t(2) l assms(2) unfolding p t(1) Let_def
      by (rule_tac exI [of _ "full @ rest @ [0x80] @ replicate (63 - ?u) 0"], rule_tac exI [of _ "replicate 56 0"]) (simp add: zero_bytes_def put_bytes_def)
  qed
qed

lemma final_absorbed:
  assumes "absorbed m c"
  shows "SHA256_Final c = (sha256 m, zero_ctx)"
proof -
  from assms obtain full rest where m: "m = full @ rest" "64 dvd length full" "length rest < 64" "sc_state c = hash_state full"
    "take (length rest) (sc_buffer c) = rest" and c: "length (sc_buffer c) = 64" "sc_bitcount c = of_nat (8 * length m)"
    by (auto simp: absorbed_def)
  have u: "used_space c = length rest" using used_space_absorbed [OF assms] m(1-3) by auto
  let ?c = "c\<lparr>sc_bitcount := REVERSE64 (sc_bitcount c)\<rparr>"
  have "length (sc_buffer ?c) = 64" "sc_state ?c = hash_state full" "take (length rest) (sc_buffer ?c) = rest" using m(4,5) c(1) by simp_all
  from pad_buffer [OF this(1) m(2) this(2,3) m(3)] obtain full' tail where
    p: "sc_state (pad_buffer (length rest) ?c) = hash_state full'" "64 dvd length full'" "length tail = 56"
      "length (sc_buffer (pad_buffer (length rest) ?c)) = 64" "take 56 (sc_buffer (pad_buffer (length rest) ?c)) = tail"
      "sc_bitcount (pad_buffer (length rest) ?c) = sc_bitcount ?c"
      "full @ rest @ [0x80] @ replicate ((119 - length rest) mod 64) 0 = full' @ tail" by blast
  let ?bits = "be_bytes 8 (sc_bitcount c)"
  let ?p = "(pad_buffer (length rest) ?c)\<lparr>sc_buffer := tail @ ?bits\<rparr>"
  have "put_bytes 56 (store_word 8 (REVERSE64 (sc_bitcount c))) (sc_buffer (pad_buffer (length rest) ?c)) = tail @ ?bits"
    unfolding put_bytes_def store_REVERSE64 p(5) using p(4) by (simp add: be_bytes_def)
  moreover from transform [of ?p "sc_buffer ?p" None] p(1,3) obtain buf where
    "SHA256_Transform None ?p = ?p\<lparr>sc_state := compress (hash_state full') (tail @ ?bits), sc_buffer := buf\<rparr>"
    by (auto simp: be_bytes_def)
  moreover have "padded m = full' @ tail @ ?bits"
  proof -
    have "length m mod 64 = length rest" using m(1-3) by auto
    then show ?thesis unfolding padded_def using p(7) m(1) c(2) by simp
  qed
  then have "hash_state (padded m) = compress (hash_state full') (tail @ ?bits)"
    using hash_state_one [OF p(2), of "tail @ ?bits"] p(3) by (simp add: be_bytes_def)
  ultimately show ?thesis
    by (simp add: SHA256_Final_def Let_def u SHA256_SHORT_BLOCK_LENGTH_def p(6) sha256_def store_REVERSE32)
qed

lemma nibbles: "unat (drop_bit 4 (d AND 0xf0 :: 8 word)) = unat d div 16" "unat (d AND 0x0f :: 8 word) = unat d mod 16"
proof -
  have m: "(0x0f :: 8 word) = mask 4" by (simp add: mask_eq_exp_minus_1)
  have low: "unat (x AND 0x0f :: 8 word) = unat x mod 16" for x
    unfolding m take_bit_eq_mask [symmetric] unsigned_take_bit_eq by (simp add: take_bit_eq_mod)
  then show "unat (d AND 0x0f :: 8 word) = unat d mod 16" .
  have "drop_bit 4 (d AND 0xf0) = drop_bit 4 d AND 0x0f" by (simp add: drop_bit_and)
  moreover have "unat (drop_bit 4 d) = unat d div 16" unfolding unat_drop_bit_eq unfolding drop_bit_eq_div by simp
  ultimately have "unat (drop_bit 4 (d AND 0xf0)) = unat d div 16 mod 16" using low [of "drop_bit 4 d"] by (simp only:)
  moreover have "unat d < 256" using unsigned_less [of d] by simp
  ultimately show "unat (drop_bit 4 (d AND 0xf0 :: 8 word)) = unat d div 16" by simp
qed

lemma end_absorbed: "absorbed m c \<Longrightarrow> SHA256_End c = (hex_text (sha256 m) @ [CHR 0x00], zero_ctx)"
  by (simp only: SHA256_End_def final_absorbed prod.case hex_text_def nibbles)

interpretation sha: digest_stream SHA256_Init SHA256_Update SHA256_End "\<lambda>m. (hex_text (sha256 m) @ [CHR 0x00], zero_ctx)" absorbed
  by unfold_locales (rule init_absorbed update_absorbed end_absorbed; assumption?)+

text \<open>
  C11: The digest does not depend on how the message is cut into pieces, and is the one of the standard: whatever pieces, empty
  ones included, are given to \<open>SHA256_Update\<close>, \<open>SHA256_End\<close> returns the digits of the SHA-256 hash of their
  concatenation and a zero. (The count of bits is taken modulo \<open>2 ^ 64\<close>, as in the code; the standard ends there.)
\<close>

theorem sha256_in_pieces:
  "SHA256_End (fold SHA256_Update pieces SHA256_Init) = (hex_text (sha256 (concat pieces)) @ [CHR 0x00], zero_ctx)"
  by (rule sha.in_pieces)

end
