(* ===== verification/Sha256_Examples.thy ===== *)
theory Sha256_Examples
  imports Sha256_Facts
begin

unbundle bit_operations_syntax

text \<open>
  The hashes of two messages of one block, "abc" (the example of FIPS 180-4) and "abd": the loops of the code are evaluated
  on their blocks. They show that the constants are those of the standard, and that the two messages have
  different hashes.
\<close>

section \<open>Evaluation\<close>

text \<open>The rounds in a form whose numbers stay below \<open>2 ^ 32\<close> when they are evaluated.\<close>

lemma low_word: "x AND 0xffffffff = (x :: 32 word)"
  using take_bit_length_eq [of x] by (simp add: take_bit_eq_mask mask_eq_exp_minus_1)

lemma S32_eval: "b \<le> 32 \<Longrightarrow> S32 b x = drop_bit b x OR push_bit (32 - b) (take_bit b x)"
  unfolding S32_def by (rule bit_word_eqI) (auto simp: bit_or_iff bit_push_bit_iff bit_take_bit_iff)

lemma apply_round_eval:
  "apply_round k w r =
     (let T1 = (reg_h r + Sigma1_256 (reg_e r) + Ch (reg_e r) (reg_f r) (reg_g r) + k + w) AND 0xffffffff;
          T2 = (Sigma0_256 (reg_a r) + Maj (reg_a r) (reg_b r) (reg_c r)) AND 0xffffffff
      in \<lparr>reg_a = (T1 + T2) AND 0xffffffff, reg_b = reg_a r, reg_c = reg_b r, reg_d = reg_c r,
          reg_e = (reg_d r + T1) AND 0xffffffff, reg_f = reg_e r, reg_g = reg_f r, reg_h = reg_g r\<rparr>)"
  by (simp only: low_word apply_round_def)

lemma mix_round_eval:
  "mix_round j (W, r) =
     (let s0 = sigma0_256 (W ! ((j + 1) mod 16));
          s1 = sigma1_256 (W ! ((j + 14) mod 16));
          x = (W ! (j mod 16) + (s1 + W ! ((j + 9) mod 16) + s0)) AND 0xffffffff
      in (W[j mod 16 := x], apply_round (K256 ! j) x r))"
  by (simp only: low_word mix_round_def prod.case)

lemma first_rounds: "[0..<16] = [0, 1, 2, 3, 4, 5, 6, 7, 8, 9, 10, 11, 12, 13, 14, 15]"
  by (simp add: upt_rec)

lemmas round_evals = apply_round_eval mix_round_eval load_round_def REVERSE32_def first_rounds K256_def Sigma0_256_def Sigma1_256_def
  sigma0_256_def sigma1_256_def S32_eval Ch_def Maj_def Let_def

text \<open>A message whose padding fits into one block.\<close>

lemma one_block_hash:
  assumes "length (padded m) = 64" "load_words 16 (padded m) = W"
    and "fold mix_round [16..<64] (fold (load_round None) [0..<16] (W, load_registers sha256_initial_hash_value)) = (W', r)"
  shows "sha256 m = concat (map (be_bytes 4) (add_registers sha256_initial_hash_value r))"
proof -
  have "REVERSE32 (case None of None \<Rightarrow> W ! j | Some d \<Rightarrow> d ! j) = schedule (padded m) j" if "j < 16" for j
    using load_word_schedule [OF that, of "padded m"] assms(1,2) by simp
  from both_loops [OF _ this, of "load_registers sha256_initial_hash_value"] assms(2,3)
  have "r = rounds (padded m) [0..<64] (load_registers sha256_initial_hash_value)" by auto
  moreover have "hash_state (padded m) = compress sha256_initial_hash_value (padded m)" using assms(1) by (simp add: hash_state_def)
  ultimately show ?thesis by (simp add: sha256_def compress_def)
qed

lemma initial_registers:
  "load_registers sha256_initial_hash_value =
     \<lparr>reg_a = 0x6a09e667, reg_b = 0xbb67ae85, reg_c = 0x3c6ef372, reg_d = 0xa54ff53a, reg_e = 0x510e527f, reg_f = 0x9b05688c, reg_g =
     0x1f83d9ab, reg_h = 0x5be0cd19\<rparr>"
  by (simp add: load_registers_def sha256_initial_hash_value_def)

lemma abc_rounds:
  "fold mix_round [16..<64] (fold (load_round None) [0..<16]
      ([0x80636261, 0x00000000, 0x00000000, 0x00000000, 0x00000000, 0x00000000, 0x00000000, 0x00000000, 0x00000000, 0x00000000, 0x00000000,
      0x00000000, 0x00000000, 0x00000000, 0x00000000, 0x18000000], \<lparr>reg_a = 0x6a09e667, reg_b = 0xbb67ae85, reg_c = 0x3c6ef372, reg_d =
      0xa54ff53a, reg_e = 0x510e527f, reg_f = 0x9b05688c, reg_g = 0x1f83d9ab, reg_h = 0x5be0cd19\<rparr>))
    = ([0xfb3e89cb, 0xcc7617db, 0xb9e66c34, 0xa9993667, 0x84badedd, 0xc21462bc, 0x1487472c, 0xb20f7a99, 0xef57b9cd, 0xebe6b238, 0x9fe3095e,
      0x78bc8d4b, 0xa43fcf15, 0x668b2ff8, 0xeeaba2cc, 0x12b1edeb], \<lparr>reg_a = 0x506e3058, reg_b = 0xd39a2165, reg_c = 0x04d24d6c, reg_d =
      0xb85e2ce9, reg_e = 0x5ef50f24, reg_f = 0xfb121210, reg_g = 0x948d25b6, reg_h = 0x961f4894\<rparr>)"
  by (simp add: round_evals)

lemma abc_hash: "hex_text (sha256 [0x61, 0x62, 0x63]) = ''ba7816bf8f01cfea414140de5dae2223b00361a396177a9cb410ff61f20015ad''"
proof -
  have l: "length (padded [0x61, 0x62, 0x63]) = 64" by code_simp
  have w: "load_words 16 (padded [0x61, 0x62, 0x63]) =
      [0x80636261, 0x00000000, 0x00000000, 0x00000000, 0x00000000, 0x00000000, 0x00000000, 0x00000000, 0x00000000, 0x00000000, 0x00000000,
      0x00000000, 0x00000000, 0x00000000, 0x00000000, 0x18000000]" by code_simp
  show ?thesis
    unfolding one_block_hash [OF l w abc_rounds [folded initial_registers]] by code_simp
qed

lemma abd_rounds:
  "fold mix_round [16..<64] (fold (load_round None) [0..<16]
      ([0x80646261, 0x00000000, 0x00000000, 0x00000000, 0x00000000, 0x00000000, 0x00000000, 0x00000000, 0x00000000, 0x00000000, 0x00000000,
      0x00000000, 0x00000000, 0x00000000, 0x00000000, 0x18000000], \<lparr>reg_a = 0x6a09e667, reg_b = 0xbb67ae85, reg_c = 0x3c6ef372, reg_d =
      0xa54ff53a, reg_e = 0x510e527f, reg_f = 0x9b05688c, reg_g = 0x1f83d9ab, reg_h = 0x5be0cd19\<rparr>))
    = ([0x8ac6276b, 0xad3a47c3, 0xf071d7bd, 0x74fdf4b6, 0x72a7cace, 0x872f28ee, 0xc0ad5108, 0xa1ce120d, 0x05a866b5, 0x0ae2570b, 0x64a777e6,
      0x56f747c6, 0x61be0105, 0x04f026ee, 0xeae9ccea, 0x0298c540], \<lparr>reg_a = 0x3b232f38, reg_b = 0x6ac37de8, reg_c = 0x9f0356ef, reg_d =
      0xdebbfa89, reg_e = 0x1da4ba09, reg_f = 0xec74d7a4, reg_g = 0x96d8e4db, reg_h = 0xcda37cb0\<rparr>)"
  by (simp add: round_evals)

lemma abd_hash: "hex_text (sha256 [0x61, 0x62, 0x64]) = ''a52d159f262b2c6ddb724a61840befc36eb30c88877a4030b65cbe86298449c9''"
proof -
  have l: "length (padded [0x61, 0x62, 0x64]) = 64" by code_simp
  have w: "load_words 16 (padded [0x61, 0x62, 0x64]) =
      [0x80646261, 0x00000000, 0x00000000, 0x00000000, 0x00000000, 0x00000000, 0x00000000, 0x00000000, 0x00000000, 0x00000000, 0x00000000,
      0x00000000, 0x00000000, 0x00000000, 0x00000000, 0x18000000]" by code_simp
  show ?thesis
    unfolding one_block_hash [OF l w abd_rounds [folded initial_registers]] by code_simp
qed

end
