(* ===== verification/File_Digest.thy ===== *)
theory File_Digest
  imports Sha256_Examples File_Data_Facts Diskscan_Alerts_Facts
begin

text \<open>
  The digests of the files with the SHA-256 of \<open>Sha256\<close> in place of the parameter of \<open>File_Data\<close>: the reading
  loop of src/src/diskscan/filedata.cpp computes the standard hash of the content, and a change of the content between
  two looks is reported exactly when the hashes differ.
\<close>

text \<open>The bytes \<open>read\<close> stores into the buffer.\<close>

definition bytes_of :: "string \<Rightarrow> sha2_byte list" where
  "bytes_of s = map String.of_char s"

lemma bytes_of_concat [simp]: "concat (map bytes_of cs) = bytes_of (concat cs)"
  by (induction cs) (simp_all add: bytes_of_def)

text \<open>The hashing of the loop: \<open>SHA256_Init\<close>, an update for each answer of \<open>read\<close>, and \<open>SHA256_End\<close>.\<close>

definition hash_chunks :: "string list \<Rightarrow> string" where
  "hash_chunks chunks = fst (SHA256_End (fold SHA256_Update (map bytes_of chunks) SHA256_Init))"

definition sha_lib :: "(string list \<Rightarrow> string list \<Rightarrow> string) \<Rightarrow> digest_lib" where
  "sha_lib diff = \<lparr>dg_sha256 = (\<lambda>content. SHA256_Data (bytes_of content)), dg_diff = diff\<rparr>"

section \<open>The digits\<close>

lemma length_hash_state: "length (hash_state m) = 8"
proof -
  have "length st = 8 \<Longrightarrow> length (foldl compress st bs) = 8" for st bs
    by (induction bs arbitrary: st) (simp_all add: compress_def add_registers_def)
  then show ?thesis unfolding hash_state_def by (simp add: sha256_initial_hash_value_def)
qed

lemma length_sha256: "length (sha256 m) = 32"
  by (simp add: sha256_def length_concat comp_def be_bytes_def sum_list_triv length_hash_state)

lemma length_hex_text: "length (hex_text bs) = 2 * length bs"
  by (induction bs) (simp_all add: hex_text_def)

lemma hex_digits: "distinct sha2_hex_digits" "length sha2_hex_digits = 16" "CHR 0x00 \<notin> set sha2_hex_digits"
  by (simp_all add: sha2_hex_digits_def)

lemma byte_below: "unat (b :: sha2_byte) div 16 < 16"
proof -
  have "unat b < 256" using unsigned_less [of b] by simp
  then show ?thesis by simp
qed

lemma hex_text_inj: "length bs = length cs \<Longrightarrow> hex_text bs = hex_text cs \<Longrightarrow> bs = cs"
proof (induction bs cs rule: list_induct2)
  case (Cons b bs c cs)
  from Cons.prems have "sha2_hex_digits ! (unat b div 16) = sha2_hex_digits ! (unat c div 16)"
    "sha2_hex_digits ! (unat b mod 16) = sha2_hex_digits ! (unat c mod 16)" by (simp_all add: hex_text_def)
  then have "unat b div 16 = unat c div 16" "unat b mod 16 = unat c mod 16"
    using nth_eq_iff_index_eq [OF hex_digits(1)] byte_below [of b] byte_below [of c] by (simp_all add: hex_digits(2))
  then have "b = c" by (metis div_mult_mod_eq unsigned_word_eqI)
  with Cons show ?case by (simp add: hex_text_def)
qed simp

lemma hex_text_no_zero: "CHR 0x00 \<notin> set (hex_text bs)"
proof (induction bs)
  case (Cons b bs)
  have "sha2_hex_digits ! (unat b div 16) \<in> set sha2_hex_digits" "sha2_hex_digits ! (unat b mod 16) \<in> set sha2_hex_digits"
    using byte_below [of b] by (simp_all add: hex_digits(2))
  with hex_digits(3) Cons show ?case by (auto simp: hex_text_def)
qed (simp add: hex_text_def)

lemma c_str_hex [simp]: "c_str (hex_text bs) = hex_text bs"
  using hex_text_no_zero [of bs] by (auto simp: c_str_def takeWhile_eq_all_conv)

section \<open>The digest of a file\<close>

lemma hash_chunks_sha256: "hash_chunks cs = hex_text (sha256 (bytes_of (concat cs))) @ [CHR 0x00]"
  by (simp add: hash_chunks_def sha.in_pieces)

lemma SHA256_Data_sha256: "SHA256_Data m = hex_text (sha256 m) @ [CHR 0x00]"
  by (simp add: SHA256_Data_def sha.at_once)

lemma dg_sha_lib: "dg_sha256 (sha_lib diff) (concat cs) = hash_chunks cs"
  by (simp add: sha_lib_def SHA256_Data_sha256 hash_chunks_sha256)

text \<open>A regular file that can be looked at, opened and read.\<close>

definition regular_read :: "object_view \<Rightarrow> bool" where
  "regular_read v = ((\<exists>s. ov_lstat v = Some s \<and> mode_file_type (st_mode s) = Regular_file) \<and> (\<exists>u. ov_user v = Inr u) \<and> (\<exists>g. ov_group v = Inr g)
     \<and> ov_open v \<and> ov_read_ok v)"

lemma construct_digest:
  assumes "path \<noteq> []" "regular_read v" "construct (sha_lib diff) max_diff junk v path True check_diff db = Inr (Some fd, db')"
  shows "fd_path fd = path \<and> fd_exists fd \<and> fd_type fd = Regular_file \<and> fd_content_checked fd \<and> fd_sha256 fd = hash_chunks (ov_chunks v)
     \<and> fd_digest fd = hex_text (sha256 (bytes_of (concat (ov_chunks v))))"
proof -
  from assms(2) obtain s u g where v: "ov_lstat v = Some s" "mode_file_type (st_mode s) = Regular_file" "ov_user v = Inr u" "ov_group v = Inr g"
    "ov_open v" "ov_read_ok v" by (auto simp: regular_read_def)
  from construct_reads_file [OF assms(1) v refl, of "sha_lib diff" max_diff junk check_diff db] assms(3)
  have f: "fd_path fd = path \<and> fd_exists fd \<and> fd_content_checked fd \<and> fd_mode fd = st_mode s \<and> fd_sha256 fd = hash_chunks (ov_chunks v)"
    by (auto simp: dg_sha_lib)
  moreover have "fd_type fd = Regular_file"
    using assms(1,3) v by (auto simp: construct_def Let_def check_file_read [OF _ _ _ refl refl] new_file_data_def)
  ultimately show ?thesis
    by (simp add: fd_digest_def hash_chunks_sha256 length_hex_text length_sha256)
qed

text \<open>
  C12: The digest of a file is the SHA-256 hash of its content. For a regular file that could be read, in whatever
  pieces, the object holds the 64 digits of the standard hash of the whole content and a zero, which is what the
  calls of the loop return.
\<close>

theorem file_digest_is_sha256:
  assumes "path \<noteq> []" and "regular_read v" and "construct (sha_lib diff) max_diff junk v path True check_diff db = Inr (Some fd, db')"
  shows "fd_sha256 fd = hash_chunks (ov_chunks v) \<and> length (fd_sha256 fd) = 65
     \<and> fd_digest fd = hex_text (sha256 (bytes_of (concat (ov_chunks v))))"
  using construct_digest [OF assms] by (simp add: hash_chunks_sha256 length_hex_text length_sha256)

section \<open>Changes of the content\<close>

lemma inserted_digest: "fd_content_checked fd \<Longrightarrow> fd_digest fd = hex_text h \<Longrightarrow> dr_sha256 (inserted_row fd) = hex_text h"
  by (simp add: inserted_row_def object_row_def)

lemma length_digest: "length (hex_text (sha256 m)) = 64"
  by (simp add: length_hex_text length_sha256)

text \<open>
  C10: A change of the content is reported unless the hashes collide. A file was read and its row inserted; later it
  is read again. The digests are found to differ exactly when the SHA-256 hashes of the two contents do; and
  then the look at the file, unless a value is too long for the database, raises the alert that shows both digests
  and stores the new one.
\<close>

theorem content_change_detected:
  assumes "path \<noteq> []" and "regular_read v1" and "regular_read v2"
    and "construct (sha_lib diff) max_diff junk v1 path True check1 db1 = Inr (Some fd1, db1')"
    and "construct (sha_lib diff) max_diff junk v2 path True check2 db2 = Inr (Some fd2, db2')"
    and "table_wf (al_db s)" and "map_of (al_db s) path = Some r" and "r = (inserted_row fd1)\<lparr>dr_scanned := scanned\<rparr>"
    and "old = sha256 (bytes_of (concat (ov_chunks v1)))" and "new = sha256 (bytes_of (concat (ov_chunks v2)))"
  shows "(digest_differs r fd2 \<longleftrightarrow> old \<noteq> new)
     \<and> (old \<noteq> new \<longrightarrow> (\<forall>es s'. alert_object env now fl fd2 s = (es, Inr s') \<longrightarrow>
          es = [disk_log_2_se env now path False (changed_object_text env r fd2)]
          \<and> (\<exists>before after. changed_object_text env r fd2 = before @ changed_line ''SHA256 checksum'' (hex_text old) (hex_text new) [] @ after)
          \<and> (\<exists>r'. map_of (al_db s') path = Some r' \<and> dr_sha256 r' = hex_text new)))"
proof -
  note d1 = construct_digest [OF assms(1,2,4), folded assms(9)] and d2 = construct_digest [OF assms(1,3,5), folded assms(10)]
  have r: "dr_sha256 r = hex_text old" using d1 by (simp add: assms(8) inserted_digest)
  have "length old = length new" by (simp add: assms(9,10) length_sha256)
  then have iff: "digest_differs r fd2 \<longleftrightarrow> old \<noteq> new"
    using d2 r hex_text_inj [of new old] by (auto simp: digest_differs_def)
  have sel: "db_select path (al_db s) = [r]" using db_select_map_of [OF assms(6), of path] assms(7) by simp
  have "es = [disk_log_2_se env now path False (changed_object_text env r fd2)]
      \<and> (\<exists>before after. changed_object_text env r fd2 = before @ changed_line ''SHA256 checksum'' (hex_text old) (hex_text new) [] @ after)
      \<and> (\<exists>r'. map_of (al_db s') path = Some r' \<and> dr_sha256 r' = hex_text new)"
    if "old \<noteq> new" "alert_object env now fl fd2 s = (es, Inr s')" for es s'
  proof -
    from that(1) iff have dd: "digest_differs r fd2" "row_differs r fd2" by (auto simp: row_differs_def)
    with that(2) sel d2 obtain r' where u: "update_row fd2 r = Inr r'" and es: "es = [disk_log_2_se env now path False (changed_object_text env r fd2)]"
      and s': "s' = s\<lparr>al_db := db_update path (\<lambda>_. r') (al_db s)\<rparr>" by (auto simp: alert_object_def alert_found_def split: sum.splits)
    from update_row_Inr [OF u] d2 have "dr_sha256 r' = hex_text new" by (simp add: object_row_def)
    moreover have "map_of (al_db s') path = Some r'" using assms(7) by (simp add: s' map_of_db_update)
    moreover have "\<exists>before after. changed_object_text env r fd2 = before @ changed_line ''SHA256 checksum'' (hex_text old) (hex_text new) [] @ after"
      unfolding changed_object_text_def if_P [OF dd(1)] r conjunct2 [OF conjunct2 [OF conjunct2 [OF conjunct2 [OF conjunct2 [OF d2]]]]]
      by (metis append_assoc)
    ultimately show ?thesis using es by blast
  qed
  with iff show ?thesis by blast
qed

section \<open>An example\<close>

text \<open>The example of the standard.\<close>

definition abc_digest :: string where
  "abc_digest = ''ba7816bf8f01cfea414140de5dae2223b00361a396177a9cb410ff61f20015ad''"

definition abd_digest :: string where
  "abd_digest = ''a52d159f262b2c6ddb724a61840befc36eb30c88877a4030b65cbe86298449c9''"

lemma abc_sha256: "hex_text (sha256 (bytes_of ''abc'')) = abc_digest"
  unfolding abc_digest_def abc_hash [symmetric] by (simp add: bytes_of_def)

lemma abd_sha256: "hex_text (sha256 (bytes_of ''abd'')) = abd_digest"
  unfolding abd_digest_def abd_hash [symmetric] by (simp add: bytes_of_def)

lemma demo_read: "regular_read (demo_view cs)"
  by (simp add: regular_read_def demo_view_def mode_file_type_def format_defs)

lemma demo_construct:
  "\<exists>fd db'. construct (sha_lib diff) m junk (demo_view cs) ''/f'' True False Map.empty = Inr (Some fd, db')"
  by (auto simp: construct_def Let_def check_file_read [OF _ _ _ refl refl] new_file_data_def demo_view_def mode_file_type_def format_defs)

theorem file_digest_is_sha256_witness:
  "\<exists>fd db'. construct (sha_lib (\<lambda>_ _. [])) 0 [] (demo_view [''a'', ''bc'']) ''/f'' True False Map.empty = Inr (Some fd, db')
     \<and> fd_digest fd = abc_digest"
proof -
  obtain fd db' where c: "construct (sha_lib (\<lambda>_ _. [])) 0 [] (demo_view [''a'', ''bc'']) ''/f'' True False Map.empty = Inr (Some fd, db')"
    using demo_construct by blast
  from file_digest_is_sha256 [OF _ demo_read c] abc_sha256 have "fd_digest fd = abc_digest" by (simp add: demo_view_def)
  with c show ?thesis by blast
qed

text \<open>The file "/f" held "abc" and holds "abd", of the same size and with the same times.\<close>

theorem content_change_detected_witness:
  "\<exists>fd1 fd2 r s' es. db_select ''/f'' [(''/f'', r)] = [r] \<and> dr_sha256 r = abc_digest
     \<and> alert_object \<lparr>de_block_size = 1, de_fmt_time = (\<lambda>_. []), de_unit_test = True\<rparr> 0 F_CHK_CONTENT fd2 (alert_start [(''/f'', r)]) = (es, Inr s')
     \<and> r = inserted_row fd1 \<and> length es = 1 \<and> (\<exists>r'. map_of (al_db s') ''/f'' = Some r' \<and> dr_sha256 r' = abd_digest)"
proof -
  obtain fd1 db1 where c1: "construct (sha_lib (\<lambda>_ _. [])) 0 [] (demo_view [''a'', ''bc'']) ''/f'' True False Map.empty = Inr (Some fd1, db1)"
    using demo_construct by blast
  obtain fd2 db2 where c2: "construct (sha_lib (\<lambda>_ _. [])) 0 [] (demo_view [''abd'']) ''/f'' True False Map.empty = Inr (Some fd2, db2)"
    using demo_construct by blast
  let ?r = "inserted_row fd1" and ?env = "\<lparr>de_block_size = 1, de_fmt_time = (\<lambda>_. []), de_unit_test = True\<rparr>"
  have r: "?r = ?r\<lparr>dr_scanned := True\<rparr>" by (simp add: inserted_row_def object_row_def)
  note d1 = construct_digest [OF _ demo_read c1] and d2 = construct_digest [OF _ demo_read c2]
  have v: "concat (ov_chunks (demo_view [''a'', ''bc''])) = ''abc''" "concat (ov_chunks (demo_view [''abd''])) = ''abd''"
    by (simp_all add: demo_view_def)
  have "hex_text (sha256 (bytes_of ''abc'')) \<noteq> hex_text (sha256 (bytes_of ''abd''))"
    by (simp add: abc_sha256 abd_sha256 abc_digest_def abd_digest_def)
  then have ne: "sha256 (bytes_of ''abc'') \<noteq> sha256 (bytes_of ''abd'')" by auto
  have st: "table_wf (al_db (alert_start [(''/f'', ?r)]))" "map_of (al_db (alert_start [(''/f'', ?r)])) ''/f'' = Some ?r"
    by (simp_all add: alert_start_def table_wf_def)
  have "\<exists>r'. update_row fd2 ?r = Inr r'"
    using c2 by (auto simp: construct_def Let_def check_file_read [OF _ _ _ refl refl] new_file_data_def demo_view_def mode_file_type_def
        format_defs update_row_def bind_object_def bind_text_def bind_ulong_def bind_unsigned_def guard_res_def name_or_unknown_def fd_digest_def)
  moreover have dd: "digest_differs ?r fd2"
    using content_change_detected [OF _ demo_read demo_read c1 c2 st r refl refl] ne by (simp add: v)
  ultimately obtain es s' where a: "alert_object ?env 0 F_CHK_CONTENT fd2 (alert_start [(''/f'', ?r)]) = (es, Inr s')"
    using d2 by (auto simp: alert_object_def alert_found_def row_differs_def db_select_def alert_start_def)
  with content_change_detected [OF _ demo_read demo_read c1 c2 st r refl refl, of ?env 0 F_CHK_CONTENT] ne
  have "length es = 1" "\<exists>r'. map_of (al_db s') ''/f'' = Some r' \<and> dr_sha256 r' = abd_digest" by (auto simp: v abd_sha256)
  moreover have "dr_sha256 ?r = hex_text (sha256 (bytes_of ''abc''))" using d1 by (simp add: inserted_digest v)
  then have "dr_sha256 ?r = abc_digest" by (simp only: abc_sha256)
  moreover have "db_select ''/f'' [(''/f'', ?r)] = [?r]" by (simp add: db_select_def)
  ultimately show ?thesis using a by blast
qed

end
