(* ===== verification/Spec2Isabelle.thy ===== *)
theory Spec2Isabelle
  imports Research_Liveness Startup_Facts Logscan_Runs Intervention_Runs Diskscan_Types File_Digest
begin

text \<open>
  ctguard, a host based intrusion detection system: the model of its four programs and the theorems about them. Paths
  of sources are relative to src/src.

  The programs. ctguard-logscan follows log files and a systemd socket and ctguard-diskscan watches directories; both send
  events (\<open>libs/source_event.hpp\<close>) as datagrams to ctguard-research, which classifies them by a tree of rules read from XML,
  writes alerts to a log, mails them, and requests interventions; ctguard-intervention receives these requests as
  datagrams and runs configured commands in child processes. Each program checks its configuration in \<open>main\<close>, then
  starts the threads of its \<open>daemon()\<close>, which talk through queues (\<open>libs/blockedqueue.hpp\<close>) and leave their
  exceptions on a stack the main thread looks at; a mark in the queues (the control message \<open>!KILL\<close>) ends them in turn.

  Conventions. A function of the source is a definition of its name or nearly so; a class is a record or a datatype with its
  operations; an exception is the left side of a sum (\<open>res\<close> of \<open>Ctguard_Prelude\<close>), with one datatype of errors per component. Fixed
  width integers are words where their width matters. A character is a byte. What an operating system call, a
  third-party library (\<open>std::regex\<close>, cereal, dtl, getopt) or \<open>std::put_time\<close> answers is a parameter or chosen freely in
  each step; hypotheses about them are named (\<open>datagram_net\<close>, \<open>refusals_end\<close>, \<open>cereal_ok\<close>, \<open>cereal_reads\<close>, \<open>rx_lawful\<close>).
  A regular expression may be refused when it is built; a match is a total function, so the errors \<open>std::regex\<close> may throw while it
  matches (complexity, stack) are not modelled. A daemon is a step relation, one
  rule per turn of a thread, and a run is a sequence of steps; the labels of a run say what was received, classified, raised, sent or
  started. Schedules (\<open>research_execs\<close>, \<open>logscan_execs\<close>, \<open>intervention_execs\<close>) make runs executable for the examples.

  The theories, and the code they model.
  Libraries: \<open>Ctguard_Prelude\<close> (results, string functions), \<open>Std_Containers\<close> (sorted maps and sets of the C++ library),
  \<open>Parse_Helper\<close> (\<open>libs/parsehelper.hpp\<close>), \<open>Config_Lexer\<close> and \<open>Config_Parser\<close> (\<open>libs/config\<close>), \<open>Xml_Parser\<close> (\<open>libs/xml\<close>),
  \<open>Blocked_Queue\<close>, \<open>Unix_Socket\<close> (\<open>libs/unix_socket_client.cpp\<close>), \<open>Account_Lookup\<close> (\<open>libs/safe_utilities.cpp\<close>,
  \<open>libs/check_file_perms.cpp\<close>), \<open>Sha256\<close> (\<open>external/sha2/sha2.c\<close>).
  Shared by the daemons: \<open>Resend_Task\<close> (the forwarding loops with their local queue), \<open>Event_Sinks\<close> (the sinks of
  three daemons), \<open>Daemon_Threads\<close>, \<open>Daemon_Configs\<close> (the four \<open>config.cpp\<close>), \<open>Startup\<close> (the four \<open>main\<close> functions and the
  interactive mode of ctguard-research).
  ctguard-research: \<open>Research_Types\<close>, \<open>Rule_Loader\<close> (\<open>rule.cpp\<close>), \<open>Rule_Engine\<close> (\<open>process_log.cpp\<close>), \<open>Alert_Text\<close>, \<open>Send_Mail\<close>
  (\<open>send_mail.cpp\<close>), \<open>Research_Daemon\<close> (\<open>daemon.cpp\<close>).
  ctguard-logscan: \<open>Logscan\<close> (\<open>logfile_task\<close> with its state file, and \<open>systemd_task\<close>), \<open>Logscan_Daemon\<close> (\<open>daemon()\<close>).
  ctguard-diskscan: \<open>File_Data\<close> (\<open>filedata.cpp\<close>), \<open>Diskscan_Threads\<close> (scanning and watching), \<open>Diskscan_Alerts\<close>
  (\<open>alert_task\<close> on the table of the database), \<open>Diskscan_Daemon\<close> (\<open>daemon()\<close>), \<open>File_Digest\<close> (the digest of a file with \<open>Sha256\<close>).
  ctguard-intervention: \<open>Intervention_Daemon\<close> (\<open>daemon.cpp\<close>).

  What the lemmas show. The theories ending in \<open>Facts\<close>, \<open>Runs\<close>, \<open>Liveness\<close>, \<open>Sync\<close> or \<open>Types\<close> hold the proofs about the theory of
  that name.
  The parsers terminate, accept what the printers write, and yield well-formed trees.
  Rules: the loader admits only well-formed rule sets, on which the engine never throws; the engine selects the
  best matching rule, counts activations in their time window since the last reset, and keeps the rule states well-formed.
  Forwarding: the locale \<open>reliable_sink\<close> says what a sink promises, and that the loops then lose nothing; it is interpreted
  on the file sinks, and on the sinks as a whole by \<open>only_event_reliable\<close> and its like, for nets with the laws of \<open>datagram_net\<close>. The
  locale \<open>fifo\<close> is the contract of the queues.
  Daemons: invariants by induction on the runs (what was taken from a queue and what is left in it is what was put in; who
  stops whom) give that nothing received is lost when \<open>daemon()\<close> returned, that it can always return, and where it can not.
  Diskscan: a full scan brings the database in line with a file system that stays as it is, and a single run does so
  in every interleaving of its threads. \<open>Sha256_Facts\<close> proves the code of \<open>sha2.c\<close> equal to FIPS 180-4 however the message is cut
  into pieces (locale \<open>digest_stream\<close>), so that a change of a file is reported unless hashes collide.
  This theory joins the programs: from the start to the runs, from log lines to classified messages, from alerts to
  children, with what the receive buffers cut (\<open>arriving\<close>).
  The theorems that state errors are the findings of the model: a single run that hangs, a daemon that never returns after an exception of
  the engine, a line lost in the shutdown, a whitelist passed with a zero byte, a log file no longer read.

  Bounds and fuel. Only the configuration parser uses fuel, for its loop and its recursion: the length of the text and
  5, which exceeds the number of tokens left (\<open>parse_group_fuel\<close>). Sending to a socket and the interactive mode may never end in
  the code; they are partial functions with values in \<open>option\<close>, and None is a call that does not return. The retry loop of
  \<open>unix_socket_client::send\<close> is shown to end on a system that does not go on forever refusing the datagrams of a socket whose
  connections it accepts (\<open>refusals_end\<close>, \<open>us_send_returns\<close>), which is what the theorems on liveness assume where events or commands are
  sent; the interactive mode is shown to end only by \<open>quit\<close>. All other loops terminate by proof.

  What is simplified. A turn of a thread is one atomic step, which hides the races on state without a lock
  (\<open>state_task\<close> and \<open>process_log\<close> on the rule states). A look of logscan at all its files is one
  step whose events are put into the queue one by one. A \<open>sigtimedwait\<close> that fails ends the waiting like a signal. The
  stack of exceptions is kept as a history. Of sqlite, the bounds of \<open>bind\<close> and the uniqueness of names are modelled, other failures
  are not. The time between the check of a file and its opening is not modelled. The contents of the log files of the
  programs themselves, log levels, \<open>umask\<close> and the texts on the standard error are left out, but for the output of the children of
  ctguard-intervention. Sha256 is the code as compiled on a little-endian machine without unrolling.

  Not modelled. The logger, the scope guards and the classes of the exceptions have no effect on the behaviour shown here;
  \<open>libs/daemon_helper.cpp\<close> is not compiled; the sqlite wrappers and the opening of the database are thin calls of a library; SHA-384 and
  SHA-512 are never called; dtl is a third-party template library; the rest are tests.
\<close>

section \<open>From the start to the runs\<close>

lemma group_lookup:
  assumes "check_actions sy as = Starts ()" "a \<in> set as"
  shows "check_group sy a = Starts ()" "check_user sy a = Starts ()" "check_command sy a = Starts ()"
  using assms by (induction as) (auto simp: start_bind_Starts)

lemma check_group_found:
  "check_group sy a = Starts () \<Longrightarrow> ia_group a \<noteq> [] \<Longrightarrow> \<exists>g. na_getgrnam (sy_accounts sy) (c_str (ia_group a)) 4096 = (0, Some g)"
  by (auto simp: check_group_def split: if_splits prod.splits)

lemma check_user_found:
  "check_user sy a = Starts () \<Longrightarrow> ia_user a \<noteq> [] \<Longrightarrow> \<exists>u. na_getpwnam (sy_accounts sy) (c_str (ia_user a)) 4096 = (0, Some u)"
  by (auto simp: check_user_def split: if_splits prod.splits)

lemma check_command_found: "check_command sy a = Starts () \<Longrightarrow> \<exists>st. fs_stat (sy_files sy) (c_str (ia_command a)) = Inr st"
  by (auto simp: check_command_def split: sum.splits)

text \<open>The child finds the accounts the program found when it started, and root may change its ids. Nothing is said of the other
  calls: \<open>chdir\<close>, \<open>dup2\<close> and \<open>execv\<close> may fail.\<close>

definition same_system :: "system \<Rightarrow> child_os \<Rightarrow> bool" where
  "same_system sy os =
     ((\<forall>n. co_getgrnam os n = (case na_getgrnam (sy_accounts sy) n 4096 of (ret, g) \<Rightarrow> if ret \<noteq> 0 then Inl () else Inr (map_option int g)))
      \<and> (\<forall>n. co_getpwnam os n = (case na_getpwnam (sy_accounts sy) n 4096 of (ret, u) \<Rightarrow> if ret \<noteq> 0 then Inl () else Inr (map_option int u)))
      \<and> (\<forall>c i. ch_uid c = 0 \<longrightarrow> co_setgid os c i \<and> co_setuid os c i))"

text \<open>The ids an action asks for: those of the accounts \<open>main\<close> looked up, where it names them.\<close>

definition runs_as :: "system \<Rightarrow> intervention_action \<Rightarrow> child \<Rightarrow> child \<Rightarrow> bool" where
  "runs_as sy action ch ch' =
     ((if ia_group action = [] then ch_gid ch' = ch_gid ch
       else \<exists>g. na_getgrnam (sy_accounts sy) (c_str (ia_group action)) 4096 = (0, Some g) \<and> ch_gid ch' = int g)
      \<and> (if ia_user action = [] then ch_uid ch' = ch_uid ch
         else \<exists>u. na_getpwnam (sy_accounts sy) (c_str (ia_user action)) 4096 = (0, Some u) \<and> ch_uid ch' = int u))"

lemma child_group_checked:
  assumes "check_group sy action = Starts ()" "same_system sy os" "ch_uid ch = 0"
  shows "\<exists>ch'. child_group os action ch = Inr ch' \<and> ch_uid ch' = 0
     \<and> (if ia_group action = [] then ch_gid ch' = ch_gid ch
        else \<exists>g. na_getgrnam (sy_accounts sy) (c_str (ia_group action)) 4096 = (0, Some g) \<and> ch_gid ch' = int g)"
proof (cases "ia_group action = []")
  case False
  from check_group_found [OF assms(1) False] assms(2,3) False show ?thesis by (auto simp: same_system_def child_group_def)
qed (use assms(3) in \<open>simp add: child_group_def\<close>)

lemma child_user_checked:
  assumes "check_user sy action = Starts ()" "same_system sy os" "ch_uid ch = 0"
  shows "\<exists>ch'. child_user os action ch = Inr ch' \<and> ch_gid ch' = ch_gid ch
     \<and> (if ia_user action = [] then ch_uid ch' = ch_uid ch
        else \<exists>u. na_getpwnam (sy_accounts sy) (c_str (ia_user action)) 4096 = (0, Some u) \<and> ch_uid ch' = int u)"
proof (cases "ia_user action = []")
  case False
  from check_user_found [OF assms(1) False] assms(2,3) False show ?thesis by (auto simp: same_system_def child_user_def)
qed (simp add: child_user_def)

text \<open>
  C5: What \<open>main\<close> checks of an action is what its child needs. The command of every action of a started
  intervention daemon was found, and the child of an action, started by root on a system with the same accounts, is stopped only by a
  failing \<open>chdir\<close>, \<open>dup2\<close> or \<open>execv\<close>, never by its group or user: it calls \<open>execv\<close>, if it gets that far, as the group
  and the user of the action, and otherwise ends in the command with its one argument, running as them.
\<close>

theorem started_actions_run:
  assumes "intervention_start sy args = Starts (so, cfg)" and "action \<in> set (ic_actions cfg)"
    and "same_system sy os" and "ch_uid ch = 0"
  shows "(\<exists>st. fs_stat (sy_files sy) (c_str (ia_command action)) = Inr st)
     \<and> (case run_cmd os ut action argument ch of
          Inl e \<Rightarrow>
            e = Can_not_chdir \<and> \<not> ut \<and> \<not> co_chdir os ch
            \<or> (\<exists>c. runs_as sy action ch c \<and>
                 (e = Can_not_redirect_stdout \<and> \<not> co_dup_stdout os c \<or> e = Can_not_redirect_stderr \<and> \<not> co_dup_stderr os c
                  \<or> e = Can_not_exec (ia_command action)
                    \<and> \<not> co_execv os c (c_str (ia_command action)) [c_str (ia_command action), c_str argument]))
        | Inr ch' \<Rightarrow>
            runs_as sy action ch ch' \<and> ch_exec ch' = Some (c_str (ia_command action), [c_str (ia_command action), c_str argument]))"
proof -
  from assms(1) have "check_actions sy (ic_actions cfg) = Starts ()"
    by (auto simp: intervention_start_def start_bind_Starts split: if_splits)
  note c = group_lookup [OF this assms(2)]
  have "case run_cmd os ut action argument ch of
          Inl e \<Rightarrow>
            e = Can_not_chdir \<and> \<not> ut \<and> \<not> co_chdir os ch
            \<or> (\<exists>c. runs_as sy action ch c \<and>
                 (e = Can_not_redirect_stdout \<and> \<not> co_dup_stdout os c \<or> e = Can_not_redirect_stderr \<and> \<not> co_dup_stderr os c
                  \<or> e = Can_not_exec (ia_command action)
                    \<and> \<not> co_execv os c (c_str (ia_command action)) [c_str (ia_command action), c_str argument]))
        | Inr ch' \<Rightarrow>
            runs_as sy action ch ch' \<and> ch_exec ch' = Some (c_str (ia_command action), [c_str (ia_command action), c_str argument])"
  proof (cases "child_chdir os ut ch")
    case (Inl e)
    then show ?thesis by (auto simp: run_cmd_def child_chdir_def split: if_splits)
  next
    case (Inr c0)
    then have "ch_uid c0 = 0" "ch_uid c0 = ch_uid ch" "ch_gid c0 = ch_gid ch"
      using assms(4) by (auto simp: child_chdir_def split: if_splits)
    moreover obtain c1 where 1: "child_group os action c0 = Inr c1" "ch_uid c1 = 0"
      "if ia_group action = [] then ch_gid c1 = ch_gid c0
       else \<exists>g. na_getgrnam (sy_accounts sy) (c_str (ia_group action)) 4096 = (0, Some g) \<and> ch_gid c1 = int g"
      using child_group_checked [OF c(1) assms(3) calculation(1)] by blast
    moreover obtain c2 where 2: "child_user os action c1 = Inr c2" "ch_gid c2 = ch_gid c1"
      "if ia_user action = [] then ch_uid c2 = ch_uid c1
       else \<exists>u. na_getpwnam (sy_accounts sy) (c_str (ia_user action)) 4096 = (0, Some u) \<and> ch_uid c2 = int u"
      using child_user_checked [OF c(2) assms(3) 1(2)] by blast
    ultimately have r: "runs_as sy action ch c2" by (simp add: runs_as_def assms(4) split: if_splits)
    have r': "runs_as sy action ch c" if "ch_gid c = ch_gid c2" "ch_uid c = ch_uid c2" for c
      using r that by (simp add: runs_as_def)
    have run: "run_cmd os ut action argument ch = rbind (child_redirect os c2) (child_exec os action argument)"
      using Inr 1(1) 2(1) by (simp add: run_cmd_def)
    let ?c3 = "c2\<lparr>ch_stdout_piped := True\<rparr>" and ?c4 = "c2\<lparr>ch_stdout_piped := True, ch_stderr_piped := True\<rparr>"
    from r' [of ?c3] r' [of ?c4] r' [of "?c4\<lparr>ch_exec := e\<rparr>" for e] r show ?thesis
      unfolding run by (auto simp: child_redirect_def child_exec_def Let_def)
  qed
  with check_command_found [OF c(3)] show ?thesis by blast
qed

text \<open>
  C2: A started research daemon keeps classifying, if its rules are ready (\<open>engine_ready\<close>: the patterns of the conditions are accepted by
  the regular expression library, no unless rule belongs to an activation group, no rule has priority 0 and the largest id; the loader
  checks none of this) and a match has the documented number of groups (\<open>rx_lawful\<close>). Then no message ends the classifying thread in any run.
\<close>

theorem started_research_stays_alive:
  assumes "research_start sy args = Starts (so, cfg, rules)" and "rx_lawful (sy_rx sy)"
    and "\<forall>d \<in> all_datas rules. engine_ready (sy_rx sy) d"
    and "re_rules env = rules" and "re_rx env = sy_rx sy" and "research_run env tr s"
  shows "g_processing s \<noteq> Thread_dead"
proof -
  note safe = loaded_rules_safe [OF started_rules_loaded [OF assms(1)] assms(3)]
  show ?thesis by (rule safe_rules_never_die [OF assms(6)]) (use safe assms(2) in \<open>simp_all add: assms(4,5)\<close>)
qed

text \<open>
  C4: A started research daemon can always be stopped. On the same conditions on the loaded rules, and provided that the system does
  not go on forever refusing the datagrams of a socket whose connections it accepts,
  it can go on from every state it can reach until \<open>daemon()\<close> returned, whatever happened before.
\<close>

theorem started_research_can_return:
  assumes "research_start sy args = Starts (so, cfg, rules)" and "rx_lawful (sy_rx sy)"
    and "\<forall>d \<in> all_datas rules. engine_ready (sy_rx sy) d"
    and "re_rules env = rules" and "re_rx env = sy_rx sy"
    and "datagram_net (re_net env)" and "refusals_end (re_net env)" and "research_run env tr s"
  shows "\<exists>ls s'. research_run env (tr @ ls) s' \<and> g_main s' = Main_returned"
proof -
  from loaded_rules_safe [OF started_rules_loaded [OF assms(1)] assms(3)] assms(2) have "safe_env env"
    unfolding safe_env_def assms(4,5) by simp
  from safe_can_return [OF this _ assms(8)] intervention_send_returns [OF assms(6,7)] show ?thesis by (simp add: rs_returns_def)
qed

section \<open>From log lines to classified messages\<close>

text \<open>An event without what the sender stamps on it.\<close>

definition unstamp :: "source_event \<Rightarrow> source_event" where
  "unstamp se = se\<lparr>se_time_send := 0, se_hostname := []\<rparr>"

lemma unstamp_stamp [simp]: "unstamp (se\<lparr>se_time_send := t, se_hostname := h\<rparr>) = unstamp se"
  by (simp add: unstamp_def)

lemma kill_stamp [simp]: "se_is_kill (se\<lparr>se_time_send := t, se_hostname := h\<rparr>) \<longleftrightarrow> se_is_kill se"
  by (simp add: se_is_kill_def)

text \<open>What the receiver makes of a message. cereal reads back the archive it wrote, and throws when an archive is cut. So a
  message arrives as it is when its archive is shorter than the buffer of 16384 bytes, and not at all when it is longer; one that fills the
  buffer arrives as whatever its archive means when the last byte is zero.\<close>

definition cereal_reads :: "(string \<Rightarrow> 'a option) \<Rightarrow> ('a \<Rightarrow> string) \<Rightarrow> 'a \<Rightarrow> bool" where
  "cereal_reads dec enc x =
     (dec (enc x) = Some x \<and> (16384 < length (enc x) \<longrightarrow> dec (take 16383 (enc x) @ [CHR 0x00]) = None))"

definition arriving :: "(string \<Rightarrow> 'a option) \<Rightarrow> ('a \<Rightarrow> string) \<Rightarrow> 'a \<Rightarrow> 'a option" where
  "arriving dec enc x =
     (if length (enc x) < 16384 then Some x
      else if length (enc x) = 16384 then dec (butlast (enc x) @ [CHR 0x00])
      else None)"

lemma received_arriving:
  assumes "cereal_reads dec enc x"
  shows "dec (recv_text (enc x)) = arriving dec enc x"
proof -
  have "recv_text (enc x) = take 16383 (enc x) @ [CHR 0x00]" if "16384 \<le> length (enc x)"
    using that by (simp add: recv_text_code nat_le_iff)
  then show ?thesis using assms by (auto simp: cereal_reads_def arriving_def recv_text_short butlast_conv_take)
qed

lemma arriving_short: "\<forall>x \<in> set xs. length (enc x) < 16384 \<Longrightarrow> List.map_filter (arriving dec enc) xs = xs"
  by (induction xs) (auto simp: List.map_filter_simps arriving_def)

lemma received_all:
  assumes "\<forall>x \<in> set xs. cereal_reads dec enc x"
  shows "List.map_filter (\<lambda>d. dec (recv_text d)) (map enc xs) = List.map_filter (arriving dec enc) xs"
  using assms by (induction xs) (auto simp: List.map_filter_simps received_arriving split: option.split)

lemma input_messages:
  "List.map_filter (input_message renv) ds = filter (\<lambda>e. \<not> se_is_kill e) (List.map_filter (\<lambda>d. re_decode renv (recv_text d)) ds)"
  by (induction ds) (auto simp: List.map_filter_simps input_message_def split: option.split)

lemma carried_stamped:
  assumes "list_all2 (event_carried Output_socket ser) ys es"
  obtains sent where "ys = map ser sent" "map unstamp sent = map unstamp es"
proof -
  have "\<exists>sent. ys = map ser sent \<and> map unstamp sent = map unstamp es"
    using assms
  proof (induction ys es rule: list_all2_induct)
    case (Cons y ys e es)
    from Cons.hyps(1) obtain t h where "y = ser (e\<lparr>se_time_send := t, se_hostname := h\<rparr>)" by (auto simp: event_carried_def)
    moreover from Cons.IH obtain sent where "ys = map ser sent" "map unstamp sent = map unstamp es" by blast
    ultimately show ?case by (intro exI [of _ "e\<lparr>se_time_send := t, se_hostname := h\<rparr> # sent"]) simp
  qed simp
  with that show thesis by blast
qed

text \<open>
  C3: From log line to classification. Logscan sends over a datagram socket and returned; then it sent, stamped, what it
  had put into its queue before its closing mark, except what is left in its local queue. If the research daemon received these
  datagrams, in whatever order, and returned without an error, the messages it classified are exactly its own two and what
  arrived of them (\<open>arriving\<close>: an event whose archive is shorter than 16384 bytes as it was sent, a longer one not at all), but for closing marks.
  So no line is lost or classified twice on the way unless its archive does not fit the buffer.
\<close>

theorem lines_are_classified:
  assumes "logscan_run lenv s0 ltr ls" and "lg_main ls = Lm_returned" and "datagram_net (le_net lenv)" and "cereal_ok (le_ser lenv)"
    and "lc_output_kind (le_cfg lenv) = Output_socket"
    and "research_run renv tr s" and "g_main s = Main_returned" and "g_errors s = []"
    and "\<forall>se. le_ser lenv se \<in> set (sink_out (lg_sink ls)) \<longrightarrow> cereal_reads (re_decode renv) (le_ser lenv) se"
  shows "\<exists>before late sent. ltr = before @ logscan_kill # late \<and> no_mark before
     \<and> sink_out (lg_sink ls) = sink_out (lg_sink s0) @ map (le_ser lenv) sent
     \<and> mset (map unstamp sent) + mset (map unstamp (rt_local (lg_resend ls))) = mset (map unstamp before)
     \<and> (\<forall>start. mset (received tr) = {#start, kill_event#} + mset (List.map_filter (input_message renv) (map (le_ser lenv) sent)) \<longrightarrow>
          mset (classified tr) = {#start, kill_event#}
            + mset (filter (\<lambda>e. \<not> se_is_kill e) (List.map_filter (arriving (re_decode renv) (le_ser lenv)) sent)))"
proof -
  from run_accounts [OF assms(1-4)] assms(5) obtain before late new es where
    b: "ltr = before @ logscan_kill # late" "no_mark before" "sink_out (lg_sink ls) = sink_out (lg_sink s0) @ new"
    and c: "list_all2 (event_carried Output_socket (le_ser lenv)) new es" "mset es + mset (rt_local (lg_resend ls)) = mset before"
    by auto
  obtain sent where st: "new = map (le_ser lenv) sent" "map unstamp sent = map unstamp es" by (rule carried_stamped [OF c(1)])
  from c(2) have m: "mset (map unstamp sent) + mset (map unstamp (rt_local (lg_resend ls))) = mset (map unstamp before)"
    unfolding st(2) by (simp flip: c(2))
  have "classified tr = received tr" using run_complete [OF assms(6-8)] by blast
  moreover have "\<forall>se \<in> set sent. cereal_reads (re_decode renv) (le_ser lenv) se" using assms(9) by (auto simp: b(3) st(1))
  from received_all [OF this] have "List.map_filter (input_message renv) (map (le_ser lenv) sent)
      = filter (\<lambda>e. \<not> se_is_kill e) (List.map_filter (arriving (re_decode renv) (le_ser lenv)) sent)"
    by (simp add: input_messages)
  ultimately have "\<forall>start. mset (received tr) = {#start, kill_event#} + mset (List.map_filter (input_message renv) (map (le_ser lenv) sent)) \<longrightarrow>
          mset (classified tr) = {#start, kill_event#}
            + mset (filter (\<lambda>e. \<not> se_is_kill e) (List.map_filter (arriving (re_decode renv) (le_ser lenv)) sent))"
    by simp
  with m b show ?thesis unfolding st(1) by blast
qed

section \<open>From alerts to children\<close>

lemma mset_map_filter: "mset xs = mset ys \<Longrightarrow> mset (List.map_filter f xs) = mset (List.map_filter f ys)"
proof -
  have "mset (List.map_filter f zs) = image_mset (the \<circ> f) (filter_mset (\<lambda>x. f x \<noteq> None) (mset zs))" for zs
    by (simp add: List.map_filter_def)
  then show "mset xs = mset ys \<Longrightarrow> ?thesis" by simp
qed

lemma mset_admitted: "mset xs = mset ys \<Longrightarrow> mset (admitted env xs) = mset (admitted env ys)"
  unfolding admitted_def by (rule mset_map_filter)

lemma map_filter_append [simp]: "List.map_filter f (xs @ ys) = List.map_filter f xs @ List.map_filter f ys"
  by (simp add: List.map_filter_def)

text \<open>The commands the intervention daemon reads from datagrams.\<close>

definition read_cmds :: "intervention_env \<Rightarrow> string list \<Rightarrow> intervention_cmd list" where
  "read_cmds ienv = List.map_filter (\<lambda>d. ie_decode ienv (recv_text d))"

text \<open>What arrives of the commands sent.\<close>

definition arrived_cmds :: "research_env \<Rightarrow> intervention_env \<Rightarrow> intervention_cmd list \<Rightarrow> intervention_cmd list" where
  "arrived_cmds env ienv = List.map_filter (arriving (ie_decode ienv) (re_encode env))"

text \<open>What is in order, though something is missing, or in another order.\<close>

lemma mset_admitted_mono: "mset xs \<subseteq># mset ys \<Longrightarrow> mset (admitted env xs) \<subseteq># mset (admitted env ys)"
proof -
  assume "mset xs \<subseteq># mset ys"
  then obtain zs where "mset (xs @ zs) = mset ys" by (metis ex_mset mset_append mset_subset_eq_exists_conv)
  from mset_admitted [OF this, of env] show ?thesis by (metis label_simps(9) mset_append mset_subset_eq_add_left)
qed

lemma launches_below: "intervention_run ienv itr is \<Longrightarrow> mset (launches itr) \<subseteq># mset (admitted ienv (got_cmds itr))"
proof -
  assume "intervention_run ienv itr is"
  then have b: "books ienv itr is" using run_invariants by blast
  have "mset (butlast xs) \<subseteq># mset xs" for xs :: "(intervention_action \<times> string) list"
    by (cases xs rule: rev_cases) simp_all
  with b have "mset (launches itr) \<subseteq># mset (admitted ienv (judged_cmds itr))" by (auto simp: books_def split: if_splits)
  also have "\<dots> \<subseteq># mset (admitted ienv (got_cmds itr))"
    by (rule mset_admitted_mono) (use b in \<open>simp add: books_def\<close>)
  finally show ?thesis .
qed

text \<open>
  C1: From alert to child. The research daemon sends interventions over a datagram socket and returned without an
  error; the new datagrams are as many as the interventions requested and not left in the local queue. If the intervention daemon,
  which reads what the other wrote, received some of them, in whatever
  order, each child it ever started is for an admitted command that arrived of those the alerts asked for, and no request has two; and if
  it received all of them and returned without an error, the children started, together with those the
  commands left in the local queue would have started, are exactly those of the requests that arrive and are admitted. A command arrives as it
  is when its archive is shorter than the receive buffer of 16384 bytes, not at all when it is longer (\<open>arriving\<close>).
\<close>

theorem alerts_start_children:
  assumes "research_run env tr s" and "g_main s = Main_returned" and "g_errors s = []"
    and "datagram_net (re_net env)" and "cereal_ok (re_encode env)" and "rc_intervention_kind (re_cfg env) = Output_socket"
    and "intervention_run ienv itr is"
    and "\<forall>i \<in> set (requested tr). cereal_reads (ie_decode ienv) (re_encode env) (to_cmd i)"
  shows "\<exists>k old new. g_sink s = Some k \<and> sink_out k = old @ new \<and> length new + length (rt_local (g_resend s)) = length (requested tr)
     \<and> (mset (got_cmds itr) \<subseteq># mset (read_cmds ienv new) \<longrightarrow>
          mset (launches itr) \<subseteq># mset (admitted ienv (arrived_cmds env ienv (map to_cmd (requested tr)))))
     \<and> (mset (got_cmds itr) = mset (read_cmds ienv new) \<and> iv_main is = Main_returned \<and> iv_errors is = [] \<longrightarrow>
          mset (launches itr) + mset (admitted ienv (arrived_cmds env ienv (rt_local (g_resend s))))
            = mset (admitted ienv (arrived_cmds env ienv (map to_cmd (requested tr)))))"
proof -
  obtain k k0 cmds where k: "g_sink s = Some k" "sink_out k = sink_out k0 @ map (cmd_text env) cmds"
    and m: "mset cmds + mset (rt_local (g_resend s)) = mset (map to_cmd (requested tr))"
    by (rule requests_accounted [OF assms(1-5)])
  have ct: "cmd_text env = re_encode env" using assms(6) by (simp add: cmd_text_def)
  from m have "set cmds \<subseteq> set (map to_cmd (requested tr))" by (metis Un_upper1 set_mset_mset set_mset_union)
  with assms(8) have d: "read_cmds ienv (map (cmd_text env) cmds) = arrived_cmds env ienv cmds"
    unfolding read_cmds_def ct arrived_cmds_def by (intro received_all) auto
  from m have n: "mset (cmds @ rt_local (g_resend s)) = mset (map to_cmd (requested tr))" by simp
  then have len: "length (map (cmd_text env) cmds) + length (rt_local (g_resend s)) = length (requested tr)"
    by (metis length_append length_map size_mset)
  from mset_map_filter [OF n] have e: "mset (arrived_cmds env ienv cmds @ arrived_cmds env ienv (rt_local (g_resend s))) = mset (arrived_cmds env ienv (map to_cmd (requested tr)))"
    by (simp add: arrived_cmds_def)
  have sub: "mset (launches itr) \<subseteq># mset (admitted ienv (arrived_cmds env ienv (map to_cmd (requested tr))))"
    if "mset (got_cmds itr) \<subseteq># mset (read_cmds ienv (map (cmd_text env) cmds))"
  proof -
    from that d e have "mset (got_cmds itr) \<subseteq># mset (arrived_cmds env ienv (map to_cmd (requested tr)))"
      by (metis mset_append mset_subset_eq_add_left subset_mset.order_trans)
    from mset_admitted_mono [OF this, of ienv] launches_below [OF assms(7)] show ?thesis
      by (rule subset_mset.order_trans [rotated])
  qed
  have all: "mset (launches itr) + mset (admitted ienv (arrived_cmds env ienv (rt_local (g_resend s)))) = mset (admitted ienv (arrived_cmds env ienv (map to_cmd (requested tr))))"
    if "mset (got_cmds itr) = mset (read_cmds ienv (map (cmd_text env) cmds))" "iv_main is = Main_returned" "iv_errors is = []"
  proof -
    from that(1) d e have "mset (got_cmds itr @ arrived_cmds env ienv (rt_local (g_resend s))) = mset (arrived_cmds env ienv (map to_cmd (requested tr)))" by simp
    from mset_admitted [OF this, of ienv] returned_books [OF assms(7) that(2,3)] show ?thesis by simp
  qed
  from k len sub all show ?thesis by blast
qed

section \<open>Witnesses\<close>

text \<open>An action with a user.\<close>

definition web_intervention :: string where
  "web_intervention = ''intervention{action b{command=d'' @ [newline] @ ''user=u}}''"

definition web_action :: intervention_action where
  "web_action = \<lparr>ia_name = ''b'', ia_command = ''d'', ia_user = ''u'', ia_group = [], ia_regex = [], ia_whitelist = [],
     ia_command_timeout = 30\<rparr>"

definition web_system :: system where
  "web_system = demo_system\<lparr>sy_files := (sy_files demo_system)\<lparr>fs_text := (\<lambda>p. Some web_intervention)\<rparr>\<rparr>"

definition web_os :: child_os where
  "web_os = demo_os\<lparr>co_getgrnam := (\<lambda>n. Inr (Some 4)), co_getpwnam := (\<lambda>n. Inr (Some 33))\<rparr>"

lemma web_intervention_parsed: "config_parse web_intervention =
   Inr (Config_group ''global'' [] (Position 1 0) []
     [Config_group ''intervention'' [] (Position 1 1) []
       [Config_group ''action'' ''b'' (Position 1 14)
         [(''command'', \<lparr>co_key = ''command'', co_options = [''d''], co_pos = Position 1 23\<rparr>),
          (''user'', \<lparr>co_key = ''user'', co_options = [''u''], co_pos = Position 2 1\<rparr>)] []]])"
  by code_simp

lemma web_starts:
  "intervention_start web_system no_arguments
     = Starts ((default_options ''/etc/ctguard/intervention.conf'')\<lparr>so_foreground := True\<rparr>,
         default_intervention_config\<lparr>ic_actions := [web_action]\<rparr>)"
proof -
  have c: "intervention_parse_config literal_rx id (Some web_intervention) = Inr (default_intervention_config\<lparr>ic_actions := [web_action]\<rparr>)"
    by (simp add: intervention_parse_config_def read_file_def web_intervention_parsed intervention_top_def literal_rx_def
        intervention_subgroup_def action_option_def one_argument_def default_intervention_config_def web_action_def)
  have p: "check_perms web_system path = Inr ()" for path
    using demo_perms [of path] by (simp add: web_system_def check_perms_def)
  have o: "read_options common_switch ''/etc/ctguard/intervention.conf'' v h no_arguments
      = Starts ((default_options ''/etc/ctguard/intervention.conf'')\<lparr>so_foreground := True\<rparr>)" for v h
    by (simp add: read_options_def no_arguments_def common_switch_def)
  have s: "sy_rx web_system = literal_rx" "sy_ord web_system = id" "file_text web_system path = Some web_intervention"
    "sy_accounts web_system = demo_accounts" "fs_stat (sy_files web_system) path = Inr root_file" for path
    by (simp_all add: web_system_def demo_system_def file_text_def)
  have a: "check_group web_system web_action = Starts ()" "check_user web_system web_action = Starts ()"
    "check_command web_system web_action = Starts ()"
    by (simp_all add: check_group_def check_user_def check_command_def s demo_accounts_def)
  have l: "open_log web_system (so\<lparr>so_foreground := True\<rparr>) path = Starts ()" for so path by (simp add: open_log_def)
  show ?thesis
    by (simp add: intervention_start_def o load_config_def or_refuse_def p s c a default_options_def open_log_def
        default_intervention_config_def)
qed

lemma web_same_system: "same_system web_system web_os"
  by (simp add: same_system_def web_system_def web_os_def demo_system_def demo_accounts_def demo_os_def)

theorem started_actions_run_witness:
  "\<exists>ch'. run_cmd web_os False web_action ''9'' root_process = Inr ch' \<and> ch_uid ch' = 33 \<and> ch_exec ch' = Some (''d'', [''d'', ''9''])"
proof -
  have a: "web_action \<in> set (ic_actions (default_intervention_config\<lparr>ic_actions := [web_action]\<rparr>))" by simp
  have r: "ch_uid root_process = 0" by (simp add: root_process_def)
  have e: "sy_accounts web_system = demo_accounts" by (simp add: web_system_def demo_system_def)
  have os: "co_chdir web_os c" "co_dup_stdout web_os c" "co_dup_stderr web_os c" "co_execv web_os c p argv" for c p argv
    by (simp_all add: web_os_def demo_os_def)
  have c: "c_str (ia_command web_action) = ''d''" "c_str ''9'' = ''9''" "ia_user web_action = ''u''" by (simp_all add: web_action_def c_str_def)
  from started_actions_run [OF web_starts a web_same_system r, of False "''9''"] os c obtain ch' where
    "run_cmd web_os False web_action ''9'' root_process = Inr ch'" "runs_as web_system web_action root_process ch'"
    "ch_exec ch' = Some (''d'', [''d'', ''9''])"
    by (cases "run_cmd web_os False web_action ''9'' root_process") auto
  then show ?thesis by (auto simp: runs_as_def c(3) e demo_accounts_def)
qed

text \<open>The daemon that was started in \<open>demo_starts\<close> classifies a message.\<close>

definition started_env :: research_env where
  "started_env = (demo_env [])\<lparr>re_rules := demo_loaded\<rparr>"

theorem started_research_stays_alive_witness:
  "\<exists>tr s. research_run started_env tr s \<and> length (classified tr) = 1 \<and> g_processing s \<noteq> Thread_dead"
proof -
  have "map_option (\<lambda>(tr, s). length (classified tr)) (research_execs started_env [Do_start 0 ''h'', Do_process 1] ([], research_init started_env))
      = Some 1" by code_simp
  then obtain tr s where e: "research_execs started_env [Do_start 0 ''h'', Do_process 1] ([], research_init started_env) = Some (tr, s)"
    "length (classified tr) = 1" by auto
  have r: "research_run started_env tr s" by (rule research_execs_run [OF e(1) run_start])
  have d: "rx_lawful (sy_rx demo_system)" "\<forall>d \<in> all_datas demo_loaded. engine_ready (sy_rx demo_system) d"
    using literal_rx_lawful demo_loaded_ready by (simp_all add: demo_system_def)
  have v: "re_rules started_env = demo_loaded" "re_rx started_env = sy_rx demo_system"
    by (simp_all add: started_env_def demo_env_def demo_system_def)
  from started_research_stays_alive [OF demo_starts d v r] r e(2) show ?thesis by blast
qed

text \<open>The receiver of what \<open>block_env\<close> sends.\<close>

definition ban_env :: intervention_env where
  "ban_env =
     \<lparr>ie_cfg = default_intervention_config\<lparr>ic_actions := [demo_action]\<rparr>, ie_rx = whole_rx, ie_unit_test = False,
      ie_decode = demo_decode, ie_parent = root_process\<rparr>"

definition ban_choices :: "intervention_choice list" where
  "ban_choices =
     [Choose_open True True True, Choose_input Recv_error, Choose_input (Recv_data ''block|ctguard-research started''),
      Choose_take good_launch, Choose_wake, Choose_attend good_attend, Choose_input Recv_error, Choose_input Recv_error,
      Choose_input Recv_error, Choose_join, Choose_take good_launch, Choose_join]"

lemma ban_ends:
  "map_option (\<lambda>(tr, s). (iv_main s, iv_errors s, got_cmds tr)) (intervention_execs ban_env ban_choices ([], intervention_init))
   = Some (Main_returned, [], [\<lparr>ic_name = ''block'', ic_argument = ''ctguard-research started''\<rparr>])"
  by code_simp

theorem alerts_start_children_witness:
  "\<exists>tr s itr is. research_run block_env tr s \<and> intervention_run ban_env itr is
     \<and> launches itr = [(demo_action, ''ctguard-research started'')]"
proof -
  let ?c = "\<lparr>ic_name = ''block'', ic_argument = ''ctguard-research started''\<rparr>"
  obtain tr s where r: "research_run block_env tr s" "g_main s = Main_returned" "g_errors s = []"
    and q: "map to_cmd (requested tr) = [?c]" and l: "rt_local (g_resend s) = []"
    and out: "map_option sink_out (g_sink s) = Some [''old'', ''block|ctguard-research started'']"
    by (rule block_run)
  from ban_ends obtain itr "is" where e: "intervention_execs ban_env ban_choices ([], intervention_init) = Some (itr, is)"
    "iv_main is = Main_returned" "iv_errors is = []" "got_cmds itr = [?c]" by auto
  have i: "intervention_run ban_env itr is" by (rule intervention_execs_run [OF e(1) iv_start])
  have k: "rc_intervention_kind (re_cfg block_env) = Output_socket" "re_encode block_env = demo_encode" "ie_decode ban_env = demo_decode"
    by (simp_all add: block_env_def ban_env_def)
  have sh: "length (demo_encode ?c) < 16384" by (simp add: demo_encode_def)
  then have dec: "demo_decode (recv_text (demo_encode ?c)) = Some ?c" and cr: "cereal_reads demo_decode demo_encode ?c"
    by (simp_all add: recv_text_short cereal_reads_def demo_decode_def demo_encode_def)
  from q have "\<forall>i \<in> set (requested tr). to_cmd i = ?c" by auto
  with cr k have d: "\<forall>i \<in> set (requested tr). cereal_reads (ie_decode ban_env) (re_encode block_env) (to_cmd i)" by simp
  have ar: "arrived_cmds block_env ban_env [?c] = [?c]"
    using sh by (simp add: arrived_cmds_def List.map_filter_simps arriving_def k)
  from alerts_start_children [OF r block_env_net k(1) i d] obtain kk old new where
    o: "g_sink s = Some kk" "sink_out kk = old @ new" "length new + length (rt_local (g_resend s)) = length (requested tr)"
    and c: "mset (got_cmds itr) = mset (read_cmds ban_env new) \<Longrightarrow>
      mset (launches itr) + mset (admitted ban_env (arrived_cmds block_env ban_env (rt_local (g_resend s))))
      = mset (admitted ban_env (arrived_cmds block_env ban_env (map to_cmd (requested tr))))"
    using e(2,3) by blast
  have "length (requested tr) = 1" using arg_cong [OF q, of length] by simp
  with o(3) l obtain d where "new = [d]" by (auto simp: length_Suc_conv)
  with o(1,2) out have "new = [demo_encode ?c]" by (auto simp: demo_encode_def)
  then have "read_cmds ban_env new = [?c]" using dec k(3) by (simp add: read_cmds_def List.map_filter_simps)
  moreover have "admitted ban_env [?c] = [(demo_action, ''ctguard-research started'')]" by code_simp
  ultimately have "launches itr = [(demo_action, ''ctguard-research started'')]" using c e(4) q l ar by (simp add: arrived_cmds_def List.map_filter_simps)
  with r(1) i show ?thesis by blast
qed

theorem started_research_can_return_witness:
  "\<exists>tr s. research_run (started_env\<lparr>re_net := ready_net\<rparr>) tr s \<and> g_main s = Main_returned"
proof -
  let ?env = "started_env\<lparr>re_net := ready_net\<rparr>"
  have d: "rx_lawful (sy_rx demo_system)" "\<forall>d \<in> all_datas demo_loaded. engine_ready (sy_rx demo_system) d"
    using literal_rx_lawful demo_loaded_ready by (simp_all add: demo_system_def)
  have v: "re_rules ?env = demo_loaded" "re_rx ?env = sy_rx demo_system"
    by (simp_all add: started_env_def demo_env_def demo_system_def)
  have "datagram_net (re_net ?env)" "refusals_end (re_net ?env)" by simp_all
  from started_research_can_return [OF demo_starts d v this run_start] show ?thesis by auto
qed

text \<open>An archive of events: every text with a mark before each character and a stop at its end.\<close>

definition put_text :: "string \<Rightarrow> string" where
  "put_text s = concat (map (\<lambda>c. [CHR ''x'', c]) s) @ [CHR ''.'']"

fun get_text :: "string \<Rightarrow> (string \<times> string) option" where
  "get_text (x # y # rest) =
     (if x = CHR ''.'' then Some ([], y # rest) else map_option (\<lambda>(s, rest). (y # s, rest)) (get_text rest))"
| "get_text [x] = Some ([], [])"
| "get_text [] = None"

lemma get_put_text: "get_text (put_text s @ rest) = Some (s, rest)"
proof (induction s)
  case Nil
  show ?case by (cases rest) (simp_all add: put_text_def)
qed (simp add: put_text_def)

definition put_int :: "int \<Rightarrow> string" where
  "put_int i = put_text ((if i < 0 then CHR ''-'' else CHR ''+'') # replicate (nat \<bar>i\<bar>) CHR ''1'')"

definition get_int :: "string \<Rightarrow> int" where
  "get_int s = (case s of [] \<Rightarrow> 0 | c # cs \<Rightarrow> if c = CHR ''-'' then - int (length cs) else int (length cs))"

definition demo_archive :: "source_event \<Rightarrow> string" where
  "demo_archive se =
     put_text (se_hostname se) @ put_text (se_source_program se) @ put_text (se_source_domain se) @ put_text (se_message se)
     @ put_text (if se_control_message se then ''t'' else []) @ put_int (se_time_scanned se) @ put_int (se_time_send se)"

definition demo_unarchive :: "string \<Rightarrow> source_event option" where
  "demo_unarchive s =
     Option.bind (get_text s) (\<lambda>(host, s). Option.bind (get_text s) (\<lambda>(prog, s). Option.bind (get_text s) (\<lambda>(dom, s).
     Option.bind (get_text s) (\<lambda>(msg, s). Option.bind (get_text s) (\<lambda>(ctl, s). Option.bind (get_text s) (\<lambda>(t1, s).
     Option.bind (get_text s) (\<lambda>(t2, s).
       Some \<lparr>se_hostname = host, se_source_program = prog, se_source_domain = dom, se_message = msg, se_control_message = ctl \<noteq> [],
         se_time_scanned = get_int t1, se_time_send = get_int t2\<rparr>)))))))"

lemma unarchive: "demo_unarchive (demo_archive se) = Some se"
proof -
  have i: "get_int ((if i < 0 then CHR ''-'' else CHR ''+'') # replicate (nat \<bar>i\<bar>) CHR ''1'') = i" for i by (simp add: get_int_def)
  have e: "get_text (put_text s) = Some (s, [])" for s using get_put_text [of s "[]"] by simp
  show ?thesis by (simp add: demo_unarchive_def demo_archive_def put_int_def get_put_text e i)
qed

text \<open>Logscan finds the line "b" and sends it; the research daemon receives what was sent.\<close>

definition line_env :: logscan_env where
  "line_env = late_env\<lparr>le_cfg := (le_cfg late_env)\<lparr>lc_output_kind := Output_socket, lc_output_path := ''r''\<rparr>, le_ser := demo_archive\<rparr>"

definition line_start :: logscan_state where
  "line_start = late_start\<lparr>lg_sink := (Socket_sink \<lparr>us_path = ''r'', us_socket = 9\<rparr> [] True, \<lparr>ns_tick = 2, ns_wire = [], ns_closed = []\<rparr>)\<rparr>"

definition line_choices :: "logscan_choice list" where
  "line_choices =
     [Cg_begin 0 [plain_view 7 (demo_text [])], Cg_systemd_begin 0 True True True, Cg_start 0, Cg_check True True,
      Cg_scan 1 [plain_view 7 (demo_text (''b'' @ [newline]))] True True, Cg_push, Cg_wake 1, Cg_stop, Cg_kill,
      Cg_check True True, Cg_forward, Cg_forward, Cg_forward, Cg_forward, Cg_join, Cg_join, Cg_join]"

definition sent_events :: "source_event list" where
  "sent_events =
     map (\<lambda>(dom, ctl, msg). \<lparr>se_hostname = ''unittest'', se_source_program = ''ctguard-logscan'', se_source_domain = dom, se_message = msg,
         se_control_message = ctl, se_time_scanned = 0, se_time_send = 1\<rparr>)
       [(''daemon'', True, ''ctguard-logscan started''), (''f'', False, ''b''), (''daemon'', True, ''ctguard-logscan shutting down...'')]"

lemma line_begins: "logscan_run line_env line_start [] line_start"
  by (rule lg_start [where opened = True and host = "[]" and saved = None and ns = "\<lparr>ns_tick = 0, ns_wire = [], ns_closed = []\<rparr>"])
    (simp add: logscan_begin_def late_start_def line_start_def line_env_def late_env_def create_sink_def us_create_def us_connect_def
      ready_net_def tick_def sun_path_max_def Let_def)

lemma line_sent:
  "map_option (\<lambda>(tr, s). (lg_main s, rt_local (lg_resend s), sink_out (lg_sink s) = map demo_archive sent_events,
       takeWhile (\<lambda>e. \<not> se_is_kill e) tr = map (\<lambda>se. se\<lparr>se_time_send := 0, se_hostname := []\<rparr>) sent_events))
     (logscan_execs line_env line_choices ([], line_start)) = Some (Lm_returned, [], True, True)"
  by code_simp

definition line_renv :: research_env where
  "line_renv = (demo_env [alarm_rule])\<lparr>re_decode := demo_unarchive\<rparr>"

definition line_schedule :: "choice list" where
  "line_schedule =
     [Do_start 0 ''h'', Do_open True True, Do_input Recv_error]
     @ map (\<lambda>se. Do_input (Recv_data (demo_archive se))) sent_events
     @ [Do_input Recv_error, Do_wake, Do_input Recv_error, Do_input Recv_error, Do_process 1, Do_process 1, Do_process 1, Do_process 1,
      Do_process 3, Do_state_stop, Do_output 4, Do_output 4, Do_output 4, Do_output 4, Do_output 4,
      Do_intervention_start True \<lparr>ns_tick = 0, ns_wire = [], ns_closed = []\<rparr>,
      Do_intervention, Do_join, Do_join, Do_join, Do_join, Do_join, Do_join, Do_return]"

lemma line_received:
  "map_option (\<lambda>(tr, s). (g_main s, g_errors s, received tr = started_event 0 ''h'' # sent_events @ [kill_event]))
     (research_execs line_renv line_schedule ([], research_init line_renv)) = Some (Main_returned, [], True)"
  by code_simp

theorem lines_are_classified_witness:
  "\<exists>ltr ls tr s. logscan_run line_env line_start ltr ls \<and> research_run line_renv tr s \<and> ''b'' \<in> set (map se_message (classified tr))"
proof -
  from line_sent obtain ltr ls where e: "logscan_execs line_env line_choices ([], line_start) = Some (ltr, ls)" "lg_main ls = Lm_returned"
    and l: "rt_local (lg_resend ls) = []" and o: "sink_out (lg_sink ls) = map demo_archive sent_events"
    and b: "takeWhile (\<lambda>e. \<not> se_is_kill e) ltr = map (\<lambda>se. se\<lparr>se_time_send := 0, se_hostname := []\<rparr>) sent_events" by auto
  from line_received obtain tr s where r: "research_execs line_renv line_schedule ([], research_init line_renv) = Some (tr, s)"
    "g_main s = Main_returned" "g_errors s = []" and rc: "received tr = started_event 0 ''h'' # sent_events @ [kill_event]" by auto
  note runs = logscan_execs_run [OF e(1) line_begins] research_execs_run [OF r(1) run_start]
  have short: "demo_unarchive (recv_text (demo_archive se)) = Some se" if "se \<in> set sent_events" for se
  proof -
    have "\<forall>se \<in> set sent_events. length (demo_archive se) < 16384" by code_simp
    with that show ?thesis by (simp add: recv_text_short unarchive)
  qed
  have inj: "se = se'" if "demo_archive se = demo_archive se'" for se se' using unarchive that by (metis option.inject)
  have v: "le_ser line_env = demo_archive" "re_decode line_renv = demo_unarchive" "lc_output_kind (le_cfg line_env) = Output_socket"
    "sink_out (lg_sink line_start) = []"
    by (simp_all add: line_env_def line_renv_def line_start_def sink_out_def)
  have n: "datagram_net (le_net line_env)" "cereal_ok (le_ser line_env)"
    using ready_datagram by (simp_all add: line_env_def late_env_def cereal_ok_def demo_archive_def put_text_def)
  have len: "length (demo_archive se) < 16384" if "se \<in> set sent_events" for se
  proof -
    have "\<forall>se \<in> set sent_events. length (demo_archive se) < 16384" by code_simp
    with that show ?thesis by blast
  qed
  have "cereal_reads demo_unarchive demo_archive se" if "se \<in> set sent_events" for se
    using len [OF that] by (simp add: cereal_reads_def unarchive)
  then have "\<forall>se. le_ser line_env se \<in> set (sink_out (lg_sink ls)) \<longrightarrow> cereal_reads (re_decode line_renv) (le_ser line_env) se"
    unfolding v o using inj by auto
  from lines_are_classified [OF runs(1) e(2) n v(3) runs(2) r(2,3) this] obtain before late sent where
    t: "ltr = before @ logscan_kill # late" "no_mark before" "sink_out (lg_sink ls) = sink_out (lg_sink line_start) @ map (le_ser line_env) sent"
    and c: "\<And>start. mset (received tr) = {#start, kill_event#} + mset (List.map_filter (input_message line_renv) (map (le_ser line_env) sent)) \<Longrightarrow>
          mset (classified tr) = {#start, kill_event#}
            + mset (filter (\<lambda>e. \<not> se_is_kill e) (List.map_filter (arriving (re_decode line_renv) (le_ser line_env)) sent))"
    by blast
  from t(3) o v have "map demo_archive sent = map demo_archive sent_events" by simp
  then have sent: "sent = sent_events" using inj by (metis map_injective inj_onI inj_def)
  have k: "\<forall>se \<in> set sent_events. \<not> se_is_kill se" by code_simp
  then have "List.map_filter (input_message line_renv) (map demo_archive ses) = ses" if "set ses \<subseteq> set sent_events" for ses
    using that short by (induction ses) (auto simp: List.map_filter_simps input_message_def v)
  from this [OF subset_refl] have i: "List.map_filter (input_message line_renv) (map (le_ser line_env) sent) = sent_events" by (simp add: v sent)
  have "List.map_filter (arriving (re_decode line_renv) (le_ser line_env)) sent = sent_events"
    unfolding v sent by (rule arriving_short) (use len in blast)
  moreover have "filter (\<lambda>e. \<not> se_is_kill e) sent_events = sent_events" using k by simp
  ultimately have "mset (classified tr) = {#started_event 0 ''h'', kill_event#} + mset sent_events"
    using c [of "started_event 0 ''h''"] rc i by simp
  then have "set sent_events \<subseteq> set (classified tr)" by (metis mset_subset_eq_add_right set_mset_mono set_mset_mset)
  moreover have "''b'' \<in> set (map se_message sent_events)" by code_simp
  ultimately have "''b'' \<in> set (map se_message (classified tr))" by auto
  with runs show ?thesis by blast
qed

end
